(* ===== verification/SC_Prelude.thy ===== *)
theory SC_Prelude
  imports Main "HOL-Library.Word" "HOL-Library.Monad_Syntax"
begin

section \<open>Prelude: machine types, collections of facts, shared list lemmas\<close>

text \<open>
  Names of the machine integers of the code, the collections of facts the component theories
  extend, the abstract insertion-ordered set that \<open>hashset.h\<close> implements, and lemmas on
  lists and on the option monad that several components share.

  A model function returns \<open>None\<close> where the code has no defined result: a failed
  \<open>ASSERT\<close>, a dereferenced null pointer, an array read out of range, or a loop that does not
  end. Every such branch is written out.
\<close>

type_synonym uint32 = "32 word"
type_synonym uint64 = "64 word"

named_theorems eval_simps "semantics of constraints"
named_theorems cg_simps "frame facts of the constraint generator"
named_theorems exec_simps "frame facts of the recorded execution"

subsection \<open>Insertion-ordered sets\<close>

text \<open>
  What a \<open>HashSet\<close> of \<open>hashset.h\<close> is for its clients: a duplicate-free list in the order
  of insertion, which is the order its iterators follow. Theory \<open>HashSets\<close> proves that the
  table and linked list of the code implement it.
\<close>

definition oset_add :: "'a \<Rightarrow> 'a list \<Rightarrow> 'a list" where
  "oset_add x xs = (if x \<in> set xs then xs else xs @ [x])"

definition oset_adds :: "'a list \<Rightarrow> 'a list \<Rightarrow> 'a list" where
  "oset_adds ys xs = fold oset_add ys xs"

lemma set_oset_add [simp]: "set (oset_add x xs) = insert x (set xs)"
  by (auto simp: oset_add_def)

lemma distinct_oset_add [simp]: "distinct (oset_add x xs) = distinct xs"
  by (auto simp: oset_add_def)

lemma oset_add_idem [simp]: "oset_add x (oset_add x xs) = oset_add x xs"
  by (auto simp: oset_add_def)

lemma oset_add_nonempty [simp]: "oset_add x xs \<noteq> []"
  by (auto simp: oset_add_def)

lemma set_oset_adds [simp]: "set (oset_adds ys xs) = set ys \<union> set xs"
  unfolding oset_adds_def by (induction ys arbitrary: xs) auto

lemma distinct_oset_adds [simp]: "distinct (oset_adds ys xs) = distinct xs"
  unfolding oset_adds_def by (induction ys arbitrary: xs) auto

subsection \<open>Index of an element\<close>

text \<open>The position an iterator has reached when it first meets \<open>x\<close>.\<close>

fun index_of :: "'a \<Rightarrow> 'a list \<Rightarrow> nat option" where
  "index_of x [] = None"
| "index_of x (y # ys) = (if y = x then Some 0 else map_option Suc (index_of x ys))"

lemma index_of_Some_nth: "index_of x xs = Some i \<Longrightarrow> i < length xs \<and> xs ! i = x"
  by (induction xs arbitrary: i) (auto split: if_splits)

lemma index_of_None_iff: "index_of x xs = None \<longleftrightarrow> x \<notin> set xs"
  by (induction xs) auto

lemma index_of_nth_distinct: "distinct xs \<Longrightarrow> i < length xs \<Longrightarrow> index_of (xs ! i) xs = Some i"
proof (induction xs arbitrary: i)
  case Nil
  then show ?case by simp
next
  case (Cons y ys)
  then show ?case by (cases i) (auto simp: nth_Cons')
qed

lemma index_of_mem: "x \<in> set xs \<Longrightarrow> \<exists>i. index_of x xs = Some i"
  using index_of_None_iff [of x xs] by (cases "index_of x xs") auto

subsection \<open>Reads and writes by index\<close>

definition nth_opt :: "'a list \<Rightarrow> nat \<Rightarrow> 'a option" where
  "nth_opt xs i = (if i < length xs then Some (xs ! i) else None)"

lemma nth_opt_eq_Some [simp]: "nth_opt xs i = Some x \<longleftrightarrow> i < length xs \<and> xs ! i = x"
  by (auto simp: nth_opt_def)

lemma nth_opt_in_range: "i < length xs \<Longrightarrow> nth_opt xs i = Some (xs ! i)"
  by simp

text \<open>\<open>resize\<close> of a vector to at least \<open>n\<close> entries, new entries set to \<open>d\<close>.\<close>

definition resize_to :: "nat \<Rightarrow> 'a \<Rightarrow> 'a list \<Rightarrow> 'a list" where
  "resize_to n d xs = xs @ replicate (n - length xs) d"

lemma length_resize_to [simp]: "length (resize_to n d xs) = max n (length xs)"
  by (simp add: resize_to_def)

lemma nth_resize_to_old [simp]: "i < length xs \<Longrightarrow> resize_to n d xs ! i = xs ! i"
  by (simp add: resize_to_def nth_append)

lemma nth_resize_to_new: "length xs \<le> i \<Longrightarrow> i < n \<Longrightarrow> resize_to n d xs ! i = d"
  by (simp add: resize_to_def nth_append)

subsection \<open>Loops over a list in the option monad\<close>

text \<open>A loop that threads a state and stops with \<open>None\<close> at the first undefined step.\<close>

fun foldM :: "('a \<Rightarrow> 's \<Rightarrow> 's option) \<Rightarrow> 'a list \<Rightarrow> 's \<Rightarrow> 's option" where
  "foldM f [] s = Some s"
| "foldM f (x # xs) s = Option.bind (f x s) (foldM f xs)"

lemma foldM_append: "foldM f (xs @ ys) s = Option.bind (foldM f xs s) (foldM f ys)"
proof (induction xs arbitrary: s)
  case Nil
  then show ?case by simp
next
  case (Cons x xs)
  then show ?case by (cases "f x s") auto
qed

text \<open>An invariant of every step is an invariant of the loop.\<close>

lemma foldM_invariant:
  assumes "foldM f xs s = Some s'" and "I s"
    and "\<And>x s s'. x \<in> set xs \<Longrightarrow> I s \<Longrightarrow> f x s = Some s' \<Longrightarrow> I s'"
  shows "I s'"
  using assms
proof (induction xs arbitrary: s)
  case Nil
  then show ?case by simp
next
  case (Cons x xs)
  from Cons.prems(1) obtain t where t: "f x s = Some t" "foldM f xs t = Some s'"
    by (auto simp: Option.bind_eq_Some_conv)
  from Cons.prems(3) [OF _ Cons.prems(2) t(1)] have "I t" by simp
  from t(2) this show ?case
    by (rule Cons.IH) (use Cons.prems(3) in auto)
qed

lemma foldM_cong [fundef_cong]:
  assumes "xs = ys" and "s = t" and "\<And>x u. x \<in> set ys \<Longrightarrow> f x u = g x u"
  shows "foldM f xs s = foldM g ys t"
  using assms
proof (induction ys arbitrary: xs s t)
  case Nil
  then show ?case by simp
next
  case (Cons y ys)
  then have "f y t = g y t" by simp
  moreover have "foldM f ys u = foldM g ys u" for u
    by (rule Cons.IH) (use Cons.prems(3) in auto)
  ultimately show ?case using Cons.prems(1,2) by (cases "g y t") auto
qed

text \<open>Unfolding a state computation step by step.\<close>

lemma case_prod_eq_Some: "(case p of (a, b) \<Rightarrow> f a b) = Some y \<longleftrightarrow> (\<exists>a b. p = (a, b) \<and> f a b = Some y)"
  by (cases p) auto

lemma if_then_Some: "(if b then x else None) = Some y \<longleftrightarrow> b \<and> x = Some y"
  by auto

lemmas do_simps = Option.bind_eq_Some_conv case_prod_eq_Some if_then_Some

end
