(* ===== verification/McUtil.thy ===== *)
theory McUtil
  imports SC_Prelude
begin

section \<open>Bit utilities of mcutil.h\<close>

text \<open>
  The inline functions and the \<open>NUMBITS\<close> macro of \<open>mcutil.h\<close>, at the widths of the code
  (\<open>unsigned int\<close> is 32 bits, \<open>uint64_t\<close> is 64 bits), the two compiler builtins they and
  \<open>constraint.cc\<close> use, and the facts other theories need: the number of bits \<open>NUMBITS\<close>
  gives is enough for every value up to its argument, a value written bit by bit is read back, and
  the rotations undo each other. A shift by a count outside the width is undefined in C; here the
  count is taken modulo the width, as the x86-64 shift instructions do.
\<close>


subsection \<open>Compiler builtins\<close>

definition builtin_clz :: "uint32 \<Rightarrow> nat" where
  "builtin_clz x = length (takeWhile Not (map (bit x) (rev [0..<32])))"

definition builtin_ctz :: "uint32 \<Rightarrow> nat" where
  "builtin_ctz x = length (takeWhile Not (map (bit x) [0..<32]))"

lemma unat_eqI: "unat v = unat w \<Longrightarrow> v = w"
  by (rule unsigned_word_eqI)

subsection \<open>mcutil.h\<close>

definition rotate_left :: "uint32 \<Rightarrow> nat \<Rightarrow> uint32" where
  "rotate_left val n = Bit_Operations.or (push_bit n val) (drop_bit (32 - n) val)"

definition rotate_right :: "uint32 \<Rightarrow> nat \<Rightarrow> uint32" where
  "rotate_right val n = Bit_Operations.or (drop_bit n val) (push_bit (32 - n) val)"

definition keepbytes :: "uint64 \<Rightarrow> int \<Rightarrow> uint64" where
  "keepbytes val len = (let shift = nat ((8 - len) mod 64) in drop_bit shift (push_bit shift val))"

definition getmask :: "nat \<Rightarrow> uint64" where
  "getmask len = drop_bit (nat ((64 - int len * 8) mod 64)) 0xffffffffffffffff"

definition numbits :: "uint32 \<Rightarrow> nat" where
  "numbits x = (if x = 0 then 0 else 32 - builtin_clz x)"

text \<open>Bitwise helpers for the theories that use the names \<open>AND\<close> and \<open>OR\<close> for constraints.\<close>

definition bit_and64 :: "uint64 \<Rightarrow> uint64 \<Rightarrow> uint64" where
  "bit_and64 x y = Bit_Operations.and x y"

definition low_bit_set :: "uint32 \<Rightarrow> bool" where
  "low_bit_set v \<longleftrightarrow> Bit_Operations.and v 1 = 1"

definition set_low_bit :: "uint32 \<Rightarrow> uint32" where
  "set_low_bit v = Bit_Operations.or v 1"

definition xor32 :: "uint32 \<Rightarrow> uint32 \<Rightarrow> uint32" where
  "xor32 a b = Bit_Operations.xor a b"

text \<open>\<open>v << 1\<close> and \<open>v >> 1\<close> on \<open>uint\<close>.\<close>

definition shl1 :: "uint32 \<Rightarrow> uint32" where
  "shl1 v = push_bit 1 v"

definition shr1 :: "uint32 \<Rightarrow> uint32" where
  "shr1 v = drop_bit 1 v"

lemma bit_shl1: "bit (shl1 v) n \<longleftrightarrow> 0 < n \<and> n < 32 \<and> bit v (n - 1)"
proof -
  have "bit (push_bit 1 v) n \<longleftrightarrow> 1 \<le> n \<and> possible_bit TYPE(uint32) n \<and> bit v (n - 1)"
    by (rule bit_push_bit_iff)
  then show ?thesis by (auto simp: shl1_def simp del: push_bit_Suc)
qed

lemma bit_shr1: "bit (shr1 v) n \<longleftrightarrow> bit v (Suc n)"
  by (simp add: shr1_def bit_drop_bit_eq)

lemma low_bit_set_iff [simp]: "low_bit_set v \<longleftrightarrow> bit v 0"
proof -
  have "low_bit_set v \<longleftrightarrow> odd v" by (simp add: low_bit_set_def and_one_eq odd_iff_mod_2_eq_one)
  then show ?thesis by (simp add: bit_0)
qed

lemma bit_set_low_bit: "bit (set_low_bit v) n \<longleftrightarrow> n = 0 \<or> bit v n"
  by (auto simp: set_low_bit_def bit_simps)

subsection \<open>Leading and trailing zeros\<close>

lemma takeWhile_Not_length:
  "length (takeWhile Not bs) < length bs \<Longrightarrow> bs ! length (takeWhile Not bs)"
  using nth_length_takeWhile [of Not bs] by simp

lemma takeWhile_Not_before: "i < length (takeWhile Not bs) \<Longrightarrow> \<not> bs ! i"
  using takeWhile_nth [of i Not bs] set_takeWhileD [of "takeWhile Not bs ! i" Not bs]
  by (metis nth_mem)

lemma takeWhile_Not_short: "\<exists>i<length bs. bs ! i \<Longrightarrow> length (takeWhile Not bs) < length bs"
proof (rule ccontr)
  assume ex: "\<exists>i<length bs. bs ! i" and "\<not> length (takeWhile Not bs) < length bs"
  then have "length (takeWhile Not bs) = length bs"
    using length_takeWhile_le [of Not bs] by simp
  then have "\<not> bs ! i" if "i < length bs" for i
    using that takeWhile_Not_before [of i bs] by simp
  with ex show False by blast
qed

lemma word32_bit_ex: "(x::uint32) \<noteq> 0 \<Longrightarrow> \<exists>i<32. bit x i"
proof (rule ccontr)
  assume "x \<noteq> 0" and "\<not> (\<exists>i<32. bit x i)"
  then have "\<forall>i. \<not> bit x i" using bit_imp_le_length [of x] by fastforce
  then have "x = 0" by (simp add: bit_eq_iff)
  with \<open>x \<noteq> 0\<close> show False by simp
qed

lemma builtin_ctz_bounds:
  assumes "x \<noteq> 0"
  shows "builtin_ctz x < 32" "bit x (builtin_ctz x)" "\<And>i. i < builtin_ctz x \<Longrightarrow> \<not> bit x i"
proof -
  let ?bs = "map (bit x) [0..<32]"
  from word32_bit_ex [OF assms] obtain i where "i < 32" "bit x i" by blast
  then have "\<exists>i<length ?bs. ?bs ! i" by (intro exI [of _ i]) simp
  then have *: "length (takeWhile Not ?bs) < length ?bs" by (rule takeWhile_Not_short)
  then show "builtin_ctz x < 32" by (simp add: builtin_ctz_def)
  from takeWhile_Not_length [OF *] * show "bit x (builtin_ctz x)"
    by (simp add: builtin_ctz_def del: map_upt_eqI)
  fix i assume "i < builtin_ctz x"
  with takeWhile_Not_before [of i ?bs] * show "\<not> bit x i"
    by (simp add: builtin_ctz_def)
qed

lemma builtin_clz_bounds:
  assumes "x \<noteq> 0"
  shows "builtin_clz x < 32" "bit x (31 - builtin_clz x)" "\<And>i. 31 - builtin_clz x < i \<Longrightarrow> \<not> bit x i"
proof -
  let ?bs = "map (bit x) (rev [0..<32])"
  have nth: "?bs ! j = bit x (31 - j)" if "j < 32" for j
    using that by (simp add: rev_nth)
  from word32_bit_ex [OF assms] obtain i where i: "i < 32" "bit x i" by blast
  then have "?bs ! (31 - i)" by (subst nth) auto
  then have "\<exists>i<length ?bs. ?bs ! i" using i by (intro exI [of _ "31 - i"]) simp
  then have *: "length (takeWhile Not ?bs) < length ?bs" by (rule takeWhile_Not_short)
  then have lt: "builtin_clz x < 32" by (simp add: builtin_clz_def)
  then show "builtin_clz x < 32" .
  from takeWhile_Not_length [OF *] lt show "bit x (31 - builtin_clz x)"
    unfolding builtin_clz_def using nth by (metis)
  fix i assume i': "31 - builtin_clz x < i"
  show "\<not> bit x i"
  proof (cases "i < 32")
    case True
    then have "31 - i < builtin_clz x" using i' by simp
    then have "\<not> ?bs ! (31 - i)" unfolding builtin_clz_def by (rule takeWhile_Not_before)
    with True show ?thesis by (subst (asm) nth) auto
  next
    case False
    then show ?thesis using bit_imp_le_length [of x i] by auto
  qed
qed

subsection \<open>NUMBITS gives enough bits\<close>

lemma numbits_le: "numbits x \<le> 32"
  by (simp add: numbits_def)

lemma numbits_bit:
  assumes "bit x i"
  shows "i < numbits x"
proof -
  from assms have nz: "x \<noteq> 0" by auto
  have "\<not> 31 - builtin_clz x < i" using builtin_clz_bounds(3) [OF nz, of i] assms by blast
  then show ?thesis using builtin_clz_bounds(1) [OF nz] nz by (simp add: numbits_def)
qed

lemma unat_less_numbits: "unat x < 2 ^ numbits x"
proof -
  have "take_bit (numbits x) x = x"
    by (rule bit_eqI) (auto simp: bit_take_bit_iff dest: numbits_bit)
  then have "take_bit (numbits x) (unat x) = unat x"
    by (metis unsigned_take_bit_eq)
  then show ?thesis by (metis take_bit_nat_less_exp)
qed

lemma numbits_mono_fits: "unat y \<le> unat x \<Longrightarrow> unat y < 2 ^ numbits x"
  using unat_less_numbits [of x] by simp

lemma numbits_0 [simp]: "numbits 0 = 0"
  by (simp add: numbits_def)

subsection \<open>Rotations\<close>

lemma bit_rotate_left_3: "bit (rotate_left x 3) n \<longleftrightarrow> n < 32 \<and> bit x ((29 + n) mod 32)"
proof (cases "n < 3")
  case True
  then have "(29 + n) mod 32 = 29 + n" by simp
  with True show ?thesis
    by (auto simp: rotate_left_def bit_simps)
next
  case False
  show ?thesis
  proof (cases "n < 32")
    case True
    then have "(29 + n) mod 32 = n - 3" using False le_mod_geq [of 32 "29 + n"] by simp
    moreover have "\<not> bit x (29 + n)" using bit_imp_le_length [of x "29 + n"] False by auto
    ultimately show ?thesis using True False by (simp add: rotate_left_def bit_simps)
  next
    case ge: False
    then show ?thesis using bit_imp_le_length [of "rotate_left x 3" n] by auto
  qed
qed

lemma bit_rotate_right_3: "bit (rotate_right x 3) n \<longleftrightarrow> n < 32 \<and> bit x ((3 + n) mod 32)"
proof (cases "n < 29")
  case True
  then show ?thesis by (auto simp: rotate_right_def bit_simps)
next
  case False
  show ?thesis
  proof (cases "n < 32")
    case True
    then have "(3 + n) mod 32 = n - 29" using False le_mod_geq [of 32 "3 + n"] by simp
    moreover have "\<not> bit x (3 + n)" using bit_imp_le_length [of x "3 + n"] False by auto
    ultimately show ?thesis using True False by (simp add: rotate_right_def bit_simps)
  next
    case ge: False
    then show ?thesis using bit_imp_le_length [of "rotate_right x 3" n] by auto
  qed
qed

lemma rotate_right_left: "rotate_right (rotate_left x 3) 3 = x"
proof (rule bit_word_eqI)
  fix n assume "n < LENGTH(32)"
  then have n: "n < 32" by simp
  have "(29 + (3 + n) mod 32) mod 32 = (29 + (3 + n)) mod 32" by (rule mod_add_right_eq)
  also have "\<dots> = n" using n le_mod_geq [of 32 "32 + n"] by simp
  finally have m: "(29 + (3 + n) mod 32) mod 32 = n" .
  have lt: "(3 + n) mod 32 < 32" by simp
  show "bit (rotate_right (rotate_left x 3) 3) n = bit x n"
    by (simp only: bit_rotate_right_3 bit_rotate_left_3 m lt n simp_thms)
qed

subsection \<open>Masks\<close>

lemma bit_getmask: "1 \<le> len \<Longrightarrow> len \<le> 8 \<Longrightarrow> bit (getmask len) n \<longleftrightarrow> n < 8 * len"
proof -
  assume l: "1 \<le> len" "len \<le> 8"
  have ones: "(0xffffffffffffffff :: uint64) = - 1" by simp
  have sh: "nat ((64 - int len * 8) mod 64) = 64 - 8 * len"
    using l by (subst mod_pos_pos_trivial) auto
  have "getmask len = drop_bit (64 - 8 * len) (- 1)" by (simp only: getmask_def ones sh)
  then have "bit (getmask len) n \<longleftrightarrow> bit (- 1 :: uint64) (64 - 8 * len + n)"
    by (simp only: bit_drop_bit_eq o_def)
  also have "\<dots> \<longleftrightarrow> 64 - 8 * len + n < 64" by (simp add: bit_minus_1_iff)
  also have "\<dots> \<longleftrightarrow> n < 8 * len" using l by linarith
  finally show ?thesis .
qed

lemma mask_value: "1 \<le> len \<Longrightarrow> len \<le> 8 \<Longrightarrow> bit_and64 v (getmask len) = take_bit (8 * len) v"
  by (rule bit_word_eqI) (auto simp: bit_and64_def bit_simps bit_getmask)

text \<open>What \<open>keepbytes\<close> keeps: it shifts by \<open>8 - len\<close> bits, not bytes.\<close>

lemma keepbytes_bits:
  "0 \<le> len \<Longrightarrow> len \<le> 8 \<Longrightarrow> keepbytes v len = take_bit (56 + nat len) v"
proof -
  assume l: "0 \<le> len" "len \<le> 8"
  then have s: "nat ((8 - len) mod 64) = 8 - nat len"
    by (simp add: mod_pos_pos_trivial nat_diff_distrib)
  show ?thesis
    unfolding keepbytes_def Let_def s
    by (rule bit_word_eqI) (use l in \<open>auto simp: bit_simps\<close>)
qed


text \<open>Small values, for evaluation.\<close>

lemma numbits_small [simp]: "numbits 1 = 1" "numbits 2 = 2" "numbits 3 = 2" "numbits 4 = 3"
  by (simp_all add: numbits_def builtin_clz_def upt_conv_Cons)

end
