(* ===== verification/HashTables.thy ===== *)
theory HashTables
  imports SC_Prelude McUtil
begin

section \<open>The hash table (hashtable.h)\<close>

text \<open>
  \<open>HashTable\<close> is an open-addressing table with linear probing. A bin is empty (null key, null
  value), a tombstone (null key, value 1, left by \<open>remove\<close>) or occupied; the null key lives in
  the separate \<open>zero\<close> cell. A key is \<open>None\<close> for the null key, and the template parameters
  \<open>hash_function\<close> and \<open>equals\<close> are arguments of the operations. The load factor is the default
  0.5 of every table of the program. Values are pointers or identifiers that are not null, so the
  null value \<open>get\<close> and \<open>remove\<close> return for a missing key is \<open>None\<close>.

  A probing loop is given as many steps as the table has bins: after that many steps it has seen
  every bin and the code would repeat them for ever, which is the result \<open>None\<close>.
\<close>

subsection \<open>Data\<close>

datatype ('k, 'v) slot = Empty | Tomb | Slot 'k 'v

record ('k, 'v) hashtable =
  bins :: "('k, 'v) slot list"
  zero_cell :: "'v option"
  capacity :: nat
  capacitymask :: uint32
  threshold :: nat
  ht_size :: nat

definition new_table :: "nat \<Rightarrow> ('k, 'v) hashtable" where
  "new_table initialcapacity =
     \<lparr> bins = replicate initialcapacity Empty, zero_cell = None, capacity = initialcapacity,
       capacitymask = of_nat initialcapacity - 1, threshold = initialcapacity div 2, ht_size = 0 \<rparr>"

definition ht_reset :: "('k, 'v) hashtable \<Rightarrow> ('k, 'v) hashtable" where
  "ht_reset t = t\<lparr> bins := replicate (capacity t) Empty, zero_cell := None, ht_size := 0 \<rparr>"

text \<open>\<open>resetanddelete\<close> and \<open>resetandfree\<close> empty the occupied bins and leave the tombstones.\<close>

fun clear_slot :: "('k, 'v) slot \<Rightarrow> ('k, 'v) slot" where
  "clear_slot (Slot k v) = Empty"
| "clear_slot s = s"

definition ht_resetanddelete :: "('k, 'v) hashtable \<Rightarrow> ('k, 'v) hashtable" where
  "ht_resetanddelete t = t\<lparr> bins := map clear_slot (bins t), zero_cell := None, ht_size := 0 \<rparr>"

subsection \<open>Probing\<close>

definition mask_index :: "uint32 \<Rightarrow> uint32 \<Rightarrow> uint32" where
  "mask_index index msk = Bit_Operations.and index msk"

text \<open>The loop of \<open>put\<close>: the first bin with a null key or with an equal key.\<close>

fun probe_put :: "('k \<Rightarrow> 'k \<Rightarrow> bool) \<Rightarrow> ('k, 'v) slot list \<Rightarrow> uint32 \<Rightarrow> 'k \<Rightarrow> nat \<Rightarrow> uint32 \<Rightarrow> nat option" where
  "probe_put equals tab msk key 0 index = None"
| "probe_put equals tab msk key (Suc fuel) index =
     (let index = mask_index index msk in
      case nth_opt tab (unat index) of
        None \<Rightarrow> None
      | Some (Slot k v) \<Rightarrow>
          if equals k key then Some (unat index)
          else probe_put equals tab msk key fuel (index + 1)
      | Some _ \<Rightarrow> Some (unat index))"

text \<open>The loop of \<open>get\<close>, which also stops when it is back at its first bin.\<close>

fun probe_get :: "('k \<Rightarrow> 'k \<Rightarrow> bool) \<Rightarrow> ('k, 'v) slot list \<Rightarrow> uint32 \<Rightarrow> 'k \<Rightarrow> uint32 \<Rightarrow> nat \<Rightarrow> uint32
    \<Rightarrow> nat option option" where
  "probe_get equals tab msk key oindex 0 index = None"
| "probe_get equals tab msk key oindex (Suc fuel) index =
     (let next = mask_index (index + 1) msk;
          continue = (if next = oindex then Some None
                      else probe_get equals tab msk key oindex fuel next) in
      case nth_opt tab (unat index) of
        None \<Rightarrow> None
      | Some Empty \<Rightarrow> Some None
      | Some Tomb \<Rightarrow> continue
      | Some (Slot k v) \<Rightarrow> if equals k key then Some (Some (unat index)) else continue)"

text \<open>The loop of \<open>contains\<close> and \<open>remove\<close>, which has no such stop.\<close>

fun probe_find :: "('k \<Rightarrow> 'k \<Rightarrow> bool) \<Rightarrow> ('k, 'v) slot list \<Rightarrow> uint32 \<Rightarrow> 'k \<Rightarrow> nat \<Rightarrow> uint32
    \<Rightarrow> nat option option" where
  "probe_find equals tab msk key 0 index = None"
| "probe_find equals tab msk key (Suc fuel) index =
     (let index = mask_index index msk in
      case nth_opt tab (unat index) of
        None \<Rightarrow> None
      | Some Empty \<Rightarrow> Some None
      | Some Tomb \<Rightarrow> probe_find equals tab msk key fuel (index + 1)
      | Some (Slot k v) \<Rightarrow>
          if equals k key then Some (Some (unat index))
          else probe_find equals tab msk key fuel (index + 1))"

text \<open>The loop of \<open>resize\<close>: the first bin of the new table with a null key.\<close>

fun probe_free :: "('k, 'v) slot list \<Rightarrow> uint32 \<Rightarrow> nat \<Rightarrow> uint32 \<Rightarrow> nat option" where
  "probe_free tab msk 0 index = None"
| "probe_free tab msk (Suc fuel) index =
     (let index = mask_index index msk in
      case nth_opt tab (unat index) of
        None \<Rightarrow> None
      | Some (Slot k v) \<Rightarrow> probe_free tab msk fuel (index + 1)
      | Some _ \<Rightarrow> Some (unat index))"

subsection \<open>Operations\<close>

definition rehash_bin :: "('k \<Rightarrow> uint32) \<Rightarrow> uint32 \<Rightarrow> ('k, 'v) slot \<Rightarrow> ('k, 'v) slot list
    \<Rightarrow> ('k, 'v) slot list option" where
  "rehash_bin hash msk bin tab =
     (case bin of
        Slot k v \<Rightarrow> do { i \<leftarrow> probe_free tab msk (length tab) (hash k); Some (tab[i := Slot k v]) }
      | _ \<Rightarrow> Some tab)"

definition ht_resize :: "('k \<Rightarrow> uint32) \<Rightarrow> nat \<Rightarrow> ('k, 'v) hashtable \<Rightarrow> ('k, 'v) hashtable option" where
  "ht_resize hash newsize t =
     (let msk = of_nat newsize - 1 in do {
        tab \<leftarrow> foldM (rehash_bin hash msk) (bins t) (replicate newsize Empty);
        Some (t\<lparr> bins := tab, capacity := newsize, capacitymask := msk, threshold := newsize div 2 \<rparr>) })"

definition put_bin :: "('k \<Rightarrow> uint32) \<Rightarrow> ('k \<Rightarrow> 'k \<Rightarrow> bool) \<Rightarrow> 'k \<Rightarrow> 'v \<Rightarrow> ('k, 'v) hashtable
    \<Rightarrow> ('k, 'v) hashtable option" where
  "put_bin hash equals key val t = do {
     i \<leftarrow> probe_put equals (bins t) (capacitymask t) key (capacity t) (hash key);
     (case bins t ! i of
        Slot k v \<Rightarrow> Some (t\<lparr> bins := (bins t)[i := Slot k val] \<rparr>)
      | _ \<Rightarrow> Some (t\<lparr> bins := (bins t)[i := Slot key val], ht_size := ht_size t + 1 \<rparr>)) }"

definition ht_put :: "('k \<Rightarrow> uint32) \<Rightarrow> ('k \<Rightarrow> 'k \<Rightarrow> bool) \<Rightarrow> 'k option \<Rightarrow> 'v \<Rightarrow> ('k, 'v) hashtable
    \<Rightarrow> ('k, 'v) hashtable option" where
  "ht_put hash equals key val t =
     (case key of
        None \<Rightarrow> Some (t\<lparr> zero_cell := Some val,
                         ht_size := (if zero_cell t = None then ht_size t + 1 else ht_size t) \<rparr>)
      | Some key \<Rightarrow> do {
          t \<leftarrow> (if ht_size t > threshold t then ht_resize hash (2 * capacity t mod 2 ^ 32) t else Some t);
          put_bin hash equals key val t })"

definition ht_get :: "('k \<Rightarrow> uint32) \<Rightarrow> ('k \<Rightarrow> 'k \<Rightarrow> bool) \<Rightarrow> 'k option \<Rightarrow> ('k, 'v) hashtable
    \<Rightarrow> 'v option option" where
  "ht_get hash equals key t =
     (case key of
        None \<Rightarrow> Some (zero_cell t)
      | Some key \<Rightarrow>
          (let oindex = mask_index (hash key) (capacitymask t) in do {
            r \<leftarrow> probe_get equals (bins t) (capacitymask t) key oindex (capacity t) oindex;
            Some (case r of
                None \<Rightarrow> None
              | Some i \<Rightarrow> (case bins t ! i of Slot k v \<Rightarrow> Some v | _ \<Rightarrow> None)) }))"

definition ht_remove :: "('k \<Rightarrow> uint32) \<Rightarrow> ('k \<Rightarrow> 'k \<Rightarrow> bool) \<Rightarrow> 'k option \<Rightarrow> ('k, 'v) hashtable
    \<Rightarrow> ('v option \<times> ('k, 'v) hashtable) option" where
  "ht_remove hash equals key t =
     (case key of
        None \<Rightarrow> (case zero_cell t of
            None \<Rightarrow> Some (None, t)
          | Some v \<Rightarrow> Some (Some v, t\<lparr> zero_cell := None, ht_size := ht_size t - 1 \<rparr>))
      | Some key \<Rightarrow> do {
          r \<leftarrow> probe_find equals (bins t) (capacitymask t) key (capacity t) (hash key);
          (case r of
             None \<Rightarrow> Some (None, t)
           | Some i \<Rightarrow> (case bins t ! i of
                Slot k v \<Rightarrow> Some (Some v, t\<lparr> bins := (bins t)[i := Tomb], ht_size := ht_size t - 1 \<rparr>)
              | _ \<Rightarrow> None)) })"

definition ht_contains :: "('k \<Rightarrow> uint32) \<Rightarrow> ('k \<Rightarrow> 'k \<Rightarrow> bool) \<Rightarrow> 'k option \<Rightarrow> ('k, 'v) hashtable
    \<Rightarrow> bool option" where
  "ht_contains hash equals key t =
     (case key of
        None \<Rightarrow> Some (zero_cell t \<noteq> None)
      | Some key \<Rightarrow> do {
          r \<leftarrow> probe_find equals (bins t) (capacitymask t) key (capacity t) (hash key);
          Some (r \<noteq> None) })"

definition ht_getSize :: "('k, 'v) hashtable \<Rightarrow> nat" where
  "ht_getSize t = ht_size t"

subsection \<open>Indices\<close>

lemma unat_mask_index:
  assumes "n < 32"
  shows "unat (mask_index w (2 ^ n - 1)) = unat w mod 2 ^ n"
proof -
  have "mask_index w (2 ^ n - 1) = take_bit n w"
    by (simp add: mask_index_def take_bit_eq_mask mask_eq_exp_minus_1)
  then show ?thesis by (metis unsigned_take_bit_eq take_bit_eq_mod)
qed

lemma unat_mask_index_add:
  assumes "n < 32"
  shows "unat (mask_index (mask_index w (2 ^ n - 1) + 1) (2 ^ n - 1)) = Suc (unat w) mod 2 ^ n"
proof -
  let ?u = "mask_index w (2 ^ n - 1)"
  have "(2::nat) ^ n dvd 2 ^ 32" using assms by (intro le_imp_power_dvd) simp
  then have "unat (?u + 1) mod 2 ^ n = (unat ?u + 1) mod 2 ^ n"
    by (simp add: unat_word_ariths mod_mod_cancel)
  then show ?thesis using assms by (simp add: unat_mask_index mod_Suc_eq)
qed

lemma find_upt_Suc:
  "find P [0..<Suc f] = (if P 0 then Some 0 else map_option Suc (find (\<lambda>i. P (Suc i)) [0..<f]))"
proof -
  have "[0..<Suc f] = 0 # map Suc [0..<f]" by (simp add: upt_conv_Cons map_Suc_upt del: upt_Suc)
  moreover have "find P (map Suc xs) = map_option Suc (find (\<lambda>i. P (Suc i)) xs)" for xs
    by (induction xs) auto
  ultimately show ?thesis by simp
qed

text \<open>The bin \<open>i\<close> steps after the home of a hash in a table of \<open>2 ^ n\<close> bins.\<close>

definition probe_pos :: "nat \<Rightarrow> uint32 \<Rightarrow> nat \<Rightarrow> nat" where
  "probe_pos n h i = (unat h + i) mod 2 ^ n"

lemma probe_pos_less [simp]: "probe_pos n h i < 2 ^ n"
  by (simp add: probe_pos_def)

lemma probe_pos_inj_le:
  assumes "i \<le> j" and "j < 2 ^ n" and "probe_pos n h i = probe_pos n h j"
  shows "i = j"
proof -
  from assms have "(2 ^ n :: nat) dvd (unat h + j) - (unat h + i)"
    by (intro mod_eq_dvd_iff_nat [THEN iffD1]) (auto simp: probe_pos_def)
  then have "(2 ^ n :: nat) dvd j - i" by simp
  moreover have "j - i < 2 ^ n" using assms by simp
  ultimately have "j - i = 0" using nat_dvd_not_less by blast
  with assms(1) show ?thesis by simp
qed

lemma probe_pos_inj: "i < 2 ^ n \<Longrightarrow> j < 2 ^ n \<Longrightarrow> probe_pos n h i = probe_pos n h j \<Longrightarrow> i = j"
  using probe_pos_inj_le [of i j n h] probe_pos_inj_le [of j i n h] by (cases "i \<le> j") auto

lemma probe_pos_surj:
  assumes "p < 2 ^ n"
  shows "\<exists>i < 2 ^ n. probe_pos n h i = p"
proof -
  have "inj_on (probe_pos n h) {..<2 ^ n}" by (rule inj_onI) (auto intro: probe_pos_inj)
  then have "card (probe_pos n h ` {..<2 ^ n}) = card {..<(2 ^ n) :: nat}" by (rule card_image)
  moreover have "probe_pos n h ` {..<2 ^ n} \<subseteq> {..<2 ^ n}" by auto
  ultimately have "probe_pos n h ` {..<2 ^ n} = {..<2 ^ n}"
    by (intro card_subset_eq) auto
  with assms show ?thesis by (metis imageE lessThan_iff)
qed

fun is_slot :: "('k, 'v) slot \<Rightarrow> bool" where
  "is_slot (Slot k v) = True"
| "is_slot _ = False"

fun stop_find :: "('k \<Rightarrow> 'k \<Rightarrow> bool) \<Rightarrow> 'k \<Rightarrow> ('k, 'v) slot \<Rightarrow> bool" where
  "stop_find equals key Empty = True"
| "stop_find equals key Tomb = False"
| "stop_find equals key (Slot k v) = equals k key"

fun stop_put :: "('k \<Rightarrow> 'k \<Rightarrow> bool) \<Rightarrow> 'k \<Rightarrow> ('k, 'v) slot \<Rightarrow> bool" where
  "stop_put equals key (Slot k v) = equals k key"
| "stop_put equals key _ = True"

definition found :: "('k, 'v) slot list \<Rightarrow> nat \<Rightarrow> nat option" where
  "found tab p = (if is_slot (tab ! p) then Some p else None)"

text \<open>The loops as searches along the probe positions.\<close>

lemma probe_step:
  assumes n: "n < 32" and len: "length tab = 2 ^ n"
  shows "nth_opt tab (probe_pos n w i) = Some (tab ! probe_pos n w i)"
    and "unat (mask_index w (2 ^ n - 1)) = probe_pos n w 0"
    and "probe_pos n (mask_index w (2 ^ n - 1) + 1) = (\<lambda>i. probe_pos n w (Suc i))"
proof -
  show "nth_opt tab (probe_pos n w i) = Some (tab ! probe_pos n w i)" using len by simp
  show "unat (mask_index w (2 ^ n - 1)) = probe_pos n w 0"
    using n by (simp add: unat_mask_index probe_pos_def)
  have "unat (mask_index w (2 ^ n - 1) + 1) mod 2 ^ n = Suc (unat w) mod 2 ^ n"
    using unat_mask_index_add [OF n, of w] unat_mask_index [OF n, of "mask_index w (2 ^ n - 1) + 1"] by simp
  then have "probe_pos n (mask_index w (2 ^ n - 1) + 1) i = probe_pos n w (Suc i)" for i
    unfolding probe_pos_def by (metis add_Suc_shift mod_add_left_eq)
  then show "probe_pos n (mask_index w (2 ^ n - 1) + 1) = (\<lambda>i. probe_pos n w (Suc i))" by blast
qed

lemma probe_put_find:
  assumes "n < 32" and "length tab = 2 ^ n"
  shows "probe_put equals tab (2 ^ n - 1) key f w =
     map_option (probe_pos n w) (find (\<lambda>i. stop_put equals key (tab ! probe_pos n w i)) [0..<f])"
proof (induction f arbitrary: w)
  case 0
  then show ?case by simp
next
  case (Suc f)
  show ?case
    by (cases "tab ! probe_pos n w 0";
        simp only: probe_put.simps probe_free.simps probe_find.simps Let_def
          probe_step [OF assms] Suc.IH option.case slot.case;
        simp add: find_upt_Suc option.map_comp comp_def del: upt_Suc)
qed

lemma probe_free_find:
  assumes "n < 32" and "length tab = 2 ^ n"
  shows "probe_free tab (2 ^ n - 1) f w =
     map_option (probe_pos n w) (find (\<lambda>i. \<not> is_slot (tab ! probe_pos n w i)) [0..<f])"
proof (induction f arbitrary: w)
  case 0
  then show ?case by simp
next
  case (Suc f)
  show ?case
    by (cases "tab ! probe_pos n w 0";
        simp only: probe_put.simps probe_free.simps probe_find.simps Let_def
          probe_step [OF assms] Suc.IH option.case slot.case;
        simp add: find_upt_Suc option.map_comp comp_def del: upt_Suc)
qed

lemma probe_find_find:
  assumes "n < 32" and "length tab = 2 ^ n"
  shows "probe_find equals tab (2 ^ n - 1) key f w =
     map_option (\<lambda>i. found tab (probe_pos n w i))
       (find (\<lambda>i. stop_find equals key (tab ! probe_pos n w i)) [0..<f])"
proof (induction f arbitrary: w)
  case 0
  then show ?case by simp
next
  case (Suc f)
  show ?case
    by (cases "tab ! probe_pos n w 0";
        simp only: probe_put.simps probe_free.simps probe_find.simps Let_def
          probe_step [OF assms] Suc.IH option.case slot.case;
        simp add: find_upt_Suc option.map_comp comp_def found_def del: upt_Suc)
qed

lemma find_upt_Cons:
  "j < m \<Longrightarrow> find P [j..<m] = (if P j then Some j else find P [Suc j..<m])"
  by (simp add: upt_conv_Cons)

lemma probe_get_find_from:
  assumes "n < 32" and "length tab = 2 ^ n" and "unat oindex = probe_pos n h 0"
  shows "unat index = probe_pos n h j \<Longrightarrow> j + f = 2 ^ n \<Longrightarrow> 0 < f \<Longrightarrow>
    probe_get equals tab (2 ^ n - 1) key oindex f index =
      Some (Option.bind (find (\<lambda>i. stop_find equals key (tab ! probe_pos n h i)) [j..<2 ^ n])
        (\<lambda>i. found tab (probe_pos n h i)))"
proof (induction f arbitrary: index j)
  case 0
  then show ?case by simp
next
  case (Suc f)
  let ?next = "mask_index (index + 1) (2 ^ n - 1)"
  have j: "j < 2 ^ n" using Suc.prems by simp
  have read: "nth_opt tab (unat index) = Some (tab ! probe_pos n h j)"
    using Suc.prems(1) assms(2) by simp
  have "index = mask_index index (2 ^ n - 1)"
    by (rule unat_eqI) (use Suc.prems(1) assms(1) in \<open>simp add: unat_mask_index\<close>)
  then have "unat ?next = Suc (unat index) mod 2 ^ n"
    using unat_mask_index_add [OF assms(1), of index] by simp
  then have nxt: "unat ?next = probe_pos n h (Suc j)"
    using Suc.prems(1) by (simp add: probe_pos_def mod_Suc_eq)
  have wrap: "?next = oindex \<longleftrightarrow> Suc j = 2 ^ n"
  proof
    assume "?next = oindex"
    then have eq: "probe_pos n h (Suc j) = probe_pos n h 0" using nxt assms(3) by simp
    show "Suc j = 2 ^ n"
    proof (rule ccontr)
      assume "Suc j \<noteq> 2 ^ n"
      then have "Suc j = 0" using probe_pos_inj [OF _ _ eq] j by simp
      then show False by simp
    qed
  next
    assume "Suc j = 2 ^ n"
    then have "probe_pos n h (Suc j) = probe_pos n h 0" by (simp add: probe_pos_def)
    then show "?next = oindex" using nxt assms(3) by (metis unat_eqI)
  qed
  have rest: "(if ?next = oindex then Some None else probe_get equals tab (2 ^ n - 1) key oindex f ?next) =
      Some (Option.bind (find (\<lambda>i. stop_find equals key (tab ! probe_pos n h i)) [Suc j..<2 ^ n])
        (\<lambda>i. found tab (probe_pos n h i)))"
    using Suc.IH [OF nxt] Suc.prems(2) wrap by (cases "Suc j = 2 ^ n") auto
  show ?case
    by (cases "tab ! probe_pos n h j";
        simp only: probe_get.simps Let_def read rest option.case slot.case;
        simp add: find_upt_Cons found_def Suc.prems(1) j)
qed

lemma probe_get_find:
  assumes "n < 32" and "length tab = 2 ^ n"
  shows "probe_get equals tab (2 ^ n - 1) key (mask_index h (2 ^ n - 1)) (2 ^ n) (mask_index h (2 ^ n - 1)) =
    Some (Option.bind (find (\<lambda>i. stop_find equals key (tab ! probe_pos n h i)) [0..<2 ^ n])
        (\<lambda>i. found tab (probe_pos n h i)))"
  by (rule probe_get_find_from) (use assms in \<open>simp_all add: probe_step(2)\<close>)

subsection \<open>The invariant and the abstract map\<close>

definition located :: "('k \<Rightarrow> uint32) \<Rightarrow> nat \<Rightarrow> ('k, 'v) slot list \<Rightarrow> bool" where
  "located hash n tab \<longleftrightarrow>
     (\<forall>p k v. p < length tab \<longrightarrow> tab ! p = Slot k v \<longrightarrow>
       (\<exists>d < 2 ^ n. probe_pos n (hash k) d = p \<and> (\<forall>j < d. tab ! probe_pos n (hash k) j \<noteq> Empty)))"

definition unique_keys :: "('k \<Rightarrow> 'k \<Rightarrow> bool) \<Rightarrow> ('k, 'v) slot list \<Rightarrow> bool" where
  "unique_keys equals tab \<longleftrightarrow>
     (\<forall>p q k v k' v'. p < length tab \<longrightarrow> q < length tab \<longrightarrow> tab ! p = Slot k v \<longrightarrow> tab ! q = Slot k' v' \<longrightarrow>
       equals k k' \<longrightarrow> p = q)"

definition occupied :: "('k, 'v) slot list \<Rightarrow> nat" where
  "occupied tab = length (filter is_slot tab)"

definition has_key :: "('k \<Rightarrow> 'k \<Rightarrow> bool) \<Rightarrow> 'k \<Rightarrow> ('k, 'v) slot \<Rightarrow> bool" where
  "has_key equals k s = (case s of Slot k' v \<Rightarrow> equals k' k | _ \<Rightarrow> False)"

definition ht_map :: "('k \<Rightarrow> 'k \<Rightarrow> bool) \<Rightarrow> ('k, 'v) hashtable \<Rightarrow> 'k option \<Rightarrow> 'v option" where
  "ht_map equals t key =
     (case key of
        None \<Rightarrow> zero_cell t
      | Some k \<Rightarrow> (case find (has_key equals k) (bins t) of Some (Slot k' v) \<Rightarrow> Some v | _ \<Rightarrow> None))"

definition shape :: "nat \<Rightarrow> ('k, 'v) hashtable \<Rightarrow> bool" where
  "shape n t \<longleftrightarrow> 2 \<le> n \<and> n < 32 \<and> capacity t = 2 ^ n \<and> length (bins t) = 2 ^ n \<and>
     capacitymask t = 2 ^ n - 1 \<and> threshold t = 2 ^ n div 2"

definition ht_inv :: "('k \<Rightarrow> uint32) \<Rightarrow> ('k \<Rightarrow> 'k \<Rightarrow> bool) \<Rightarrow> ('k, 'v) hashtable \<Rightarrow> bool" where
  "ht_inv hash equals t \<longleftrightarrow>
     (\<exists>n. shape n t \<and> located hash n (bins t)) \<and> unique_keys equals (bins t) \<and>
     ht_size t = occupied (bins t) + (if zero_cell t = None then 0 else 1) \<and>
     occupied (bins t) \<le> threshold t + 1"

definition no_tombs :: "('k, 'v) hashtable \<Rightarrow> bool" where
  "no_tombs t \<longleftrightarrow> Tomb \<notin> set (bins t)"

lemma occupied_update:
  assumes "p < length tab"
  shows "occupied (tab[p := s]) + (if is_slot (tab ! p) then 1 else 0) =
    occupied tab + (if is_slot s then 1 else 0)"
proof -
  have "occupied (take p tab @ tab ! p # drop (Suc p) tab) =
      length (filter is_slot (take p tab)) + (if is_slot (tab ! p) then 1 else 0) +
      length (filter is_slot (drop (Suc p) tab))"
    by (simp add: occupied_def)
  then have "occupied tab = length (filter is_slot (take p tab)) + (if is_slot (tab ! p) then 1 else 0) +
      length (filter is_slot (drop (Suc p) tab))"
    using id_take_nth_drop [OF assms] by simp
  moreover have "occupied (tab[p := s]) = length (filter is_slot (take p tab)) + (if is_slot s then 1 else 0) +
      length (filter is_slot (drop (Suc p) tab))"
    using assms by (simp add: occupied_def upd_conv_take_nth_drop)
  ultimately show ?thesis by simp
qed

lemma occupied_full:
  assumes "\<And>p. p < length tab \<Longrightarrow> is_slot (tab ! p)"
  shows "occupied tab = length tab"
proof -
  have "filter is_slot tab = tab" using assms by (auto simp: filter_id_conv in_set_conv_nth)
  then show ?thesis by (simp add: occupied_def)
qed

lemma slot_update_iff:
  assumes "p < length tab" and "\<not> is_slot (tab ! p)"
  shows "Slot k v \<in> set (tab[p := s]) \<longleftrightarrow> s = Slot k v \<or> Slot k v \<in> set tab"
proof -
  have "Slot k v \<in> set (tab[p := s]) \<longleftrightarrow> (\<exists>q < length tab. (tab[p := s]) ! q = Slot k v)"
    by (auto simp: in_set_conv_nth)
  also have "\<dots> \<longleftrightarrow> s = Slot k v \<or> (\<exists>q < length tab. tab ! q = Slot k v)"
    using assms by (metis is_slot.simps(1) nth_list_update)
  finally show ?thesis by (auto simp: in_set_conv_nth)
qed

lemma find_upt_Some:
  "find P [0..<m] = Some i \<longleftrightarrow> i < m \<and> P i \<and> (\<forall>j < i. \<not> P j)"
  by (auto simp: find_Some_iff)

lemma find_upt_None: "find P [0..<m] = None \<longleftrightarrow> (\<forall>i < m. \<not> P i)"
  by (auto simp: find_None_iff)

lemma located_update:
  assumes "located hash n tab" and "length tab = 2 ^ n" and "p < length tab"
    and "s \<noteq> Empty \<or> tab ! p = Empty"
    and "\<And>k v. s = Slot k v \<Longrightarrow>
      \<exists>d < 2 ^ n. probe_pos n (hash k) d = p \<and> (\<forall>j < d. tab ! probe_pos n (hash k) j \<noteq> Empty)"
  shows "located hash n (tab[p := s])"
  unfolding located_def
proof (intro allI impI)
  fix q k v
  assume q: "q < length (tab[p := s])" and at: "tab[p := s] ! q = Slot k v"
  have keep: "tab ! r \<noteq> Empty \<Longrightarrow> tab[p := s] ! r \<noteq> Empty" for r
    using assms(3,4) by (cases "r = p") auto
  have "\<exists>d < 2 ^ n. probe_pos n (hash k) d = q \<and> (\<forall>j < d. tab ! probe_pos n (hash k) j \<noteq> Empty)"
  proof (cases "q = p")
    case True
    then show ?thesis using at assms(3,5) by auto
  next
    case False
    then show ?thesis using at q assms(1) by (auto simp: located_def)
  qed
  then show "\<exists>d < 2 ^ n. probe_pos n (hash k) d = q \<and> (\<forall>j < d. tab[p := s] ! probe_pos n (hash k) j \<noteq> Empty)"
    using keep by blast
qed

subsection \<open>The laws a key type promises\<close>

text \<open>
  \<open>equals\<close> is an equivalence and equal keys have equal hashes. Every table of the program is
  instantiated with such a pair; the interpretations are in the theories of the key types.
\<close>

locale hash_keys =
  fixes hash :: "'k \<Rightarrow> uint32" and equals :: "'k \<Rightarrow> 'k \<Rightarrow> bool"
  assumes equals_refl: "equals k k"
    and equals_sym: "equals k l \<Longrightarrow> equals l k"
    and equals_trans: "equals k l \<Longrightarrow> equals l m \<Longrightarrow> equals k m"
    and hash_equals: "equals k l \<Longrightarrow> hash k = hash l"
begin

lemma ht_map_found:
  assumes "unique_keys equals (bins t)" and "p < length (bins t)" and "bins t ! p = Slot k' v"
    and "equals k' k"
  shows "ht_map equals t (Some k) = Some v"
proof -
  have "has_key equals k (bins t ! p)" using assms(3,4) by (simp add: has_key_def)
  then obtain s where s: "find (has_key equals k) (bins t) = Some s"
    using assms(2) by (metis find_None_iff not_Some_eq nth_mem)
  then obtain q where q: "q < length (bins t)" "has_key equals k (bins t ! q)" "s = bins t ! q"
    by (auto simp: find_Some_iff)
  then obtain l w where l: "bins t ! q = Slot l w" "equals l k"
    by (auto simp: has_key_def split: slot.splits)
  then have "equals l k'" using assms(4) equals_sym equals_trans by blast
  with q l assms(1-3) have "q = p" by (auto simp: unique_keys_def)
  with s q l assms(3) show ?thesis by (simp add: ht_map_def)
qed

lemma ht_map_absent:
  "(\<And>k' v. Slot k' v \<in> set (bins t) \<Longrightarrow> \<not> equals k' k) \<Longrightarrow> ht_map equals t (Some k) = None"
  by (auto simp: ht_map_def find_Some_iff has_key_def split: option.splits slot.splits)
    (metis nth_mem)

lemma ht_map_absentD:
  assumes "ht_map equals t (Some k) = None" and "Slot k' v \<in> set (bins t)"
  shows "\<not> equals k' k"
proof
  assume "equals k' k"
  then obtain s where s: "find (has_key equals k) (bins t) = Some s"
    using assms(2) by (metis (no_types, lifting) find_None_iff has_key_def not_Some_eq slot.simps(10))
  then have "has_key equals k s" by (auto simp: find_Some_iff)
  with s assms(1) show False by (auto simp: ht_map_def has_key_def split: slot.splits)
qed

lemma ht_map_cases:
  assumes "unique_keys equals (bins t)"
  obtains (present) p k' v where "p < length (bins t)" "bins t ! p = Slot k' v" "equals k' k"
      "ht_map equals t (Some k) = Some v"
  | (absent) "\<And>k' v. Slot k' v \<in> set (bins t) \<Longrightarrow> \<not> equals k' k" "ht_map equals t (Some k) = None"
proof (cases "\<exists>p k' v. p < length (bins t) \<and> bins t ! p = Slot k' v \<and> equals k' k")
  case True
  then obtain p k' v where p: "p < length (bins t)" "bins t ! p = Slot k' v" "equals k' k" by blast
  from present [OF this ht_map_found [OF assms this]] show ?thesis .
next
  case False
  then have "\<not> equals k' k" if "Slot k' v \<in> set (bins t)" for k' v
    using that by (auto simp: in_set_conv_nth)
  note no = this
  show ?thesis by (rule absent) (use no ht_map_absent [of t k] in blast)+
qed

text \<open>A located key is found along its probe path, and nothing stops the search before it.\<close>

lemma find_present:
  assumes "located hash n tab" and "unique_keys equals tab" and "length tab = 2 ^ n"
    and "p < length tab" and "tab ! p = Slot k' v" and "equals k' k"
  shows "\<exists>d < 2 ^ n. probe_pos n (hash k) d = p \<and>
    find (\<lambda>i. stop_find equals k (tab ! probe_pos n (hash k) i)) [0..<2 ^ n] = Some d"
proof -
  have "\<exists>d < 2 ^ n. probe_pos n (hash k') d = p \<and> (\<forall>j < d. tab ! probe_pos n (hash k') j \<noteq> Empty)"
    using assms(1,4,5) unfolding located_def by blast
  then obtain d where d: "d < 2 ^ n" "probe_pos n (hash k) d = p"
    "\<And>j. j < d \<Longrightarrow> tab ! probe_pos n (hash k) j \<noteq> Empty"
    unfolding hash_equals [OF assms(6)] by blast
  have "\<not> stop_find equals k (tab ! probe_pos n (hash k) j)" if j: "j < d" for j
  proof (cases "tab ! probe_pos n (hash k) j")
    case Empty
    then show ?thesis using d(3) [OF j] by simp
  next
    case Tomb
    then show ?thesis by simp
  next
    case (Slot l w)
    show ?thesis
    proof
      assume "stop_find equals k (tab ! probe_pos n (hash k) j)"
      then have "equals l k'" using Slot equals_trans [of l k k'] equals_sym [OF assms(6)] by simp
      moreover have "probe_pos n (hash k) j < length tab" using assms(3) by simp
      ultimately have "probe_pos n (hash k) j = p"
        using assms(2,4,5) Slot unfolding unique_keys_def by blast
      then have "j = d" using probe_pos_inj [of j n d "hash k"] d(1,2) j by simp
      then show False using j by simp
    qed
  qed
  moreover have "stop_find equals k (tab ! probe_pos n (hash k) d)" using d(2) assms(5,6) by simp
  ultimately show ?thesis using d by (auto simp: find_upt_Some)
qed

lemma find_absent:
  assumes "length tab = 2 ^ n" and "\<And>k' v. Slot k' v \<in> set tab \<Longrightarrow> \<not> equals k' k"
    and "find (\<lambda>i. stop_find equals k (tab ! probe_pos n (hash k) i)) [0..<2 ^ n] = Some d"
  shows "tab ! probe_pos n (hash k) d = Empty"
proof -
  have "stop_find equals k (tab ! probe_pos n (hash k) d)" using assms(3) by (simp add: find_upt_Some)
  moreover have "tab ! probe_pos n (hash k) d \<in> set tab" using assms(1) by simp
  ultimately show ?thesis using assms(2) by (cases "tab ! probe_pos n (hash k) d") auto
qed

theorem get_correct:
  assumes "ht_inv hash equals t"
  shows "ht_get hash equals key t = Some (ht_map equals t key)"
proof (cases key)
  case None
  then show ?thesis by (simp add: ht_get_def ht_map_def)
next
  case (Some k)
  from assms obtain n where n: "shape n t" "located hash n (bins t)" and u: "unique_keys equals (bins t)"
    by (auto simp: ht_inv_def)
  then have s: "n < 32" "capacity t = 2 ^ n" "length (bins t) = 2 ^ n" "capacitymask t = 2 ^ n - 1"
    by (auto simp: shape_def)
  note probe = probe_get_find [OF s(1,3), of equals k "hash k"]
  from u show ?thesis
  proof (cases rule: ht_map_cases [where k = k])
    case (present p k' v)
    with find_present [OF n(2) u s(3) present(1-3)] show ?thesis
      using Some s probe by (auto simp: ht_get_def Let_def found_def)
  next
    case absent
    have "Option.bind (find (\<lambda>i. stop_find equals k (bins t ! probe_pos n (hash k) i)) [0..<2 ^ n])
        (\<lambda>i. found (bins t) (probe_pos n (hash k) i)) = None"
      using find_absent [OF s(3) absent(1)]
      by (cases "find (\<lambda>i. stop_find equals k (bins t ! probe_pos n (hash k) i)) [0..<2 ^ n]")
        (auto simp: found_def)
    with absent(2) show ?thesis using Some s probe by (simp add: ht_get_def Let_def)
  qed
qed

text \<open>Writing a key that is absent into a bin without key, at the end of a path without empty bin.\<close>

lemma insert_slot:
  fixes k :: 'k and v :: 'v and tab :: "('k, 'v) slot list"
  assumes "located hash n tab" and "unique_keys equals tab" and "length tab = 2 ^ n"
    and "d < 2 ^ n" and "\<not> is_slot (tab ! probe_pos n (hash k) d)"
    and "\<And>j. j < d \<Longrightarrow> tab ! probe_pos n (hash k) j \<noteq> Empty"
    and "\<And>k' v'. Slot k' v' \<in> set tab \<Longrightarrow> \<not> equals k' k"
  defines "tab' \<equiv> tab[probe_pos n (hash k) d := Slot k v]"
  shows "located hash n tab'" and "unique_keys equals tab'" and "length tab' = 2 ^ n"
    and "occupied tab' = Suc (occupied tab)"
    and "\<And>k' v'. Slot k' v' \<in> set tab' \<longleftrightarrow> (k', v') = (k, v) \<or> Slot k' v' \<in> set tab"
    and "Tomb \<notin> set tab \<Longrightarrow> Tomb \<notin> set tab'"
proof -
  let ?p = "probe_pos n (hash k) d"
  have p: "?p < length tab" using assms(3) by simp
  show "located hash n tab'" unfolding tab'_def
    by (rule located_update [OF assms(1,3) p]) (use assms(4,6) in auto)
  show "length tab' = 2 ^ n" using assms(3) by (simp add: tab'_def)
  show "occupied tab' = Suc (occupied tab)"
    using occupied_update [OF p, of "Slot k v"] assms(5) by (simp add: tab'_def)
  show "Slot k' v' \<in> set tab' \<longleftrightarrow> (k', v') = (k, v) \<or> Slot k' v' \<in> set tab" for k' v'
    unfolding tab'_def slot_update_iff [OF p assms(5)] by auto
  show "Tomb \<notin> set tab \<Longrightarrow> Tomb \<notin> set tab'"
    unfolding tab'_def using set_update_subset_insert [of tab ?p "Slot k v"] by auto
  have no: "\<not> equals l k" "\<not> equals k l" if "q < length tab" "tab ! q = Slot l w" for q l w
    using assms(7) [of l w] that equals_sym [of k l] nth_mem [of q tab] by auto
  show "unique_keys equals tab'"
    unfolding unique_keys_def
  proof (intro allI impI)
    fix q r l w l' w'
    assume q: "q < length tab'" "r < length tab'" "tab' ! q = Slot l w" "tab' ! r = Slot l' w'" "equals l l'"
    show "q = r"
    proof (cases "q = ?p"; cases "r = ?p")
      assume "q \<noteq> ?p" "r \<noteq> ?p"
      then show ?thesis using q assms(2) unfolding unique_keys_def tab'_def
        by (metis length_list_update nth_list_update_neq)
    next
      assume "q = ?p" "r \<noteq> ?p"
      then show ?thesis using q p no(2) [of r l' w'] by (simp add: tab'_def)
    next
      assume "q \<noteq> ?p" "r = ?p"
      then show ?thesis using q p no(1) [of q l w] by (simp add: tab'_def)
    qed simp
  qed
qed

lemma free_bin_exists:
  assumes "length tab = 2 ^ n" and "occupied tab < 2 ^ n"
  shows "\<exists>i < 2 ^ n. \<not> is_slot (tab ! probe_pos n h i)"
proof -
  obtain p where "p < length tab" "\<not> is_slot (tab ! p)"
    using occupied_full [of tab] assms by fastforce
  then show ?thesis using probe_pos_surj [of p n h] assms(1) by auto
qed

lemma rehash_bin_step:
  assumes "located hash n tab" and "unique_keys equals tab" and "length tab = 2 ^ n" and "n < 32"
    and "occupied tab < 2 ^ n" and "\<And>k' v'. Slot k' v' \<in> set tab \<Longrightarrow> \<not> equals k' k"
    and "Tomb \<notin> set tab"
  shows "\<exists>tab'. rehash_bin hash (2 ^ n - 1) (Slot k v) tab = Some tab' \<and>
    located hash n tab' \<and> unique_keys equals tab' \<and> length tab' = 2 ^ n \<and>
    occupied tab' = Suc (occupied tab) \<and> Tomb \<notin> set tab' \<and>
    (\<forall>k' v'. Slot k' v' \<in> set tab' \<longleftrightarrow> (k', v') = (k, v) \<or> Slot k' v' \<in> set tab)"
proof -
  let ?P = "\<lambda>i. \<not> is_slot (tab ! probe_pos n (hash k) i)"
  obtain d where d: "find ?P [0..<2 ^ n] = Some d"
    using free_bin_exists [OF assms(3,5), of "hash k"] by (metis find_upt_None not_Some_eq)
  then have D: "d < 2 ^ n" "?P d" "\<And>j. j < d \<Longrightarrow> \<not> ?P j" by (auto simp: find_upt_Some)
  then have ne: "tab ! probe_pos n (hash k) j \<noteq> Empty" if "j < d" for j
    using that by (metis is_slot.simps(2))
  have "rehash_bin hash (2 ^ n - 1) (Slot k v) tab = Some (tab[probe_pos n (hash k) d := Slot k v])"
    using d probe_free_find [OF assms(4,3)] assms(3) by (simp add: rehash_bin_def)
  with insert_slot [OF assms(1-3) D(1,2) ne assms(6)] assms(7) show ?thesis by simp
qed

lemma rehash_all:
  assumes "n < 32"
  shows "located hash n tab \<Longrightarrow> unique_keys equals tab \<Longrightarrow> length tab = 2 ^ n \<Longrightarrow>
    occupied tab + occupied bs < 2 ^ n \<Longrightarrow> unique_keys equals bs \<Longrightarrow> Tomb \<notin> set tab \<Longrightarrow>
    (\<And>k v k' v'. Slot k v \<in> set bs \<Longrightarrow> Slot k' v' \<in> set tab \<Longrightarrow> \<not> equals k' k) \<Longrightarrow>
    \<exists>tab'. foldM (rehash_bin hash (2 ^ n - 1)) bs tab = Some tab' \<and>
      located hash n tab' \<and> unique_keys equals tab' \<and> length tab' = 2 ^ n \<and>
      occupied tab' = occupied tab + occupied bs \<and> Tomb \<notin> set tab' \<and>
      (\<forall>k v. Slot k v \<in> set tab' \<longleftrightarrow> Slot k v \<in> set tab \<or> Slot k v \<in> set bs)"
proof (induction bs arbitrary: tab)
  case Nil
  then show ?case by (simp add: occupied_def)
next
  case (Cons b bs)
  have u: "unique_keys equals bs"
    using Cons.prems(5) unfolding unique_keys_def
    by (metis Suc_inject Suc_mono length_Cons nth_Cons_Suc)
  show ?case
  proof (cases b)
    case (Slot k v)
    have "occupied tab < 2 ^ n" using Cons.prems(4) by simp
    then obtain tab1 where t: "rehash_bin hash (2 ^ n - 1) (Slot k v) tab = Some tab1"
      "located hash n tab1" "unique_keys equals tab1" "length tab1 = 2 ^ n"
      "occupied tab1 = Suc (occupied tab)" "Tomb \<notin> set tab1"
      "\<And>k' v'. Slot k' v' \<in> set tab1 \<longleftrightarrow> (k', v') = (k, v) \<or> Slot k' v' \<in> set tab"
      using rehash_bin_step [OF Cons.prems(1-3) assms, of k v] Cons.prems(6) Cons.prems(7) [of k v] Slot
      by auto
    have fresh: "\<not> equals k l" if "Slot l w \<in> set bs" for l w
    proof
      assume e: "equals k l"
      from that obtain q where "q < length bs" "bs ! q = Slot l w" by (auto simp: in_set_conv_nth)
      with e Cons.prems(5) Slot show False
        unfolding unique_keys_def by (metis Suc_mono Zero_not_Suc length_Cons nth_Cons_0 nth_Cons_Suc zero_less_Suc)
    qed
    have "\<exists>tab'. foldM (rehash_bin hash (2 ^ n - 1)) bs tab1 = Some tab' \<and>
      located hash n tab' \<and> unique_keys equals tab' \<and> length tab' = 2 ^ n \<and>
      occupied tab' = occupied tab1 + occupied bs \<and> Tomb \<notin> set tab' \<and>
      (\<forall>k v. Slot k v \<in> set tab' \<longleftrightarrow> Slot k v \<in> set tab1 \<or> Slot k v \<in> set bs)"
      by (rule Cons.IH [OF t(2-4) _ u t(6)])
        (use Cons.prems(4,7) t(5,7) Slot fresh in \<open>auto simp: occupied_def\<close>)
    then show ?thesis using Slot t(1,5,7) by (auto simp: occupied_def)
  next
    case Empty
    with Cons.IH [OF Cons.prems(1-3) _ u Cons.prems(6)] Cons.prems(4,7) show ?thesis
      by (auto simp: rehash_bin_def occupied_def)
  next
    case Tomb
    with Cons.IH [OF Cons.prems(1-3) _ u Cons.prems(6)] Cons.prems(4,7) show ?thesis
      by (auto simp: rehash_bin_def occupied_def)
  qed
qed

lemma ht_map_content:
  assumes "unique_keys equals (bins t)" and "unique_keys equals (bins t')"
    and "zero_cell t' = zero_cell t"
    and "\<And>k v. Slot k v \<in> set (bins t') \<longleftrightarrow> Slot k v \<in> set (bins t)"
  shows "ht_map equals t' key = ht_map equals t key"
proof (cases key)
  case None
  then show ?thesis using assms(3) by (simp add: ht_map_def)
next
  case (Some k)
  from assms(1) show ?thesis
  proof (cases rule: ht_map_cases [where k = k])
    case (present p k' v)
    then have "Slot k' v \<in> set (bins t')" using assms(4) by (metis nth_mem)
    then obtain q where "q < length (bins t')" "bins t' ! q = Slot k' v" by (auto simp: in_set_conv_nth)
    then show ?thesis using ht_map_found [OF assms(2) _ _ present(3)] present(4) Some by simp
  next
    case absent
    then show ?thesis using ht_map_absent [of t' k] assms(4) Some by metis
  qed
qed

lemma ht_map_put:
  assumes "unique_keys equals (bins t')" and "unique_keys equals (bins t)" and "zero_cell t' = zero_cell t"
    and "\<And>k' v'. Slot k' v' \<in> set (bins t') \<longleftrightarrow>
      (k' = k0 \<and> v' = v) \<or> (\<not> equals k' k \<and> Slot k' v' \<in> set (bins t))"
    and "equals k0 k"
  shows "ht_map equals t' key = (if rel_option equals (Some k) key then Some v else ht_map equals t key)"
proof (cases key)
  case None
  then show ?thesis using assms(3) by (simp add: ht_map_def)
next
  case (Some l)
  show ?thesis
  proof (cases "equals k l")
    case True
    have "Slot k0 v \<in> set (bins t')" using assms(4) by simp
    then obtain q where "q < length (bins t')" "bins t' ! q = Slot k0 v" by (auto simp: in_set_conv_nth)
    then show ?thesis using ht_map_found [OF assms(1)] True Some equals_trans [OF assms(5) True] by simp
  next
    case False
    from assms(2) show ?thesis
    proof (cases rule: ht_map_cases [where k = l])
      case (present p k' w)
      then have "\<not> equals k' k" using False equals_sym equals_trans by blast
      then have "Slot k' w \<in> set (bins t')" using assms(4) present(1,2) by (metis nth_mem)
      then obtain q where "q < length (bins t')" "bins t' ! q = Slot k' w" by (auto simp: in_set_conv_nth)
      then show ?thesis using ht_map_found [OF assms(1) _ _ present(3)] present(4) Some False by simp
    next
      case absent
      have "\<not> equals k0 l" using False assms(5) equals_sym equals_trans by blast
      then have "\<not> equals k' l" if "Slot k' v' \<in> set (bins t')" for k' v'
        using that assms(4) [of k' v'] absent(1) [of k' v'] \<open>\<not> equals k0 l\<close> by auto
      then show ?thesis using ht_map_absent [of t' l] Some False absent(2) by simp
    qed
  qed
qed

lemma resize_correct:
  fixes t :: "('k, 'v) hashtable"
  assumes "ht_inv hash equals t" and "2 * capacity t < 2 ^ 32"
  shows "\<exists>t'. ht_resize hash (2 * capacity t mod 2 ^ 32) t = Some t' \<and> ht_inv hash equals t' \<and>
    (\<forall>key. ht_map equals t' key = ht_map equals t key) \<and> no_tombs t' \<and> ht_size t' = ht_size t \<and>
    zero_cell t' = zero_cell t \<and> occupied (bins t') \<le> threshold t'"
proof -
  from assms obtain n where n: "shape n t" "located hash n (bins t)" and u: "unique_keys equals (bins t)"
    and occ: "occupied (bins t) \<le> threshold t + 1"
    and size: "ht_size t = occupied (bins t) + (if zero_cell t = None then 0 else 1)"
    by (auto simp: ht_inv_def)
  then have s: "2 \<le> n" "n < 32" "capacity t = 2 ^ n" "length (bins t) = 2 ^ n" "threshold t = 2 ^ n div 2"
    by (auto simp: shape_def)
  have "(2::nat) ^ Suc n < 2 ^ 32" using assms(2) s by simp
  then have n1: "Suc n < 32" by (rule power_less_imp_less_exp [rotated]) simp
  have cap2: "2 * capacity t mod 2 ^ 32 = 2 ^ Suc n" using assms(2) s by simp
  let ?new = "replicate (2 ^ Suc n) Empty :: ('k, 'v) slot list"
  have new: "located hash (Suc n) ?new" "unique_keys equals ?new" "length ?new = 2 ^ Suc n"
    "occupied ?new = 0"
    by (auto simp: located_def unique_keys_def occupied_def simp del: power_Suc)
  obtain m where m: "n = Suc (Suc m)" using s(1) by (metis Suc_le_D numeral_2_eq_2 Suc_le_mono)
  have "occupied (bins t) \<le> Suc (2 * 2 ^ m)" using occ s(5) m by simp
  moreover have "1 \<le> (2::nat) ^ m" by simp
  moreover have "(2::nat) ^ n = 4 * 2 ^ m" using m by simp
  ultimately have occ2: "occupied (bins t) \<le> 2 ^ n" by linarith
  have "\<exists>tab'. foldM (rehash_bin hash (2 ^ Suc n - 1)) (bins t) ?new = Some tab' \<and>
      located hash (Suc n) tab' \<and> unique_keys equals tab' \<and> length tab' = 2 ^ Suc n \<and>
      occupied tab' = occupied ?new + occupied (bins t) \<and> Tomb \<notin> set tab' \<and>
      (\<forall>k v. Slot k v \<in> set tab' \<longleftrightarrow> Slot k v \<in> set ?new \<or> Slot k v \<in> set (bins t))"
    by (rule rehash_all [OF n1 new(1-3) _ u])
      (use occ2 new(4) in \<open>auto intro: le_less_trans\<close>)
  then obtain tab where tab: "foldM (rehash_bin hash (2 ^ Suc n - 1)) (bins t) ?new = Some tab"
      "located hash (Suc n) tab" "unique_keys equals tab" "length tab = 2 ^ Suc n"
      "occupied tab = occupied (bins t)" "Tomb \<notin> set tab"
      "\<And>k v. Slot k v \<in> set tab \<longleftrightarrow> Slot k v \<in> set (bins t)"
    using new(4) by (auto simp del: power_Suc)
  let ?t = "t\<lparr> bins := tab, capacity := 2 ^ Suc n, capacitymask := 2 ^ Suc n - 1,
    threshold := 2 ^ Suc n div 2 \<rparr>"
  have res: "ht_resize hash (2 * capacity t mod 2 ^ 32) t = Some ?t"
    unfolding ht_resize_def cap2 using tab(1) by (simp add: Let_def)
  have "shape (Suc n) ?t" using tab(4) s(1) n1 by (simp add: shape_def)
  then have "ht_inv hash equals ?t"
    using tab(2,3,5) size occ2 by (auto simp: ht_inv_def)
  moreover have "ht_map equals ?t key = ht_map equals t key" for key
    by (rule ht_map_content) (use u tab in auto)
  ultimately show ?thesis using res tab occ2 by (auto simp: no_tombs_def)
qed

text \<open>
  \<open>put\<close> is correct when the table has no tombstone or when the key is not in it, which is how
  the program calls it: tables whose keys are removed are those of a \<open>HashSet\<close>, and
  \<open>HashSet::add\<close> looks the key up first.
\<close>

lemma put_no_resize:
  fixes t :: "('k, 'v) hashtable"
  assumes inv: "ht_inv hash equals t" and room: "occupied (bins t) \<le> threshold t"
    and ok: "no_tombs t \<or> ht_map equals t (Some k) = None"
  shows "\<exists>t'. put_bin hash equals k v t = Some t' \<and> ht_inv hash equals t' \<and> (no_tombs t \<longrightarrow> no_tombs t') \<and>
    ht_size t' = ht_size t + (if ht_map equals t (Some k) = None then 1 else 0) \<and>
    (\<forall>key. ht_map equals t' key = (if rel_option equals (Some k) key then Some v else ht_map equals t key))"
proof -
  from inv obtain n where n: "shape n t" "located hash n (bins t)" and u: "unique_keys equals (bins t)"
    and size: "ht_size t = occupied (bins t) + (if zero_cell t = None then 0 else 1)"
    by (auto simp: ht_inv_def)
  then have s: "2 \<le> n" "n < 32" "capacity t = 2 ^ n" "length (bins t) = 2 ^ n" "threshold t = 2 ^ n div 2"
    "capacitymask t = 2 ^ n - 1"
    by (auto simp: shape_def)
  let ?pos = "probe_pos n (hash k)"
  let ?P = "\<lambda>i. stop_put equals k (bins t ! ?pos i)"
  have "2 ^ n div 2 < (2::nat) ^ n" by simp
  then have lt: "occupied (bins t) < 2 ^ n" using room s(5) by linarith
  have stop: "\<not> is_slot x \<Longrightarrow> stop_put equals k x" for x :: "('k, 'v) slot" by (cases x) auto
  obtain d where d: "find ?P [0..<2 ^ n] = Some d"
    using free_bin_exists [OF s(4) lt, of "hash k"] stop by (metis find_upt_None not_Some_eq)
  then have D: "d < 2 ^ n" "?P d" "\<And>j. j < d \<Longrightarrow> \<not> ?P j" by (auto simp: find_upt_Some)
  have probe: "probe_put equals (bins t) (capacitymask t) k (capacity t) (hash k) = Some (?pos d)"
    using d probe_put_find [OF s(2,4), of equals k "2 ^ n" "hash k"] s(3,6) by simp
  have p: "?pos d < length (bins t)" using s(4) by simp
  show ?thesis
  proof (cases "is_slot (bins t ! ?pos d)")
    case True
    then obtain k0 w where kw: "bins t ! ?pos d = Slot k0 w" by (cases "bins t ! ?pos d") auto
    then have eq: "equals k0 k" using D(2) by simp
    let ?t = "t\<lparr> bins := (bins t)[?pos d := Slot k0 v] \<rparr>"
    have put: "put_bin hash equals k v t = Some ?t" using probe kw by (simp add: put_bin_def)
    have upd: "(bins t)[?pos d := Slot k0 v] ! q = (if q = ?pos d then Slot k0 v else bins t ! q)"
      if "q < length (bins t)" for q using that by simp
    have loc: "located hash n (bins ?t)"
    proof -
      have "\<exists>d' < 2 ^ n. probe_pos n (hash k0) d' = ?pos d \<and>
          (\<forall>j < d'. bins t ! probe_pos n (hash k0) j \<noteq> Empty)"
        using n(2) kw p unfolding located_def by blast
      then show ?thesis using located_update [OF n(2) s(4) p, of "Slot k0 v"] by simp
    qed
    have uq: "unique_keys equals (bins ?t)"
      unfolding unique_keys_def
    proof (intro allI impI)
      fix q r l x l' x'
      assume a: "q < length (bins ?t)" "r < length (bins ?t)" "bins ?t ! q = Slot l x"
        "bins ?t ! r = Slot l' x'" "equals l l'"
      then have "\<exists>y. bins t ! q = Slot l y" "\<exists>y. bins t ! r = Slot l' y"
        using upd kw by (auto split: if_splits)
      then show "q = r" using a(1,2,5) u unfolding unique_keys_def by auto
    qed
    have occ: "occupied (bins ?t) = occupied (bins t)"
      using occupied_update [OF p, of "Slot k0 v"] kw by simp
    have content: "Slot k' v' \<in> set (bins ?t) \<longleftrightarrow>
        (k' = k0 \<and> v' = v) \<or> (\<not> equals k' k \<and> Slot k' v' \<in> set (bins t))" for k' v'
    proof
      assume "Slot k' v' \<in> set (bins ?t)"
      then obtain q where q: "q < length (bins t)" "bins ?t ! q = Slot k' v'" by (auto simp: in_set_conv_nth)
      show "(k' = k0 \<and> v' = v) \<or> (\<not> equals k' k \<and> Slot k' v' \<in> set (bins t))"
      proof (cases "q = ?pos d")
        case True
        then show ?thesis using q p by simp
      next
        case False
        then have q': "bins t ! q = Slot k' v'" using q by simp
        have "\<not> equals k' k"
        proof
          assume "equals k' k"
          then have "equals k' k0" using eq equals_sym equals_trans by blast
          then show False using u q(1) q' p kw False unfolding unique_keys_def by blast
        qed
        then show ?thesis using q(1) q' by (metis nth_mem)
      qed
    next
      assume "(k' = k0 \<and> v' = v) \<or> (\<not> equals k' k \<and> Slot k' v' \<in> set (bins t))"
      then show "Slot k' v' \<in> set (bins ?t)"
      proof
        assume "k' = k0 \<and> v' = v"
        then show ?thesis using p by (auto simp: in_set_conv_nth)
      next
        assume a: "\<not> equals k' k \<and> Slot k' v' \<in> set (bins t)"
        then obtain q where q: "q < length (bins t)" "bins t ! q = Slot k' v'" by (auto simp: in_set_conv_nth)
        then have "q \<noteq> ?pos d" using a kw eq by auto
        then show ?thesis using q nth_mem [of q "(bins t)[?pos d := Slot k0 v]"] by simp
      qed
    qed
    have "ht_inv hash equals ?t" using n(1) loc uq occ size room by (auto simp: ht_inv_def shape_def)
    moreover have "no_tombs t \<longrightarrow> no_tombs ?t"
      using set_update_subset_insert [of "bins t" "?pos d" "Slot k0 v"] by (auto simp: no_tombs_def)
    moreover have "ht_map equals t (Some k) \<noteq> None" using ht_map_found [OF u p kw eq] by simp
    ultimately show ?thesis
      using put ht_map_put [OF uq u _ content eq] by (intro exI [of _ ?t]) simp
  next
    case False
    have ne: "bins t ! ?pos j \<noteq> Empty" if "j < d" for j using D(3) [OF that] by (cases "bins t ! ?pos j") auto
    have absent: "\<not> equals k' k" if "Slot k' v' \<in> set (bins t)" for k' v'
    proof (cases "ht_map equals t (Some k)")
      case None
      then show ?thesis using that by (rule ht_map_absentD)
    next
      case (Some w)
      then have "bins t ! ?pos d \<noteq> Tomb" using ok p by (metis no_tombs_def nth_mem option.distinct(1))
      then have emp: "bins t ! ?pos d = Empty" using False by (cases "bins t ! ?pos d") auto
      from that obtain q where q: "q < length (bins t)" "bins t ! q = Slot k' v'" by (auto simp: in_set_conv_nth)
      show ?thesis
      proof
        assume e: "equals k' k"
        from find_present [OF n(2) u s(4) q e] obtain m where
          m: "?pos m = q" "find (\<lambda>i. stop_find equals k (bins t ! ?pos i)) [0..<2 ^ n] = Some m" by blast
        have "d \<noteq> m" using emp m(1) q(2) by auto
        moreover have "\<not> m < d" using D(3) [of m] m(1) q(2) e by auto
        moreover have "\<not> d < m" using m(2) emp by (auto simp: find_upt_Some)
        ultimately show False by simp
      qed
    qed
    note ins = insert_slot [OF n(2) u s(4) D(1) False ne absent, where v = v]
    let ?t = "t\<lparr> bins := (bins t)[?pos d := Slot k v], ht_size := ht_size t + 1 \<rparr>"
    have put: "put_bin hash equals k v t = Some ?t"
      using probe False by (cases "bins t ! ?pos d") (auto simp: put_bin_def)
    have "ht_inv hash equals ?t"
      using n(1) ins(1-4) size room by (auto simp: ht_inv_def shape_def)
    moreover have "no_tombs t \<longrightarrow> no_tombs ?t" using ins(6) by (simp add: no_tombs_def)
    moreover have "ht_map equals ?t key =
        (if rel_option equals (Some k) key then Some v else ht_map equals t key)" for key
      by (rule ht_map_put [where k0 = k]) (use ins u absent equals_refl in auto)
    moreover have "ht_map equals t (Some k) = None" using absent by (rule ht_map_absent)
    ultimately show ?thesis using put by (intro exI [of _ ?t]) simp
  qed
qed

theorem put_correct:
  fixes t :: "('k, 'v) hashtable"
  assumes inv: "ht_inv hash equals t" and "ht_size t \<le> 2 ^ 30"
    and ok: "no_tombs t \<or> ht_map equals t key = None"
  shows "\<exists>t'. ht_put hash equals key v t = Some t' \<and> ht_inv hash equals t' \<and> (no_tombs t \<longrightarrow> no_tombs t') \<and>
    ht_size t' = ht_size t + (if ht_map equals t key = None then 1 else 0) \<and>
    (\<forall>key'. ht_map equals t' key' = (if rel_option equals key key' then Some v else ht_map equals t key'))"
proof (cases key)
  case None
  then show ?thesis
    using inv by (auto simp: ht_put_def ht_inv_def ht_map_def no_tombs_def shape_def split: option.splits)
next
  case (Some k)
  obtain t1 where t1: "(if ht_size t > threshold t then ht_resize hash (2 * capacity t mod 2 ^ 32) t else Some t) = Some t1"
    "ht_inv hash equals t1" "occupied (bins t1) \<le> threshold t1"
    "\<And>key. ht_map equals t1 key = ht_map equals t key" "no_tombs t \<longrightarrow> no_tombs t1"
    "no_tombs t1 \<or> ht_map equals t1 (Some k) = None" "ht_size t1 = ht_size t"
  proof (cases "ht_size t > threshold t")
    case True
    from inv obtain n where n: "n < 32" "capacity t = 2 ^ n" "threshold t = 2 ^ n div 2" "2 \<le> n"
      by (auto simp: ht_inv_def shape_def)
    have "n \<noteq> 31" using True assms(2) n(3) by auto
    then have "(2::nat) ^ Suc n < 2 ^ 32" using n(1) by (intro power_strict_increasing) auto
    then have "2 * capacity t < 2 ^ 32" using n(2) by simp
    from resize_correct [OF inv this] show ?thesis using True that by auto
  next
    case False
    then have "occupied (bins t) \<le> threshold t" using inv by (auto simp: ht_inv_def split: if_splits)
    then show ?thesis using False that [of t] inv ok Some by simp
  qed
  from put_no_resize [OF t1(2,3,6), of v] show ?thesis
    using t1(1,4,5,7) Some by (auto simp: ht_put_def)
qed

theorem remove_correct:
  fixes t :: "('k, 'v) hashtable"
  assumes inv: "ht_inv hash equals t" and ok: "no_tombs t \<or> ht_map equals t key \<noteq> None"
  shows "\<exists>t'. ht_remove hash equals key t = Some (ht_map equals t key, t') \<and> ht_inv hash equals t' \<and>
    ht_size t = ht_size t' + (if ht_map equals t key = None then 0 else 1) \<and>
    (\<forall>key'. ht_map equals t' key' = (if rel_option equals key key' then None else ht_map equals t key'))"
proof (cases key)
  case None
  then show ?thesis
    using inv by (cases "zero_cell t")
      (auto simp: ht_remove_def ht_inv_def ht_map_def shape_def split: option.splits)
next
  case (Some k)
  from inv obtain n where n: "shape n t" "located hash n (bins t)" and u: "unique_keys equals (bins t)"
    and occ: "occupied (bins t) \<le> threshold t + 1"
    and size: "ht_size t = occupied (bins t) + (if zero_cell t = None then 0 else 1)"
    by (auto simp: ht_inv_def)
  then have s: "2 \<le> n" "n < 32" "capacity t = 2 ^ n" "length (bins t) = 2 ^ n" "threshold t = 2 ^ n div 2"
    "capacitymask t = 2 ^ n - 1"
    by (auto simp: shape_def)
  let ?pos = "probe_pos n (hash k)"
  note probe = probe_find_find [OF s(2,4), of equals k "2 ^ n" "hash k"]
  from u show ?thesis
  proof (cases rule: ht_map_cases [where k = k])
    case (present p k' v)
    from find_present [OF n(2) u s(4) present(1-3)] obtain d where
      d: "?pos d = p" "find (\<lambda>i. stop_find equals k (bins t ! ?pos i)) [0..<2 ^ n] = Some d" by blast
    let ?t = "t\<lparr> bins := (bins t)[p := Tomb], ht_size := ht_size t - 1 \<rparr>"
    have rem: "ht_remove hash equals key t = Some (Some v, ?t)"
      using Some s probe d present(2) by (auto simp: ht_remove_def found_def)
    have loc: "located hash n (bins ?t)"
      using located_update [OF n(2) s(4) present(1), of Tomb] by simp
    have old: "bins t ! q = Slot l w \<and> q \<noteq> p" if "q < length (bins t)" "bins ?t ! q = Slot l w" for q l w
      using that present(1) by (cases "q = p") auto
    have uq: "unique_keys equals (bins ?t)"
      using u old unfolding unique_keys_def by (metis length_list_update hashtable.select_convs(1) hashtable.surjective hashtable.update_convs(1,6))
    have occ1: "occupied (bins ?t) + 1 = occupied (bins t)"
      using occupied_update [OF present(1), of Tomb] present(2) by simp
    then have "ht_inv hash equals ?t"
      using n(1) loc uq size occ by (auto simp: ht_inv_def shape_def)
    moreover have "ht_map equals ?t key' =
        (if rel_option equals key key' then None else ht_map equals t key')" for key'
    proof (cases key')
      case None
      then show ?thesis using Some by (simp add: ht_map_def)
    next
      case (Some l)
      have mem: "Slot k2 w \<in> set (bins ?t) \<longleftrightarrow> Slot k2 w \<in> set (bins t) \<and> \<not> equals k2 k" for k2 w
      proof
        assume "Slot k2 w \<in> set (bins ?t)"
        then obtain q where q: "q < length (bins t)" "bins ?t ! q = Slot k2 w" by (auto simp: in_set_conv_nth)
        have "\<not> equals k2 k"
        proof
          assume "equals k2 k"
          then have "equals k2 k'" using present(3) equals_sym equals_trans by blast
          then show False using u q(1) old [OF q] present(1,2) unfolding unique_keys_def by blast
        qed
        then show "Slot k2 w \<in> set (bins t) \<and> \<not> equals k2 k" using old [OF q] q(1) by (metis nth_mem)
      next
        assume a: "Slot k2 w \<in> set (bins t) \<and> \<not> equals k2 k"
        then obtain q where q: "q < length (bins t)" "bins t ! q = Slot k2 w" by (auto simp: in_set_conv_nth)
        then have "q \<noteq> p" using a present(2,3) by auto
        then show "Slot k2 w \<in> set (bins ?t)" using q nth_mem [of q "(bins t)[p := Tomb]"] by simp
      qed
      show ?thesis
      proof (cases "equals k l")
        case True
        then have "\<not> equals k2 l" if "Slot k2 w \<in> set (bins ?t)" for k2 w
          using that mem [of k2 w] equals_sym [OF True] equals_trans [of k2 l k] by blast
        from ht_map_absent [of ?t l, OF this] show ?thesis using True Some \<open>key = Some k\<close> by simp
      next
        case False
        have "ht_map equals ?t (Some l) = ht_map equals t (Some l)"
        proof (rule ht_map_cases [OF u, of l])
          fix q k2 w assume q: "q < length (bins t)" "bins t ! q = Slot k2 w" "equals k2 l"
            "ht_map equals t (Some l) = Some w"
          have "\<not> equals k2 k" using q(3) False equals_sym equals_trans by blast
          then have "Slot k2 w \<in> set (bins ?t)" using mem q(1,2) by (metis nth_mem)
          then obtain r where "r < length (bins ?t)" "bins ?t ! r = Slot k2 w" by (auto simp: in_set_conv_nth)
          then show ?thesis using ht_map_found [OF uq _ _ q(3)] q(4) by simp
        next
          assume "\<And>k2 w. Slot k2 w \<in> set (bins t) \<Longrightarrow> \<not> equals k2 l" "ht_map equals t (Some l) = None"
          then show ?thesis using ht_map_absent [of ?t l] mem by metis
        qed
        then show ?thesis using False Some \<open>key = Some k\<close> by simp
      qed
    qed
    moreover have "ht_size t = ht_size ?t + 1" using occ1 size by simp
    ultimately show ?thesis using rem present(4) Some by (intro exI [of _ ?t]) simp
  next
    case absent
    then have nt: "no_tombs t" using ok Some by simp
    have "2 ^ n div 2 + 1 < (2::nat) ^ n"
    proof -
      obtain m where "n = Suc (Suc m)" using s(1) by (metis Suc_le_D numeral_2_eq_2 Suc_le_mono)
      moreover have "0 < (2::nat) ^ m" by simp
      then have "1 < 2 * (2::nat) ^ m" by linarith
      ultimately show ?thesis by simp
    qed
    then have "occupied (bins t) < 2 ^ n" using occ s(5) by linarith
    then obtain i where i: "i < 2 ^ n" "\<not> is_slot (bins t ! ?pos i)"
      using free_bin_exists [OF s(4)] by blast
    moreover have "bins t ! ?pos i \<noteq> Tomb" using nt s(4) by (metis no_tombs_def nth_mem probe_pos_less)
    ultimately have "stop_find equals k (bins t ! ?pos i)" by (cases "bins t ! ?pos i") auto
    then obtain d where d: "find (\<lambda>i. stop_find equals k (bins t ! ?pos i)) [0..<2 ^ n] = Some d"
      using i(1) by (metis find_upt_None not_Some_eq)
    from find_absent [OF s(4) absent(1) d] have "ht_remove hash equals key t = Some (None, t)"
      using Some s probe d by (simp add: ht_remove_def found_def)
    moreover have "ht_map equals t key' = (if rel_option equals key key' then None else ht_map equals t key')" for key'
    proof (cases key')
      case (Some l)
      show ?thesis
      proof (cases "equals k l")
        case True
        then have "\<not> equals k2 l" if "Slot k2 w \<in> set (bins t)" for k2 w
          using that absent(1) [of k2 w] equals_sym [OF True] equals_trans [of k2 l k] by blast
        from ht_map_absent [of t l, OF this] show ?thesis using Some by simp
      qed (simp add: Some \<open>key = Some k\<close>)
    qed (simp add: Some)
    ultimately show ?thesis using inv absent(2) Some by auto
  qed
qed

theorem contains_correct:
  assumes inv: "ht_inv hash equals t" and ok: "no_tombs t \<or> ht_map equals t key \<noteq> None"
  shows "ht_contains hash equals key t = Some (ht_map equals t key \<noteq> None)"
proof (cases key)
  case None
  then show ?thesis by (simp add: ht_contains_def ht_map_def)
next
  case (Some k)
  from remove_correct [OF inv ok] obtain t' where r: "ht_remove hash equals key t = Some (ht_map equals t key, t')"
    by blast
  let ?probe = "probe_find equals (bins t) (capacitymask t) k (capacity t) (hash k)"
  from r Some obtain x where x: "?probe = Some x" by (auto simp: ht_remove_def Option.bind_eq_Some_conv)
  have "x \<noteq> None \<longleftrightarrow> ht_map equals t key \<noteq> None"
  proof (cases x)
    case None
    then show ?thesis using r x Some by (auto simp: ht_remove_def)
  next
    case (Some i)
    then show ?thesis using r x \<open>key = Some k\<close>
      by (cases "bins t ! i") (auto simp: ht_remove_def dest: sym)
  qed
  then show ?thesis using x Some by (simp add: ht_contains_def)
qed

lemma find_replicate_Empty: "find (has_key equals k) (replicate m Empty) = None"
  by (induction m) (auto simp: has_key_def)

lemma new_table_inv:
  assumes "2 \<le> n" and "n < 32"
  shows "ht_inv hash equals (new_table (2 ^ n))" and "no_tombs (new_table (2 ^ n))"
    and "ht_map equals (new_table (2 ^ n)) key = None"
proof -
  show "ht_map equals (new_table (2 ^ n)) key = None"
    by (auto simp: ht_map_def new_table_def find_replicate_Empty split: option.splits)
  show "no_tombs (new_table (2 ^ n))" by (simp add: no_tombs_def new_table_def)
  have "shape n (new_table (2 ^ n))" using assms by (simp add: shape_def new_table_def)
  then show "ht_inv hash equals (new_table (2 ^ n))"
    by (auto simp: ht_inv_def located_def unique_keys_def occupied_def new_table_def)
qed

lemma reset_inv:
  assumes "ht_inv hash equals t"
  shows "ht_inv hash equals (ht_reset t)" and "no_tombs (ht_reset t)" and "ht_map equals (ht_reset t) key = None"
proof -
  from assms obtain n where n: "shape n t" by (auto simp: ht_inv_def)
  show "ht_map equals (ht_reset t) key = None"
    by (auto simp: ht_map_def ht_reset_def find_replicate_Empty split: option.splits)
  show "no_tombs (ht_reset t)" by (simp add: no_tombs_def ht_reset_def)
  have "shape n (ht_reset t)" using n by (simp add: shape_def ht_reset_def)
  then show "ht_inv hash equals (ht_reset t)"
    by (auto simp: ht_inv_def located_def unique_keys_def occupied_def ht_reset_def)
qed

end

subsection \<open>Default hash and equality\<close>

definition default_hash_function :: "nat \<Rightarrow> uint64 \<Rightarrow> uint32" where
  "default_hash_function Shift h = ucast (drop_bit Shift h)"

definition default_equals :: "'k \<Rightarrow> 'k \<Rightarrow> bool" where
  "default_equals k1 k2 \<longleftrightarrow> k1 = k2"

interpretation int_key: hash_keys "default_hash_function Shift" default_equals for Shift
  by unfold_locales (auto simp: default_equals_def)

text \<open>
  \<open>put\<close> does not look past a tombstone: with a tombstone before an occupied bin of the same
  home, putting the second key again stores it twice, and removing it once leaves the old value.
\<close>

definition reinsert_example :: "(uint64, nat) hashtable option" where
  "reinsert_example = do {
     t \<leftarrow> ht_put (default_hash_function 0) default_equals (Some 1) 10 (new_table 4);
     t \<leftarrow> ht_put (default_hash_function 0) default_equals (Some 5) 50 t;
     (_, t) \<leftarrow> ht_remove (default_hash_function 0) default_equals (Some 1) t;
     t \<leftarrow> ht_put (default_hash_function 0) default_equals (Some 5) 51 t;
     (_, t) \<leftarrow> ht_remove (default_hash_function 0) default_equals (Some 5) t;
     Some t }"

lemma put_after_remove_duplicates:
  "Option.bind reinsert_example (ht_get (default_hash_function 0) default_equals (Some 5)) = Some (Some 50)"
  by code_simp

end
