(* ===== verification/HashSets.thy ===== *)
theory HashSets
  imports HashTables
begin

section \<open>The hash set (hashset.h)\<close>

text \<open>
  \<open>HashSet\<close> is a \<open>HashTable\<close> from keys to link nodes together with the doubly linked list
  of those nodes, which gives its iterators the order of insertion. Nodes are cells of a store
  \<open>nodes\<close>; \<open>_malloc\<close> hands out the cell \<open>next_node\<close> and \<open>_free\<close> empties a cell, so a read of a
  freed node is undefined. A key is \<open>None\<close> for the null key.
\<close>

record 'k link_node =
  node_key :: "'k option"
  node_prev :: "nat option"
  node_next :: "nat option"

record 'k hashset =
  hs_table :: "('k, nat) hashtable"
  nodes :: "nat \<Rightarrow> 'k link_node option"
  next_node :: nat
  hs_list :: "nat option"
  hs_tail :: "nat option"

definition new_hashset :: "nat \<Rightarrow> 'k hashset" where
  "new_hashset initialcapacity =
     \<lparr> hs_table = new_table initialcapacity, nodes = (\<lambda>_. None), next_node = 0, hs_list = None, hs_tail = None \<rparr>"

subsection \<open>Operations\<close>

definition set_next :: "nat \<Rightarrow> nat option \<Rightarrow> (nat \<Rightarrow> 'k link_node option) \<Rightarrow> (nat \<Rightarrow> 'k link_node option) option" where
  "set_next a nx ns = map_option (\<lambda>n. ns(a \<mapsto> n\<lparr> node_next := nx \<rparr>)) (ns a)"

definition set_prev :: "nat \<Rightarrow> nat option \<Rightarrow> (nat \<Rightarrow> 'k link_node option) \<Rightarrow> (nat \<Rightarrow> 'k link_node option) option" where
  "set_prev a p ns = map_option (\<lambda>n. ns(a \<mapsto> n\<lparr> node_prev := p \<rparr>)) (ns a)"

definition hs_add :: "('k \<Rightarrow> uint32) \<Rightarrow> ('k \<Rightarrow> 'k \<Rightarrow> bool) \<Rightarrow> 'k option \<Rightarrow> 'k hashset \<Rightarrow> (bool \<times> 'k hashset) option" where
  "hs_add hash equals key s = do {
     val \<leftarrow> ht_get hash equals key (hs_table s);
     (case val of
        Some _ \<Rightarrow> Some (False, s)
      | None \<Rightarrow> do {
          let newnode = next_node s;
          let ns = (nodes s)(newnode \<mapsto> \<lparr> node_key = key, node_prev = hs_tail s, node_next = None \<rparr>);
          ns \<leftarrow> (case hs_tail s of Some t \<Rightarrow> set_next t (Some newnode) ns | None \<Rightarrow> Some ns);
          t \<leftarrow> ht_put hash equals key newnode (hs_table s);
          Some (True, \<lparr> hs_table = t, nodes = ns, next_node = Suc newnode,
                        hs_list = (if hs_tail s = None then Some newnode else hs_list s),
                        hs_tail = Some newnode \<rparr>) }) }"

definition hs_get :: "('k \<Rightarrow> uint32) \<Rightarrow> ('k \<Rightarrow> 'k \<Rightarrow> bool) \<Rightarrow> 'k option \<Rightarrow> 'k hashset \<Rightarrow> 'k option option" where
  "hs_get hash equals key s = do {
     val \<leftarrow> ht_get hash equals key (hs_table s);
     (case val of Some a \<Rightarrow> map_option node_key (nodes s a) | None \<Rightarrow> Some None) }"

definition hs_contains :: "('k \<Rightarrow> uint32) \<Rightarrow> ('k \<Rightarrow> 'k \<Rightarrow> bool) \<Rightarrow> 'k option \<Rightarrow> 'k hashset \<Rightarrow> bool option" where
  "hs_contains hash equals key s = map_option (\<lambda>val. val \<noteq> None) (ht_get hash equals key (hs_table s))"

definition hs_remove :: "('k \<Rightarrow> uint32) \<Rightarrow> ('k \<Rightarrow> 'k \<Rightarrow> bool) \<Rightarrow> 'k option \<Rightarrow> 'k hashset \<Rightarrow> (bool \<times> 'k hashset) option" where
  "hs_remove hash equals key s = do {
     val \<leftarrow> ht_get hash equals key (hs_table s);
     (case val of
        None \<Rightarrow> Some (False, s)
      | Some a \<Rightarrow> do {
          (_, t) \<leftarrow> ht_remove hash equals key (hs_table s);
          old \<leftarrow> nodes s a;
          ns \<leftarrow> (case node_prev old of None \<Rightarrow> Some (nodes s) | Some p \<Rightarrow> set_next p (node_next old) (nodes s));
          ns \<leftarrow> (case node_next old of None \<Rightarrow> Some ns | Some nx \<Rightarrow> set_prev nx (node_prev old) ns);
          Some (True, s\<lparr> hs_table := t, nodes := ns(a := None),
                         hs_list := (if node_prev old = None then node_next old else hs_list s),
                         hs_tail := (if node_next old = None then node_prev old else hs_tail s) \<rparr>) }) }"

definition hs_reset :: "'k hashset \<Rightarrow> 'k hashset" where
  "hs_reset s = s\<lparr> nodes := (\<lambda>_. None), hs_list := None, hs_tail := None, hs_table := ht_reset (hs_table s) \<rparr>"

definition hs_getSize :: "'k hashset \<Rightarrow> nat" where
  "hs_getSize s = ht_getSize (hs_table s)"

definition hs_isEmpty :: "'k hashset \<Rightarrow> bool" where
  "hs_isEmpty s = (hs_getSize s = 0)"

definition getFirstKey :: "'k hashset \<Rightarrow> 'k option option" where
  "getFirstKey s = Option.bind (hs_list s) (\<lambda>a. map_option node_key (nodes s a))"

subsection \<open>Iterators\<close>

record hs_iterator =
  it_curr :: "nat option"
  it_last :: "nat option"

definition hs_iterator_of :: "'k hashset \<Rightarrow> hs_iterator" where
  "hs_iterator_of s = \<lparr> it_curr = hs_list s, it_last = None \<rparr>"

definition it_hasNext :: "hs_iterator \<Rightarrow> bool" where
  "it_hasNext it = (it_curr it \<noteq> None)"

definition it_next :: "'k hashset \<Rightarrow> hs_iterator \<Rightarrow> ('k option \<times> hs_iterator) option" where
  "it_next s it = do {
     a \<leftarrow> it_curr it;
     n \<leftarrow> nodes s a;
     Some (node_key n, \<lparr> it_curr = node_next n, it_last = Some a \<rparr>) }"

definition it_currKey :: "'k hashset \<Rightarrow> hs_iterator \<Rightarrow> 'k option option" where
  "it_currKey s it = do { a \<leftarrow> it_last it; n \<leftarrow> nodes s a; Some (node_key n) }"

definition it_remove :: "('k \<Rightarrow> uint32) \<Rightarrow> ('k \<Rightarrow> 'k \<Rightarrow> bool) \<Rightarrow> hs_iterator \<Rightarrow> 'k hashset
    \<Rightarrow> (bool \<times> 'k hashset) option" where
  "it_remove hash equals it s = do { k \<leftarrow> it_currKey s it; hs_remove hash equals k s }"

text \<open>The loop \<open>while(it->hasNext()) it->next()\<close>, with one step of fuel per node.\<close>

fun it_collect :: "nat \<Rightarrow> 'k hashset \<Rightarrow> hs_iterator \<Rightarrow> 'k option list option" where
  "it_collect 0 s it = (if it_hasNext it then None else Some [])"
| "it_collect (Suc fuel) s it =
     (if it_hasNext it
      then do { (k, it) \<leftarrow> it_next s it; ks \<leftarrow> it_collect fuel s it; Some (k # ks) }
      else Some [])"

fun hs_add_all :: "('k \<Rightarrow> uint32) \<Rightarrow> ('k \<Rightarrow> 'k \<Rightarrow> bool) \<Rightarrow> 'k option list \<Rightarrow> 'k hashset \<Rightarrow> 'k hashset option" where
  "hs_add_all hash equals [] s = Some s"
| "hs_add_all hash equals (k # ks) s = do { (_, s) \<leftarrow> hs_add hash equals k s; hs_add_all hash equals ks s }"

definition hs_copy :: "('k \<Rightarrow> uint32) \<Rightarrow> ('k \<Rightarrow> 'k \<Rightarrow> bool) \<Rightarrow> 'k hashset \<Rightarrow> 'k hashset option" where
  "hs_copy hash equals s = do {
     ks \<leftarrow> it_collect (next_node s) s (hs_iterator_of s);
     hs_add_all hash equals ks (new_hashset (capacity (hs_table s))) }"

subsection \<open>Linked list segments\<close>

text \<open>
  \<open>seg ns p c t e xs\<close>: from cell \<open>c\<close>, whose predecessor is \<open>p\<close>, the list runs through the cells
  and keys \<open>xs\<close> up to (and without) cell \<open>e\<close>, and \<open>t\<close> is the last cell of it.
\<close>

fun seg :: "(nat \<Rightarrow> 'k link_node option) \<Rightarrow> nat option \<Rightarrow> nat option \<Rightarrow> nat option \<Rightarrow> nat option
    \<Rightarrow> (nat \<times> 'k option) list \<Rightarrow> bool" where
  "seg ns p c t e [] \<longleftrightarrow> c = e \<and> t = p"
| "seg ns p c t e ((a, k) # xs) \<longleftrightarrow>
     c = Some a \<and> (\<exists>n. ns a = Some n \<and> node_key n = k \<and> node_prev n = p \<and> seg ns (Some a) (node_next n) t e xs)"

lemma seg_append: "seg ns p c t e (xs @ ys) \<longleftrightarrow> (\<exists>m u. seg ns p c u m xs \<and> seg ns u m t e ys)"
  by (induction xs arbitrary: p c) (auto, blast+)

lemma seg_frame: "a \<notin> fst ` set xs \<Longrightarrow> seg (ns(a := v)) p c t e xs \<longleftrightarrow> seg ns p c t e xs"
  by (induction xs arbitrary: p c) auto

lemma seg_snoc:
  "seg ns p c t e (xs @ [(b, k)]) \<longleftrightarrow>
    t = Some b \<and> (\<exists>u n. seg ns p c u (Some b) xs \<and> ns b = Some n \<and> node_key n = k \<and> node_prev n = u \<and> node_next n = e)"
  by (auto simp: seg_append)

text \<open>Redirecting the end of a segment, and the start of one.\<close>

lemma seg_set_next:
  assumes "seg ns p c (Some b) e xs" and "xs \<noteq> []" and "distinct (map fst xs)"
  shows "\<exists>ns'. set_next b e' ns = Some ns' \<and> seg ns' p c (Some b) e' xs \<and> (\<forall>a. a \<noteq> b \<longrightarrow> ns' a = ns a) \<and>
    b \<in> fst ` set xs \<and> ns' b \<noteq> None"
proof -
  obtain ys d k where xs: "xs = ys @ [(d, k)]" using assms(2) by (metis rev_exhaust surj_pair)
  with assms(1) obtain u n where n: "d = b" "seg ns p c u (Some b) ys" "ns b = Some n" "node_key n = k"
    "node_prev n = u" by (auto simp: seg_snoc)
  have "b \<notin> fst ` set ys" using assms(3) xs n(1) by auto
  then have "seg (ns(b \<mapsto> n\<lparr> node_next := e' \<rparr>)) p c (Some b) e' xs"
    using n xs by (auto simp: seg_snoc seg_frame)
  then show ?thesis using n xs by (auto simp: set_next_def)
qed

lemma seg_set_prev:
  assumes "seg ns p (Some b) t e ((b, k) # xs)" and "distinct (b # map fst xs)"
  shows "\<exists>ns'. set_prev b p' ns = Some ns' \<and> seg ns' p' (Some b) t e ((b, k) # xs) \<and> (\<forall>a. a \<noteq> b \<longrightarrow> ns' a = ns a)"
proof -
  from assms(1) obtain n where n: "ns b = Some n" "node_key n = k" "seg ns (Some b) (node_next n) t e xs" by auto
  have "b \<notin> fst ` set xs" using assms(2) by auto
  then have "seg (ns(b \<mapsto> n\<lparr> node_prev := p' \<rparr>)) p' (Some b) t e ((b, k) # xs)"
    using n by (simp add: seg_frame)
  then show ?thesis using n(1) by (auto simp: set_prev_def)
qed

lemma seg_cong: "(\<And>a. a \<in> fst ` set xs \<Longrightarrow> ns' a = ns a) \<Longrightarrow> seg ns' p c t e xs \<longleftrightarrow> seg ns p c t e xs"
  by (induction xs arbitrary: p c) auto

lemma seg_end: "seg ns p c t None xs \<Longrightarrow> (t = p \<and> xs = []) \<or> (xs \<noteq> [] \<and> t = Some (fst (last xs)))"
proof (cases xs rule: rev_cases)
  case (snoc ys y)
  assume "seg ns p c t None xs"
  then show ?thesis using snoc by (cases y) (simp add: seg_snoc)
qed simp

subsection \<open>The invariant\<close>

definition node_of :: "('k \<Rightarrow> 'k \<Rightarrow> bool) \<Rightarrow> (nat \<times> 'k option) list \<Rightarrow> 'k option \<Rightarrow> nat option" where
  "node_of equals xs key = map_option fst (find (\<lambda>(a, k). rel_option equals k key) xs)"

definition hs_inv :: "('k \<Rightarrow> uint32) \<Rightarrow> ('k \<Rightarrow> 'k \<Rightarrow> bool) \<Rightarrow> 'k hashset \<Rightarrow> (nat \<times> 'k option) list \<Rightarrow> bool" where
  "hs_inv hash equals s xs \<longleftrightarrow>
     ht_inv hash equals (hs_table s) \<and> seg (nodes s) None (hs_list s) (hs_tail s) None xs \<and>
     distinct (map fst xs) \<and> (\<forall>a \<in> fst ` set xs. a < next_node s) \<and>
     (\<forall>key. ht_map equals (hs_table s) key = node_of equals xs key) \<and>
     ht_size (hs_table s) = length xs \<and>
     (\<forall>(a, k) \<in> set xs. \<forall>(b, l) \<in> set xs. rel_option equals k l \<longrightarrow> a = b)"

text \<open>The set \<open>s\<close> holds the keys \<open>ks\<close> in order of insertion.\<close>

definition hs_holds :: "('k \<Rightarrow> uint32) \<Rightarrow> ('k \<Rightarrow> 'k \<Rightarrow> bool) \<Rightarrow> 'k hashset \<Rightarrow> 'k option list \<Rightarrow> bool" where
  "hs_holds hash equals s ks \<longleftrightarrow> (\<exists>xs. hs_inv hash equals s xs \<and> map snd xs = ks)"

definition is_in :: "('k \<Rightarrow> 'k \<Rightarrow> bool) \<Rightarrow> 'k option \<Rightarrow> 'k option list \<Rightarrow> bool" where
  "is_in equals key ks \<longleftrightarrow> (\<exists>k \<in> set ks. rel_option equals k key)"

lemma node_of_None: "node_of equals xs key = None \<longleftrightarrow> \<not> is_in equals key (map snd xs)"
  by (auto simp: node_of_def is_in_def find_None_iff)

lemma node_of_Some: "node_of equals xs key = Some a \<Longrightarrow> \<exists>k. (a, k) \<in> set xs \<and> rel_option equals k key"
  by (auto simp: node_of_def find_Some_iff) (metis nth_mem)

lemma node_of_snoc:
  "node_of equals (xs @ [(a, k)]) key =
    (case node_of equals xs key of Some b \<Rightarrow> Some b | None \<Rightarrow> if rel_option equals k key then Some a else None)"
  by (induction xs) (auto simp: node_of_def split: option.splits)

lemma node_of_filter:
  assumes "\<And>k l m. rel_option equals k l \<Longrightarrow> rel_option equals l m \<Longrightarrow> rel_option equals k m"
    and "\<And>l m. rel_option equals l m \<Longrightarrow> rel_option equals m l"
  shows "node_of equals (filter (\<lambda>(a, k). \<not> rel_option equals k key) xs) key' =
    (if rel_option equals key key' then None else node_of equals xs key')"
proof (induction xs)
  case Nil
  then show ?case by (simp add: node_of_def)
next
  case (Cons x xs)
  obtain a b where x: "x = (a, b)" by (cases x)
  have "rel_option equals b key' \<Longrightarrow> rel_option equals key key' \<Longrightarrow> rel_option equals b key"
    "rel_option equals b key \<Longrightarrow> rel_option equals b key' \<Longrightarrow> rel_option equals key key'"
    using assms by blast+
  then show ?case using Cons x by (auto simp: node_of_def)
qed

lemma pairwise_subset:
  assumes "\<forall>(a, k) \<in> S. \<forall>(b, l) \<in> S. P a k b l" and "T \<subseteq> S"
  shows "\<forall>(a, k) \<in> T. \<forall>(b, l) \<in> T. P a k b l"
  using assms by fast

lemma ht_size_new_table [simp]: "ht_size (new_table n) = 0"
  by (simp add: new_table_def)

context hash_keys
begin

lemma rel_refl [simp]: "rel_option equals k k"
  using equals_refl by (cases k) auto

lemma rel_sym: "rel_option equals k l \<Longrightarrow> rel_option equals l k"
  using equals_sym by (cases k; cases l) auto

lemma rel_trans: "rel_option equals k l \<Longrightarrow> rel_option equals l m \<Longrightarrow> rel_option equals k m"
  by (cases k; cases l; cases m) (auto intro: equals_trans)

lemma new_hashset_holds:
  assumes "2 \<le> n" and "n < 32"
  shows "hs_holds hash equals (new_hashset (2 ^ n)) []"
proof -
  have "hs_inv hash equals (new_hashset (2 ^ n)) []"
    using ht_size_new_table by (simp add: hs_inv_def new_hashset_def node_of_def new_table_inv [OF assms])
  then show ?thesis by (auto simp: hs_holds_def)
qed

lemma reset_holds:
  assumes "hs_holds hash equals s ks"
  shows "hs_holds hash equals (hs_reset s) []"
proof -
  from assms have inv: "ht_inv hash equals (hs_table s)" by (auto simp: hs_holds_def hs_inv_def)
  have "ht_size (ht_reset (hs_table s)) = 0" by (simp add: ht_reset_def)
  with reset_inv [OF inv] have "hs_inv hash equals (hs_reset s) []"
    by (simp add: hs_inv_def hs_reset_def node_of_def)
  then show ?thesis by (auto simp: hs_holds_def)
qed

lemma get_holds:
  assumes "hs_holds hash equals s ks"
  shows "\<exists>r. ht_get hash equals key (hs_table s) = Some r \<and> (r \<noteq> None \<longleftrightarrow> is_in equals key ks)"
proof -
  from assms obtain xs where xs: "hs_inv hash equals s xs" "map snd xs = ks" by (auto simp: hs_holds_def)
  then have "ht_get hash equals key (hs_table s) = Some (node_of equals xs key)"
    using get_correct [of "hs_table s" key] by (simp add: hs_inv_def)
  then show ?thesis using node_of_None [of equals xs key] xs(2) by auto
qed

lemma contains_holds:
  "hs_holds hash equals s ks \<Longrightarrow> hs_contains hash equals key s = Some (is_in equals key ks)"
  using get_holds [of s ks key] by (auto simp: hs_contains_def)

lemma size_holds: "hs_holds hash equals s ks \<Longrightarrow> hs_getSize s = length ks"
  by (auto simp: hs_holds_def hs_inv_def hs_getSize_def ht_getSize_def)

lemma add_present:
  "hs_holds hash equals s ks \<Longrightarrow> is_in equals key ks \<Longrightarrow> hs_add hash equals key s = Some (False, s)"
  using get_holds [of s ks key] by (auto simp: hs_add_def)

lemma add_absent:
  assumes h: "hs_holds hash equals s ks" and n: "\<not> is_in equals key ks" and len: "length ks \<le> 2 ^ 30"
  shows "\<exists>s'. hs_add hash equals key s = Some (True, s') \<and> hs_holds hash equals s' (ks @ [key])"
proof -
  from h obtain xs where xs: "hs_inv hash equals s xs" "map snd xs = ks" by (auto simp: hs_holds_def)
  then have inv: "ht_inv hash equals (hs_table s)" "seg (nodes s) None (hs_list s) (hs_tail s) None xs"
    "distinct (map fst xs)" "\<forall>a \<in> fst ` set xs. a < next_node s"
    "\<And>key. ht_map equals (hs_table s) key = node_of equals xs key" "ht_size (hs_table s) = length xs"
    "\<forall>(a, k) \<in> set xs. \<forall>(b, l) \<in> set xs. rel_option equals k l \<longrightarrow> a = b"
    by (auto simp: hs_inv_def)
  have none: "node_of equals xs key = None" using n xs(2) by (simp add: node_of_None)
  let ?a = "next_node s"
  let ?ns = "(nodes s)(?a \<mapsto> \<lparr> node_key = key, node_prev = hs_tail s, node_next = None \<rparr>)"
  have fresh: "?a \<notin> fst ` set xs" using inv(4) by auto
  have len': "ht_size (hs_table s) \<le> 2 ^ 30" using inv(6) xs(2) len by auto
  from put_correct [OF inv(1) len', of key ?a] none inv(5) obtain t where
    t: "ht_put hash equals key ?a (hs_table s) = Some t" "ht_inv hash equals t"
      "ht_size t = ht_size (hs_table s) + 1"
      "\<And>k. ht_map equals t k = (if rel_option equals key k then Some ?a else node_of equals xs k)" by auto
  have seg0: "seg ?ns None (hs_list s) (hs_tail s) None xs" using inv(2) fresh by (simp add: seg_frame)
  obtain ns where ns: "(case hs_tail s of Some t \<Rightarrow> set_next t (Some ?a) ?ns | None \<Rightarrow> Some ?ns) = Some ns"
    "seg ns None (if hs_tail s = None then Some ?a else hs_list s) (Some ?a) None (xs @ [(?a, key)])"
  proof (cases "hs_tail s")
    case None
    with seg_end [OF seg0] seg0 that show ?thesis by simp
  next
    case (Some b)
    with seg_end [OF seg0] have "xs \<noteq> []" by auto
    with seg_set_next [of ?ns None "hs_list s" b None xs "Some ?a"] seg0 Some inv(3) obtain ns' where
      ns': "set_next b (Some ?a) ?ns = Some ns'" "seg ns' None (hs_list s) (Some b) (Some ?a) xs"
      "\<forall>a. a \<noteq> b \<longrightarrow> ns' a = ?ns a" "b \<in> fst ` set xs" by auto
    then have "ns' ?a = ?ns ?a" using fresh by metis
    then show ?thesis using that [of ns'] ns' Some by (auto simp: seg_append)
  qed
  let ?s = "\<lparr> hs_table = t, nodes = ns, next_node = Suc ?a,
    hs_list = (if hs_tail s = None then Some ?a else hs_list s), hs_tail = Some ?a \<rparr>"
  have add: "hs_add hash equals key s = Some (True, ?s)"
    using get_correct [OF inv(1)] inv(5) none ns(1) t(1) by (simp add: hs_add_def Let_def)
  have map: "node_of equals (xs @ [(?a, key)]) k = (if rel_option equals key k then Some ?a else node_of equals xs k)" for k
  proof (cases "rel_option equals key k")
    case True
    have "node_of equals xs k = None"
    proof (rule ccontr)
      assume "node_of equals xs k \<noteq> None"
      then obtain l where "l \<in> set ks" "rel_option equals l k" using xs(2) node_of_None [of equals xs k] by (auto simp: is_in_def)
      then show False using n rel_trans [of l k key] rel_sym [OF True] unfolding is_in_def by blast
    qed
    then show ?thesis using True by (simp add: node_of_snoc)
  qed (simp add: node_of_snoc split: option.splits)
  have "\<not> rel_option equals k key \<and> \<not> rel_option equals key k" if "(b, k) \<in> set xs" for b k
  proof -
    have "k \<in> set ks" using that xs(2) [symmetric] by force
    then show ?thesis using n rel_sym [of key k] unfolding is_in_def by blast
  qed
  note other = this
  have "\<forall>(a, k) \<in> set (xs @ [(?a, key)]). \<forall>(b, l) \<in> set (xs @ [(?a, key)]). rel_option equals k l \<longrightarrow> a = b"
    using inv(7) other by fastforce
  then have "hs_inv hash equals ?s (xs @ [(?a, key)])"
    using t ns(2) inv(3,4,6) fresh map unfolding hs_inv_def by (simp add: less_Suc_eq image_iff)
  then show ?thesis using add xs(2) by (auto simp: hs_holds_def)
qed

text \<open>Unlinking one node.\<close>

lemma seg_unlink:
  assumes "seg ns None l t None (ys @ (a, k) # zs)" and "distinct (map fst (ys @ (a, k) # zs))"
  shows "\<exists>old ns1 ns2. ns a = Some old \<and>
    (case node_prev old of None \<Rightarrow> Some ns | Some p \<Rightarrow> set_next p (node_next old) ns) = Some ns1 \<and>
    (case node_next old of None \<Rightarrow> Some ns1 | Some nx \<Rightarrow> set_prev nx (node_prev old) ns1) = Some ns2 \<and>
    seg (ns2(a := None)) None (if node_prev old = None then node_next old else l)
      (if node_next old = None then node_prev old else t) None (ys @ zs)"
proof -
  from assms(1) obtain u old where o: "seg ns None l u (Some a) ys" "ns a = Some old" "node_prev old = u"
    "seg ns (Some a) (node_next old) t None zs" by (auto simp: seg_append)
  have d: "distinct (map fst ys)" "distinct (map fst zs)" "a \<notin> fst ` set ys" "a \<notin> fst ` set zs"
    "fst ` set ys \<inter> fst ` set zs = {}"
    using assms(2) by auto
  obtain ns1 where ns1: "(case u of None \<Rightarrow> Some ns | Some p \<Rightarrow> set_next p (node_next old) ns) = Some ns1"
    "seg ns1 None (if u = None then node_next old else l) u (node_next old) ys"
    "\<And>b. b \<notin> fst ` set ys \<Longrightarrow> ns1 b = ns b"
  proof (cases "ys = []")
    case True
    then show ?thesis using o that [of ns] by simp
  next
    case False
    then obtain b where "u = Some b" using o(1) by (cases ys rule: rev_cases) (auto simp: seg_snoc)
    with seg_set_next [of ns None l b "Some a" ys "node_next old"] o(1) False d(1) that show ?thesis
      by fastforce
  qed
  have zs1: "seg ns1 (Some a) (node_next old) t None zs"
    using o(4) d(5) ns1(3) seg_cong [of zs ns1 ns] by (metis disjoint_iff)
  obtain ns2 where ns2: "(case node_next old of None \<Rightarrow> Some ns1 | Some nx \<Rightarrow> set_prev nx u ns1) = Some ns2"
    "seg ns2 u (node_next old) (if node_next old = None then u else t) None zs"
    "\<And>b. b \<notin> fst ` set zs \<Longrightarrow> ns2 b = ns1 b"
  proof (cases zs)
    case Nil
    then show ?thesis using zs1 that [of ns1] by simp
  next
    case (Cons z zs')
    obtain b k' where z: "z = (b, k')" by (cases z)
    then have nx: "node_next old = Some b" using zs1 Cons by simp
    with seg_set_prev [of ns1 "Some a" b t None k' zs' u] zs1 Cons z d(2) that show ?thesis
      by fastforce
  qed
  have "seg ns2 None (if u = None then node_next old else l) u (node_next old) ys"
    using ns1(2) d(5) ns2(3) seg_cong [of ys ns2 ns1] by (metis disjoint_iff)
  with ns2(2) have "seg ns2 None (if u = None then node_next old else l)
      (if node_next old = None then u else t) None (ys @ zs)"
    unfolding seg_append by blast
  then have "seg (ns2(a := None)) None (if u = None then node_next old else l)
      (if node_next old = None then u else t) None (ys @ zs)"
    using d(3,4) by (subst seg_frame) auto
  then show ?thesis using o(2,3) ns1(1) ns2(1) by auto
qed

lemma remove_absent:
  "hs_holds hash equals s ks \<Longrightarrow> \<not> is_in equals key ks \<Longrightarrow> hs_remove hash equals key s = Some (False, s)"
  using get_holds [of s ks key] by (auto simp: hs_remove_def)

lemma remove_present:
  assumes h: "hs_holds hash equals s ks" and n: "is_in equals key ks"
  shows "\<exists>s'. hs_remove hash equals key s = Some (True, s') \<and>
    hs_holds hash equals s' (filter (\<lambda>k. \<not> rel_option equals k key) ks)"
proof -
  from h obtain xs where xs: "hs_inv hash equals s xs" "map snd xs = ks" by (auto simp: hs_holds_def)
  then have inv: "ht_inv hash equals (hs_table s)" "seg (nodes s) None (hs_list s) (hs_tail s) None xs"
    "distinct (map fst xs)" "\<forall>a \<in> fst ` set xs. a < next_node s"
    "\<And>key. ht_map equals (hs_table s) key = node_of equals xs key" "ht_size (hs_table s) = length xs"
    "\<forall>(a, k) \<in> set xs. \<forall>(b, l) \<in> set xs. rel_option equals k l \<longrightarrow> a = b"
    by (auto simp: hs_inv_def)
  from n xs(2) obtain a where a: "node_of equals xs key = Some a"
    using node_of_None [of equals xs key] by (cases "node_of equals xs key") auto
  from node_of_Some [OF a] obtain k where k: "(a, k) \<in> set xs" "rel_option equals k key" by blast
  then obtain ys zs where split: "xs = ys @ (a, k) # zs" by (meson split_list)
  from seg_unlink [OF inv(2,3) [unfolded split]] obtain old ns1 ns2 where u: "nodes s a = Some old"
    "(case node_prev old of None \<Rightarrow> Some (nodes s) | Some p \<Rightarrow> set_next p (node_next old) (nodes s)) = Some ns1"
    "(case node_next old of None \<Rightarrow> Some ns1 | Some nx \<Rightarrow> set_prev nx (node_prev old) ns1) = Some ns2"
    "seg (ns2(a := None)) None (if node_prev old = None then node_next old else hs_list s)
      (if node_next old = None then node_prev old else hs_tail s) None (ys @ zs)" by blast
  have pres: "ht_map equals (hs_table s) key \<noteq> None" using a inv(5) by simp
  from remove_correct [OF inv(1), of key] pres obtain t where
    t: "ht_remove hash equals key (hs_table s) = Some (ht_map equals (hs_table s) key, t)" "ht_inv hash equals t"
      "ht_size (hs_table s) = ht_size t + 1"
      "\<And>k. ht_map equals t k = (if rel_option equals key k then None else node_of equals xs k)"
    using inv(5) by auto
  let ?s = "s\<lparr> hs_table := t, nodes := ns2(a := None),
    hs_list := (if node_prev old = None then node_next old else hs_list s),
    hs_tail := (if node_next old = None then node_prev old else hs_tail s) \<rparr>"
  have rem: "hs_remove hash equals key s = Some (True, ?s)"
    using get_correct [OF inv(1)] inv(5) a t(1) u(1-3) by (simp add: hs_remove_def)
  have only: "\<not> rel_option equals l key" if "(b, l) \<in> set (ys @ zs)" for b l
  proof
    assume "rel_option equals l key"
    then have "rel_option equals l k" using rel_trans rel_sym [OF k(2)] by blast
    then have "b = a" using inv(7) that k(1) split by fastforce
    then show False using inv(3) that split by force
  qed
  have filt: "ys @ zs = filter (\<lambda>(a, k). \<not> rel_option equals k key) xs"
  proof -
    have "filter (\<lambda>(a, k). \<not> rel_option equals k key) (ys @ zs) = ys @ zs"
      using only by (subst filter_id_conv) auto
    then show ?thesis using k(2) split by simp
  qed
  have map: "node_of equals (ys @ zs) l = (if rel_option equals key l then None else node_of equals xs l)" for l
    unfolding filt by (rule node_of_filter) (use rel_trans rel_sym in blast)+
  have "map snd (ys @ zs) = filter (\<lambda>k. \<not> rel_option equals k key) ks"
    unfolding filt xs(2) [symmetric] by (simp add: filter_map comp_def case_prod_unfold)
  moreover have "\<forall>(a, k) \<in> set (ys @ zs). \<forall>(b, l) \<in> set (ys @ zs). rel_option equals k l \<longrightarrow> a = b"
    using inv(7) by (rule pairwise_subset) (use split in auto)
  then have "hs_inv hash equals ?s (ys @ zs)"
    using t(2-4) u(4) inv(3,4,6) split map unfolding hs_inv_def by simp
  ultimately show ?thesis using rem by (auto simp: hs_holds_def)
qed

text \<open>\<open>add\<close> in one statement: it says whether the key was new and appends it if it was.\<close>

theorem add_correct:
  assumes "hs_holds hash equals s ks" and "length ks \<le> 2 ^ 30"
  shows "\<exists>s'. hs_add hash equals key s = Some (\<not> is_in equals key ks, s') \<and>
    hs_holds hash equals s' (if is_in equals key ks then ks else ks @ [key])"
  using add_present [OF assms(1)] add_absent [OF assms(1) _ assms(2)] assms(1)
  by (cases "is_in equals key ks") auto

theorem remove_set_correct:
  assumes "hs_holds hash equals s ks"
  shows "\<exists>s'. hs_remove hash equals key s = Some (is_in equals key ks, s') \<and>
    hs_holds hash equals s' (filter (\<lambda>k. \<not> rel_option equals k key) ks)"
proof (cases "is_in equals key ks")
  case True
  then show ?thesis using remove_present [OF assms] by simp
next
  case False
  then have "filter (\<lambda>k. \<not> rel_option equals k key) ks = ks" by (auto simp: is_in_def filter_id_conv)
  then show ?thesis using remove_absent [OF assms False] assms False by simp
qed

lemma collect_seg:
  "seg (nodes s) p c t None xs \<Longrightarrow> length xs \<le> fuel \<Longrightarrow>
    it_collect fuel s \<lparr> it_curr = c, it_last = l \<rparr> = Some (map snd xs)"
proof (induction xs arbitrary: p c l fuel)
  case Nil
  then show ?case by (cases fuel) (auto simp: it_hasNext_def)
next
  case (Cons x xs)
  then obtain m where "fuel = Suc m" by (cases fuel) auto
  then show ?case using Cons by (cases x) (auto simp: it_hasNext_def it_next_def)
qed

text \<open>The loop over an iterator visits every key once, in the order of insertion, and ends.\<close>

theorem iterate_correct:
  assumes "hs_holds hash equals s ks"
  shows "it_collect (next_node s) s (hs_iterator_of s) = Some ks"
proof -
  from assms obtain xs where xs: "hs_inv hash equals s xs" "map snd xs = ks" by (auto simp: hs_holds_def)
  then have "set (map fst xs) \<subseteq> {..<next_node s}" "distinct (map fst xs)" by (auto simp: hs_inv_def)
  then have "length xs \<le> next_node s"
    by (metis card_lessThan card_mono distinct_card finite_lessThan length_map)
  moreover have "seg (nodes s) None (hs_list s) (hs_tail s) None xs" using xs(1) by (simp add: hs_inv_def)
  ultimately show ?thesis using collect_seg xs(2) by (auto simp: hs_iterator_of_def)
qed

lemma firstKey_holds: "hs_holds hash equals s (k # ks) \<Longrightarrow> getFirstKey s = Some k"
  by (auto simp: hs_holds_def hs_inv_def getFirstKey_def Cons_eq_map_conv)

lemma add_all_holds:
  assumes "hs_holds hash equals s ks" and "length ks + length ls \<le> 2 ^ 30"
    and "\<forall>i < length ls. \<not> is_in equals (ls ! i) (ks @ take i ls)"
  shows "\<exists>s'. hs_add_all hash equals ls s = Some s' \<and> hs_holds hash equals s' (ks @ ls)"
  using assms
proof (induction ls arbitrary: s ks)
  case Nil
  then show ?case by simp
next
  case (Cons l ls)
  have "\<not> is_in equals l ks" using Cons.prems(3) [rule_format, of 0] by simp
  with add_absent [OF Cons.prems(1)] Cons.prems(2) obtain s1 where
    s1: "hs_add hash equals l s = Some (True, s1)" "hs_holds hash equals s1 (ks @ [l])" by auto
  have "\<forall>i < length ls. \<not> is_in equals (ls ! i) ((ks @ [l]) @ take i ls)"
    using Cons.prems(3) by (auto dest: spec [of _ "Suc _"])
  from Cons.IH [OF s1(2) _ this] Cons.prems(2) s1(1) show ?case by auto
qed

lemma copy_holds:
  assumes h: "hs_holds hash equals s ks" and "length ks \<le> 2 ^ 30"
  shows "\<exists>s'. hs_copy hash equals s = Some s' \<and> hs_holds hash equals s' ks"
proof -
  from h obtain xs where xs: "hs_inv hash equals s xs" "map snd xs = ks" by (auto simp: hs_holds_def)
  then obtain n where n: "2 \<le> n" "n < 32" "capacity (hs_table s) = 2 ^ n"
    by (auto simp: hs_inv_def ht_inv_def shape_def)
  have "\<not> is_in equals (ks ! i) (take i ks)" if i: "i < length ks" for i
  proof
    assume "is_in equals (ks ! i) (take i ks)"
    then obtain j where j: "j < i" "rel_option equals (ks ! j) (ks ! i)"
      using i by (auto simp: is_in_def in_set_conv_nth)
    have "xs ! j \<in> set xs" "xs ! i \<in> set xs" "snd (xs ! j) = ks ! j" "snd (xs ! i) = ks ! i"
      using i j(1) xs(2) by auto
    moreover have "\<forall>(a, k) \<in> set xs. \<forall>(b, l) \<in> set xs. rel_option equals k l \<longrightarrow> a = b"
      using xs(1) by (simp add: hs_inv_def)
    ultimately have "fst (xs ! j) = fst (xs ! i)"
      using j(2) by (fastforce simp: case_prod_unfold)
    moreover have "distinct (map fst xs)" using xs(1) by (simp add: hs_inv_def)
    moreover have "length xs = length ks" using xs(2) by auto
    ultimately show False using i j(1) nth_eq_iff_index_eq [of "map fst xs" j i] by simp
  qed
  then show ?thesis
    using add_all_holds [OF new_hashset_holds [OF n(1,2)], of ks] iterate_correct [OF h] assms(2) n(3)
    by (simp add: hs_copy_def)
qed

end

subsection \<open>Sets of integers and of pointers\<close>

text \<open>With the default equality the set is the duplicate-free list of \<open>oset_add\<close>.\<close>

lemma is_in_default: "is_in default_equals key ks \<longleftrightarrow> key \<in> set ks"
proof -
  have "rel_option default_equals k l \<longleftrightarrow> k = l" for k l :: "'a option"
    by (cases k; cases l) (auto simp: default_equals_def)
  then show ?thesis by (auto simp: is_in_def)
qed

theorem int_set_add:
  assumes "hs_holds (default_hash_function Shift) default_equals s ks" and "length ks \<le> 2 ^ 30"
  shows "\<exists>s'. hs_add (default_hash_function Shift) default_equals key s = Some (key \<notin> set ks, s') \<and>
    hs_holds (default_hash_function Shift) default_equals s' (oset_add key ks)"
  using int_key.add_correct [OF assms] by (simp add: is_in_default oset_add_def)

end
