(* ===== verification/ExecPoints.thy ===== *)
theory ExecPoints
  imports SC_Prelude McUtil
begin

section \<open>Execution points (execpoint.h, execpoint.cc)\<close>

text \<open>
  An execution point numbers a step of a trace by a stack of counters: how many statements, which
  branch direction, which loop iteration. The code keeps the stack in one array \<open>pairarray\<close> of
  alternating type and value words; \<open>pairs\<close> below holds its live entries in array order, so
  \<open>size\<close> is twice the number of pairs and the top of the stack is the last pair. \<open>cap\<close> is the
  allocated length, counted in pairs. The hash is kept incrementally by the operations.
\<close>

subsection \<open>Data\<close>

datatype ep_type = EP_BRANCH | EP_COUNTER | EP_LOOP

datatype compare_result = CR_BEFORE | CR_AFTER | CR_EQUALS | CR_INCOMPARABLE

record exec_point =
  cap :: nat
  pairs :: "(ep_type \<times> uint32) list"
  hashvalue :: uint32
  ep_tid :: nat

definition new_exec_point :: "nat \<Rightarrow> nat \<Rightarrow> exec_point" where
  "new_exec_point len tid = \<lparr> cap = len, pairs = [], hashvalue = of_nat tid, ep_tid = tid \<rparr>"

text \<open>The copy constructor allocates exactly the live entries.\<close>

definition copy_exec_point :: "exec_point \<Rightarrow> exec_point" where
  "copy_exec_point e = e\<lparr> cap := length (pairs e) \<rparr>"

subsection \<open>Operations\<close>

definition ep_reset :: "exec_point \<Rightarrow> exec_point" where
  "ep_reset e = e\<lparr> pairs := [], hashvalue := of_nat (ep_tid e) \<rparr>"

text \<open>
  \<open>push\<close> doubles a full array. An array of length 0 (a copy of an empty point) stays of length
  0, and the writes would be out of bounds.
\<close>

definition ep_push :: "ep_type \<Rightarrow> uint32 \<Rightarrow> exec_point \<Rightarrow> exec_point option" where
  "ep_push t v e =
     (let n = length (pairs e); c = (if n = cap e then 2 * cap e else cap e) in
      if n < c
      then Some (e\<lparr> cap := c, pairs := pairs e @ [(t, v)],
                   hashvalue := xor32 (rotate_left (hashvalue e) 3) v \<rparr>)
      else None)"

definition ep_pop :: "exec_point \<Rightarrow> exec_point option" where
  "ep_pop e =
     (if pairs e = [] then None
      else Some (e\<lparr> pairs := butlast (pairs e),
                    hashvalue := rotate_right (xor32 (hashvalue e) (snd (last (pairs e)))) 3 \<rparr>))"

definition incrementTop :: "exec_point \<Rightarrow> exec_point option" where
  "incrementTop e =
     (if pairs e = [] then None
      else let (t, current) = last (pairs e) in
        Some (e\<lparr> pairs := butlast (pairs e) @ [(t, current + 1)],
                 hashvalue := xor32 (xor32 (hashvalue e) current) (current + 1) \<rparr>))"

definition getSize :: "exec_point \<Rightarrow> nat" where
  "getSize e = length (pairs e)"

definition getType :: "exec_point \<Rightarrow> ep_type option" where
  "getType e = (if pairs e = [] then None else Some (fst (last (pairs e))))"

text \<open>\<open>pairarray[size-4]\<close> is the type below the top; it needs two entries.\<close>

definition directInLoop :: "exec_point \<Rightarrow> bool option" where
  "directInLoop e = map_option (\<lambda>p. fst p = EP_LOOP) (nth_opt (rev (pairs e)) 1)"

text \<open>The loop runs from the top down to index 2 of the array: the bottom pair is not read.\<close>

definition inLoop :: "exec_point \<Rightarrow> bool" where
  "inLoop e = list_ex (\<lambda>p. fst p = EP_LOOP) (tl (pairs e))"

text \<open>The loop of \<open>compare\<close> over the common prefix, then the comparison of the sizes.\<close>

fun compare_pairs :: "(ep_type \<times> uint32) list \<Rightarrow> (ep_type \<times> uint32) list \<Rightarrow> compare_result option" where
  "compare_pairs [] [] = Some CR_EQUALS"
| "compare_pairs [] (_ # _) = Some CR_AFTER"
| "compare_pairs (_ # _) [] = Some CR_BEFORE"
| "compare_pairs ((t, v) # ps) ((u, w) # qs) =
     (if t \<noteq> u then None
      else if v \<noteq> w then
        Some (if t = EP_BRANCH then CR_INCOMPARABLE else if v < w then CR_AFTER else CR_BEFORE)
      else compare_pairs ps qs)"

definition ep_compare :: "exec_point \<Rightarrow> exec_point \<Rightarrow> compare_result option" where
  "ep_compare e f = compare_pairs (pairs e) (pairs f)"

definition ExecPointHash :: "exec_point \<Rightarrow> uint32" where
  "ExecPointHash e = hashvalue e"

definition ExecPointEquals :: "exec_point \<Rightarrow> exec_point \<Rightarrow> bool" where
  "ExecPointEquals e f =
     (ep_tid e = ep_tid f \<and> length (pairs e) = length (pairs f) \<and> hashvalue e = hashvalue f \<and>
      list_all2 (=) (pairs e) (pairs f))"

subsection \<open>The incremental hash\<close>

definition hash_pairs :: "nat \<Rightarrow> (ep_type \<times> uint32) list \<Rightarrow> uint32" where
  "hash_pairs tid ps = fold (\<lambda>p h. xor32 (rotate_left h 3) (snd p)) ps (of_nat tid)"

definition hash_ok :: "exec_point \<Rightarrow> bool" where
  "hash_ok e \<longleftrightarrow> hashvalue e = hash_pairs (ep_tid e) (pairs e)"

lemma hash_pairs_snoc [simp]:
  "hash_pairs tid (ps @ [p]) = xor32 (rotate_left (hash_pairs tid ps) 3) (snd p)"
  by (simp add: hash_pairs_def)

lemma xor32_cancel [simp]: "xor32 (xor32 a b) b = a"
  by (simp add: xor32_def xor.assoc)

lemma xor32_left_cancel: "xor32 (xor32 (xor32 a b) b) c = xor32 a c"
  by simp

lemma hash_ok_new [simp]: "hash_ok (new_exec_point len tid)"
  by (simp add: hash_ok_def new_exec_point_def hash_pairs_def)

lemma hash_ok_copy [simp]: "hash_ok (copy_exec_point e) = hash_ok e"
  by (simp add: hash_ok_def copy_exec_point_def)

lemma hash_ok_reset [simp]: "hash_ok (ep_reset e)"
  by (simp add: hash_ok_def ep_reset_def hash_pairs_def)

lemma hash_ok_push: "hash_ok e \<Longrightarrow> ep_push t v e = Some e' \<Longrightarrow> hash_ok e'"
  by (auto simp: hash_ok_def ep_push_def Let_def split: if_splits)

lemma hash_ok_pop:
  assumes "hash_ok e" and "ep_pop e = Some e'"
  shows "hash_ok e'"
proof -
  from assms(2) have ne: "pairs e \<noteq> []" by (auto simp: ep_pop_def split: if_splits)
  then have "pairs e = butlast (pairs e) @ [last (pairs e)]" by simp
  then have "hash_pairs (ep_tid e) (pairs e) =
      xor32 (rotate_left (hash_pairs (ep_tid e) (butlast (pairs e))) 3) (snd (last (pairs e)))"
    by (metis hash_pairs_snoc)
  with assms ne show ?thesis
    by (auto simp: hash_ok_def ep_pop_def rotate_right_left)
qed

lemma hash_ok_incrementTop:
  assumes "hash_ok e" and "incrementTop e = Some e'"
  shows "hash_ok e'"
proof -
  from assms(2) have ne: "pairs e \<noteq> []" by (auto simp: incrementTop_def split: if_splits)
  obtain t v where l: "last (pairs e) = (t, v)" by (cases "last (pairs e)")
  from ne l have "pairs e = butlast (pairs e) @ [(t, v)]" by (metis append_butlast_last_id)
  then have "hash_pairs (ep_tid e) (pairs e) =
      xor32 (rotate_left (hash_pairs (ep_tid e) (butlast (pairs e))) 3) v"
    by (metis hash_pairs_snoc snd_conv)
  with assms ne l show ?thesis by (auto simp: hash_ok_def incrementTop_def)
qed

text \<open>With the incremental hash correct, equality of points is equality of thread and stack.\<close>

lemma ExecPointEquals_iff:
  assumes "hash_ok e" and "hash_ok f"
  shows "ExecPointEquals e f \<longleftrightarrow> ep_tid e = ep_tid f \<and> pairs e = pairs f"
  using assms by (auto simp: ExecPointEquals_def hash_ok_def list.rel_eq)

subsection \<open>Stack behaviour\<close>

lemma pop_push:
  "ep_push t v e = Some e' \<Longrightarrow> ep_pop e' = Some (e\<lparr> cap := cap e' \<rparr>)"
  by (auto simp: ep_push_def ep_pop_def Let_def rotate_right_left split: if_splits)

lemma push_defined: "0 < cap e \<Longrightarrow> length (pairs e) \<le> cap e \<Longrightarrow> \<exists>e'. ep_push t v e = Some e'"
  by (auto simp: ep_push_def Let_def)

lemma push_capacity:
  "ep_push t v e = Some e' \<Longrightarrow> length (pairs e) \<le> cap e \<Longrightarrow>
    0 < cap e' \<and> length (pairs e') \<le> cap e' \<and> pairs e' = pairs e @ [(t, v)] \<and> ep_tid e' = ep_tid e"
  by (auto simp: ep_push_def Let_def split: if_splits)

subsection \<open>The order of points\<close>

lemma compare_refl [simp]: "compare_pairs ps ps = Some CR_EQUALS"
  by (induction ps) auto

lemma compare_equals_iff: "compare_pairs ps qs = Some CR_EQUALS \<longleftrightarrow> ps = qs"
  by (induction ps qs rule: compare_pairs.induct) auto

lemma compare_flip: "compare_pairs ps qs = Some CR_AFTER \<longleftrightarrow> compare_pairs qs ps = Some CR_BEFORE"
  by (induction ps qs rule: compare_pairs.induct) (auto split: if_splits)

lemma compare_incomparable_sym:
  "compare_pairs ps qs = Some CR_INCOMPARABLE \<longleftrightarrow> compare_pairs qs ps = Some CR_INCOMPARABLE"
  by (induction ps qs rule: compare_pairs.induct) (auto split: if_splits)

lemma compare_trans:
  assumes "compare_pairs ps qs = Some CR_AFTER" and "compare_pairs qs rs = Some CR_AFTER"
  shows "compare_pairs ps rs = Some CR_AFTER"
  using assms
proof (induction ps qs arbitrary: rs rule: compare_pairs.induct)
  case (2 q qs)
  then show ?case by (cases rs) auto
next
  case (4 t v ps u w qs)
  then show ?case by (cases rs) (auto split: if_splits)
qed auto

lemma compare_prefix: "compare_pairs (ps @ qs) (ps @ rs) = compare_pairs qs rs"
  by (induction ps) auto

lemma word_less_succ:
  assumes "v \<noteq> (0xffffffff :: uint32)"
  shows "v < v + 1"
proof -
  have "unat v \<noteq> unat (0xffffffff :: uint32)" using assms by (metis unsigned_word_eqI)
  moreover have "unat v < 2 ^ 32" using unsigned_less [of v] by simp
  ultimately have "unat (v + 1) = unat v + 1" by (simp add: unat_word_ariths)
  then show ?thesis by (simp add: word_less_nat_alt)
qed

theorem compare_advance:
  assumes "incrementTop e = Some e'" and "getType e \<noteq> Some EP_BRANCH"
    and "snd (last (pairs e)) \<noteq> 0xffffffff"
  shows "ep_compare e e' = Some CR_AFTER"
proof -
  obtain t v where l: "last (pairs e) = (t, v)" by (cases "last (pairs e)")
  from assms(1) l have ne: "pairs e \<noteq> []" and e': "pairs e' = butlast (pairs e) @ [(t, v + 1)]"
    by (auto simp: incrementTop_def split: if_splits)
  from ne l have e: "pairs e = butlast (pairs e) @ [(t, v)]" by (metis append_butlast_last_id)
  from assms(2) ne l have "t \<noteq> EP_BRANCH" by (simp add: getType_def)
  moreover have "v < v + 1" using assms(3) l by (intro word_less_succ) simp
  ultimately have "compare_pairs [(t, v)] [(t, v + 1)] = Some CR_AFTER" by auto
  then show ?thesis using e e' compare_prefix [of "butlast (pairs e)" "[(t, v)]" "[(t, v + 1)]"]
    by (simp add: ep_compare_def)
qed

text \<open>Entering a branch or a loop gives points after the point entered from.\<close>

lemma compare_push: "ep_push t v e = Some e' \<Longrightarrow> ep_compare e e' = Some CR_AFTER"
  using compare_prefix [of "pairs e" "[]" "[(t, v)]"]
  by (auto simp: ep_push_def ep_compare_def Let_def split: if_splits)

end
