(* ===== verification/Records.thy ===== *)
theory Records
  imports HashSets ExecPoints
begin

section \<open>Execution points as seen by the event records (epvalue, eprecord, cgoal, change)\<close>

text \<open>
  The event records of the program and the objects that hang off them. \<open>EPRecord\<close> and
  \<open>EPValue\<close> objects are shared and updated in place, so they live in a store indexed by
  identifiers: a pointer to a record is a \<open>rid\<close>, a pointer to a value is a \<open>vid\<close>, and a goal set,
  which several records may share, is a \<open>gid\<close>. A pointer that may be null is an \<open>option\<close>.
  Sets are the insertion-ordered lists that \<open>HashSets\<close> implements.
\<close>

type_synonym rid = nat
type_synonym vid = nat
type_synonym gid = nat
type_synonym MCID = nat

subsection \<open>Event types and operations (classlist.h, libinterface.h)\<close>

datatype event_type =
    LOAD | STORE | RMW | BRANCHDIR | MERGE | FUNCTION | THREADCREATE | THREADBEGIN | NONLOCALTRANS
  | LOOPEXIT | LABEL | YIELD | THREADJOIN | LOOPENTER | LOOPSTART | ALLOC | EQUALS | FENCE

datatype atomicop = ADD | CAS | EXC

text \<open>Indices of the value sets of a record (epvalue.h).\<close>

definition VC_ADDRINDEX :: nat where "VC_ADDRINDEX = 0"
definition VC_RFINDEX :: nat where "VC_RFINDEX = 1"
definition VC_BASEINDEX :: nat where "VC_BASEINDEX = 2"
definition VC_OLDVALCASINDEX :: nat where "VC_OLDVALCASINDEX = 3"
definition VC_RMWOUTINDEX :: nat where "VC_RMWOUTINDEX = 4"
definition VC_FUNCOUTINDEX :: nat where "VC_FUNCOUTINDEX = 1"

lemmas VC_defs = VC_ADDRINDEX_def VC_RFINDEX_def VC_BASEINDEX_def VC_OLDVALCASINDEX_def
  VC_RMWOUTINDEX_def VC_FUNCOUTINDEX_def

subsection \<open>Goals (cgoal.h, cgoal.cc)\<close>

text \<open>The hash of a goal is computed by the constructor from the inputs.\<close>

record cgoal =
  valarray :: "uint64 list"
  outputvalue :: uint64
  cg_hash :: uint32

definition new_CGoal :: "uint64 list \<Rightarrow> cgoal" where
  "new_CGoal vals =
     \<lparr> valarray = vals, outputvalue = 0,
       cg_hash = fold (\<lambda>v h. xor32 h (ucast v)) vals (of_nat (length vals)) \<rparr>"

definition setOutput :: "uint64 \<Rightarrow> cgoal \<Rightarrow> cgoal" where
  "setOutput out g = g\<lparr> outputvalue := out \<rparr>"

definition CGoalEquals :: "cgoal \<Rightarrow> cgoal \<Rightarrow> bool" where
  "CGoalEquals cg1 cg2 =
     (cg_hash cg1 = cg_hash cg2 \<and> length (valarray cg1) = length (valarray cg2) \<and>
      list_all2 (=) (valarray cg1) (valarray cg2))"

definition CGoalHash :: "cgoal \<Rightarrow> uint32" where
  "CGoalHash cg = cg_hash cg"

interpretation goal_key: hash_keys CGoalHash CGoalEquals
  by unfold_locales (auto simp: CGoalHash_def CGoalEquals_def list.rel_eq)

text \<open>On goals made by the constructor, equality is equality of the inputs; outputs are ignored.\<close>

definition made_goal :: "cgoal \<Rightarrow> bool" where
  "made_goal g \<longleftrightarrow> (\<exists>vals out. g = setOutput out (new_CGoal vals))"

lemma CGoalEquals_iff: "made_goal g \<Longrightarrow> made_goal h \<Longrightarrow> CGoalEquals g h \<longleftrightarrow> valarray g = valarray h"
  by (auto simp: made_goal_def CGoalEquals_def setOutput_def new_CGoal_def list.rel_eq)

subsection \<open>Values (epvalue.h, epvalue.cc)\<close>

record epvalue =
  firstrecord :: "rid option"
  lastrecord :: "rid option"
  v_ep :: exec_point
  v_record :: rid
  v_addr :: uint64
  v_value :: uint64
  v_len :: int

definition new_EPValue :: "exec_point \<Rightarrow> rid \<Rightarrow> uint64 \<Rightarrow> uint64 \<Rightarrow> int \<Rightarrow> epvalue" where
  "new_EPValue ep r addr ivalue ilen =
     \<lparr> firstrecord = None, lastrecord = None, v_ep = ep, v_record = r, v_addr = addr,
       v_value = keepbytes ivalue ilen, v_len = ilen \<rparr>"

definition EPValueEquals :: "epvalue \<Rightarrow> epvalue \<Rightarrow> bool" where
  "EPValueEquals ep1 ep2 =
     (if v_addr ep1 \<noteq> v_addr ep2 \<or> v_len ep1 \<noteq> v_len ep2 \<or> v_value ep1 \<noteq> v_value ep2 then False
      else ExecPointEquals (v_ep ep1) (v_ep ep2))"

definition EPValueHash :: "epvalue \<Rightarrow> uint32" where
  "EPValueHash ep =
     xor32 (xor32 (xor32 (ExecPointHash (v_ep ep)) (of_int (v_len ep))) (ucast (v_value ep))) (ucast (v_addr ep))"

lemma ExecPointEquals_hash: "ExecPointEquals e f \<Longrightarrow> ExecPointHash e = ExecPointHash f"
  by (simp add: ExecPointEquals_def ExecPointHash_def)

interpretation point_key: hash_keys ExecPointHash ExecPointEquals
  by unfold_locales (auto simp: ExecPointHash_def ExecPointEquals_def list.rel_eq)

interpretation value_key: hash_keys EPValueHash EPValueEquals
  by unfold_locales
    (auto simp: EPValueHash_def EPValueEquals_def ExecPointEquals_hash intro: point_key.equals_refl
      dest: point_key.equals_sym elim: point_key.equals_trans split: if_splits)

subsection \<open>Records (eprecord.h, eprecord.cc)\<close>

record eprecord =
  valuevector :: "vid list"
  r_ep :: exec_point
  completed :: "gid option"
  branch :: "vid option"
  setarray :: "uint64 list list"
  nextRecord :: "rid option"
  childRecord :: "rid option"
  philooptable :: "(rid option \<times> rid) list option"
  offset :: uint64
  event :: event_type
  jointhread :: "nat option"
  numinputs :: nat
  rec_len :: nat
  anyvalue :: bool
  phi :: bool
  loopphi :: bool
  op :: "atomicop option"
  alloc_size :: uint64
  func_shares_goalset :: bool
  ptr :: "uint64 option"

definition new_EPRecord :: "event_type \<Rightarrow> exec_point \<Rightarrow> vid option \<Rightarrow> uint64 \<Rightarrow> nat \<Rightarrow> nat \<Rightarrow> bool \<Rightarrow> eprecord" where
  "new_EPRecord ev ep br off inputs ln any =
     \<lparr> valuevector = [], r_ep = ep, completed = None, branch = br,
       setarray = replicate (inputs + VC_BASEINDEX) [], nextRecord = None, childRecord = None,
       philooptable = None, offset = off, event = ev, jointhread = None,
       numinputs = inputs + VC_BASEINDEX, rec_len = ln, anyvalue = any, phi = False, loopphi = False,
       op = None, alloc_size = 0, func_shares_goalset = False, ptr = None \<rparr>"

text \<open>\<open>getSet\<close> reads an array of \<open>numinputs\<close> entries; an index beyond it is undefined.\<close>

definition getSet :: "nat \<Rightarrow> eprecord \<Rightarrow> uint64 list option" where
  "getSet i r = nth_opt (setarray r) i"

definition addSet :: "nat \<Rightarrow> uint64 \<Rightarrow> eprecord \<Rightarrow> eprecord option" where
  "addSet i v r = do { s \<leftarrow> getSet i r; Some (r\<lparr> setarray := (setarray r)[i := oset_add v s] \<rparr>) }"

definition retIndex :: "eprecord \<Rightarrow> nat option" where
  "retIndex r =
     (case event r of
        FUNCTION \<Rightarrow> Some VC_FUNCOUTINDEX
      | EQUALS \<Rightarrow> Some VC_FUNCOUTINDEX
      | RMW \<Rightarrow> Some VC_RMWOUTINDEX
      | LOAD \<Rightarrow> Some VC_RFINDEX
      | _ \<Rightarrow> None)"

definition getReturnValueSet :: "eprecord \<Rightarrow> uint64 list option" where
  "getReturnValueSet r = Option.bind (retIndex r) (\<lambda>i. getSet i r)"

definition getStoreSet :: "eprecord \<Rightarrow> uint64 list option" where
  "getStoreSet r = (if event r = RMW then getSet VC_RMWOUTINDEX r else getSet VC_BASEINDEX r)"

definition getNumFuncInputs :: "eprecord \<Rightarrow> nat" where
  "getNumFuncInputs r = numinputs r - VC_BASEINDEX"

definition setPhi :: "eprecord \<Rightarrow> eprecord" where
  "setPhi r = r\<lparr> phi := True \<rparr>"

definition setLoopPhi :: "eprecord \<Rightarrow> eprecord" where
  "setLoopPhi r = r\<lparr> philooptable := (if philooptable r = None then Some [] else philooptable r),
     phi := True, loopphi := True \<rparr>"

definition setCompletedGoal :: "gid \<Rightarrow> bool \<Rightarrow> eprecord \<Rightarrow> eprecord" where
  "setCompletedGoal c shared r = r\<lparr> completed := Some c, func_shares_goalset := shared \<rparr>"

definition hasAddr :: "uint64 \<Rightarrow> eprecord \<Rightarrow> bool option" where
  "hasAddr addr r = map_option (\<lambda>s. addr \<in> set s) (getSet VC_ADDRINDEX r)"

subsection \<open>The store of objects\<close>

record heap =
  recs :: "rid \<Rightarrow> eprecord"
  vals :: "vid \<Rightarrow> epvalue"
  goalsets :: "gid \<Rightarrow> cgoal list"

definition numValues :: "heap \<Rightarrow> rid \<Rightarrow> nat" where
  "numValues h r = length (valuevector (recs h r))"

text \<open>\<open>getIndex\<close> of a value pointer and of a value; -1 is \<open>None\<close>.\<close>

definition getIndex_ptr :: "heap \<Rightarrow> rid \<Rightarrow> vid \<Rightarrow> nat option" where
  "getIndex_ptr h r v = index_of v (valuevector (recs h r))"

definition getIndex_val :: "heap \<Rightarrow> rid \<Rightarrow> uint64 \<Rightarrow> nat option" where
  "getIndex_val h r val = index_of val (map (\<lambda>v. v_value (vals h v)) (valuevector (recs h r)))"

definition hasValue :: "heap \<Rightarrow> rid \<Rightarrow> uint64 \<Rightarrow> bool" where
  "hasValue h r val = list_ex (\<lambda>v. v_value (vals h v) = val) (valuevector (recs h r))"

definition upd_rec :: "rid \<Rightarrow> (eprecord \<Rightarrow> eprecord) \<Rightarrow> heap \<Rightarrow> heap" where
  "upd_rec r f h = h\<lparr> recs := (recs h)(r := f (recs h r)) \<rparr>"

definition upd_val :: "vid \<Rightarrow> (epvalue \<Rightarrow> epvalue) \<Rightarrow> heap \<Rightarrow> heap" where
  "upd_val v f h = h\<lparr> vals := (vals h)(v := f (vals h v)) \<rparr>"

lemma upd_rec_simps [simp]:
  "recs (upd_rec r f h) = (recs h)(r := f (recs h r))" "vals (upd_rec r f h) = vals h"
  "goalsets (upd_rec r f h) = goalsets h"
  by (simp_all add: upd_rec_def)

lemma upd_val_simps [simp]:
  "vals (upd_val v g h) = (vals h)(v := g (vals h v))" "recs (upd_val v g h) = recs h"
  "goalsets (upd_val v g h) = goalsets h"
  by (simp_all add: upd_val_def)

lemma hasValue_iff_index: "\<not> hasValue h r val \<longleftrightarrow> getIndex_val h r val = None"
  unfolding getIndex_val_def index_of_None_iff hasValue_def by (auto simp: list_ex_iff)

text \<open>A new record has its value sets allocated and empty, for every operation that reads one.\<close>

lemma new_record_sets:
  "i < inputs + 2 \<Longrightarrow> getSet i (new_EPRecord ev ep br off inputs ln any) = Some []"
  by (simp add: getSet_def new_EPRecord_def VC_BASEINDEX_def nth_opt_def del: replicate_Suc)

lemma addSet_getSet:
  "addSet i v r = Some r' \<Longrightarrow>
    getSet j r' = (if j = i then map_option (oset_add v) (getSet i r) else getSet j r)"
  by (auto simp: addSet_def getSet_def nth_opt_def Option.bind_eq_Some_conv)

lemma getReturnValueSet_new:
  assumes "event r = FUNCTION \<or> event r = EQUALS \<or> event r = LOAD \<or> event r = RMW"
    and "length (setarray r) = numinputs r" and "VC_BASEINDEX \<le> numinputs r"
    and "event r = RMW \<Longrightarrow> VC_RMWOUTINDEX < numinputs r"
  shows "\<exists>s. getReturnValueSet r = Some s"
  using assms
  by (auto simp: getReturnValueSet_def retIndex_def getSet_def nth_opt_def VC_defs split: event_type.splits)

subsection \<open>Changes (change.h, change.cc)\<close>

record mcchange =
  ch_record :: rid
  ch_val :: uint64
  ch_index :: nat

text \<open>The constructor asserts that the record is not a branch.\<close>

definition new_MCChange :: "heap \<Rightarrow> rid \<Rightarrow> uint64 \<Rightarrow> nat \<Rightarrow> mcchange option" where
  "new_MCChange h r val i =
     (if event (recs h r) \<noteq> BRANCHDIR then Some \<lparr> ch_record = r, ch_val = val, ch_index = i \<rparr> else None)"

definition MCChangeEquals :: "mcchange \<Rightarrow> mcchange \<Rightarrow> bool" where
  "MCChangeEquals c1 c2 = (ch_record c1 = ch_record c2 \<and> ch_val c1 = ch_val c2 \<and> ch_index c1 = ch_index c2)"

text \<open>The address of an object, which the hash reads, is an argument.\<close>

definition MCChangeHash :: "(rid \<Rightarrow> uint64) \<Rightarrow> mcchange \<Rightarrow> uint32" where
  "MCChangeHash addr_of c = xor32 (xor32 (ucast (addr_of (ch_record c))) (ucast (ch_val c))) (of_nat (ch_index c))"

lemma MCChangeEquals_iff [simp]: "MCChangeEquals c d \<longleftrightarrow> c = d"
  by (cases c; cases d) (auto simp: MCChangeEquals_def)

interpretation change_key: hash_keys "MCChangeHash addr_of" MCChangeEquals for addr_of
  by unfold_locales auto

subsection \<open>Pair keys (mcexecution.h, eprecord.h, constgen.cc)\<close>

definition RP_hash_function :: "(rid \<Rightarrow> uint64) \<Rightarrow> rid \<times> nat \<Rightarrow> uint32" where
  "RP_hash_function addr_of p = xor32 (ucast (drop_bit 4 (addr_of (fst p)))) (of_nat (snd p))"

definition RP_equals :: "rid \<times> nat \<Rightarrow> rid \<times> nat \<Rightarrow> bool" where
  "RP_equals k1 k2 = (fst k1 = fst k2 \<and> snd k1 = snd k2)"

interpretation record_int_key: hash_keys "RP_hash_function addr_of" RP_equals for addr_of
  by unfold_locales (auto simp: RP_equals_def RP_hash_function_def)

definition RIDP_hash_function :: "(rid option \<Rightarrow> uint64) \<Rightarrow> rid option \<times> rid \<Rightarrow> uint32" where
  "RIDP_hash_function addr_of p = xor32 (ucast (drop_bit 4 (addr_of (fst p)))) (ucast (addr_of (Some (snd p))))"

definition RIDP_equals :: "rid option \<times> rid \<Rightarrow> rid option \<times> rid \<Rightarrow> bool" where
  "RIDP_equals k1 k2 = (fst k1 = fst k2 \<and> snd k1 = snd k2)"

interpretation record_id_key: hash_keys "RIDP_hash_function addr_of" RIDP_equals for addr_of
  by unfold_locales (auto simp: RIDP_equals_def RIDP_hash_function_def)

text \<open>
  \<open>RecPairHash\<close> and \<open>RecPairEquals\<close> make a pair of records a key that does not depend on the
  order of the two, so one ordering variable serves both orders of the pair.
\<close>

definition RecPairHash :: "(rid \<Rightarrow> uint64) \<Rightarrow> rid \<times> rid \<Rightarrow> uint32" where
  "RecPairHash addr_of rp =
     (let v = addr_of (fst rp); v2 = addr_of (snd rp); x = Bit_Operations.xor v v2; a = Bit_Operations.and v v2 in
      ucast (Bit_Operations.xor (drop_bit 4 x) a))"

definition RecPairEquals :: "rid \<times> rid \<Rightarrow> rid \<times> rid \<Rightarrow> bool" where
  "RecPairEquals r1 r2 =
     ((fst r1 = fst r2 \<and> snd r1 = snd r2) \<or> (fst r1 = snd r2 \<and> snd r1 = fst r2))"

interpretation pair_key: hash_keys "RecPairHash addr_of" RecPairEquals for addr_of
  by unfold_locales (auto simp: RecPairEquals_def RecPairHash_def Let_def xor.commute and.commute)

end
