(* ===== verification/Memory.thy ===== *)
theory Memory
  imports SC_Prelude McUtil Records
begin

section \<open>Program memory and atomic operations (mcexecution.cc)\<close>

text \<open>
  The memory of the checked program is a map from addresses to bytes; a value of 1, 2, 4 or 8 bytes
  is stored with its low byte first. Any other length leaves memory untouched and reads 0, as the
  \<open>switch\<close> statements of the code do.
\<close>

type_synonym memory = "uint64 \<Rightarrow> 8 word"

definition access_len :: "int \<Rightarrow> nat" where
  "access_len len = (if len = 1 \<or> len = 2 \<or> len = 4 \<or> len = 8 then nat len else 0)"

definition write_mem :: "uint64 \<Rightarrow> uint64 \<Rightarrow> int \<Rightarrow> memory \<Rightarrow> memory" where
  "write_mem addr val len m =
     fold (\<lambda>i m. m(addr + of_nat i := ucast (drop_bit (8 * i) val))) [0..<access_len len] m"

definition read_mem :: "uint64 \<Rightarrow> int \<Rightarrow> memory \<Rightarrow> uint64" where
  "read_mem addr len m =
     fold (\<lambda>i v. Bit_Operations.or v (push_bit (8 * i) (ucast (m (addr + of_nat i))))) [0..<access_len len] 0"

lemma access_len_le: "access_len len \<le> 8"
  by (auto simp: access_len_def)

lemma of_nat_add_inj: "i < 8 \<Longrightarrow> j < 8 \<Longrightarrow> (a::uint64) + of_nat i = a + of_nat j \<Longrightarrow> i = j"
  by (simp add: word_of_nat_eq_iff take_bit_nat_eq_self)

lemma write_mem_at:
  "write_mem addr val len m a =
    (if \<exists>i < access_len len. a = addr + of_nat i
     then ucast (drop_bit (8 * (THE i. i < access_len len \<and> a = addr + of_nat i)) val) else m a)"
proof -
  have *: "k \<le> 8 \<Longrightarrow> fold (\<lambda>i m. m(addr + of_nat i := ucast (drop_bit (8 * i) val))) [0..<k] m a =
      (if \<exists>i < k. a = addr + of_nat i
       then ucast (drop_bit (8 * (THE i. i < k \<and> a = addr + of_nat i)) val) else m a)" for k
  proof (induction k)
    case 0
    then show ?case by simp
  next
    case (Suc k)
    show ?case
    proof (cases "a = addr + of_nat k")
      case True
      have "(THE i. i < Suc k \<and> a = addr + of_nat i) = k"
        by (rule the_equality) (use True Suc.prems of_nat_add_inj in auto)
      then show ?thesis using True by auto
    next
      case False
      then have "(i < Suc k \<and> a = addr + of_nat i) \<longleftrightarrow> (i < k \<and> a = addr + of_nat i)" for i
        by (auto simp: less_Suc_eq)
      then show ?thesis using False Suc by auto
    qed
  qed
  show ?thesis unfolding write_mem_def using * [OF access_len_le] by simp
qed

lemma write_mem_byte:
  assumes "i < access_len len"
  shows "write_mem addr val len m (addr + of_nat i) = ucast (drop_bit (8 * i) val)"
proof -
  have "(THE j. j < access_len len \<and> addr + of_nat i = addr + of_nat j) = i"
    by (rule the_equality) (use assms of_nat_add_inj access_len_le [of len] in fastforce)+
  then show ?thesis using assms unfolding write_mem_at by auto
qed

lemma write_mem_other:
  "(\<And>i. i < access_len len \<Longrightarrow> a \<noteq> addr + of_nat i) \<Longrightarrow> write_mem addr val len m a = m a"
  by (auto simp: write_mem_at)

lemma bit_read_mem:
  "bit (read_mem addr len m) n \<longleftrightarrow> n < 8 * access_len len \<and> bit (m (addr + of_nat (n div 8))) (n mod 8)"
proof -
  have *: "k \<le> 8 \<Longrightarrow> bit (fold (\<lambda>i v. Bit_Operations.or v (push_bit (8 * i) (ucast (m (addr + of_nat i))))) [0..<k] (0::uint64)) n \<longleftrightarrow>
      n < 8 * k \<and> bit (m (addr + of_nat (n div 8))) (n mod 8)" for k
  proof (induction k)
    case 0
    then show ?case by simp
  next
    case (Suc k)
    have b: "bit (push_bit (8 * k) (ucast (m (addr + of_nat k))) :: uint64) n \<longleftrightarrow>
        n < 64 \<and> 8 * k \<le> n \<and> n - 8 * k < 8 \<and> bit (m (addr + of_nat k)) (n - 8 * k)"
      by (auto simp: bit_push_bit_iff bit_ucast_iff dest: bit_imp_le_length)
    have d: "n div 8 = k \<and> n mod 8 = n - 8 * k" if "8 * k \<le> n" "n < 8 * Suc k"
      using that by (auto simp: div_nat_eqI modulo_nat_def)
    show ?case
      using Suc b d by (auto simp: bit_or_iff less_Suc_eq)
  qed
  show ?thesis unfolding read_mem_def using * [OF access_len_le] .
qed

text \<open>A read returns the low bytes of the last write to the same cell.\<close>

theorem read_write_mem:
  "read_mem addr len (write_mem addr val len m) = take_bit (8 * access_len len) val"
proof (rule bit_word_eqI)
  fix n :: nat
  assume n: "n < LENGTH(64)"
  have "bit (write_mem addr val len m (addr + of_nat (n div 8))) (n mod 8) \<longleftrightarrow> bit val n"
    if "n < 8 * access_len len"
  proof -
    have "n div 8 < access_len len" using that by (simp add: div_less_iff_less_mult mult.commute)
    then show ?thesis
      using n by (simp add: write_mem_byte bit_ucast_iff bit_drop_bit_eq)
  qed
  then show "bit (read_mem addr len (write_mem addr val len m)) n \<longleftrightarrow> bit (take_bit (8 * access_len len) val) n"
    by (auto simp: bit_read_mem bit_take_bit_iff)
qed

text \<open>The bytes of what is read.\<close>

lemma read_mem_byte:
  assumes "i < access_len len"
  shows "m (addr + of_nat i) = ucast (drop_bit (8 * i) (read_mem addr len m))"
proof (rule bit_word_eqI)
  fix n :: nat
  assume n: "n < LENGTH(8)"
  then have "(8 * i + n) div 8 = i" "(8 * i + n) mod 8 = n" "8 * i + n < 8 * access_len len"
    using assms by auto
  with n show "bit (m (addr + of_nat i)) n \<longleftrightarrow> bit (ucast (drop_bit (8 * i) (read_mem addr len m)) :: 8 word) n"
    by (simp add: bit_ucast_iff bit_drop_bit_eq bit_read_mem add.commute)
qed

subsection \<open>dormwaction\<close>

text \<open>
  The returned value, the value reported as written and the memory afterwards. The value written is
  masked to the length; a failed CAS writes nothing and reports the value read.
\<close>

definition rmw_memval :: "atomicop \<Rightarrow> uint64 \<Rightarrow> uint64 \<Rightarrow> uint64 \<Rightarrow> uint64" where
  "rmw_memval aop currval oldval valarg =
     (case aop of
        ADD \<Rightarrow> currval + valarg
      | CAS \<Rightarrow> if currval = oldval then valarg else currval
      | EXC \<Rightarrow> valarg)"

definition dormwaction :: "atomicop \<Rightarrow> uint64 \<Rightarrow> nat \<Rightarrow> uint64 \<Rightarrow> uint64 \<Rightarrow> uint64 \<Rightarrow> memory
    \<Rightarrow> uint64 \<times> uint64 \<times> memory" where
  "dormwaction aop addr len currval oldval valarg m =
     (let memval = rmw_memval aop currval oldval valarg;
          newval = bit_and64 memval (getmask len);
          m' = (if aop = ADD \<or> (aop = CAS \<and> currval = oldval) \<or> aop = EXC
                then write_mem addr newval (int len) m else m) in
      (currval, newval, m'))"

lemma mask_access:
  assumes "len \<in> {1, 2, 4, 8}"
  shows "bit_and64 v (getmask len) = take_bit (8 * len) v" and "access_len (int len) = len"
  using assms by (auto simp: mask_value access_len_def)

lemma take_bit_of_write:
  assumes "len \<in> {1, 2, 4, 8}"
  shows "read_mem addr (int len) (write_mem addr (bit_and64 v (getmask len)) (int len) m) = bit_and64 v (getmask len)"
  using mask_access [OF assms] by (simp add: read_write_mem)

text \<open>After the operation the cell holds what the operation reports as its new value.\<close>

theorem dormwaction_memory:
  assumes "len \<in> {1, 2, 4, 8}" and "currval = read_mem addr (int len) m"
    and "dormwaction aop addr len currval oldval valarg m = (retval, newval, m')"
  shows "retval = currval" and "read_mem addr (int len) m' = newval"
    and "newval = take_bit (8 * len) (rmw_memval aop currval oldval valarg)"
proof -
  let ?c = "aop = ADD \<or> (aop = CAS \<and> currval = oldval) \<or> aop = EXC"
  from assms(3) have r: "retval = currval" "newval = bit_and64 (rmw_memval aop currval oldval valarg) (getmask len)"
    "m' = (if ?c then write_mem addr newval (int len) m else m)"
    by (auto simp: dormwaction_def Let_def)
  show "retval = currval" by (rule r(1))
  show "newval = take_bit (8 * len) (rmw_memval aop currval oldval valarg)"
    using r(2) mask_access(1) [OF assms(1)] by simp
  show "read_mem addr (int len) m' = newval"
  proof (cases ?c)
    case True
    then show ?thesis using r(2,3) take_bit_of_write [OF assms(1)] by simp
  next
    case False
    then have "rmw_memval aop currval oldval valarg = currval" by (cases aop) (auto simp: rmw_memval_def)
    moreover have "take_bit (8 * len) currval = currval"
      unfolding assms(2)
      by (rule bit_word_eqI) (auto simp: bit_take_bit_iff bit_read_mem mask_access(2) [OF assms(1)])
    moreover have "m' = m" using r(3) False by (simp only: if_False)
    ultimately show ?thesis using r(2) assms(2) mask_access(1) [OF assms(1)] by simp
  qed
qed

text \<open>What the three operations store, written out, and that they change no other byte.\<close>

lemma dormwaction_stores:
  assumes "len \<in> {1, 2, 4, 8}" and "currval = read_mem addr (int len) m"
    and "dormwaction aop addr len currval oldval valarg m = (retval, newval, m')"
  shows "newval = take_bit (8 * len)
      (case aop of ADD \<Rightarrow> currval + valarg | CAS \<Rightarrow> if currval = oldval then valarg else currval | EXC \<Rightarrow> valarg)"
    and "i < len \<Longrightarrow> m' (addr + of_nat i) = ucast (drop_bit (8 * i) newval)"
    and "(\<And>i. i < len \<Longrightarrow> a \<noteq> addr + of_nat i) \<Longrightarrow> m' a = m a"
    and "aop = CAS \<Longrightarrow> currval \<noteq> oldval \<Longrightarrow> m' = m"
proof -
  note M = dormwaction_memory [OF assms]
  show "newval = take_bit (8 * len)
      (case aop of ADD \<Rightarrow> currval + valarg | CAS \<Rightarrow> if currval = oldval then valarg else currval | EXC \<Rightarrow> valarg)"
    using M(3) by (simp only: rmw_memval_def)
  show "i < len \<Longrightarrow> m' (addr + of_nat i) = ucast (drop_bit (8 * i) newval)"
    using read_mem_byte [of i "int len" m' addr] M(2) mask_access(2) [OF assms(1)] by simp
  show "(\<And>i. i < len \<Longrightarrow> a \<noteq> addr + of_nat i) \<Longrightarrow> m' a = m a"
    using assms(3) write_mem_other [of "int len" a addr newval m] mask_access(2) [OF assms(1)]
    by (auto simp: dormwaction_def Let_def split: if_splits)
  show "aop = CAS \<Longrightarrow> currval \<noteq> oldval \<Longrightarrow> m' = m"
    using assms(3) by (auto simp: dormwaction_def Let_def)
qed

end
