(* ===== verification/Execution.thy ===== *)
theory Execution
  imports Memory
begin

section \<open>The recorded execution (mcexecution.h, mcexecution.cc, threads.cc)\<close>

text \<open>
  \<open>MCExecution\<close> runs the instrumented program and builds the graph of event records. Every entry
  point of the instrumentation is an operation below. The calls to \<open>scheduler->check_preempt\<close>
  that some of them make switch to another thread; what happens then is in theory \<open>Scheduling\<close>,
  and the operations here start when the thread is resumed.

  The hash tables are maps: execution points are looked up by thread and stack, which is what
  \<open>ExecPointEquals\<close> compares on points with a correct hash (lemma \<open>ExecPointEquals_iff\<close>).
  \<open>currexecpoint\<close> always points to the entry of \<open>ExecPointList\<close> of the current thread, so it is
  that entry here.
\<close>

subsection \<open>Configuration\<close>

text \<open>\<open>TSO\<close> is a compile-time option; the others are command line parameters.\<close>

record config =
  TSO :: bool
  noexecyields :: bool
  only_branches :: bool

subsection \<open>Threads (threads-model.h, threads.cc)\<close>

datatype thread_state = THREAD_CREATED | THREAD_RUNNING | THREAD_READY | THREAD_BLOCKED | THREAD_COMPLETED

record thread =
  t_id :: nat
  t_parent :: "nat option"
  parentrecord :: "rid option"
  waiting :: "nat option"
  t_state :: thread_state

definition new_Thread :: "nat \<Rightarrow> nat option \<Rightarrow> rid option \<Rightarrow> thread" where
  "new_Thread tid par r =
     \<lparr> t_id = tid, t_parent = par, parentrecord = r, waiting = None, t_state = THREAD_CREATED \<rparr>"

definition is_complete :: "thread \<Rightarrow> bool" where
  "is_complete t = (t_state t = THREAD_COMPLETED)"

definition set_waiting :: "nat option \<Rightarrow> thread \<Rightarrow> thread" where
  "set_waiting w t = t\<lparr> waiting := w \<rparr>"

text \<open>A thread is completed once.\<close>

definition complete :: "thread \<Rightarrow> thread option" where
  "complete t = (if is_complete t then None else Some (t\<lparr> t_state := THREAD_COMPLETED \<rparr>))"

definition set_state :: "thread_state \<Rightarrow> thread \<Rightarrow> thread option" where
  "set_state s t =
     (if s = THREAD_COMPLETED \<or> t_state t \<noteq> THREAD_COMPLETED then Some (t\<lparr> t_state := s \<rparr>) else None)"

text \<open>The chain of waiting threads; a chain with a cycle that misses the target does not end.\<close>

fun is_waiting_on_fuel :: "nat \<Rightarrow> thread list \<Rightarrow> nat option \<Rightarrow> nat \<Rightarrow> bool option" where
  "is_waiting_on_fuel 0 ts w target = None"
| "is_waiting_on_fuel (Suc n) ts w target =
     (case w of
        None \<Rightarrow> Some False
      | Some t \<Rightarrow> if t = target then Some True
                   else do { th \<leftarrow> nth_opt ts t; is_waiting_on_fuel n ts (waiting th) target })"

definition is_waiting_on :: "thread list \<Rightarrow> thread \<Rightarrow> nat \<Rightarrow> bool option" where
  "is_waiting_on ts t target = is_waiting_on_fuel (length ts + 2) ts (waiting t) target"

subsection \<open>State\<close>

type_synonym ep_key = "nat \<times> (ep_type \<times> uint32) list"

definition ep_key :: "exec_point \<Rightarrow> ep_key" where
  "ep_key e = (ep_tid e, pairs e)"

record execution =
  hp :: heap
  next_rid :: nat
  next_vid :: nat
  next_gid :: nat
  EPTable :: "ep_key \<Rightarrow> rid option"
  EPValueTable :: "ep_key \<times> uint64 \<times> int \<times> uint64 \<Rightarrow> vid option"
  memtable :: "uint64 \<Rightarrow> MCID"
  storetable :: "uint64 \<Rightarrow> rid list option"
  loadtable :: "uint64 \<Rightarrow> rid list option"
  EPList :: "vid option list"
  ThreadList :: "thread list"
  storebuffer :: "vid list list"
  ExecPointList :: "exec_point list"
  CurrBranchList :: "vid option list"
  curr_thread :: "nat option"
  currbranch :: "vid option"
  eprecorddep :: "rid \<Rightarrow> (rid \<times> nat) list option"
  revrecorddep :: "rid \<times> nat \<Rightarrow> rid list option"
  alwaysexecuted :: "rid option list"
  lastloopexit :: "rid option list"
  joinvec :: "rid list"
  sharedgoals :: "gid option list"
  sharedfuncrecords :: "rid list option list"
  next_thread_id :: nat
  currid :: MCID
  id_addr :: MCID
  id_oldvalue :: MCID
  id_value :: MCID
  id_retval :: MCID
  id_addr_offset :: uint64
  mem :: memory
  changes :: "mcchange list"
  achieved :: "rid list"
  newbehavior :: bool

text \<open>
  The last three fields are what the operations tell the other parts: \<open>changes\<close> is
  \<open>Planner::changeset\<close>, \<open>achieved\<close> the arguments of the calls to \<open>ConstGen::achievedGoal\<close> and
  \<open>newbehavior\<close> the flag of the scheduler.
\<close>

abbreviation (input) MCID_NODEP :: MCID where "MCID_NODEP \<equiv> 0"
abbreviation (input) MCID_INIT :: MCID where "MCID_INIT \<equiv> 0"
abbreviation (input) MCID_FIRST :: MCID where "MCID_FIRST \<equiv> 1"

definition blank_record :: eprecord where
  "blank_record = new_EPRecord LABEL (new_exec_point 0 0) None 0 0 0 False"

definition blank_value :: epvalue where
  "blank_value = new_EPValue (new_exec_point 0 0) 0 0 0 8"

definition new_MCExecution :: "memory \<Rightarrow> execution" where
  "new_MCExecution m =
     \<lparr> hp = \<lparr> recs = (\<lambda>_. blank_record), vals = (\<lambda>_. blank_value), goalsets = (\<lambda>_. []) \<rparr>,
       next_rid = 0, next_vid = 0, next_gid = 0, EPTable = (\<lambda>_. None), EPValueTable = (\<lambda>_. None),
       memtable = (\<lambda>_. 0), storetable = (\<lambda>_. None), loadtable = (\<lambda>_. None), EPList = [None],
       ThreadList = [], storebuffer = [], ExecPointList = [], CurrBranchList = [], curr_thread = None,
       currbranch = None, eprecorddep = (\<lambda>_. None), revrecorddep = (\<lambda>_. None), alwaysexecuted = [],
       lastloopexit = [], joinvec = [], sharedgoals = [], sharedfuncrecords = [], next_thread_id = 0,
       currid = MCID_INIT, id_addr = 0, id_oldvalue = 0, id_value = 0, id_retval = 0,
       id_addr_offset = 0, mem = m, changes = [], achieved = [], newbehavior = False \<rparr>"

definition exec_reset :: "execution \<Rightarrow> execution" where
  "exec_reset e = e\<lparr> currid := MCID_INIT, currbranch := None, alwaysexecuted := [] \<rparr>"

definition getNextMCID :: "execution \<Rightarrow> MCID \<times> execution" where
  "getNextMCID e = (currid e + 1, e\<lparr> currid := currid e + 1 \<rparr>)"

definition ex_rec :: "rid \<Rightarrow> (eprecord \<Rightarrow> eprecord) \<Rightarrow> execution \<Rightarrow> execution" where
  "ex_rec r f e = e\<lparr> hp := upd_rec r f (hp e) \<rparr>"

definition ex_val :: "vid \<Rightarrow> (epvalue \<Rightarrow> epvalue) \<Rightarrow> execution \<Rightarrow> execution" where
  "ex_val v f e = e\<lparr> hp := upd_val v f (hp e) \<rparr>"

abbreviation rec_of :: "execution \<Rightarrow> rid \<Rightarrow> eprecord" where "rec_of e r \<equiv> recs (hp e) r"
abbreviation val_of :: "execution \<Rightarrow> vid \<Rightarrow> epvalue" where "val_of e v \<equiv> vals (hp e) v"

subsection \<open>The current execution point\<close>

definition curr_ep :: "execution \<Rightarrow> exec_point option" where
  "curr_ep e = do { t \<leftarrow> curr_thread e; nth_opt (ExecPointList e) t }"

definition set_curr_ep :: "exec_point \<Rightarrow> execution \<Rightarrow> execution option" where
  "set_curr_ep p e = do { t \<leftarrow> curr_thread e; Some (e\<lparr> ExecPointList := (ExecPointList e)[t := p] \<rparr>) }"

definition inc_top :: "execution \<Rightarrow> execution option" where
  "inc_top e = do { p \<leftarrow> curr_ep e; p \<leftarrow> incrementTop p; set_curr_ep p e }"

definition push_ep :: "ep_type \<Rightarrow> uint32 \<Rightarrow> execution \<Rightarrow> execution option" where
  "push_ep t v e = do { p \<leftarrow> curr_ep e; p \<leftarrow> ep_push t v p; set_curr_ep p e }"

definition pop_ep :: "execution \<Rightarrow> execution option" where
  "pop_ep e = do { p \<leftarrow> curr_ep e; p \<leftarrow> ep_pop p; set_curr_ep p e }"

subsection \<open>getOrCreateCurrRecord\<close>

definition create_record :: "event_type \<Rightarrow> exec_point \<Rightarrow> uint64 \<Rightarrow> nat \<Rightarrow> nat \<Rightarrow> bool \<Rightarrow> execution \<Rightarrow> rid \<times> execution" where
  "create_record et currep off inputs len br_anyvalue e =
     (let r = next_rid e;
          ep = copy_exec_point currep;
          e = ex_rec r (\<lambda>_. new_EPRecord et ep (currbranch e) off inputs len br_anyvalue) e in
      (r, e\<lparr> next_rid := Suc r,
             joinvec := (if et = THREADJOIN then joinvec e @ [r] else joinvec e),
             EPTable := (EPTable e)(ep_key ep \<mapsto> r) \<rparr>))"

text \<open>The record is linked after the last one of its thread, or of its branch.\<close>

definition link_record :: "event_type \<Rightarrow> nat \<Rightarrow> rid \<Rightarrow> execution \<Rightarrow> execution" where
  "link_record et tid r e =
     (case currbranch e of
        None \<Rightarrow>
          (let always = resize_to (tid + 1) None (alwaysexecuted e);
               e = (case always ! tid of
                      Some prev \<Rightarrow> if et \<noteq> LABEL \<and> et \<noteq> LOOPSTART
                                    then ex_rec prev (\<lambda>q. q\<lparr> nextRecord := Some r \<rparr>) e else e
                    | None \<Rightarrow> e) in
           e\<lparr> alwaysexecuted := always[tid := Some r] \<rparr>)
      | Some b \<Rightarrow>
          (let e = (if firstrecord (val_of e b) = None then ex_val b (\<lambda>v. v\<lparr> firstrecord := Some r \<rparr>) e else e);
               e = (case lastrecord (val_of e b) of
                      Some prev \<Rightarrow> if et \<noteq> LABEL \<and> et \<noteq> LOOPSTART
                                    then ex_rec prev (\<lambda>q. q\<lparr> nextRecord := Some r \<rparr>) e else e
                    | None \<Rightarrow> e) in
           ex_val b (\<lambda>v. v\<lparr> lastrecord := Some r \<rparr>) e))"

definition getOrCreateCurrRecord :: "event_type \<Rightarrow> uint64 \<Rightarrow> nat \<Rightarrow> nat \<Rightarrow> bool \<Rightarrow> execution
    \<Rightarrow> (bool \<times> rid \<times> execution) option" where
  "getOrCreateCurrRecord et off inputs len br_anyvalue e = do {
     ep \<leftarrow> curr_ep e;
     (case EPTable e (ep_key ep) of
        None \<Rightarrow>
          (let (r, e) = create_record et ep off inputs len br_anyvalue e in
           Some (True, r, link_record et (ep_tid ep) r e))
      | Some r \<Rightarrow>
          if offset (rec_of e r) = off then Some (False, r, link_record et (ep_tid ep) r e) else None) }"

subsection \<open>getEPValue\<close>

definition getEPValue :: "rid \<Rightarrow> uint64 \<Rightarrow> uint64 \<Rightarrow> int \<Rightarrow> execution \<Rightarrow> bool \<times> vid \<times> execution" where
  "getEPValue r addr val len e =
     (let epvalue = new_EPValue (r_ep (rec_of e r)) r addr val len;
          key = (ep_key (v_ep epvalue), addr, len, v_value epvalue) in
      case EPValueTable e key of
        Some old \<Rightarrow> (False, old, e)
      | None \<Rightarrow>
          (let v = next_vid e;
               e = ex_val v (\<lambda>_. epvalue) e;
               e = ex_rec r (\<lambda>q. q\<lparr> valuevector := valuevector q @ [v] \<rparr>) e in
           (True, v, e\<lparr> next_vid := Suc v, EPValueTable := (EPValueTable e)(key \<mapsto> v) \<rparr>)))"

definition value_at :: "MCID \<Rightarrow> execution \<Rightarrow> vid option" where
  "value_at mcid e = Option.bind (nth_opt (EPList e) mcid) id"

definition getEPRecord :: "MCID \<Rightarrow> execution \<Rightarrow> rid option" where
  "getEPRecord mcid e = map_option (\<lambda>v. v_record (val_of e v)) (value_at mcid e)"

definition push_EPList :: "vid \<Rightarrow> execution \<Rightarrow> execution" where
  "push_EPList v e = e\<lparr> EPList := EPList e @ [Some v] \<rparr>"

text \<open>\<open>getNextMCID\<close>, the assertion that it is the index of the new entry, and the entry.\<close>

definition next_entry :: "vid \<Rightarrow> execution \<Rightarrow> (MCID \<times> execution) option" where
  "next_entry v e =
     (let (mcid, e) = getNextMCID e in
      if length (EPList e) = mcid then Some (mcid, push_EPList v e) else None)"

subsection \<open>Dependences\<close>

definition addRecordDepTable :: "rid \<Rightarrow> rid \<Rightarrow> nat \<Rightarrow> execution \<Rightarrow> execution" where
  "addRecordDepTable r deprecord i e =
     (let pair = (deprecord, i);
          deps = (case eprecorddep e r of None \<Rightarrow> [] | Some s \<Rightarrow> s);
          recvec = (case revrecorddep e pair of None \<Rightarrow> [] | Some v \<Rightarrow> v) in
      e\<lparr> eprecorddep := (eprecorddep e)(r \<mapsto> oset_add pair deps),
         revrecorddep := (revrecorddep e)(pair \<mapsto> oset_add r recvec) \<rparr>)"

definition getRevDependences :: "execution \<Rightarrow> rid \<Rightarrow> nat \<Rightarrow> rid list option" where
  "getRevDependences e r i = revrecorddep e (r, i)"

fun record_inputs :: "rid \<Rightarrow> nat \<Rightarrow> MCID list \<Rightarrow> execution \<Rightarrow> execution option" where
  "record_inputs r i [] e = Some e"
| "record_inputs r i (mcid # mcids) e =
     (if mcid = MCID_NODEP then record_inputs r (Suc i) mcids e
      else do { epi \<leftarrow> getEPRecord mcid e;
                record_inputs r (Suc i) mcids (addRecordDepTable epi r (VC_BASEINDEX + i) e) })"

definition record_dep :: "MCID \<Rightarrow> rid \<Rightarrow> nat \<Rightarrow> execution \<Rightarrow> execution option" where
  "record_dep mcid r i e =
     (if mcid = MCID_NODEP then Some e
      else do { q \<leftarrow> getEPRecord mcid e; Some (addRecordDepTable q r i e) })"

definition recordContext :: "vid \<Rightarrow> MCID \<Rightarrow> MCID \<Rightarrow> MCID list \<Rightarrow> execution \<Rightarrow> execution option" where
  "recordContext epv rf addr mcids e =
     (let r = v_record (val_of e epv) in do {
        e \<leftarrow> record_inputs r 0 mcids e;
        e \<leftarrow> record_dep rf r VC_RFINDEX e;
        record_dep addr r VC_ADDRINDEX e })"

subsection \<open>Changes for the planner\<close>

definition addChange :: "rid \<Rightarrow> uint64 \<Rightarrow> nat \<Rightarrow> execution \<Rightarrow> execution option" where
  "addChange r val i e = do {
     c \<leftarrow> new_MCChange (hp e) r val i;
     Some (e\<lparr> changes := oset_add c (changes e) \<rparr>) }"

definition addToSet :: "nat \<Rightarrow> uint64 \<Rightarrow> rid \<Rightarrow> execution \<Rightarrow> execution option" where
  "addToSet i v r e = do { q \<leftarrow> addSet i v (rec_of e r); Some (ex_rec r (\<lambda>_. q) e) }"

text \<open>The addition of a value that the set of the record does not have yet, and its change.\<close>

definition record_new :: "nat \<Rightarrow> uint64 \<Rightarrow> rid \<Rightarrow> execution \<Rightarrow> execution option" where
  "record_new i v r e = do {
     s \<leftarrow> getSet i (rec_of e r);
     if v \<in> set s then Some e
     else do { e \<leftarrow> addToSet i v r e; addChange r v i e } }"

definition recordFunctionChange :: "rid \<Rightarrow> uint64 \<Rightarrow> execution \<Rightarrow> execution option" where
  "recordFunctionChange r val e = record_new VC_FUNCOUTINDEX val r e"

definition recordLoadChange :: "rid \<Rightarrow> uint64 \<Rightarrow> execution \<Rightarrow> execution option" where
  "recordLoadChange r addr e = record_new VC_ADDRINDEX addr r e"

text \<open>A store asks whether one of its values has the new value, not whether its set does.\<close>

definition recordStoreChange :: "rid \<Rightarrow> uint64 \<Rightarrow> uint64 \<Rightarrow> execution \<Rightarrow> execution option" where
  "recordStoreChange r addr val e = do {
     e \<leftarrow> record_new VC_ADDRINDEX addr r e;
     if hasValue (hp e) r val then Some e
     else do { e \<leftarrow> addToSet VC_BASEINDEX val r e; addChange r val VC_BASEINDEX e } }"

definition recordRMWChange :: "rid \<Rightarrow> uint64 \<Rightarrow> uint64 \<Rightarrow> uint64 \<Rightarrow> uint64 \<Rightarrow> execution \<Rightarrow> execution option" where
  "recordRMWChange r addr valarg oldval newval e = do {
     e \<leftarrow> record_new VC_ADDRINDEX addr r e;
     e \<leftarrow> addToSet VC_BASEINDEX valarg r e;
     e \<leftarrow> (if op (rec_of e r) = Some CAS then addToSet VC_OLDVALCASINDEX oldval r e else Some e);
     record_new VC_RMWOUTINDEX newval r e }"

subsection \<open>Tables from addresses to operations\<close>

definition addTable :: "(uint64 \<Rightarrow> rid list option) \<Rightarrow> uint64 \<Rightarrow> rid \<Rightarrow> uint64 \<Rightarrow> rid list option" where
  "addTable table addr r = table(addr \<mapsto> oset_add r (case table addr of None \<Rightarrow> [] | Some s \<Rightarrow> s))"

definition addStoreTable :: "uint64 \<Rightarrow> rid \<Rightarrow> execution \<Rightarrow> execution" where
  "addStoreTable addr r e = e\<lparr> storetable := addTable (storetable e) addr r \<rparr>"

definition addLoadTable :: "uint64 \<Rightarrow> rid \<Rightarrow> execution \<Rightarrow> execution" where
  "addLoadTable addr r e = e\<lparr> loadtable := addTable (loadtable e) addr r \<rparr>"

subsection \<open>Identifiers of the operands\<close>

definition loadMCID :: "MCID \<Rightarrow> uint64 \<Rightarrow> execution \<Rightarrow> MCID \<times> execution" where
  "loadMCID maddr off e =
     (let (n, e) = getNextMCID (e\<lparr> id_addr := maddr, id_addr_offset := off \<rparr>) in
      (n, e\<lparr> id_retval := n \<rparr>))"

definition storeMCID :: "MCID \<Rightarrow> uint64 \<Rightarrow> MCID \<Rightarrow> execution \<Rightarrow> execution" where
  "storeMCID maddr off val e = e\<lparr> id_addr := maddr, id_addr_offset := off, id_value := val \<rparr>"

definition nextRMW :: "MCID \<Rightarrow> uint64 \<Rightarrow> MCID \<Rightarrow> MCID \<Rightarrow> execution \<Rightarrow> MCID \<times> execution" where
  "nextRMW maddr off oldval valarg e =
     (let (n, e) = getNextMCID (e\<lparr> id_addr := maddr, id_addr_offset := off, id_oldvalue := oldval,
                                  id_value := valarg \<rparr>) in
      (n, e\<lparr> id_retval := n \<rparr>))"

subsection \<open>Store buffers\<close>

definition isEmptyStoreBuffer :: "nat \<Rightarrow> execution \<Rightarrow> bool option" where
  "isEmptyStoreBuffer tid e = map_option (\<lambda>l. l = []) (nth_opt (storebuffer e) tid)"

definition getStoreBuffer :: "nat \<Rightarrow> execution \<Rightarrow> vid option option" where
  "getStoreBuffer tid e = map_option (\<lambda>l. case l of [] \<Rightarrow> None | v # _ \<Rightarrow> Some v) (nth_opt (storebuffer e) tid)"

definition doStore_val :: "vid \<Rightarrow> execution \<Rightarrow> execution" where
  "doStore_val v e =
     (let epval = val_of e v in e\<lparr> mem := write_mem (v_addr epval) (v_value epval) (v_len epval) (mem e) \<rparr>)"

definition doStore :: "nat \<Rightarrow> execution \<Rightarrow> execution option" where
  "doStore tid e = do {
     l \<leftarrow> nth_opt (storebuffer e) tid;
     (case l of
        [] \<Rightarrow> None
      | v # rest \<Rightarrow> Some (doStore_val v (e\<lparr> storebuffer := (storebuffer e)[tid := rest] \<rparr>))) }"

definition exec_fence :: "execution \<Rightarrow> execution option" where
  "exec_fence e = do {
     (_, _, e) \<leftarrow> getOrCreateCurrRecord FENCE 0 0 8 False e;
     e \<leftarrow> inc_top e;
     ep \<leftarrow> curr_ep e;
     l \<leftarrow> nth_opt (storebuffer e) (ep_tid ep);
     Some (fold doStore_val l (e\<lparr> storebuffer := (storebuffer e)[ep_tid ep := []] \<rparr>)) }"

subsection \<open>Stores, loads and atomic operations\<close>

definition exec_store :: "config \<Rightarrow> uint64 \<Rightarrow> uint64 \<Rightarrow> int \<Rightarrow> execution \<Rightarrow> execution option" where
  "exec_store cfg addr val len e = do {
     let e = (if TSO cfg then e else e\<lparr> mem := write_mem addr val len (mem e) \<rparr>);
     (_, r, e) \<leftarrow> getOrCreateCurrRecord STORE (id_addr_offset e) 1 (nat len) False e;
     e \<leftarrow> recordStoreChange r addr val e;
     let e = addStoreTable addr r e;
     let (_, v, e) = getEPValue r addr val len e;
     e \<leftarrow> (if TSO cfg then do {
             ep \<leftarrow> curr_ep e;
             l \<leftarrow> nth_opt (storebuffer e) (ep_tid ep);
             Some (e\<lparr> storebuffer := (storebuffer e)[ep_tid ep := l @ [v]] \<rparr>) }
           else Some e);
     e \<leftarrow> recordContext v MCID_NODEP (id_addr e) [id_value e] e;
     (stmcid, e) \<leftarrow> next_entry v e;
     inc_top (e\<lparr> memtable := (memtable e)(addr := stmcid) \<rparr>) }"

text \<open>Under TSO the youngest buffered store to the same address is read first.\<close>

definition buffered :: "execution \<Rightarrow> vid list \<Rightarrow> uint64 \<Rightarrow> vid option" where
  "buffered e buf addr = find (\<lambda>v. v_addr (val_of e v) = addr) (rev buf)"

definition load_value :: "config \<Rightarrow> uint64 \<Rightarrow> int \<Rightarrow> execution \<Rightarrow> uint64 option" where
  "load_value cfg addr len e =
     (if TSO cfg then do {
        ep \<leftarrow> curr_ep e;
        buf \<leftarrow> nth_opt (storebuffer e) (ep_tid ep);
        Some (case buffered e buf addr of
                Some v \<Rightarrow> v_value (val_of e v)
              | None \<Rightarrow> read_mem addr len (mem e)) }
      else Some (read_mem addr len (mem e)))"

definition exec_load :: "config \<Rightarrow> uint64 \<Rightarrow> int \<Rightarrow> execution \<Rightarrow> (uint64 \<times> execution) option" where
  "exec_load cfg addr len e = do {
     val \<leftarrow> load_value cfg addr len e;
     _ \<leftarrow> (if id_addr e = MCID_NODEP then Some ()
           else do { a \<leftarrow> value_at (id_addr e) e;
                     if v_value (val_of e a) + id_addr_offset e = addr then Some () else None });
     (_, r, e) \<leftarrow> getOrCreateCurrRecord LOAD (id_addr_offset e) 0 (nat len) False e;
     e \<leftarrow> recordLoadChange r addr e;
     let e = addLoadTable addr r e;
     let (_, v, e) = getEPValue r addr val len e;
     e \<leftarrow> recordContext v (memtable e addr) (id_addr e) [] e;
     (if length (EPList e) = id_retval e then do {
        e \<leftarrow> inc_top (push_EPList v e);
        Some (val, e) }
      else None) }"

definition exec_rmw :: "atomicop \<Rightarrow> uint64 \<Rightarrow> nat \<Rightarrow> uint64 \<Rightarrow> uint64 \<Rightarrow> uint64 \<Rightarrow> execution
    \<Rightarrow> (uint64 \<times> execution) option" where
  "exec_rmw aop addr len currval oldval valarg e = do {
     let (retval, newval, m) = dormwaction aop addr len currval oldval valarg (mem e);
     let e = e\<lparr> mem := m \<rparr>;
     let mcids = (if aop = ADD then [id_value e] else [id_value e, id_oldvalue e]);
     (_, r, e) \<leftarrow> getOrCreateCurrRecord RMW (id_addr_offset e) (VC_RMWOUTINDEX - VC_RFINDEX) len False e;
     let e = ex_rec r (\<lambda>q. q\<lparr> op := Some aop \<rparr>) e;
     e \<leftarrow> recordRMWChange r addr valarg oldval newval e;
     let e = addStoreTable addr r (addLoadTable addr r e);
     let (_, v, e) = getEPValue r addr retval (int len) e;
     e \<leftarrow> recordContext v (memtable e addr) (id_addr e) mcids e;
     (if length (EPList e) = id_retval e then do {
        let e = push_EPList v e;
        e \<leftarrow> inc_top (e\<lparr> memtable := (memtable e)(addr := id_retval e) \<rparr>);
        Some (retval, e) }
      else None) }"

end
