(* ===== verification/ExecControl.thy ===== *)
theory ExecControl
  imports Execution
begin

section \<open>Branches, functions, threads and loops of the recorded execution (mcexecution.cc)\<close>

text \<open>
  The entry points of the instrumentation that do not touch memory: branches and merges, phi
  functions, uninterpreted functions with their goals, thread operations, allocation and loops.
\<close>

subsection \<open>Branches\<close>

text \<open>
  The value of a branch is its direction; \<open>getEPValue\<close> is given the length 32. The direction is an
  \<open>int\<close>, pushed as an \<open>unsigned int\<close> on the execution point.
\<close>

definition branchDir :: "MCID \<Rightarrow> int \<Rightarrow> nat \<Rightarrow> bool \<Rightarrow> execution \<Rightarrow> (MCID \<times> execution) option" where
  "branchDir dirid direction numdirs any e = do {
     (_, r, e) \<leftarrow> getOrCreateCurrRecord BRANCHDIR 0 1 numdirs any e;
     let (isNew, v, e) = getEPValue r 0 (of_int direction) 32 e;
     let e = (if isNew then e\<lparr> achieved := achieved e @ [r], newbehavior := True \<rparr> else e);
     let e = ex_val v (\<lambda>q. q\<lparr> lastrecord := None \<rparr>) (e\<lparr> currbranch := Some v \<rparr>);
     e \<leftarrow> recordContext v MCID_NODEP MCID_NODEP [dirid] e;
     (brmcid, e) \<leftarrow> next_entry v e;
     e \<leftarrow> push_ep EP_BRANCH (of_int direction) e;
     e \<leftarrow> push_ep EP_COUNTER 0 e;
     Some (brmcid, e) }"

fun pops :: "nat \<Rightarrow> execution \<Rightarrow> execution option" where
  "pops 0 e = Some e"
| "pops (Suc n) e = Option.bind (pop_ep e) (pops n)"

definition merge :: "MCID \<Rightarrow> execution \<Rightarrow> execution option" where
  "merge mcid e = do {
     v \<leftarrow> value_at mcid e;
     let ep = v_ep (val_of e v);
     r \<leftarrow> EPTable e (ep_key ep);
     let e = e\<lparr> currbranch := branch (rec_of e r) \<rparr>;
     cur \<leftarrow> curr_ep e;
     e \<leftarrow> pops (getSize cur - getSize ep) e;
     e \<leftarrow> inc_top e;
     (_, _, e) \<leftarrow> getOrCreateCurrRecord MERGE 0 0 8 False e;
     inc_top e }"

subsection \<open>Phi functions and equality\<close>

definition phi_fun :: "MCID \<Rightarrow> execution \<Rightarrow> (MCID \<times> execution) option" where
  "phi_fun input e = do {
     (_, r, e) \<leftarrow> getOrCreateCurrRecord FUNCTION 0 1 8 False e;
     let e = ex_rec r setPhi e;
     epinput \<leftarrow> value_at input e;
     let (_, v, e) = getEPValue r 0 (v_value (val_of e epinput)) 8 e;
     e \<leftarrow> recordContext v MCID_NODEP MCID_NODEP [input] e;
     (fnmcid, e) \<leftarrow> next_entry v e;
     e \<leftarrow> inc_top e;
     Some (fnmcid, e) }"

definition loop_phi :: "MCID \<Rightarrow> execution \<Rightarrow> (MCID \<times> execution) option" where
  "loop_phi input e = do {
     (_, r, e) \<leftarrow> getOrCreateCurrRecord FUNCTION 0 1 8 False e;
     let e = ex_rec r setLoopPhi e;
     epinput \<leftarrow> value_at input e;
     let (_, v, e) = getEPValue r 0 (v_value (val_of e epinput)) 8 e;
     e \<leftarrow> recordContext v MCID_NODEP MCID_NODEP [input] e;
     ep \<leftarrow> curr_ep e;
     exitrec \<leftarrow> nth_opt (lastloopexit e) (ep_tid ep);
     inrec \<leftarrow> getEPRecord input e;
     phiset \<leftarrow> philooptable (rec_of e r);
     let e = ex_rec r (\<lambda>q. q\<lparr> philooptable := Some (oset_add (exitrec, inrec) phiset) \<rparr>) e;
     (fnmcid, e) \<leftarrow> next_entry v e;
     e \<leftarrow> inc_top e;
     Some (fnmcid, e) }"

definition exec_equals :: "MCID \<Rightarrow> uint64 \<Rightarrow> MCID \<Rightarrow> uint64 \<Rightarrow> execution \<Rightarrow> (uint64 \<times> MCID \<times> execution) option" where
  "exec_equals op1 val1 op2 val2 e = do {
     let eq = (if val1 = val2 then 1 else 0);
     (isNew, r, e) \<leftarrow> getOrCreateCurrRecord EQUALS 0 2 8 False e;
     let (_, v, e) = getEPValue r 0 eq 8 e;
     let (_, _, e) = getEPValue r 0 (1 - eq) 8 e;
     e \<leftarrow> recordContext v MCID_NODEP MCID_NODEP [op1, op2] e;
     e \<leftarrow> (if isNew then do { e \<leftarrow> recordFunctionChange r 0 e; recordFunctionChange r 1 e } else Some e);
     e \<leftarrow> (if op1 = MCID_NODEP then addToSet VC_BASEINDEX val1 r e else Some e);
     e \<leftarrow> (if op2 = MCID_NODEP then addToSet (VC_BASEINDEX + 1) val2 r e else Some e);
     (eqmcid, e) \<leftarrow> next_entry v e;
     e \<leftarrow> inc_top e;
     Some (eq, eqmcid, e) }"

subsection \<open>Uninterpreted functions\<close>

text \<open>Are all inputs of the goal among the input values of the record?\<close>

fun has_inputs :: "nat \<Rightarrow> uint64 list \<Rightarrow> eprecord \<Rightarrow> bool option" where
  "has_inputs i [] r = Some True"
| "has_inputs i (v # vs) r = do {
     s \<leftarrow> getSet i r;
     if v \<in> set s then has_inputs (Suc i) vs r else Some False }"

definition evalGoal :: "rid \<Rightarrow> cgoal \<Rightarrow> execution \<Rightarrow> execution option" where
  "evalGoal r goal e = do {
     all \<leftarrow> has_inputs VC_BASEINDEX (drop VC_BASEINDEX (valarray goal)) (rec_of e r);
     if all then recordFunctionChange r (outputvalue goal) e else Some e }"

definition new_goalset :: "execution \<Rightarrow> gid \<times> execution" where
  "new_goalset e =
     (let g = next_gid e in
      (g, e\<lparr> next_gid := Suc g, hp := (hp e)\<lparr> goalsets := (goalsets (hp e))(g := []) \<rparr> \<rparr>))"

text \<open>The slot of a shared function identifier, made on its first use.\<close>

definition shared_slot :: "nat \<Rightarrow> execution \<Rightarrow> gid \<times> execution" where
  "shared_slot f e =
     (let goals = resize_to (f + 1) None (sharedgoals e);
          funcs = resize_to (f + 1) None (sharedfuncrecords e) in
      case goals ! f of
        Some g \<Rightarrow> (g, e\<lparr> sharedgoals := goals, sharedfuncrecords := funcs \<rparr>)
      | None \<Rightarrow>
          (let (g, e) = new_goalset e in
           (g, e\<lparr> sharedgoals := goals[f := Some g], sharedfuncrecords := funcs[f := Some []] \<rparr>)))"

definition copy_inputs :: "rid \<Rightarrow> nat \<times> MCID \<Rightarrow> execution \<Rightarrow> execution option" where
  "copy_inputs r p e = do {
     input \<leftarrow> getEPRecord (snd p) e;
     vs \<leftarrow> getReturnValueSet (rec_of e input);
     foldM (\<lambda>v. addToSet (VC_BASEINDEX + fst p) v r) vs e }"

definition init_function :: "nat \<Rightarrow> MCID list \<Rightarrow> rid \<Rightarrow> execution \<Rightarrow> execution option" where
  "init_function f mcids r e =
     (if f = 0 then
        (let (g, e) = new_goalset e in Some (ex_rec r (setCompletedGoal g False) e))
      else do {
        let (g, e) = shared_slot f e;
        let e = ex_rec r (setCompletedGoal g True) e;
        funcs \<leftarrow> sharedfuncrecords e ! f;
        let e = e\<lparr> sharedfuncrecords := (sharedfuncrecords e)[f := Some (oset_add r funcs)] \<rparr>;
        e \<leftarrow> foldM (copy_inputs r) (enumerate 0 mcids) e;
        foldM (evalGoal r) (goalsets (hp e) g) e })"

definition goal_vals :: "MCID list \<Rightarrow> execution \<Rightarrow> uint64 list option" where
  "goal_vals mcids e =
     map_option (\<lambda>vs. replicate VC_BASEINDEX 0 @ vs)
       (those (map (\<lambda>m. map_option (\<lambda>v. v_value (val_of e v)) (value_at m e)) mcids))"

text \<open>A new input combination is a goal reached: it is stored and offered to the other records.\<close>

definition finish_goal :: "nat \<Rightarrow> rid \<Rightarrow> uint64 list \<Rightarrow> uint64 \<Rightarrow> execution \<Rightarrow> execution option" where
  "finish_goal f r valarr val e = do {
     g \<leftarrow> completed (rec_of e r);
     let goal = new_CGoal valarr;
     (if list_ex (CGoalEquals goal) (goalsets (hp e) g) then Some e
      else do {
        let e = e\<lparr> newbehavior := True, achieved := achieved e @ [r] \<rparr>;
        let goal = setOutput val goal;
        let e = e\<lparr> hp := (hp e)\<lparr> goalsets := (goalsets (hp e))(g := goalsets (hp e) g @ [goal]) \<rparr> \<rparr>;
        e \<leftarrow> recordFunctionChange r val e;
        (if f \<noteq> 0 then do {
           funcs \<leftarrow> Option.bind (nth_opt (sharedfuncrecords e) f) id;
           foldM (\<lambda>func e. if func = r then Some e else evalGoal func goal e) funcs e }
         else Some e) }) }"

definition exec_function :: "nat \<Rightarrow> nat \<Rightarrow> uint64 \<Rightarrow> MCID list \<Rightarrow> execution \<Rightarrow> (MCID \<times> execution) option" where
  "exec_function f len val mcids e = do {
     (isNew, r, e) \<leftarrow> getOrCreateCurrRecord FUNCTION 0 (length mcids) len False e;
     e \<leftarrow> (if isNew then init_function f mcids r e else Some e);
     let val = bit_and64 val (getmask len);
     let (_, v, e) = getEPValue r 0 val (int len) e;
     e \<leftarrow> recordContext v MCID_NODEP MCID_NODEP mcids e;
     valarr \<leftarrow> goal_vals mcids e;
     (fnmcid, e) \<leftarrow> next_entry v e;
     e \<leftarrow> inc_top e;
     e \<leftarrow> finish_goal f r valarr val e;
     Some (fnmcid, e) }"

subsection \<open>Threads\<close>

definition get_next_tid :: "execution \<Rightarrow> nat \<times> execution" where
  "get_next_tid e = (next_thread_id e, e\<lparr> next_thread_id := next_thread_id e + 1 \<rparr>)"

definition add_thread :: "thread \<Rightarrow> execution \<Rightarrow> execution option" where
  "add_thread t e = do {
     ep \<leftarrow> ep_push EP_COUNTER 0 (new_exec_point 4 (t_id t));
     Some (e\<lparr> ThreadList := ThreadList e @ [t], ExecPointList := ExecPointList e @ [ep],
              CurrBranchList := CurrBranchList e @ [None], storebuffer := storebuffer e @ [[]] \<rparr>) }"

definition set_current_thread :: "nat option \<Rightarrow> execution \<Rightarrow> execution option" where
  "set_current_thread t e = do {
     let e = (case curr_thread e of
                Some old \<Rightarrow> e\<lparr> CurrBranchList := (CurrBranchList e)[old := currbranch e] \<rparr>
              | None \<Rightarrow> e);
     br \<leftarrow> (case t of None \<Rightarrow> Some None | Some tid \<Rightarrow> nth_opt (CurrBranchList e) tid);
     Some (e\<lparr> curr_thread := t, currbranch := br \<rparr>) }"

definition threadStart :: "rid option \<Rightarrow> execution \<Rightarrow> execution option" where
  "threadStart par e = do {
     (_, r, e) \<leftarrow> getOrCreateCurrRecord THREADBEGIN 0 0 8 False e;
     let e = (case par of Some p \<Rightarrow> ex_rec p (\<lambda>q. q\<lparr> childRecord := Some r \<rparr>) e | None \<Rightarrow> e);
     inc_top e }"

definition threadCreate :: "execution \<Rightarrow> execution option" where
  "threadCreate e = do {
     (_, r, e) \<leftarrow> getOrCreateCurrRecord THREADCREATE 0 0 8 False e;
     e \<leftarrow> inc_top e;
     let (tid, e) = get_next_tid e;
     add_thread (new_Thread tid (curr_thread e) (Some r)) e }"

text \<open>
  One turn of the loop of \<open>threadJoin\<close>: either the thread is complete and the join is recorded, or
  the current thread waits and \<open>check_preempt\<close> is called; after it the wait is over.
\<close>

definition threadJoin_step :: "nat \<Rightarrow> execution \<Rightarrow> (bool \<times> execution) option" where
  "threadJoin_step blocking e = do {
     b \<leftarrow> nth_opt (ThreadList e) blocking;
     if is_complete b then do {
       (_, r, e) \<leftarrow> getOrCreateCurrRecord THREADJOIN 0 0 8 False e;
       e \<leftarrow> inc_top e;
       Some (True, ex_rec r (\<lambda>q. q\<lparr> jointhread := Some blocking \<rparr>) e) }
     else do {
       t \<leftarrow> curr_thread e;
       th \<leftarrow> nth_opt (ThreadList e) t;
       Some (False, e\<lparr> ThreadList := (ThreadList e)[t := set_waiting (Some blocking) th] \<rparr>) } }"

definition threadJoin_resume :: "execution \<Rightarrow> execution option" where
  "threadJoin_resume e = do {
     t \<leftarrow> curr_thread e;
     th \<leftarrow> nth_opt (ThreadList e) t;
     Some (e\<lparr> ThreadList := (ThreadList e)[t := set_waiting None th] \<rparr>) }"

definition threadFinish :: "execution \<Rightarrow> execution option" where
  "threadFinish e = do {
     t \<leftarrow> curr_thread e;
     let ts = map (\<lambda>w. if waiting w = Some t then set_waiting None w else w) (ThreadList e);
     th \<leftarrow> nth_opt ts t;
     th \<leftarrow> complete th;
     Some (e\<lparr> ThreadList := ts[t := th] \<rparr>) }"

definition threadYield :: "config \<Rightarrow> execution \<Rightarrow> execution option" where
  "threadYield cfg e = do {
     (_, _, e) \<leftarrow> getOrCreateCurrRecord YIELD 0 0 8 False e;
     e \<leftarrow> inc_top e;
     if noexecyields cfg then threadFinish e else Some e }"

subsection \<open>Allocation\<close>

text \<open>
  The block is allocated once per allocation event and the same block is returned when the event
  is executed again with at most the recorded size. The recorded size is twice the size asked for,
  but \<open>malloc\<close>, which gives the address of a new block, is called with the size itself. The result
  \<open>None\<close> inside is the exit with an error message.
\<close>

definition exec_alloc :: "(uint64 \<Rightarrow> uint64) \<Rightarrow> uint64 \<Rightarrow> execution \<Rightarrow> (uint64 option \<times> execution) option" where
  "exec_alloc malloc sz e = do {
     (isNew, r, e) \<leftarrow> getOrCreateCurrRecord ALLOC 0 0 8 False e;
     e \<leftarrow> inc_top e;
     if isNew then
       (let allocsize = bit_and64 (push_bit 1 sz + 7) (- 8);
            p = malloc sz in
        Some (Some p, ex_rec r (\<lambda>q. q\<lparr> alloc_size := allocsize, ptr := Some p \<rparr>) e))
     else if sz > alloc_size (rec_of e r) then Some (None, e)
     else Some (ptr (rec_of e r), e) }"

subsection \<open>Loops\<close>

definition enterLoop :: "execution \<Rightarrow> execution option" where
  "enterLoop e = do {
     (_, r, e) \<leftarrow> getOrCreateCurrRecord LOOPENTER 0 0 8 False e;
     e \<leftarrow> push_ep EP_LOOP 0 e;
     e \<leftarrow> push_ep EP_COUNTER 0 e;
     (_, start, e) \<leftarrow> getOrCreateCurrRecord LOOPSTART 0 0 8 False e;
     inc_top (ex_rec r (\<lambda>q. q\<lparr> childRecord := Some start \<rparr>) e) }"

text \<open>The loop of \<open>exitLoop\<close> leaves branches until it has popped the loop entry.\<close>

fun leave_loop :: "nat \<Rightarrow> execution \<Rightarrow> execution option" where
  "leave_loop 0 e = None"
| "leave_loop (Suc n) e = do {
     p \<leftarrow> curr_ep e;
     t \<leftarrow> getType p;
     e \<leftarrow> pop_ep e;
     e \<leftarrow> (if t = EP_BRANCH then do {
             b \<leftarrow> currbranch e;
             Some (e\<lparr> currbranch := branch (rec_of e (v_record (val_of e b))) \<rparr>) }
           else Some e);
     if t = EP_LOOP then Some e else leave_loop n e }"

definition exitLoop :: "execution \<Rightarrow> execution option" where
  "exitLoop e = do {
     cur \<leftarrow> curr_ep e;
     let tid = ep_tid cur;
     direct \<leftarrow> directInLoop cur;
     (_, breakstate, e) \<leftarrow> getOrCreateCurrRecord (if direct then LOOPEXIT else NONLOCALTRANS) 0 0 8 False e;
     e \<leftarrow> inc_top e;
     lastrec \<leftarrow> (case currbranch e of
                    None \<Rightarrow> nth_opt (alwaysexecuted e) tid
                  | Some b \<Rightarrow> Some (lastrecord (val_of e b)));
     let e = e\<lparr> lastloopexit := (resize_to (tid + 1) None (lastloopexit e))[tid := lastrec] \<rparr>;
     cur \<leftarrow> curr_ep e;
     e \<leftarrow> leave_loop (getSize cur) e;
     cur \<leftarrow> curr_ep e;
     loopenter \<leftarrow> EPTable e (ep_key cur);
     e \<leftarrow> inc_top e;
     (_, labelrec, e) \<leftarrow> getOrCreateCurrRecord LABEL 0 0 8 False e;
     let e = (if nextRecord (rec_of e loopenter) = None
              then ex_rec loopenter (\<lambda>q. q\<lparr> nextRecord := Some labelrec \<rparr>) e else e);
     inc_top (ex_rec breakstate (\<lambda>q. q\<lparr> nextRecord := Some labelrec \<rparr>) e) }"

definition loopIterate :: "execution \<Rightarrow> execution option" where
  "loopIterate e = do { e \<leftarrow> pop_ep e; e \<leftarrow> inc_top e; push_ep EP_COUNTER 0 e }"

end
