(* ===== verification/ExecInv.thy ===== *)
theory ExecInv
  imports ExecControl
begin

section \<open>Reachable executions and their invariant\<close>

text \<open>
  The operations of the recorded execution as a step relation, and what holds of every execution
  the program can build: an execution point identifies its record, a value is shared by all
  occurrences with the same point, address, length and value, and the two dependence tables are
  converse to each other without duplicates.
\<close>

subsection \<open>Steps\<close>

inductive exec_step :: "config \<Rightarrow> execution \<Rightarrow> execution \<Rightarrow> bool" for cfg :: config where
  step_loadMCID: "loadMCID a off e = (n, e') \<Longrightarrow> exec_step cfg e e'"
| step_storeMCID: "storeMCID a off v e = e' \<Longrightarrow> exec_step cfg e e'"
| step_nextRMW: "nextRMW a off ov v e = (n, e') \<Longrightarrow> exec_step cfg e e'"
| step_store: "exec_store cfg a val len e = Some e' \<Longrightarrow> exec_step cfg e e'"
| step_load: "exec_load cfg a len e = Some (val, e') \<Longrightarrow> exec_step cfg e e'"
| step_rmw: "exec_rmw aop a n c ov v e = Some (val, e') \<Longrightarrow> exec_step cfg e e'"
| step_fence: "TSO cfg \<Longrightarrow> exec_fence e = Some e' \<Longrightarrow> exec_step cfg e e'"
| step_doStore: "TSO cfg \<Longrightarrow> doStore tid e = Some e' \<Longrightarrow> exec_step cfg e e'"
| step_branchDir: "branchDir d dir n any e = Some (mc, e') \<Longrightarrow> exec_step cfg e e'"
| step_merge: "merge mc e = Some e' \<Longrightarrow> exec_step cfg e e'"
| step_phi: "phi_fun i e = Some (mc, e') \<Longrightarrow> exec_step cfg e e'"
| step_loop_phi: "loop_phi i e = Some (mc, e') \<Longrightarrow> exec_step cfg e e'"
| step_equals: "exec_equals o1 v1 o2 v2 e = Some (r, mc, e') \<Longrightarrow> exec_step cfg e e'"
| step_function: "exec_function f n val mcids e = Some (mc, e') \<Longrightarrow> exec_step cfg e e'"
| step_create: "threadCreate e = Some e' \<Longrightarrow> exec_step cfg e e'"
| step_start: "threadStart p e = Some e' \<Longrightarrow> exec_step cfg e e'"
| step_join: "threadJoin_step t e = Some (b, e') \<Longrightarrow> exec_step cfg e e'"
| step_join_resume: "threadJoin_resume e = Some e' \<Longrightarrow> exec_step cfg e e'"
| step_finish: "threadFinish e = Some e' \<Longrightarrow> exec_step cfg e e'"
| step_yield: "threadYield cfg e = Some e' \<Longrightarrow> exec_step cfg e e'"
| step_switch: "set_current_thread t e = Some e' \<Longrightarrow> exec_step cfg e e'"
| step_add_thread: "get_next_tid e = (tid, e1) \<Longrightarrow> add_thread (new_Thread tid p pr) e1 = Some e' \<Longrightarrow> exec_step cfg e e'"
| step_alloc: "exec_alloc mlc sz e = Some (p, e') \<Longrightarrow> exec_step cfg e e'"
| step_enterLoop: "enterLoop e = Some e' \<Longrightarrow> exec_step cfg e e'"
| step_exitLoop: "exitLoop e = Some e' \<Longrightarrow> exec_step cfg e e'"
| step_loopIterate: "loopIterate e = Some e' \<Longrightarrow> exec_step cfg e e'"
| step_reset: "exec_reset e = e' \<Longrightarrow> exec_step cfg e e'"

inductive reachable :: "config \<Rightarrow> memory \<Rightarrow> execution \<Rightarrow> bool" for cfg :: config and m :: memory where
  reach_init: "reachable cfg m (new_MCExecution m)"
| reach_step: "reachable cfg m e \<Longrightarrow> exec_step cfg e e' \<Longrightarrow> reachable cfg m e'"

inductive_cases exec_stepE: "exec_step cfg e e'"

subsection \<open>The invariant\<close>

definition value_key :: "epvalue \<Rightarrow> ep_key \<times> uint64 \<times> int \<times> uint64" where
  "value_key v = (ep_key (v_ep v), v_addr v, v_len v, v_value v)"

definition deps_of :: "execution \<Rightarrow> rid \<Rightarrow> (rid \<times> nat) list" where
  "deps_of e r = (case eprecorddep e r of None \<Rightarrow> [] | Some s \<Rightarrow> s)"

definition rdeps_of :: "execution \<Rightarrow> rid \<times> nat \<Rightarrow> rid list" where
  "rdeps_of e p = (case revrecorddep e p of None \<Rightarrow> [] | Some s \<Rightarrow> s)"

definition point_ok :: "execution \<Rightarrow> bool" where
  "point_ok e \<longleftrightarrow> (\<forall>k r. EPTable e k = Some r \<longleftrightarrow> r < next_rid e \<and> ep_key (r_ep (rec_of e r)) = k)"

definition value_ok :: "execution \<Rightarrow> bool" where
  "value_ok e \<longleftrightarrow>
     (\<forall>k v. EPValueTable e k = Some v \<longleftrightarrow> v < next_vid e \<and> value_key (val_of e v) = k) \<and>
     (\<forall>r. distinct (valuevector (rec_of e r))) \<and>
     (\<forall>r v. v \<in> set (valuevector (rec_of e r)) \<longrightarrow> v < next_vid e \<and> v_record (val_of e v) = r)"

definition dep_ok :: "execution \<Rightarrow> bool" where
  "dep_ok e \<longleftrightarrow>
     (\<forall>r p. p \<in> set (deps_of e r) \<longleftrightarrow> r \<in> set (rdeps_of e p)) \<and>
     (\<forall>r. distinct (deps_of e r)) \<and> (\<forall>p. distinct (rdeps_of e p))"

definition exec_inv :: "execution \<Rightarrow> bool" where
  "exec_inv e \<longleftrightarrow> point_ok e \<and> value_ok e \<and> dep_ok e"

lemma exec_inv_init: "exec_inv (new_MCExecution m)"
  by (simp add: exec_inv_def point_ok_def value_ok_def dep_ok_def new_MCExecution_def deps_of_def rdeps_of_def
      blank_record_def new_EPRecord_def)

text \<open>The parts of the state the invariant reads.\<close>

definition core :: "execution \<Rightarrow> _" where
  "core e = (\<lambda>r. (r_ep (rec_of e r), valuevector (rec_of e r)),
     \<lambda>v. (value_key (val_of e v), v_record (val_of e v)), next_rid e, next_vid e, EPTable e, EPValueTable e,
     eprecorddep e, revrecorddep e)"

lemma exec_inv_core: "core e' = core e \<Longrightarrow> exec_inv e' = exec_inv e"
proof -
  assume c: "core e' = core e"
  have "\<And>r. r_ep (rec_of e' r) = r_ep (rec_of e r)" "\<And>r. valuevector (rec_of e' r) = valuevector (rec_of e r)"
    "\<And>v. value_key (val_of e' v) = value_key (val_of e v)" "\<And>v. v_record (val_of e' v) = v_record (val_of e v)"
    using c by (simp_all add: core_def fun_eq_iff)
  moreover have "next_rid e' = next_rid e" "next_vid e' = next_vid e" "EPTable e' = EPTable e"
    "EPValueTable e' = EPValueTable e" "eprecorddep e' = eprecorddep e" "revrecorddep e' = revrecorddep e"
    using c by (simp_all add: core_def)
  ultimately show ?thesis
    by (simp add: exec_inv_def point_ok_def value_ok_def dep_ok_def deps_of_def rdeps_of_def)
qed

lemma exec_inv_core_intro: "exec_inv e \<Longrightarrow> core e' = core e \<Longrightarrow> exec_inv e'"
  using exec_inv_core by blast

lemma core_ex_rec: "(\<And>q. r_ep (f q) = r_ep q) \<Longrightarrow> (\<And>q. valuevector (f q) = valuevector q) \<Longrightarrow> core (ex_rec r f e) = core e"
  by (auto simp: core_def ex_rec_def fun_eq_iff)

lemma core_ex_rec_const:
  "r_ep q = r_ep (rec_of e r) \<Longrightarrow> valuevector q = valuevector (rec_of e r) \<Longrightarrow> core (ex_rec r (\<lambda>_. q) e) = core e"
  by (auto simp: core_def ex_rec_def fun_eq_iff)

lemma core_ex_val: "(\<And>q. value_key (f q) = value_key q) \<Longrightarrow> (\<And>q. v_record (f q) = v_record q) \<Longrightarrow> core (ex_val v f e) = core e"
  by (auto simp: core_def ex_val_def fun_eq_iff)

subsection \<open>Operations that leave the core alone\<close>

named_theorems inv_intro "operations that keep the invariant"

lemma core_fields [simp]:
  "core (e\<lparr> mem := x1 \<rparr>) = core e" "core (e\<lparr> storebuffer := x2 \<rparr>) = core e"
  "core (e\<lparr> ExecPointList := x3 \<rparr>) = core e" "core (e\<lparr> alwaysexecuted := x4 \<rparr>) = core e"
  "core (e\<lparr> changes := x5 \<rparr>) = core e" "core (e\<lparr> EPList := x6 \<rparr>) = core e"
  "core (e\<lparr> currid := x7 \<rparr>) = core e" "core (e\<lparr> memtable := x8 \<rparr>) = core e"
  "core (e\<lparr> storetable := x9 \<rparr>) = core e" "core (e\<lparr> loadtable := x10 \<rparr>) = core e"
  "core (e\<lparr> currbranch := x11 \<rparr>) = core e" "core (e\<lparr> curr_thread := x12 \<rparr>) = core e"
  "core (e\<lparr> ThreadList := x13 \<rparr>) = core e" "core (e\<lparr> CurrBranchList := x14 \<rparr>) = core e"
  "core (e\<lparr> achieved := x15 \<rparr>) = core e" "core (e\<lparr> newbehavior := x16 \<rparr>) = core e"
  "core (e\<lparr> lastloopexit := x17 \<rparr>) = core e" "core (e\<lparr> sharedgoals := x18 \<rparr>) = core e"
  "core (e\<lparr> sharedfuncrecords := x19 \<rparr>) = core e" "core (e\<lparr> next_thread_id := x20 \<rparr>) = core e"
  "core (e\<lparr> next_gid := x21 \<rparr>) = core e" "core (e\<lparr> joinvec := x22 \<rparr>) = core e"
  "core (e\<lparr> id_addr := x23 \<rparr>) = core e" "core (e\<lparr> id_addr_offset := x24 \<rparr>) = core e"
  "core (e\<lparr> id_value := x25 \<rparr>) = core e" "core (e\<lparr> id_oldvalue := x26 \<rparr>) = core e"
  "core (e\<lparr> id_retval := x27 \<rparr>) = core e" "core (e\<lparr> hp := (hp e)\<lparr> goalsets := x28 \<rparr> \<rparr>) = core e"
  by (simp_all add: core_def)

lemma core_set_curr_ep: "set_curr_ep p e = Some e' \<Longrightarrow> core e' = core e"
  by (auto simp: set_curr_ep_def Option.bind_eq_Some_conv)

lemma core_ep_ops:
  "inc_top e = Some e' \<Longrightarrow> core e' = core e" "push_ep t v e = Some e' \<Longrightarrow> core e' = core e"
  "pop_ep e = Some e' \<Longrightarrow> core e' = core e"
  by (auto simp: inc_top_def push_ep_def pop_ep_def Option.bind_eq_Some_conv dest: core_set_curr_ep)

lemma core_pops: "pops n e = Some e' \<Longrightarrow> core e' = core e"
  by (induction n arbitrary: e) (auto simp: Option.bind_eq_Some_conv dest: core_ep_ops(3))

lemma core_link [simp]: "core (link_record et tid r e) = core e"
  by (auto simp: link_record_def Let_def core_ex_rec core_ex_val value_key_def split: option.splits)

lemma addSet_core: "addSet i v q = Some q' \<Longrightarrow> r_ep q' = r_ep q \<and> valuevector q' = valuevector q"
  by (auto simp: addSet_def Option.bind_eq_Some_conv)

lemma core_addToSet: "addToSet i v r e = Some e' \<Longrightarrow> core e' = core e"
  by (auto simp: addToSet_def Option.bind_eq_Some_conv dest!: addSet_core intro: core_ex_rec_const)

lemma core_addChange: "addChange r v i e = Some e' \<Longrightarrow> core e' = core e"
  by (auto simp: addChange_def Option.bind_eq_Some_conv)

lemma core_record_new: "record_new i v r e = Some e' \<Longrightarrow> core e' = core e"
  by (auto simp: record_new_def Option.bind_eq_Some_conv dest!: core_addChange core_addToSet split: if_splits)

lemma core_recordStoreChange: "recordStoreChange r a v e = Some e' \<Longrightarrow> core e' = core e"
  by (auto simp: recordStoreChange_def Option.bind_eq_Some_conv dest!: core_record_new core_addChange core_addToSet
      split: if_splits)

lemma core_recordRMWChange: "recordRMWChange r a v ov nv e = Some e' \<Longrightarrow> core e' = core e"
  by (auto simp: recordRMWChange_def Option.bind_eq_Some_conv dest!: core_record_new core_addToSet split: if_splits)

lemma core_doStore_val [simp]: "core (doStore_val v e) = core e"
  by (simp add: doStore_val_def Let_def)

lemma core_fold_doStore [simp]: "core (fold doStore_val l e) = core e"
  by (induction l arbitrary: e) auto

lemma core_tables [simp]: "core (addStoreTable a r e) = core e" "core (addLoadTable a r e) = core e"
  "core (push_EPList v e) = core e"
  by (simp_all add: addStoreTable_def addLoadTable_def push_EPList_def)

lemma core_next_entry: "next_entry v e = Some (n, e') \<Longrightarrow> core e' = core e"
  by (auto simp: next_entry_def getNextMCID_def Let_def split: if_splits)

lemma core_evalGoal: "evalGoal r g e = Some e' \<Longrightarrow> core e' = core e"
  by (auto simp: evalGoal_def recordFunctionChange_def Option.bind_eq_Some_conv dest!: core_record_new split: if_splits)

lemma core_foldM:
  assumes "foldM f xs e = Some e'" and "\<And>x e e'. f x e = Some e' \<Longrightarrow> core e' = core e"
  shows "core e' = core e"
  using assms(1) by (rule foldM_invariant [where I = "\<lambda>s. core s = core e"]) (use assms(2) in auto)

lemma core_copy_inputs: "copy_inputs r p e = Some e' \<Longrightarrow> core e' = core e"
  by (auto simp: copy_inputs_def Option.bind_eq_Some_conv elim!: core_foldM intro: core_addToSet)

lemma core_new_goalset: "new_goalset e = (g, e') \<Longrightarrow> core e' = core e"
  by (auto simp: new_goalset_def Let_def core_def)

lemma core_shared_slot: "shared_slot f e = (g, e') \<Longrightarrow> core e' = core e"
  by (auto simp: shared_slot_def Let_def split: option.splits prod.splits dest: core_new_goalset)

lemma core_init_function: "init_function f mcids r e = Some e' \<Longrightarrow> core e' = core e"
proof (cases "f = 0")
  case True
  then show "init_function f mcids r e = Some e' \<Longrightarrow> core e' = core e"
    by (auto simp: init_function_def setCompletedGoal_def core_ex_rec dest: core_new_goalset split: prod.splits)
next
  case False
  assume "init_function f mcids r e = Some e'"
  with False obtain g e1 funcs e3 where s: "shared_slot f e = (g, e1)"
    "foldM (copy_inputs r) (enumerate 0 mcids) ((ex_rec r (setCompletedGoal g True) e1)\<lparr> sharedfuncrecords :=
       (sharedfuncrecords (ex_rec r (setCompletedGoal g True) e1))[f := Some (oset_add r funcs)] \<rparr>) = Some e3"
    "foldM (evalGoal r) (goalsets (hp e3) g) e3 = Some e'"
    by (auto simp: init_function_def Option.bind_eq_Some_conv Let_def split: prod.splits)
  have "core e1 = core e" using s(1) by (rule core_shared_slot)
  moreover have "core e3 = core e1"
    using core_foldM [OF s(2) core_copy_inputs] by (simp add: core_ex_rec setCompletedGoal_def)
  moreover have "core e' = core e3" using core_foldM [OF s(3) core_evalGoal] .
  ultimately show "core e' = core e" by simp
qed

lemma core_finish_goal: "finish_goal f r va v e = Some e' \<Longrightarrow> core e' = core e"
proof -
  assume a: "finish_goal f r va v e = Some e'"
  have fm: "foldM (\<lambda>func e. if func = r then Some e else evalGoal func g e) fs e1 = Some e2 \<Longrightarrow> core e2 = core e1" for g fs e1 e2
    by (erule core_foldM) (auto split: if_splits dest: core_evalGoal)
  from a show ?thesis
    by (auto simp: finish_goal_def Option.bind_eq_Some_conv Let_def recordFunctionChange_def
        dest!: core_record_new fm split: if_splits) (simp_all add: core_def)
qed

lemmas core_dests = core_ep_ops core_pops core_record_new core_recordStoreChange core_recordRMWChange core_addToSet
  core_next_entry core_init_function core_finish_goal

subsection \<open>The three operations that extend the core\<close>

lemma inv_getOrCreate:
  assumes "getOrCreateCurrRecord et off n len any e = Some (isNew, r, e')" and inv: "exec_inv e"
  shows "exec_inv e'"
proof -
  from assms(1) obtain ep where ep: "curr_ep e = Some ep"
    by (auto simp: getOrCreateCurrRecord_def Option.bind_eq_Some_conv)
  show ?thesis
  proof (cases "EPTable e (ep_key ep)")
    case (Some r0)
    then show ?thesis using assms ep
      by (auto simp: getOrCreateCurrRecord_def split: if_splits intro: exec_inv_core_intro)
  next
    case None
    let ?e1 = "snd (create_record et ep off n len any e)"
    have k: "ep_key (copy_exec_point ep) = ep_key ep" by (simp add: ep_key_def copy_exec_point_def)
    have vv: "valuevector (rec_of ?e1 q) = (if q = next_rid e then [] else valuevector (rec_of e q))"
      "r_ep (rec_of ?e1 q) = (if q = next_rid e then copy_exec_point ep else r_ep (rec_of e q))" for q
      by (simp_all add: create_record_def Let_def ex_rec_def new_EPRecord_def)
    have f: "next_rid ?e1 = Suc (next_rid e)" "EPTable ?e1 = (EPTable e)(ep_key ep \<mapsto> next_rid e)"
      "vals (hp ?e1) = vals (hp e)" "EPValueTable ?e1 = EPValueTable e" "next_vid ?e1 = next_vid e"
      "eprecorddep ?e1 = eprecorddep e" "revrecorddep ?e1 = revrecorddep e"
      by (simp_all add: create_record_def Let_def ex_rec_def k)
    have p: "point_ok ?e1"
      unfolding point_ok_def
    proof (intro allI)
      fix key q
      have tab: "EPTable e key' = Some q' \<longleftrightarrow> q' < next_rid e \<and> ep_key (r_ep (rec_of e q')) = key'" for key' q'
        using inv unfolding exec_inv_def point_ok_def by blast
      then show "EPTable ?e1 key = Some q \<longleftrightarrow> q < next_rid ?e1 \<and> ep_key (r_ep (rec_of ?e1 q)) = key"
        using None tab [of "ep_key ep" q] by (auto simp: f vv k less_Suc_eq)
    qed
    have "exec_inv ?e1"
      using inv p by (auto simp: exec_inv_def value_ok_def dep_ok_def deps_of_def rdeps_of_def f vv)
    moreover have "core e' = core ?e1"
      using assms(1) ep None by (auto simp: getOrCreateCurrRecord_def split: prod.splits)
    ultimately show ?thesis by (rule exec_inv_core_intro)
  qed
qed

text \<open>The record returned is the one of the current execution point; it is new when there was none.\<close>

lemma getOrCreate_point:
  assumes inv: "exec_inv e" and get: "getOrCreateCurrRecord et off n len any e = Some (isNew, r, e')"
    and ep: "curr_ep e = Some ep"
  shows "ep_key (r_ep (rec_of e' r)) = ep_key ep" and "isNew \<longleftrightarrow> EPTable e (ep_key ep) = None"
proof -
  have key: "ep_key (copy_exec_point ep) = ep_key ep" by (simp add: ep_key_def copy_exec_point_def)
  have link: "EPTable (link_record t tid q e1) = EPTable e1" for t tid q e1
    using core_link [of t tid q e1] by (simp add: core_def)
  from get ep show "isNew \<longleftrightarrow> EPTable e (ep_key ep) = None"
    by (auto simp: getOrCreateCurrRecord_def split: option.splits if_splits prod.splits)
  from get ep have "EPTable e' (ep_key ep) = Some r"
    by (auto simp: getOrCreateCurrRecord_def create_record_def Let_def key link split: option.splits if_splits)
  with inv_getOrCreate [OF get inv] show "ep_key (r_ep (rec_of e' r)) = ep_key ep"
    unfolding exec_inv_def point_ok_def by blast
qed

lemma inv_getEPValue:
  assumes "getEPValue r a v len e = (isNew, x, e')" and inv: "exec_inv e"
  shows "exec_inv e'"
proof -
  let ?val = "new_EPValue (r_ep (rec_of e r)) r a v len"
  let ?key = "(ep_key (v_ep ?val), a, len, v_value ?val)"
  show ?thesis
  proof (cases "EPValueTable e ?key")
    case (Some old)
    then show ?thesis using assms by (simp add: getEPValue_def Let_def)
  next
    case None
    let ?n = "next_vid e"
    have e': "recs (hp e') q = (if q = r then (rec_of e r)\<lparr> valuevector := valuevector (rec_of e r) @ [?n] \<rparr> else rec_of e q)"
      "vals (hp e') w = (if w = ?n then ?val else val_of e w)" for q w
      using None assms(1) by (auto simp: getEPValue_def Let_def ex_rec_def ex_val_def)
    have f: "next_vid e' = Suc ?n" "EPValueTable e' = (EPValueTable e)(?key \<mapsto> ?n)" "next_rid e' = next_rid e"
      "EPTable e' = EPTable e" "eprecorddep e' = eprecorddep e" "revrecorddep e' = revrecorddep e"
      using None assms(1) by (auto simp: getEPValue_def Let_def ex_rec_def ex_val_def)
    have k: "value_key ?val = ?key" by (simp add: value_key_def new_EPValue_def)
    have r: "v_record ?val = r" by (simp add: new_EPValue_def)
    have old: "\<And>q w. w \<in> set (valuevector (rec_of e q)) \<Longrightarrow> w < ?n \<and> v_record (val_of e w) = q"
      "\<And>q. distinct (valuevector (rec_of e q))"
      "\<And>key w. EPValueTable e key = Some w \<longleftrightarrow> w < ?n \<and> value_key (val_of e w) = key"
      using inv by (auto simp: exec_inv_def value_ok_def)
    have fresh: "?n \<notin> set (valuevector (rec_of e q))" for q using old(1) by blast
    have "value_ok e'"
      unfolding value_ok_def
    proof (intro conjI allI impI)
      fix key w
      show "EPValueTable e' key = Some w \<longleftrightarrow> w < next_vid e' \<and> value_key (val_of e' w) = key"
        using None old(3) [of key w] old(3) [of ?key w] k by (auto simp: f e' less_Suc_eq)
    next
      fix q show "distinct (valuevector (rec_of e' q))" using old(2) fresh by (simp add: e')
    next
      fix q w assume "w \<in> set (valuevector (rec_of e' q))"
      then show "w < next_vid e'" "v_record (val_of e' w) = q"
        using old(1) [of w q] r by (auto simp: e' f split: if_splits)
    qed
    then show ?thesis
      using inv by (auto simp: exec_inv_def point_ok_def dep_ok_def deps_of_def rdeps_of_def f e')
  qed
qed

lemma inv_addRecordDep:
  assumes inv: "exec_inv e"
  shows "exec_inv (addRecordDepTable r d i e)"
proof -
  let ?e = "addRecordDepTable r d i e"
  have d: "deps_of ?e q = (if q = r then oset_add (d, i) (deps_of e r) else deps_of e q)"
    "rdeps_of ?e p = (if p = (d, i) then oset_add r (rdeps_of e (d, i)) else rdeps_of e p)" for q p
    by (auto simp: addRecordDepTable_def deps_of_def rdeps_of_def Let_def)
  have o: "\<And>q p. p \<in> set (deps_of e q) \<longleftrightarrow> q \<in> set (rdeps_of e p)" "\<And>q. distinct (deps_of e q)" "\<And>p. distinct (rdeps_of e p)"
    using inv by (auto simp: exec_inv_def dep_ok_def)
  have "dep_ok ?e" using o by (auto simp: dep_ok_def d)
  then show ?thesis
    using inv by (simp add: exec_inv_def point_ok_def value_ok_def addRecordDepTable_def Let_def)
qed

lemma inv_record_inputs: "record_inputs r i mcids e = Some e' \<Longrightarrow> exec_inv e \<Longrightarrow> exec_inv e'"
  by (induction mcids arbitrary: i e) (auto simp: Option.bind_eq_Some_conv inv_addRecordDep split: if_splits)

lemma inv_recordContext: "recordContext v rf a mcids e = Some e' \<Longrightarrow> exec_inv e \<Longrightarrow> exec_inv e'"
  by (auto simp: recordContext_def record_dep_def Let_def Option.bind_eq_Some_conv inv_addRecordDep
      dest!: inv_record_inputs split: if_splits)

subsection \<open>Every step keeps the invariant\<close>

lemma inv_of_core:
  "inc_top e = Some e' \<Longrightarrow> exec_inv e \<Longrightarrow> exec_inv e'"
  "push_ep t v e = Some e' \<Longrightarrow> exec_inv e \<Longrightarrow> exec_inv e'"
  "pop_ep e = Some e' \<Longrightarrow> exec_inv e \<Longrightarrow> exec_inv e'"
  "pops k e = Some e' \<Longrightarrow> exec_inv e \<Longrightarrow> exec_inv e'"
  "record_new i w r e = Some e' \<Longrightarrow> exec_inv e \<Longrightarrow> exec_inv e'"
  "recordStoreChange r a w e = Some e' \<Longrightarrow> exec_inv e \<Longrightarrow> exec_inv e'"
  "recordRMWChange r a w ov nv e = Some e' \<Longrightarrow> exec_inv e \<Longrightarrow> exec_inv e'"
  "addToSet i w r e = Some e' \<Longrightarrow> exec_inv e \<Longrightarrow> exec_inv e'"
  "next_entry x e = Some (n, e') \<Longrightarrow> exec_inv e \<Longrightarrow> exec_inv e'"
  "init_function f mcids r e = Some e' \<Longrightarrow> exec_inv e \<Longrightarrow> exec_inv e'"
  "finish_goal f r va w e = Some e' \<Longrightarrow> exec_inv e \<Longrightarrow> exec_inv e'"
  using core_dests exec_inv_core by metis+

lemma inv_fields:
  "core e' = core e \<Longrightarrow> exec_inv e' = exec_inv e"
  by (rule exec_inv_core)

lemma inv_fields_simps [simp]:
  "exec_inv (e\<lparr> mem := x1 \<rparr>) = exec_inv e" "exec_inv (e\<lparr> storebuffer := x2 \<rparr>) = exec_inv e"
  "exec_inv (e\<lparr> currbranch := x11 \<rparr>) = exec_inv e" "exec_inv (e\<lparr> memtable := x8 \<rparr>) = exec_inv e"
  "exec_inv (e\<lparr> ThreadList := x13 \<rparr>) = exec_inv e" "exec_inv (e\<lparr> lastloopexit := x17 \<rparr>) = exec_inv e"
  "exec_inv (e\<lparr> achieved := x15, newbehavior := x16 \<rparr>) = exec_inv e"
  "exec_inv (push_EPList x e) = exec_inv e" "exec_inv (addStoreTable a r e) = exec_inv e"
  "exec_inv (addLoadTable a r e) = exec_inv e" "exec_inv (fold doStore_val l e) = exec_inv e"
  "exec_inv (doStore_val w e) = exec_inv e" "exec_inv (e\<lparr> next_thread_id := x20 \<rparr>) = exec_inv e"
  by (rule exec_inv_core; simp)+

lemma inv_ex_rec [simp]:
  "exec_inv (ex_rec r (\<lambda>q. q\<lparr> op := y1 \<rparr>) e) = exec_inv e" "exec_inv (ex_rec r setPhi e) = exec_inv e"
  "exec_inv (ex_rec r setLoopPhi e) = exec_inv e"
  "exec_inv (ex_rec r (\<lambda>q. q\<lparr> philooptable := y2 \<rparr>) e) = exec_inv e"
  "exec_inv (ex_rec r (\<lambda>q. q\<lparr> childRecord := y3 \<rparr>) e) = exec_inv e"
  "exec_inv (ex_rec r (\<lambda>q. q\<lparr> nextRecord := y4 \<rparr>) e) = exec_inv e"
  "exec_inv (ex_rec r (\<lambda>q. q\<lparr> jointhread := y5 \<rparr>) e) = exec_inv e"
  "exec_inv (ex_rec r (\<lambda>q. q\<lparr> alloc_size := y6, ptr := y7 \<rparr>) e) = exec_inv e"
  "exec_inv (ex_val x (\<lambda>q. q\<lparr> lastrecord := y8 \<rparr>) e) = exec_inv e"
  by (rule exec_inv_core; simp add: core_ex_rec core_ex_val setPhi_def setLoopPhi_def value_key_def)+

lemmas inv_dests = inv_of_core inv_getOrCreate inv_getEPValue inv_recordContext

lemma inv_store: "exec_store cfg a val len e = Some e' \<Longrightarrow> exec_inv e \<Longrightarrow> exec_inv e'"
  by (auto simp: exec_store_def Let_def do_simps split: if_splits dest!: inv_dests)

lemma inv_load: "exec_load cfg a len e = Some (val, e') \<Longrightarrow> exec_inv e \<Longrightarrow> exec_inv e'"
  by (auto simp: exec_load_def recordLoadChange_def Let_def do_simps
      split: if_splits dest!: inv_dests)

lemma inv_rmw: "exec_rmw aop a n c ov v e = Some (val, e') \<Longrightarrow> exec_inv e \<Longrightarrow> exec_inv e'"
  by (auto simp: exec_rmw_def Let_def do_simps split: if_splits dest!: inv_dests)

lemma inv_fence: "exec_fence e = Some e' \<Longrightarrow> exec_inv e \<Longrightarrow> exec_inv e'"
  by (auto simp: exec_fence_def do_simps dest!: inv_dests)

lemma inv_branchDir: "branchDir d dir n any e = Some (mc, e') \<Longrightarrow> exec_inv e \<Longrightarrow> exec_inv e'"
  by (auto simp: branchDir_def Let_def do_simps split: if_splits dest!: inv_dests)

lemma inv_merge: "merge mc e = Some e' \<Longrightarrow> exec_inv e \<Longrightarrow> exec_inv e'"
  by (auto simp: merge_def Let_def do_simps dest!: inv_dests)

lemma inv_phi: "phi_fun i e = Some (mc, e') \<Longrightarrow> exec_inv e \<Longrightarrow> exec_inv e'"
  by (auto simp: phi_fun_def Let_def do_simps dest!: inv_dests)

lemma inv_loop_phi: "loop_phi i e = Some (mc, e') \<Longrightarrow> exec_inv e \<Longrightarrow> exec_inv e'"
  by (auto simp: loop_phi_def Let_def do_simps dest!: inv_dests)

lemma inv_equals: "exec_equals o1 v1 o2 v2 e = Some (r, mc, e') \<Longrightarrow> exec_inv e \<Longrightarrow> exec_inv e'"
  by (auto simp: exec_equals_def recordFunctionChange_def Let_def do_simps split: if_splits dest!: inv_dests)

lemma inv_function: "exec_function f n val mcids e = Some (mc, e') \<Longrightarrow> exec_inv e \<Longrightarrow> exec_inv e'"
  by (auto simp: exec_function_def Let_def do_simps split: if_splits dest!: inv_dests)

lemma inv_add_thread: "add_thread t e = Some e' \<Longrightarrow> exec_inv e \<Longrightarrow> exec_inv e'"
  by (auto simp: add_thread_def do_simps intro: exec_inv_core_intro simp: core_def)

lemma inv_threadCreate: "threadCreate e = Some e' \<Longrightarrow> exec_inv e \<Longrightarrow> exec_inv e'"
  by (auto simp: threadCreate_def get_next_tid_def Let_def do_simps dest!: inv_dests inv_add_thread)

lemma inv_threadStart: "threadStart p e = Some e' \<Longrightarrow> exec_inv e \<Longrightarrow> exec_inv e'"
  by (auto simp: threadStart_def Let_def do_simps dest!: inv_dests split: option.splits)

lemma inv_join: "threadJoin_step t e = Some (b, e') \<Longrightarrow> exec_inv e \<Longrightarrow> exec_inv e'"
  by (auto simp: threadJoin_step_def Let_def do_simps split: if_splits dest!: inv_dests)

lemma inv_join_resume: "threadJoin_resume e = Some e' \<Longrightarrow> exec_inv e \<Longrightarrow> exec_inv e'"
  by (auto simp: threadJoin_resume_def do_simps)

lemma inv_finish: "threadFinish e = Some e' \<Longrightarrow> exec_inv e \<Longrightarrow> exec_inv e'"
  by (auto simp: threadFinish_def Let_def do_simps)

lemma inv_yield: "threadYield cfg e = Some e' \<Longrightarrow> exec_inv e \<Longrightarrow> exec_inv e'"
  by (auto simp: threadYield_def do_simps split: if_splits dest!: inv_dests inv_finish)

lemma inv_switch: "set_current_thread t e = Some e' \<Longrightarrow> exec_inv e \<Longrightarrow> exec_inv e'"
  by (auto simp: set_current_thread_def Let_def do_simps intro: exec_inv_core_intro simp: core_def split: option.splits)

lemma inv_alloc: "exec_alloc mlc sz e = Some (p, e') \<Longrightarrow> exec_inv e \<Longrightarrow> exec_inv e'"
  by (auto simp: exec_alloc_def Let_def do_simps split: if_splits dest!: inv_dests)

lemma inv_enterLoop: "enterLoop e = Some e' \<Longrightarrow> exec_inv e \<Longrightarrow> exec_inv e'"
  by (auto simp: enterLoop_def Let_def do_simps dest!: inv_dests)

lemma inv_leave_loop: "leave_loop n e = Some e' \<Longrightarrow> exec_inv e \<Longrightarrow> exec_inv e'"
  by (induction n arbitrary: e) (auto simp: do_simps split: if_splits dest!: inv_of_core)

lemma inv_exitLoop:
  assumes "exitLoop e = Some e'" and inv: "exec_inv e"
  shows "exec_inv e'"
proof -
  obtain et b bs e1 e2 n l e3 e4 b' lr e5 le where
    1: "getOrCreateCurrRecord et 0 0 8 False e = Some (b, bs, e1)" and
    2: "inc_top e1 = Some e2" and
    3: "leave_loop n (e2\<lparr> lastloopexit := l \<rparr>) = Some e3" and
    4: "inc_top e3 = Some e4" and
    5: "getOrCreateCurrRecord LABEL 0 0 8 False e4 = Some (b', lr, e5)" and
    6: "inc_top (ex_rec bs (\<lambda>q. q\<lparr> nextRecord := Some lr \<rparr>)
          (if nextRecord (rec_of e5 le) = None
           then ex_rec le (\<lambda>q. q\<lparr> nextRecord := Some lr \<rparr>) e5 else e5)) = Some e'"
    using assms(1) unfolding exitLoop_def Let_def bind_eq_Some_conv case_prod_eq_Some by blast
  have "exec_inv e2" using inv_getOrCreate [OF 1 inv] 2 by (blast dest: inv_of_core)
  then have "exec_inv (e2\<lparr> lastloopexit := l \<rparr>)" by (auto simp: core_def elim!: exec_inv_core_intro)
  from inv_leave_loop [OF 3 this] 4 have "exec_inv e4" by (blast dest: inv_of_core)
  then have "exec_inv e5" by (rule inv_getOrCreate [OF 5])
  then have "exec_inv (if nextRecord (rec_of e5 le) = None
           then ex_rec le (\<lambda>q. q\<lparr> nextRecord := Some lr \<rparr>) e5 else e5)" (is "exec_inv ?e6")
    by (auto intro!: exec_inv_core_intro core_ex_rec)
  then have "exec_inv (ex_rec bs (\<lambda>q. q\<lparr> nextRecord := Some lr \<rparr>) ?e6)"
    by (rule exec_inv_core_intro) (auto intro: core_ex_rec)
  with 6 show ?thesis by (blast dest: inv_of_core)
qed

lemma inv_loopIterate: "loopIterate e = Some e' \<Longrightarrow> exec_inv e \<Longrightarrow> exec_inv e'"
  by (auto simp: loopIterate_def do_simps dest!: inv_dests)

lemma inv_doStore: "doStore tid e = Some e' \<Longrightarrow> exec_inv e \<Longrightarrow> exec_inv e'"
  by (auto simp: doStore_def do_simps split: list.splits)

lemma inv_loadMCID: "loadMCID a off e = (n, e') \<Longrightarrow> exec_inv e \<Longrightarrow> exec_inv e'"
  by (auto simp: loadMCID_def getNextMCID_def Let_def core_def elim!: exec_inv_core_intro)

lemma inv_storeMCID: "exec_inv e \<Longrightarrow> exec_inv (storeMCID a off w e)"
  by (auto simp: storeMCID_def Let_def core_def elim!: exec_inv_core_intro)

lemma inv_nextRMW: "nextRMW a off ov w e = (n, e') \<Longrightarrow> exec_inv e \<Longrightarrow> exec_inv e'"
  by (auto simp: nextRMW_def getNextMCID_def Let_def core_def elim!: exec_inv_core_intro)

lemma inv_reset: "exec_inv e \<Longrightarrow> exec_inv (exec_reset e)"
  by (auto simp: exec_reset_def Let_def core_def elim!: exec_inv_core_intro)

lemmas inv_mcids = inv_loadMCID inv_storeMCID inv_nextRMW inv_reset

theorem step_inv:
  assumes "exec_step cfg e e'" and "exec_inv e"
  shows "exec_inv e'"
  using assms
  by (induction rule: exec_step.induct)
    (auto intro: inv_mcids inv_store inv_load inv_rmw inv_fence inv_doStore inv_branchDir inv_merge inv_phi
      inv_loop_phi inv_equals inv_function inv_threadCreate inv_threadStart inv_join inv_join_resume inv_finish
      inv_yield inv_switch inv_add_thread inv_alloc inv_enterLoop inv_exitLoop inv_loopIterate simp: get_next_tid_def)

theorem reachable_inv: "reachable cfg m e \<Longrightarrow> exec_inv e"
  by (induction rule: reachable.induct) (auto intro: exec_inv_init step_inv)

end
