(* ===== verification/StoreLoad.thy ===== *)
theory StoreLoad
  imports ExecInv
begin

section \<open>A load after a store of the same thread (mcexecution.cc)\<close>

text \<open>
  What a load returns right after a store of the same thread to its address: the value stored, from
  memory under sequential consistency and from the store buffer under TSO, where the store leaves
  memory as it is.
\<close>

subsection \<open>What the recording operations leave alone\<close>

text \<open>Memory, the store buffers and the current thread with the owners of the points.\<close>

definition surroundings :: "execution \<Rightarrow> memory \<times> vid list list \<times> nat option \<times> nat list" where
  "surroundings e = (mem e, storebuffer e, curr_thread e, map ep_tid (ExecPointList e))"

lemma surroundings_fields [simp]:
  "surroundings (e\<lparr> hp := x1 \<rparr>) = surroundings e" "surroundings (e\<lparr> next_rid := x2 \<rparr>) = surroundings e"
  "surroundings (e\<lparr> next_vid := x3 \<rparr>) = surroundings e" "surroundings (e\<lparr> joinvec := x4 \<rparr>) = surroundings e"
  "surroundings (e\<lparr> EPTable := x5 \<rparr>) = surroundings e" "surroundings (e\<lparr> EPValueTable := x6 \<rparr>) = surroundings e"
  "surroundings (e\<lparr> alwaysexecuted := x7 \<rparr>) = surroundings e" "surroundings (e\<lparr> changes := x8 \<rparr>) = surroundings e"
  "surroundings (e\<lparr> storetable := x9 \<rparr>) = surroundings e" "surroundings (e\<lparr> loadtable := x10 \<rparr>) = surroundings e"
  "surroundings (e\<lparr> EPList := x11 \<rparr>) = surroundings e" "surroundings (e\<lparr> currid := x12 \<rparr>) = surroundings e"
  "surroundings (e\<lparr> memtable := x13 \<rparr>) = surroundings e"
  "surroundings (e\<lparr> eprecorddep := x15 \<rparr>) = surroundings e" "surroundings (e\<lparr> revrecorddep := x16 \<rparr>) = surroundings e"
  "surroundings (e\<lparr> id_addr := x17 \<rparr>) = surroundings e" "surroundings (e\<lparr> id_addr_offset := x18 \<rparr>) = surroundings e"
  "surroundings (e\<lparr> id_retval := x19 \<rparr>) = surroundings e"
  "surroundings (ex_rec r f e) = surroundings e" "surroundings (ex_val v g e) = surroundings e"
  by (simp_all add: surroundings_def ex_rec_def ex_val_def)

lemma surroundings_link [simp]: "surroundings (link_record et tid r e) = surroundings e"
  by (auto simp: link_record_def Let_def split: option.splits)

lemma surroundings_getOrCreate:
  "getOrCreateCurrRecord et off n len any e = Some (isNew, r, e') \<Longrightarrow> surroundings e' = surroundings e"
  by (auto simp: getOrCreateCurrRecord_def create_record_def Let_def do_simps split: option.splits if_splits)

lemma surroundings_record_new: "record_new i v r e = Some e' \<Longrightarrow> surroundings e' = surroundings e"
  by (auto simp: record_new_def addToSet_def addChange_def do_simps split: if_splits)

lemma surroundings_recordStoreChange: "recordStoreChange r a v e = Some e' \<Longrightarrow> surroundings e' = surroundings e"
  by (auto simp: recordStoreChange_def addToSet_def addChange_def do_simps dest!: surroundings_record_new split: if_splits)

lemma surroundings_getEPValue: "getEPValue r a v len e = (isNew, x, e') \<Longrightarrow> surroundings e' = surroundings e"
  by (auto simp: getEPValue_def Let_def split: option.splits)

lemma surroundings_addRecordDepTable [simp]: "surroundings (addRecordDepTable r q i e) = surroundings e"
  by (simp add: addRecordDepTable_def Let_def)

lemma surroundings_record_inputs: "record_inputs r i mcids e = Some e' \<Longrightarrow> surroundings e' = surroundings e"
proof (induction mcids arbitrary: i e)
  case (Cons m mcids)
  show ?case
  proof (cases "m = MCID_NODEP")
    case True
    with Cons show ?thesis by simp
  next
    case False
    with Cons.prems obtain q where "record_inputs r (Suc i) mcids (addRecordDepTable q r (VC_BASEINDEX + i) e) = Some e'"
      by (auto simp: do_simps)
    from Cons.IH [OF this] show ?thesis by simp
  qed
qed simp

lemma surroundings_record_dep: "record_dep m r i e = Some e' \<Longrightarrow> surroundings e' = surroundings e"
  by (auto simp: record_dep_def do_simps split: if_splits)

lemma surroundings_recordContext: "recordContext v rf a mcids e = Some e' \<Longrightarrow> surroundings e' = surroundings e"
  by (auto simp: recordContext_def Let_def do_simps dest!: surroundings_record_inputs surroundings_record_dep)

lemma surroundings_next_entry: "next_entry v e = Some (n, e') \<Longrightarrow> surroundings e' = surroundings e"
  by (auto simp: next_entry_def getNextMCID_def push_EPList_def Let_def split: if_splits)

lemma surroundings_inc_top: "inc_top e = Some e' \<Longrightarrow> surroundings e' = surroundings e"
proof -
  assume "inc_top e = Some e'"
  then obtain t p q where t: "curr_thread e = Some t" "t < length (ExecPointList e)" "p = ExecPointList e ! t"
    "incrementTop p = Some q" "e' = e\<lparr> ExecPointList := (ExecPointList e)[t := q] \<rparr>"
    by (auto simp: inc_top_def curr_ep_def set_curr_ep_def do_simps)
  from t(4) have "ep_tid q = ep_tid p" by (auto simp: incrementTop_def Let_def split: if_splits prod.splits)
  then have "map ep_tid ((ExecPointList e)[t := q]) = map ep_tid (ExecPointList e)"
    using t(2,3) by (simp add: map_update list_update_same_conv)
  then show ?thesis by (simp add: t(5) surroundings_def)
qed

lemma surroundings_curr_tid:
  assumes "surroundings e = surroundings e'"
  shows "map_option ep_tid (curr_ep e) = map_option ep_tid (curr_ep e')"
proof -
  have t: "map_option ep_tid (curr_ep e) = Option.bind (curr_thread e) (nth_opt (map ep_tid (ExecPointList e)))" for e
    by (cases "curr_thread e") (auto simp: curr_ep_def nth_opt_def)
  show ?thesis using assms by (simp add: t surroundings_def)
qed

subsection \<open>The value of a store\<close>

lemma getEPValue_value:
  assumes "exec_inv e" and "getEPValue r a v len e = (isNew, x, e')"
  shows "v_addr (val_of e' x) = a" and "v_value (val_of e' x) = keepbytes v len"
proof -
  let ?val = "new_EPValue (r_ep (rec_of e r)) r a v len"
  let ?key = "(ep_key (v_ep ?val), a, len, v_value ?val)"
  have "value_key (val_of e' x) = ?key"
  proof (cases "EPValueTable e ?key")
    case (Some old)
    with assms(1) have "value_key (val_of e old) = ?key" unfolding exec_inv_def value_ok_def by blast
    moreover have "x = old" "e' = e" using Some assms(2) by (simp_all add: getEPValue_def Let_def)
    ultimately show ?thesis by simp
  next
    case None
    then have "val_of e' x = ?val" using assms(2) by (auto simp: getEPValue_def Let_def ex_rec_def ex_val_def)
    then show ?thesis by (simp add: value_key_def new_EPValue_def)
  qed
  then show "v_addr (val_of e' x) = a" "v_value (val_of e' x) = keepbytes v len"
    by (auto simp: value_key_def new_EPValue_def)
qed

lemma core_recordContext_vals:
  assumes "recordContext v rf a mcids e = Some e'"
  shows "hp e' = hp e"
proof -
  have add: "hp (addRecordDepTable r q i e) = hp e" for r q i e by (simp add: addRecordDepTable_def Let_def)
  have inputs: "record_inputs r i mcids e = Some e' \<Longrightarrow> hp e' = hp e" for r i mcids e e'
  proof (induction mcids arbitrary: i e)
    case (Cons m mcids)
    show ?case
    proof (cases "m = MCID_NODEP")
      case True
      with Cons show ?thesis by simp
    next
      case False
      with Cons.prems obtain q where "record_inputs r (Suc i) mcids (addRecordDepTable q r (VC_BASEINDEX + i) e) = Some e'"
        by (auto simp: do_simps)
      from Cons.IH [OF this] show ?thesis by (simp add: add)
    qed
  qed simp
  have dep: "record_dep m r i e = Some e' \<Longrightarrow> hp e' = hp e" for m r i e e'
    by (auto simp: record_dep_def do_simps add split: if_splits)
  show ?thesis using assms by (auto simp: recordContext_def Let_def do_simps dest!: inputs dep)
qed

text \<open>The entry of the store buffer, or the new contents of memory.\<close>

lemma exec_store_result:
  assumes "exec_inv e" and "exec_store cfg addr val len e = Some e'"
  shows "\<not> TSO cfg \<Longrightarrow> mem e' = write_mem addr val len (mem e)"
    and "TSO cfg \<Longrightarrow> mem e' = mem e \<and> (\<exists>p x l. curr_ep e = Some p \<and> nth_opt (storebuffer e) (ep_tid p) = Some l \<and>
      storebuffer e' = (storebuffer e)[ep_tid p := l @ [x]] \<and> v_addr (val_of e' x) = addr \<and>
      v_value (val_of e' x) = keepbytes val len)"
    and "map_option ep_tid (curr_ep e') = map_option ep_tid (curr_ep e)"
proof -
  let ?e = "if TSO cfg then e else e\<lparr> mem := write_mem addr val len (mem e) \<rparr>"
  from assms(2) obtain isNew r e1 e2 n x e3 e4 e5 m e6 where
    e1: "getOrCreateCurrRecord STORE (id_addr_offset ?e) 1 (nat len) False ?e = Some (isNew, r, e1)"
    and e2: "recordStoreChange r addr val e1 = Some e2"
    and e3: "getEPValue r addr val len (addStoreTable addr r e2) = (n, x, e3)"
    and e4: "(if TSO cfg then do {
             ep \<leftarrow> curr_ep e3;
             l \<leftarrow> nth_opt (storebuffer e3) (ep_tid ep);
             Some (e3\<lparr> storebuffer := (storebuffer e3)[ep_tid ep := l @ [x]] \<rparr>) }
           else Some e3) = Some e4"
    and e5: "recordContext x MCID_NODEP (id_addr e4) [id_value e4] e4 = Some e5"
    and e6: "next_entry x e5 = Some (m, e6)" "inc_top (e6\<lparr> memtable := (memtable e6)(addr := m) \<rparr>) = Some e'"
    unfolding exec_store_def Let_def by (auto simp: do_simps simp del: if_split_asm split: prod.splits)
  have inv1: "exec_inv ?e" using assms(1) by (auto intro: exec_inv_core_intro)
  have "exec_inv e1" by (rule inv_getOrCreate [OF e1 inv1])
  then have inv2: "exec_inv (addStoreTable addr r e2)"
    by (rule exec_inv_core_intro) (simp add: core_recordStoreChange [OF e2])
  note stored = getEPValue_value [OF inv2 e3]
  have s3: "surroundings e3 = surroundings ?e"
    using surroundings_getOrCreate [OF e1] surroundings_recordStoreChange [OF e2] surroundings_getEPValue [OF e3] by (simp add: addStoreTable_def)
  have s': "surroundings e' = surroundings e4"
    using surroundings_recordContext [OF e5] surroundings_next_entry [OF e6(1)] surroundings_inc_top [OF e6(2)] by simp
  have h4: "hp e4 = hp e3" using e4 by (auto simp: do_simps split: if_splits)
  have "core e' = core e5" using core_next_entry [OF e6(1)] core_ep_ops(1) [OF e6(2)] by simp
  then have key: "value_key (val_of e' w) = value_key (val_of e3 w)" for w
    using core_recordContext_vals [OF e5] h4 by (simp add: core_def fun_eq_iff)
  have p4: "surroundings e4 = surroundings e3 \<or>
      (mem e4 = mem e3 \<and> curr_thread e4 = curr_thread e3 \<and> ExecPointList e4 = ExecPointList e3)"
    using e4 by (auto simp: do_simps split: if_splits)
  then have tid: "map_option ep_tid (curr_ep e4) = map_option ep_tid (curr_ep e3)"
    using surroundings_curr_tid [of e4 e3] by (auto simp: curr_ep_def)
  have tid0: "map_option ep_tid (curr_ep ?e) = map_option ep_tid (curr_ep e)" by (simp add: curr_ep_def)
  show "map_option ep_tid (curr_ep e') = map_option ep_tid (curr_ep e)"
    using surroundings_curr_tid [OF s'] tid surroundings_curr_tid [OF s3] tid0 by simp
  show "mem e' = write_mem addr val len (mem e)" if "\<not> TSO cfg"
  proof -
    have "e4 = e3" using e4 that by simp
    then show ?thesis using s' s3 that by (simp add: surroundings_def)
  qed
  show "mem e' = mem e \<and> (\<exists>p x l. curr_ep e = Some p \<and> nth_opt (storebuffer e) (ep_tid p) = Some l \<and>
      storebuffer e' = (storebuffer e)[ep_tid p := l @ [x]] \<and> v_addr (val_of e' x) = addr \<and>
      v_value (val_of e' x) = keepbytes val len)" if "TSO cfg"
  proof -
    from e4 that obtain q l where q: "curr_ep e3 = Some q" "nth_opt (storebuffer e3) (ep_tid q) = Some l"
      "e4 = e3\<lparr> storebuffer := (storebuffer e3)[ep_tid q := l @ [x]] \<rparr>" by (auto simp: do_simps)
    have "map_option ep_tid (curr_ep e) = Some (ep_tid q)" using surroundings_curr_tid [OF s3] q(1) that by simp
    then obtain p where p: "curr_ep e = Some p" "ep_tid p = ep_tid q" by auto
    have "v_addr (val_of e' x) = addr" "v_value (val_of e' x) = keepbytes val len"
      using key [of x] stored by (auto simp: value_key_def)
    moreover have "mem e' = mem e" "storebuffer e' = (storebuffer e)[ep_tid p := l @ [x]]"
      "nth_opt (storebuffer e) (ep_tid p) = Some l"
      using s' s3 q p(2) that by (auto simp: surroundings_def)
    ultimately show ?thesis using p(1) by blast
  qed
qed

subsection \<open>The load\<close>

text \<open>Values that fit the width of the access, as all values of the interface do.\<close>

lemma keepbytes_fits:
  assumes "len \<in> {1, 2, 4, 8}" and "take_bit (8 * nat len) val = val"
  shows "keepbytes val len = val"
proof -
  have "8 * nat len \<le> 56 + nat len" "0 \<le> len" "len \<le> 8" using assms(1) by auto
  moreover have "take_bit (56 + nat len) (take_bit (8 * nat len) val) = take_bit (8 * nat len) val"
    using calculation(1) by (simp add: min_def)
  ultimately show ?thesis using assms(2) by (simp add: keepbytes_bits)
qed

lemma load_after_store:
  assumes "exec_inv e" and "len \<in> {1, 2, 4, 8}" and "take_bit (8 * nat len) val = val"
    and "exec_store cfg addr val len e = Some e1" and "loadMCID maddr off e1 = (n, e2)"
    and "exec_load cfg addr len e2 = Some (v, e3)"
  shows "v = val" and "TSO cfg \<Longrightarrow> mem e1 = mem e"
    and "\<not> TSO cfg \<Longrightarrow> (\<And>i. i < nat len \<Longrightarrow> a \<noteq> addr + of_nat i) \<Longrightarrow> mem e1 a = mem e a"
proof -
  have len: "access_len len = nat len" using assms(2) by (auto simp: access_len_def)
  note R = exec_store_result [OF assms(1,4)]
  show "TSO cfg \<Longrightarrow> mem e1 = mem e" using R(2) by blast
  show "mem e1 a = mem e a" if "\<not> TSO cfg" "\<And>i. i < nat len \<Longrightarrow> a \<noteq> addr + of_nat i"
    using R(1) [OF that(1)] write_mem_other [of len a addr val "mem e"] that(2) by (simp add: len)
  from assms(5) have e2: "mem e2 = mem e1" "storebuffer e2 = storebuffer e1" "curr_ep e2 = curr_ep e1" "hp e2 = hp e1"
    by (auto simp: loadMCID_def getNextMCID_def Let_def curr_ep_def)
  from assms(6) have v: "load_value cfg addr len e2 = Some v" by (auto simp: exec_load_def do_simps)
  show "v = val"
  proof (cases "TSO cfg")
    case False
    then show ?thesis using v R(1) assms(3) by (simp add: load_value_def e2 read_write_mem len)
  next
    case True
    from R(2) [OF True] obtain p x l where p: "curr_ep e = Some p" "nth_opt (storebuffer e) (ep_tid p) = Some l"
      "storebuffer e1 = (storebuffer e)[ep_tid p := l @ [x]]" "v_addr (val_of e1 x) = addr"
      "v_value (val_of e1 x) = keepbytes val len" by blast
    from R(3) p(1) obtain q where q: "curr_ep e1 = Some q" "ep_tid q = ep_tid p" by auto
    have n: "nth_opt (storebuffer e1) (ep_tid q) = Some (l @ [x])" using q(2) p(2,3) by (auto simp: nth_opt_def split: if_splits)
    have b: "buffered e2 (l @ [x]) addr = Some x" using p(4) by (simp add: buffered_def e2)
    have "v = v_value (val_of e1 x)" using v by (simp add: load_value_def True e2 q(1) n b)
    then show ?thesis using p(5) keepbytes_fits [OF assms(2,3)] by simp
  qed
qed

end
