(* ===== verification/Constraints.thy ===== *)
theory Constraints
  imports McUtil
begin

section \<open>Constraints (constraint.h, constraint.cc)\<close>

text \<open>
  The boolean formulas the constraint generator builds: their data type, the operations
  \<open>negate\<close>, \<open>simplify\<close> (with \<open>mergeandfree\<close>), \<open>printDIMACS\<close>, and the
  three generators \<open>generateConstraint\<close>, \<open>generateLTConstraint\<close> and
  \<open>generateEquivConstraint\<close>. A formula is the tree a \<open>Constraint\<close> pointer reaches;
  \<open>clone\<close> copies the tree, so it is the identity here, and freeing has no effect on the value
  of what is still used. \<open>negate\<close> returns the formula the code leaves behind \<open>this\<close>.
  The variables of the code come in pairs, a \<open>VAR\<close> and the \<open>NOTVAR\<close> its \<open>neg\<close>
  field points to.
\<close>

subsection \<open>Data and semantics\<close>

datatype constraint =
    TRUE
  | FALSE
  | IMPLIES constraint constraint
  | AND "constraint list"
  | OR "constraint list"
  | VAR nat
  | NOTVAR nat

primrec eval :: "(nat \<Rightarrow> bool) \<Rightarrow> constraint \<Rightarrow> bool" where
  "eval \<sigma> TRUE \<longleftrightarrow> True"
| "eval \<sigma> FALSE \<longleftrightarrow> False"
| "eval \<sigma> (IMPLIES l r) \<longleftrightarrow> (eval \<sigma> l \<longrightarrow> eval \<sigma> r)"
| "eval \<sigma> (AND cs) \<longleftrightarrow> list_all id (map (eval \<sigma>) cs)"
| "eval \<sigma> (OR cs) \<longleftrightarrow> list_ex id (map (eval \<sigma>) cs)"
| "eval \<sigma> (VAR v) \<longleftrightarrow> \<sigma> v"
| "eval \<sigma> (NOTVAR v) \<longleftrightarrow> \<not> \<sigma> v"

lemma eval_AND [eval_simps]: "eval \<sigma> (AND cs) \<longleftrightarrow> (\<forall>c \<in> set cs. eval \<sigma> c)"
  by (auto simp: list_all_iff)

lemma eval_OR [eval_simps]: "eval \<sigma> (OR cs) \<longleftrightarrow> (\<exists>c \<in> set cs. eval \<sigma> c)"
  by (auto simp: list_ex_iff)

declare eval.simps(4,5) [simp del]
declare eval_AND [simp] eval_OR [simp]

text \<open>A set of constraints the solver has been given holds under \<open>\<sigma>\<close>.\<close>

definition evals :: "(nat \<Rightarrow> bool) \<Rightarrow> constraint list \<Rightarrow> bool" where
  "evals \<sigma> cs \<longleftrightarrow> (\<forall>c \<in> set cs. eval \<sigma> c)"

lemma evals_simps [simp, eval_simps]:
  "evals \<sigma> []"
  "evals \<sigma> (c # cs) \<longleftrightarrow> eval \<sigma> c \<and> evals \<sigma> cs"
  "evals \<sigma> (cs @ ds) \<longleftrightarrow> evals \<sigma> cs \<and> evals \<sigma> ds"
  by (auto simp: evals_def)

lemma evalsD: "evals \<sigma> cs \<Longrightarrow> c \<in> set cs \<Longrightarrow> eval \<sigma> c"
  by (simp add: evals_def)

lemma evals_mono: "evals \<sigma> ds \<Longrightarrow> set cs \<subseteq> set ds \<Longrightarrow> evals \<sigma> cs"
  by (auto simp: evals_def)

subsection \<open>Constraint::isTrue, isFalse, getVar, clone\<close>

fun isTrue :: "constraint \<Rightarrow> bool" where
  "isTrue TRUE = True"
| "isTrue _ = False"

fun isFalse :: "constraint \<Rightarrow> bool" where
  "isFalse FALSE = True"
| "isFalse _ = False"

text \<open>\<open>getVar\<close> asserts that the constraint is a variable.\<close>

fun getVar :: "constraint \<Rightarrow> nat option" where
  "getVar (VAR v) = Some v"
| "getVar _ = None"

fun is_literal :: "constraint \<Rightarrow> bool" where
  "is_literal (VAR _) = True"
| "is_literal (NOTVAR _) = True"
| "is_literal _ = False"

lemma isTrue_eval: "isTrue c \<Longrightarrow> eval \<sigma> c"
  by (cases c) auto

lemma isFalse_eval: "isFalse c \<Longrightarrow> \<not> eval \<sigma> c"
  by (cases c) auto

subsection \<open>Constraint::negate\<close>

fun negate :: "constraint \<Rightarrow> constraint" where
  "negate TRUE = FALSE"
| "negate FALSE = TRUE"
| "negate (NOTVAR v) = VAR v"
| "negate (VAR v) = NOTVAR v"
| "negate (IMPLIES l r) = IMPLIES r l"
| "negate (AND cs) = OR (map negate cs)"
| "negate (OR cs) = AND (map negate cs)"

text \<open>
  For an implication \<open>negate\<close> swaps premise and conclusion, which is not its negation. The
  condition under which \<open>negate\<close> is the negation: no implication occurs.
\<close>

fun imp_free :: "constraint \<Rightarrow> bool" where
  "imp_free (IMPLIES l r) = False"
| "imp_free (AND cs) = list_all imp_free cs"
| "imp_free (OR cs) = list_all imp_free cs"
| "imp_free _ = True"

lemma imp_free_negate [simp]: "imp_free (negate c) = imp_free c"
  by (induction c rule: negate.induct) (auto simp: list_all_iff)

lemma eval_negate [eval_simps]: "imp_free c \<Longrightarrow> eval \<sigma> (negate c) \<longleftrightarrow> \<not> eval \<sigma> c"
  by (induction c rule: negate.induct) (auto simp: list_all_iff)

lemma is_literal_negate [simp]: "is_literal (negate c) = is_literal c"
  by (cases c) auto

lemma is_literal_imp_free: "is_literal c \<Longrightarrow> imp_free c"
  by (cases c) auto

lemma negate_negate: "negate (negate c) = c"
  by (induction c rule: negate.induct) (auto simp: map_idI)

subsection \<open>mergeandfree and Constraint::simplify\<close>

text \<open>
  \<open>mergeandfree to from\<close> appends the clauses of \<open>from\<close>, dropping the true ones. On a
  false one it empties \<open>to\<close>, pushes \<open>ctrue\<close> and reports that the caller can stop.
\<close>

fun mergeandfree :: "constraint list \<Rightarrow> constraint list \<Rightarrow> bool \<times> constraint list" where
  "mergeandfree to [] = (False, to)"
| "mergeandfree to (c # from) =
     (if isTrue c then mergeandfree to from
      else if isFalse c then (True, [TRUE])
      else mergeandfree (to @ [c]) from)"

text \<open>The loop of \<open>simplify\<close> over the simplified operands of a conjunction.\<close>

fun merge_all :: "constraint list \<Rightarrow> constraint list list \<Rightarrow> constraint list" where
  "merge_all vec [] = vec"
| "merge_all vec (sub # subs) =
     (case mergeandfree vec sub of
        (True, vec') \<Rightarrow> vec'
      | (False, vec') \<Rightarrow> merge_all vec' subs)"

primrec weight :: "constraint \<Rightarrow> nat" where
  "weight TRUE = 1"
| "weight FALSE = 1"
| "weight (IMPLIES l r) = 3 + weight l + weight r"
| "weight (AND cs) = 1 + sum_list (map weight cs)"
| "weight (OR cs) = 1 + sum_list (map weight cs)"
| "weight (VAR v) = 1"
| "weight (NOTVAR v) = 1"

lemma weight_negate [simp]: "weight (negate c) = weight c"
  by (induction c rule: negate.induct) (auto simp: o_def cong: map_cong)

lemma weight_member: "c \<in> set cs \<Longrightarrow> weight c \<le> sum_list (map weight cs)"
  by (induction cs) auto

lemma literals_split:
  "dropWhile is_literal cs = c # post \<Longrightarrow> cs = takeWhile is_literal cs @ c # post"
  by (metis takeWhile_dropWhile_id)

lemma weight_split:
  assumes "dropWhile is_literal cs = c # post"
  shows "sum_list (map weight cs) =
    sum_list (map weight (takeWhile is_literal cs)) + weight c + sum_list (map weight post)"
  by (subst literals_split [OF assms]) simp

function simplify :: "constraint \<Rightarrow> constraint list" where
  "simplify TRUE = [TRUE]"
| "simplify FALSE = [FALSE]"
| "simplify (VAR v) = [VAR v]"
| "simplify (NOTVAR v) = [NOTVAR v]"
| "simplify (AND cs) = merge_all [] (map simplify cs)"
| "simplify (OR cs) =
     (case dropWhile is_literal cs of
        [] \<Rightarrow> (if length cs = 1 then cs else [OR cs])
      | c # post \<Rightarrow>
          (let pre = takeWhile is_literal cs in
           case c of
             TRUE \<Rightarrow> [TRUE]
           | FALSE \<Rightarrow> simplify (OR (pre @ post))
           | VAR v \<Rightarrow> [OR cs]
           | NOTVAR v \<Rightarrow> [OR cs]
           | OR ds \<Rightarrow> simplify (OR (pre @ post @ ds))
           | IMPLIES l r \<Rightarrow> simplify (OR (pre @ post @ [negate l, r]))
           | AND ds \<Rightarrow> merge_all [] (map (\<lambda>d. simplify (OR (pre @ d # post))) ds)))"
| "simplify (IMPLIES l r) = simplify (OR [negate l, r])"
  by pat_completeness auto
termination
  by (relation "measure weight") (auto simp: weight_split dest: weight_member)

declare simplify.simps(6) [simp del]

lemma simplify_OR_literals:
  assumes "list_all is_literal cs"
  shows "simplify (OR cs) = (if length cs = 1 then cs else [OR cs])"
proof -
  have *: "dropWhile is_literal cs = []"
    using assms by (simp add: dropWhile_eq_Nil_conv list_all_iff)
  show ?thesis by (subst simplify.simps(6)) (simp only: * list.case)
qed

lemma literals_dropWhile:
  assumes "list_all is_literal pre" "\<not> is_literal c"
  shows "dropWhile is_literal (pre @ c # post) = c # post"
    and "takeWhile is_literal (pre @ c # post) = pre"
  using assms by (auto simp: list_all_iff dropWhile_append2 takeWhile_append2)

text \<open>The loop over the operands of a disjunction stops at the first that is not a literal.\<close>

lemma simplify_OR_nonliteral:
  assumes "list_all is_literal pre"
  shows "simplify (OR (pre @ TRUE # post)) = [TRUE]"
    and "simplify (OR (pre @ FALSE # post)) = simplify (OR (pre @ post))"
    and "simplify (OR (pre @ OR ds # post)) = simplify (OR (pre @ post @ ds))"
    and "simplify (OR (pre @ IMPLIES l r # post)) = simplify (OR (pre @ post @ [negate l, r]))"
    and "simplify (OR (pre @ AND ds # post)) =
      merge_all [] (map (\<lambda>d. simplify (OR (pre @ d # post))) ds)"
  using assms by (simp_all add: simplify.simps(6) literals_dropWhile)

lemma OR_operands_cases:
  obtains (literals) "list_all is_literal cs"
  | (nonliteral) pre c post where "cs = pre @ c # post" "list_all is_literal pre" "\<not> is_literal c"
proof (cases "dropWhile is_literal cs")
  case Nil
  then show ?thesis using literals by (simp add: dropWhile_eq_Nil_conv list_all_iff)
next
  case (Cons c post)
  have "\<not> is_literal c" using hd_dropWhile [of is_literal cs] Cons by simp
  moreover have "list_all is_literal (takeWhile is_literal cs)"
    by (auto simp: list_all_iff dest: set_takeWhileD)
  ultimately show ?thesis using nonliteral literals_split [OF Cons] by blast
qed

text \<open>The induction that follows the recursion of \<open>simplify\<close>.\<close>

lemma simplify_induct [case_names TRUE FALSE VAR NOTVAR AND IMPLIES literals OR_TRUE OR_FALSE OR_OR
    OR_IMPLIES OR_AND]:
  assumes "P TRUE" and "P FALSE" and "\<And>v. P (VAR v)" and "\<And>v. P (NOTVAR v)"
    and "\<And>cs. (\<And>c. c \<in> set cs \<Longrightarrow> P c) \<Longrightarrow> P (AND cs)"
    and "\<And>l r. P (OR [negate l, r]) \<Longrightarrow> P (IMPLIES l r)"
    and "\<And>cs. list_all is_literal cs \<Longrightarrow> P (OR cs)"
    and "\<And>pre post. list_all is_literal pre \<Longrightarrow> P (OR (pre @ TRUE # post))"
    and "\<And>pre post. list_all is_literal pre \<Longrightarrow> P (OR (pre @ post)) \<Longrightarrow> P (OR (pre @ FALSE # post))"
    and "\<And>pre ds post. list_all is_literal pre \<Longrightarrow> P (OR (pre @ post @ ds)) \<Longrightarrow> P (OR (pre @ OR ds # post))"
    and "\<And>pre l r post. list_all is_literal pre \<Longrightarrow> P (OR (pre @ post @ [negate l, r])) \<Longrightarrow>
      P (OR (pre @ IMPLIES l r # post))"
    and "\<And>pre ds post. list_all is_literal pre \<Longrightarrow> (\<And>d. d \<in> set ds \<Longrightarrow> P (OR (pre @ d # post))) \<Longrightarrow>
      P (OR (pre @ AND ds # post))"
  shows "P c"
proof (induction c rule: measure_induct_rule [of weight])
  case (less c)
  show ?case
  proof (cases c)
    case (AND cs)
    then show ?thesis using assms(5) less weight_member by (metis le_imp_less_Suc plus_1_eq_Suc weight.simps(4))
  next
    case (IMPLIES l r)
    then show ?thesis using assms(6) less by simp
  next
    case (OR cs)
    show ?thesis
    proof (cases rule: OR_operands_cases [of cs])
      case literals
      then show ?thesis using OR assms(7) by simp
    next
      case (nonliteral pre d post)
      then show ?thesis
      proof (cases d)
        case (AND ds)
        have "P (OR (pre @ e # post))" if "e \<in> set ds" for e
          using less that weight_member [of e ds] OR nonliteral AND by simp
        then show ?thesis using assms(12) OR nonliteral AND by blast
      qed (use assms(8-11) OR nonliteral less in auto)
    qed
  qed (use assms in auto)
qed

subsubsection \<open>The semantics of simplify\<close>

text \<open>
  The two conditions under which \<open>simplify\<close> keeps the meaning: no implication stands in the
  premise of an implication (there \<open>negate\<close> would swap it), and no \<open>FALSE\<close> is a direct
  operand of a conjunction that \<open>mergeandfree\<close> merges (there it answers \<open>TRUE\<close>).
\<close>

fun neg_ok :: "constraint \<Rightarrow> bool" where
  "neg_ok (IMPLIES l r) = (imp_free l \<and> neg_ok r)"
| "neg_ok (AND cs) = list_all neg_ok cs"
| "neg_ok (OR cs) = list_all neg_ok cs"
| "neg_ok _ = True"

fun and_clean :: "constraint \<Rightarrow> bool" where
  "and_clean (AND cs) = list_all (\<lambda>c. \<not> isFalse c \<and> and_clean c) cs"
| "and_clean _ = True"

lemma imp_free_neg_ok: "imp_free c \<Longrightarrow> neg_ok c"
  by (induction c rule: imp_free.induct) (auto simp: list_all_iff)

lemma isFalse_iff: "isFalse c \<longleftrightarrow> c = FALSE"
  by (cases c) auto

lemma isTrue_iff: "isTrue c \<longleftrightarrow> c = TRUE"
  by (cases c) auto

lemma mergeandfree_ok:
  "FALSE \<notin> set from \<Longrightarrow> mergeandfree to from = (False, to @ filter (\<lambda>c. \<not> isTrue c) from)"
proof (induction "to" "from" rule: mergeandfree.induct)
  case (1 "to")
  then show ?case by simp
next
  case (2 "to" c "from")
  then show ?case by (cases c) auto
qed

lemma merge_all_ok:
  "(\<And>sub. sub \<in> set subs \<Longrightarrow> FALSE \<notin> set sub) \<Longrightarrow>
    merge_all vec subs = vec @ filter (\<lambda>c. \<not> isTrue c) (concat subs)"
  by (induction subs arbitrary: vec) (auto simp: mergeandfree_ok)

lemma merge_all_no_FALSE:
  assumes "FALSE \<notin> set vec" shows "FALSE \<notin> set (merge_all vec subs)"
proof -
  have m: "FALSE \<notin> set to \<Longrightarrow> FALSE \<notin> set (snd (mergeandfree to from))" for "to" "from"
    by (induction "to" "from" rule: mergeandfree.induct) (auto simp: isFalse_iff)
  show ?thesis using assms
  proof (induction subs arbitrary: vec)
    case Nil
    then show ?case by simp
  next
    case (Cons sub subs)
    obtain b vec' where bv: "mergeandfree vec sub = (b, vec')" by fastforce
    with m [OF Cons.prems, of sub] have "FALSE \<notin> set vec'" by simp
    with bv Cons.IH show ?case by (cases b) auto
  qed
qed

lemma simplify_no_FALSE: "c \<noteq> FALSE \<Longrightarrow> FALSE \<notin> set (simplify c)"
proof (induction c rule: simplify_induct)
  case (literals cs)
  then show ?case by (auto simp: simplify_OR_literals list_all_iff)
qed (auto simp: simplify_OR_nonliteral intro!: merge_all_no_FALSE simp del: merge_all.simps)

lemma filter_isTrue_evals: "evals \<sigma> (filter (\<lambda>c. \<not> isTrue c) cs) \<longleftrightarrow> evals \<sigma> cs"
  by (auto simp: evals_def isTrue_iff)

lemma evals_concat: "evals \<sigma> (concat css) \<longleftrightarrow> (\<forall>cs \<in> set css. evals \<sigma> cs)"
  by (auto simp: evals_def)

lemma evals_merge_all:
  assumes "\<And>sub. sub \<in> set subs \<Longrightarrow> FALSE \<notin> set sub"
  shows "evals \<sigma> (merge_all [] subs) \<longleftrightarrow> (\<forall>sub \<in> set subs. evals \<sigma> sub)"
  using merge_all_ok [of subs "[]"] assms by (simp add: filter_isTrue_evals evals_concat)

theorem simplify_eval:
  assumes "neg_ok c" and "and_clean c"
  shows "evals \<sigma> (simplify c) \<longleftrightarrow> eval \<sigma> c"
  using assms
proof (induction c rule: simplify_induct)
  case (AND cs)
  have "evals \<sigma> (simplify (AND cs)) \<longleftrightarrow> (\<forall>sub \<in> set (map simplify cs). evals \<sigma> sub)"
    unfolding simplify.simps(5)
    using AND.prems by (intro evals_merge_all) (auto simp: list_all_iff isFalse_iff dest: simplify_no_FALSE)
  then show ?case using AND by (auto simp: list_all_iff)
next
  case (IMPLIES l r)
  then show ?case by (auto simp: imp_free_neg_ok eval_negate)
next
  case (literals cs)
  then show ?case by (cases cs) (auto simp: simplify_OR_literals)
next
  case (OR_OR pre ds post)
  then have "evals \<sigma> (simplify (OR (pre @ post @ ds))) \<longleftrightarrow> eval \<sigma> (OR (pre @ post @ ds))"
    by simp
  then show ?case using OR_OR.hyps by (auto simp: simplify_OR_nonliteral)
next
  case (OR_AND pre ds post)
  have "evals \<sigma> (simplify (OR (pre @ AND ds # post))) \<longleftrightarrow>
      (\<forall>sub \<in> set (map (\<lambda>d. simplify (OR (pre @ d # post))) ds). evals \<sigma> sub)"
    unfolding simplify_OR_nonliteral(5) [OF OR_AND.hyps]
    by (intro evals_merge_all) (auto simp: simplify_no_FALSE)
  moreover have "evals \<sigma> (simplify (OR (pre @ d # post))) \<longleftrightarrow> eval \<sigma> (OR (pre @ d # post))"
    if "d \<in> set ds" for d
    using that OR_AND by (auto simp: list_all_iff)
  ultimately show ?case by auto
qed (auto simp: simplify_OR_nonliteral list_all_iff imp_free_neg_ok eval_negate)

subsubsection \<open>The form of the result\<close>

text \<open>A clause \<open>printDIMACS\<close> can print: a literal, or a disjunction of literals.\<close>

fun is_clause :: "constraint \<Rightarrow> bool" where
  "is_clause (VAR v) = True"
| "is_clause (NOTVAR v) = True"
| "is_clause (OR cs) = list_all is_literal cs"
| "is_clause _ = False"

lemma mergeandfree_set: "set (snd (mergeandfree to from)) \<subseteq> set to \<union> set from \<union> {TRUE}"
  by (induction "to" "from" rule: mergeandfree.induct) auto

lemma merge_all_set: "set (merge_all vec subs) \<subseteq> set vec \<union> (\<Union>sub \<in> set subs. set sub) \<union> {TRUE}"
proof (induction subs arbitrary: vec)
  case Nil
  then show ?case by auto
next
  case (Cons sub subs)
  obtain b vec' where bv: "mergeandfree vec sub = (b, vec')" by fastforce
  with mergeandfree_set [of vec sub] have "set vec' \<subseteq> set vec \<union> set sub \<union> {TRUE}" by simp
  with bv Cons [of vec'] show ?case by (cases b) auto
qed

lemma merge_all_all:
  "(\<And>sub c. sub \<in> set subs \<Longrightarrow> c \<in> set sub \<Longrightarrow> P c) \<Longrightarrow> P TRUE \<Longrightarrow>
    c \<in> set (merge_all [] subs) \<Longrightarrow> P c"
  using merge_all_set [of "[]" subs] by fastforce

theorem simplify_clauses:
  assumes "d \<in> set (simplify c)"
  shows "d = TRUE \<or> d = FALSE \<or> is_clause d"
  using assms
proof (induction c arbitrary: d rule: simplify_induct)
  case (AND cs)
  show ?case
    by (rule merge_all_all [where P = "\<lambda>d. d = TRUE \<or> d = FALSE \<or> is_clause d", OF _ _ AND.prems [unfolded simplify.simps(5)]])
      (use AND.IH in auto)
next
  case (literals cs)
  then show ?case
    by (cases cs rule: remdups_adj.cases) (auto simp: simplify_OR_literals elim: is_literal.elims)
next
  case (OR_AND pre ds post)
  show ?case
    by (rule merge_all_all [where P = "\<lambda>d. d = TRUE \<or> d = FALSE \<or> is_clause d",
          OF _ _ OR_AND.prems [unfolded simplify_OR_nonliteral(5) [OF OR_AND.hyps]]])
      (use OR_AND.IH in auto)
qed (auto simp: simplify_OR_nonliteral)

primrec cvars :: "constraint \<Rightarrow> nat set" where
  "cvars TRUE = {}"
| "cvars FALSE = {}"
| "cvars (IMPLIES l r) = cvars l \<union> cvars r"
| "cvars (AND cs) = \<Union> (set (map cvars cs))"
| "cvars (OR cs) = \<Union> (set (map cvars cs))"
| "cvars (VAR v) = {v}"
| "cvars (NOTVAR v) = {v}"

lemma cvars_negate [simp]: "cvars (negate c) = cvars c"
  by (induction c rule: negate.induct) auto

lemma cvars_simplify: "d \<in> set (simplify c) \<Longrightarrow> cvars d \<subseteq> cvars c"
proof (induction c arbitrary: d rule: simplify_induct)
  case (AND cs)
  show ?case
    by (rule merge_all_all [where P = "\<lambda>d. cvars d \<subseteq> cvars (AND cs)", OF _ _ AND.prems [unfolded simplify.simps(5)]])
      (use AND.IH in fastforce)+
next
  case (literals cs)
  then show ?case by (auto simp: simplify_OR_literals split: if_splits)
next
  case (OR_AND pre ds post)
  show ?case
    by (rule merge_all_all [where P = "\<lambda>d. cvars d \<subseteq> cvars (OR (pre @ AND ds # post))",
          OF _ _ OR_AND.prems [unfolded simplify_OR_nonliteral(5) [OF OR_AND.hyps]]])
      (use OR_AND.IH in fastforce)+
next
  case (IMPLIES l r)
  then show ?case by fastforce
qed (fastforce simp: simplify_OR_nonliteral)+

lemma eval_cong: "(\<And>v. v \<in> cvars c \<Longrightarrow> \<sigma> v = \<tau> v) \<Longrightarrow> eval \<sigma> c = eval \<tau> c"
  by (induction c) auto

subsection \<open>Constraint::printDIMACS\<close>

text \<open>
  The literals sent to the solver for a clause, closed by 0. \<open>None\<close> is a failed assertion: the
  constraint is not a clause.
\<close>

fun print_literal :: "constraint \<Rightarrow> int option" where
  "print_literal (VAR v) = Some (int v)"
| "print_literal (NOTVAR v) = Some (- int v)"
| "print_literal _ = None"

fun print_literals :: "constraint list \<Rightarrow> int list option" where
  "print_literals [] = Some []"
| "print_literals (c # cs) = do { l \<leftarrow> print_literal c; ls \<leftarrow> print_literals cs; Some (l # ls) }"

fun printDIMACS :: "constraint \<Rightarrow> int list option" where
  "printDIMACS (VAR v) = Some [int v, 0]"
| "printDIMACS (NOTVAR v) = Some [- int v, 0]"
| "printDIMACS (OR cs) = map_option (\<lambda>ls. ls @ [0]) (print_literals cs)"
| "printDIMACS _ = None"

text \<open>The meaning of a stream of literals with clauses closed by 0; \<open>b\<close> is the open clause so far.\<close>

fun stream_sat :: "(nat \<Rightarrow> bool) \<Rightarrow> bool \<Rightarrow> int list \<Rightarrow> bool" where
  "stream_sat \<sigma> b [] \<longleftrightarrow> True"
| "stream_sat \<sigma> b (l # ls) \<longleftrightarrow>
     (if l = 0 then b \<and> stream_sat \<sigma> False ls
      else stream_sat \<sigma> (b \<or> (if l > 0 then \<sigma> (nat l) else \<not> \<sigma> (nat (- l)))) ls)"

lemma print_literals_sat:
  "list_all is_literal cs \<Longrightarrow> 0 \<notin> (\<Union>c \<in> set cs. cvars c) \<Longrightarrow>
    \<exists>ls. print_literals cs = Some ls \<and>
      (\<forall>b rest. stream_sat \<sigma> b (ls @ 0 # rest) \<longleftrightarrow> (b \<or> (\<exists>c \<in> set cs. eval \<sigma> c)) \<and> stream_sat \<sigma> False rest)"
proof (induction cs)
  case Nil
  then show ?case by simp
next
  case (Cons c cs)
  then obtain ls where ls: "print_literals cs = Some ls"
    "\<And>b rest. stream_sat \<sigma> b (ls @ 0 # rest) \<longleftrightarrow> (b \<or> (\<exists>c \<in> set cs. eval \<sigma> c)) \<and> stream_sat \<sigma> False rest"
    by auto
  from Cons.prems have "is_literal c" "0 \<notin> cvars c" by auto
  then show ?case using ls by (cases c) auto
qed

lemma printDIMACS_sat:
  assumes "is_clause c" and "0 \<notin> cvars c"
  shows "\<exists>ls. printDIMACS c = Some ls \<and>
    (\<forall>rest. stream_sat \<sigma> False (ls @ rest) \<longleftrightarrow> eval \<sigma> c \<and> stream_sat \<sigma> False rest)"
proof (cases c)
  case (OR cs)
  with assms print_literals_sat [of cs \<sigma>] show ?thesis by auto
qed (use assms in auto)

end
