(* ===== verification/ConstraintGens.thy ===== *)
theory ConstraintGens
  imports Constraints
begin

section \<open>Generators of constraints (constraint.cc)\<close>

text \<open>
  \<open>generateConstraint\<close> (the variables spell the bits of a value), \<open>generateLTConstraint\<close>
  (the value the variables spell is below a bound) and the two \<open>generateEquivConstraint\<close>. The
  value the variables spell under an assignment is \<open>spelled\<close>; the lemmas say of each generator
  which assignments satisfy it. \<open>spell\<close> is the loop that reads a value back from the solver's
  assignment in \<open>valuerecord.cc\<close> and \<open>branchrecord.cc\<close>.
\<close>

subsection \<open>Bits of a value\<close>

text \<open>The loop \<open>value=value<<1; if (bit) value|=1\<close> from the highest variable down.\<close>

definition spell :: "bool list \<Rightarrow> uint32" where
  "spell bs = fold (\<lambda>b v. if b then set_low_bit (shl1 v) else shl1 v) (rev bs) 0"

lemma spell_Nil [simp]: "spell [] = 0"
  by (simp add: spell_def)

lemma spell_Cons: "spell (b # bs) = (if b then set_low_bit (shl1 (spell bs)) else shl1 (spell bs))"
  by (simp add: spell_def)

lemma bit_spell: "length bs \<le> 32 \<Longrightarrow> bit (spell bs) i \<longleftrightarrow> i < length bs \<and> bs ! i"
proof (induction bs arbitrary: i)
  case Nil
  then show ?case by simp
next
  case (Cons b bs)
  then have IH: "bit (spell bs) j \<longleftrightarrow> j < length bs \<and> bs ! j" for j by simp
  have "bit (spell (b # bs)) i \<longleftrightarrow> (b \<and> i = 0) \<or> (0 < i \<and> i < 32 \<and> bit (spell bs) (i - 1))"
    by (simp only: spell_Cons bit_set_low_bit bit_shl1 if_split_asm split: if_split) blast
  also have "\<dots> \<longleftrightarrow> i < length (b # bs) \<and> (b # bs) ! i"
    using Cons.prems by (cases i) (auto simp: IH)
  finally show ?case .
qed

lemma unat_spell_less: "length bs \<le> 32 \<Longrightarrow> unat (spell bs) < 2 ^ length bs"
proof -
  assume l: "length bs \<le> 32"
  have "take_bit (length bs) (spell bs) = spell bs"
    by (rule bit_eqI) (auto simp: bit_take_bit_iff bit_spell l)
  then have "take_bit (length bs) (unat (spell bs)) = unat (spell bs)"
    by (metis unsigned_take_bit_eq)
  then show ?thesis by (metis take_bit_nat_less_exp)
qed

text \<open>The value a vector of variables spells under an assignment.\<close>

definition spelled :: "(nat \<Rightarrow> bool) \<Rightarrow> constraint list \<Rightarrow> uint32" where
  "spelled \<sigma> vars = spell (map (eval \<sigma>) vars)"

lemma bit_spelled: "length vars \<le> 32 \<Longrightarrow> bit (spelled \<sigma> vars) i \<longleftrightarrow> i < length vars \<and> eval \<sigma> (vars ! i)"
  by (auto simp: spelled_def bit_spell)

lemma unat_spelled_less: "length vars \<le> 32 \<Longrightarrow> unat (spelled \<sigma> vars) < 2 ^ length vars"
  using unat_spell_less [of "map (eval \<sigma>) vars"] by (simp add: spelled_def)

subsection \<open>generateConstraint\<close>

fun gen_literals :: "constraint list \<Rightarrow> uint32 \<Rightarrow> constraint list" where
  "gen_literals [] val = []"
| "gen_literals (x # vars) val =
     (if low_bit_set val then x else negate x) # gen_literals vars (shr1 val)"

definition generateConstraint :: "constraint list \<Rightarrow> uint32 \<Rightarrow> constraint" where
  "generateConstraint vars val = AND (gen_literals vars val)"

lemma gen_literals_eval:
  "list_all is_literal vars \<Longrightarrow>
    (\<forall>c \<in> set (gen_literals vars val). eval \<sigma> c) \<longleftrightarrow>
    (\<forall>i < length vars. eval \<sigma> (vars ! i) \<longleftrightarrow> bit val i)"
proof (induction vars val rule: gen_literals.induct)
  case (1 v)
  then show ?case by simp
next
  case (2 x vars v)
  then have "(\<forall>c \<in> set (gen_literals (x # vars) v). eval \<sigma> c) \<longleftrightarrow>
      (eval \<sigma> x \<longleftrightarrow> bit v 0) \<and> (\<forall>i < length vars. eval \<sigma> (vars ! i) \<longleftrightarrow> bit v (Suc i))"
    by (auto simp: eval_negate is_literal_imp_free bit_shr1)
  also have "\<dots> \<longleftrightarrow> (\<forall>i < length (x # vars). eval \<sigma> ((x # vars) ! i) \<longleftrightarrow> bit v i)"
    by (auto simp: less_Suc_eq_0_disj)
  finally show ?case .
qed

text \<open>The constraint holds exactly when the variables spell the value.\<close>

lemma generateConstraint_eval:
  assumes "list_all is_literal vars" and "length vars \<le> 32" and "unat val < 2 ^ length vars"
  shows "eval \<sigma> (generateConstraint vars val) \<longleftrightarrow> spelled \<sigma> vars = val"
proof -
  have "take_bit (length vars) (unat val) = unat val" using assms(3) by (simp add: take_bit_nat_eq_self)
  then have "take_bit (length vars) val = val"
    by (metis unsigned_take_bit_eq unsigned_word_eqI)
  then have hi: "bit val i \<Longrightarrow> i < length vars" for i
    by (metis bit_take_bit_iff)
  have "eval \<sigma> (generateConstraint vars val) \<longleftrightarrow> (\<forall>i < length vars. eval \<sigma> (vars ! i) \<longleftrightarrow> bit val i)"
    by (simp add: generateConstraint_def gen_literals_eval assms(1))
  also have "\<dots> \<longleftrightarrow> (\<forall>i. bit (spelled \<sigma> vars) i = bit val i)"
    using hi by (auto simp: bit_spelled assms(2))
  also have "\<dots> \<longleftrightarrow> spelled \<sigma> vars = val"
    by (auto intro: bit_eqI)
  finally show ?thesis .
qed

lemma gen_literals_is_literal: "list_all is_literal vars \<Longrightarrow> list_all is_literal (gen_literals vars val)"
  by (induction vars val rule: gen_literals.induct) auto

lemma length_gen_literals [simp]: "length (gen_literals vars val) = length vars"
  by (induction vars val rule: gen_literals.induct) auto

lemma generateConstraint_shape:
  assumes "list_all is_literal vars"
  shows "imp_free (generateConstraint vars val)" and "and_clean (generateConstraint vars val)"
    and "neg_ok (generateConstraint vars val)"
proof -
  have "imp_free c" "and_clean c" "\<not> isFalse c" if "is_literal c" for c
    using that by (cases c; simp)+
  with gen_literals_is_literal [OF assms, of val]
  show "imp_free (generateConstraint vars val)" "and_clean (generateConstraint vars val)"
    by (auto simp: generateConstraint_def list_all_iff)
  then show "neg_ok (generateConstraint vars val)" by (simp add: imp_free_neg_ok)
qed

subsection \<open>generateLTConstraint\<close>

text \<open>The inner loop: the negated variables at the positions of the ones of \<open>val\<close>.\<close>

fun lt_clause :: "constraint list \<Rightarrow> uint32 \<Rightarrow> constraint list" where
  "lt_clause [] val = []"
| "lt_clause (x # vars) val =
     (if low_bit_set val then negate x # lt_clause vars (shr1 val) else lt_clause vars (shr1 val))"

lemma lt_clause_eval:
  "list_all is_literal vars \<Longrightarrow>
    (\<exists>c \<in> set (lt_clause vars val). eval \<sigma> c) \<longleftrightarrow> (\<exists>i < length vars. bit val i \<and> \<not> eval \<sigma> (vars ! i))"
proof (induction vars val rule: lt_clause.induct)
  case (1 v)
  then show ?case by simp
next
  case (2 x vars v)
  then have "(\<exists>c \<in> set (lt_clause (x # vars) v). eval \<sigma> c) \<longleftrightarrow>
      (bit v 0 \<and> \<not> eval \<sigma> x) \<or> (\<exists>i < length vars. bit v (Suc i) \<and> \<not> eval \<sigma> (vars ! i))"
    by (auto simp: eval_negate is_literal_imp_free bit_shr1)
  also have "\<dots> \<longleftrightarrow> (\<exists>i < length (x # vars). bit v i \<and> \<not> eval \<sigma> ((x # vars) ! i))"
    by (auto simp: less_Suc_eq_0_disj)
  finally show ?case .
qed

lemma lt_clause_Nil: "lt_clause vars val = [] \<longleftrightarrow> (\<forall>i < length vars. \<not> bit val i)"
  by (induction vars val rule: lt_clause.induct) (auto simp: bit_shr1 less_Suc_eq_0_disj)

lemma lt_clause_0 [simp]: "lt_clause vars 0 = []"
  by (simp add: lt_clause_Nil)

text \<open>\<open>value+(1<<ctz(value))\<close>: the lowest one is added once more.\<close>

definition flip_last :: "uint32 \<Rightarrow> uint32" where
  "flip_last v = v + push_bit (builtin_ctz v) 1"

lemma flip_last_low_bits:
  assumes "v \<noteq> 0" and "i \<le> builtin_ctz v"
  shows "\<not> bit (flip_last v) i"
proof -
  let ?k = "builtin_ctz v"
  have t: "take_bit (Suc ?k) v = 2 ^ ?k"
  proof (rule bit_eqI)
    fix n assume "possible_bit TYPE(uint32) n"
    then show "bit (take_bit (Suc ?k) v) n = bit (2 ^ ?k :: uint32) n"
      using builtin_ctz_bounds [OF assms(1)] by (auto simp: bit_take_bit_iff bit_exp_iff less_Suc_eq)
  qed
  let ?q = "drop_bit (Suc ?k) v"
  have "v = push_bit (Suc ?k) ?q + 2 ^ ?k"
    using bits_ident [of "Suc ?k" v] by (simp only: t)
  then have "flip_last v = push_bit (Suc ?k) ?q + 2 ^ ?k + push_bit ?k 1"
    by (simp only: flip_last_def)
  also have "\<dots> = push_bit (Suc ?k) (?q + 1)"
    by (simp add: push_bit_eq_mult algebra_simps)
  finally show ?thesis
    using assms(2) by (simp only: bit_push_bit_iff) simp
qed

lemma flip_last_ctz: "v \<noteq> 0 \<Longrightarrow> flip_last v = 0 \<or> builtin_ctz v < builtin_ctz (flip_last v)"
  using flip_last_low_bits [of v "builtin_ctz (flip_last v)"] builtin_ctz_bounds(2) [of "flip_last v"]
  by (meson not_le_imp_less)

function lt_loop :: "constraint list \<Rightarrow> uint32 \<Rightarrow> constraint list" where
  "lt_loop vars val =
     (let ors = lt_clause vars val in
      if ors = [] then [] else OR ors # lt_loop vars (flip_last val))"
  by pat_completeness auto
termination
proof (relation "measure (\<lambda>(vars, v). if v = 0 then 0 else 32 - builtin_ctz v)", goal_cases)
  case 1
  show ?case by simp
next
  case (2 vars v ors)
  then have "v \<noteq> 0" by auto
  with flip_last_ctz [OF this] builtin_ctz_bounds(1) [OF this] show ?case by auto
qed

declare lt_loop.simps [simp del]

definition generateLTConstraint :: "constraint list \<Rightarrow> uint32 \<Rightarrow> constraint" where
  "generateLTConstraint vars val = AND (lt_loop vars val)"

lemma lt_loop_bounds: "length (lt_loop vars val) \<le> length vars"
proof -
  have "length (lt_loop vars val) + (if val = 0 then length vars else builtin_ctz val) \<le> length vars \<or>
      lt_loop vars val = []"
  proof (induction vars val rule: lt_loop.induct)
    case (1 vars v)
    show ?case
    proof (cases "lt_clause vars v = []")
      case True
      then show ?thesis by (simp add: lt_loop.simps)
    next
      case False
      then have v: "v \<noteq> 0" by auto
      from False obtain i where i: "i < length vars" "bit v i" by (auto simp: lt_clause_Nil)
      then have k: "builtin_ctz v < length vars"
        using builtin_ctz_bounds(3) [OF v, of i] by fastforce
      have eq: "lt_loop vars v = OR (lt_clause vars v) # lt_loop vars (flip_last v)"
        using False by (subst lt_loop.simps) (simp add: Let_def)
      from 1 [OF refl False] flip_last_ctz [OF v] show ?thesis
        using v k by (auto simp: eq split: if_splits)
    qed
  qed
  then show ?thesis by auto
qed

subsubsection \<open>The constraint says that the spelled value is below the bound\<close>

lemma unat_flip_last:
  assumes "v \<noteq> 0" and "unat v < 2 ^ n" and "n < 32" and "builtin_ctz v < n"
  shows "unat (flip_last v) = unat v + 2 ^ builtin_ctz v" and "unat v + 2 ^ builtin_ctz v \<le> 2 ^ n"
    and "2 ^ builtin_ctz v dvd unat v"
proof -
  let ?k = "builtin_ctz v"
  have "take_bit ?k v = 0"
    by (rule bit_eqI) (auto simp: bit_take_bit_iff dest: builtin_ctz_bounds(3) [OF assms(1)])
  then have "take_bit ?k (unat v) = 0" by (metis unsigned_0 unsigned_take_bit_eq)
  then show d: "2 ^ ?k dvd unat v" by (simp add: take_bit_eq_mod mod_eq_0_iff_dvd)
  have "(2::nat) ^ ?k dvd 2 ^ n" using assms(4) by (simp add: le_imp_power_dvd)
  with d have "2 ^ ?k dvd 2 ^ n - unat v" using assms(2) by (meson dvd_diff_nat)
  then show le: "unat v + 2 ^ ?k \<le> 2 ^ n"
    using assms(2) by (auto dest: dvd_imp_le)
  have "(2::nat) ^ n < 2 ^ 32" by (rule power_strict_increasing) (use assms(3) in auto)
  moreover have "unat (push_bit ?k 1 :: uint32) = 2 ^ ?k"
  proof -
    have "(2::nat) ^ ?k < 2 ^ 32" by (rule power_strict_increasing) (use assms(3,4) in auto)
    then show ?thesis by (simp only: unsigned_push_bit_eq) (use assms(3,4) in \<open>simp add: push_bit_eq_mult take_bit_nat_eq_self\<close>)
  qed
  ultimately show "unat (flip_last v) = unat v + 2 ^ ?k"
    using le by (simp add: flip_last_def unat_word_ariths)
qed

lemma superset_le:
  fixes x v :: uint32
  assumes "\<And>i. bit v i \<Longrightarrow> bit x i"
  shows "unat v \<le> unat x"
proof -
  have "v = Bit_Operations.and v x" by (rule bit_eqI) (use assms in \<open>auto simp: bit_and_iff\<close>)
  also have "\<dots> \<le> x" by (rule word_and_le1)
  finally show ?thesis by (simp add: word_le_nat_alt)
qed

lemma close_superset:
  fixes x v :: uint32
  assumes "2 ^ k dvd unat v" and "unat v \<le> unat x" and "unat x < unat v + 2 ^ k" and "bit v i"
  shows "bit x i"
proof -
  obtain m where m: "unat v = 2 ^ k * m" using assms(1) by (auto elim: dvdE)
  have "unat x div 2 ^ k = m"
    by (rule div_nat_eqI) (use m assms(2,3) in \<open>auto simp: algebra_simps\<close>)
  moreover have "unat v div 2 ^ k = m" using m by simp
  ultimately have eq: "drop_bit k (unat x) = drop_bit k (unat v)" by (simp add: drop_bit_eq_div)
  have ki: "k \<le> i"
  proof (rule ccontr)
    assume "\<not> k \<le> i"
    then have "bit (take_bit k (unat v)) i" using assms(4) by (simp add: bit_take_bit_iff bit_unsigned_iff)
    moreover have "take_bit k (unat v) = 0" using assms(1) by (simp add: take_bit_eq_mod)
    ultimately show False by simp
  qed
  have "bit (drop_bit k (unat v)) (i - k)" using ki assms(4) by (simp add: bit_drop_bit_eq bit_unsigned_iff)
  then have "bit (unat x) i" using ki eq by (metis bit_drop_bit_eq comp_apply le_add_diff_inverse)
  then show ?thesis by (simp add: bit_unsigned_iff)
qed

lemma lt_loop_eval:
  assumes "list_all is_literal vars" and "length vars < 32" and "val \<noteq> 0" and "unat val \<le> 2 ^ length vars"
  shows "(\<forall>c \<in> set (lt_loop vars val). eval \<sigma> c) \<longleftrightarrow> unat (spelled \<sigma> vars) < unat val"
  using assms
proof (induction vars val rule: lt_loop.induct)
  case (1 vars v)
  let ?X = "spelled \<sigma> vars" and ?n = "length vars"
  have X: "unat ?X < 2 ^ ?n" using 1(3) by (intro unat_spelled_less) simp
  show ?case
  proof (cases "lt_clause vars v = []")
    case True
    then have "take_bit ?n v = 0" by (auto intro!: bit_eqI simp: lt_clause_Nil bit_take_bit_iff)
    then have "take_bit ?n (unat v) = 0" by (metis unsigned_0 unsigned_take_bit_eq)
    then have "2 ^ ?n dvd unat v" by (simp add: take_bit_eq_mod mod_eq_0_iff_dvd)
    moreover have "0 < unat v" using 1(4) by (simp add: unat_gt_0)
    ultimately have "2 ^ ?n \<le> unat v" by (rule dvd_imp_le)
    then show ?thesis using True X by (simp add: lt_loop.simps)
  next
    case False
    then obtain i where i: "i < ?n" "bit v i" by (auto simp: lt_clause_Nil)
    have k: "builtin_ctz v < ?n" using builtin_ctz_bounds(3) [OF 1(4), of i] i by fastforce
    have lt: "unat v < 2 ^ ?n"
    proof (rule ccontr)
      assume "\<not> unat v < 2 ^ ?n"
      then have "unat v = 2 ^ ?n" using 1(5) by simp
      moreover have "bit (unat v) i" using i by (simp add: bit_unsigned_iff)
      ultimately have "bit (2 ^ ?n :: nat) i" by simp
      then show False using i by (simp add: bit_exp_iff)
    qed
    note u = unat_flip_last [OF 1(4) lt 1(3) k]
    have nz: "flip_last v \<noteq> 0" using u(1) by (metis add_is_0 power_not_zero unat_0 zero_neq_numeral)
    have IH: "(\<forall>c \<in> set (lt_loop vars (flip_last v)). eval \<sigma> c) \<longleftrightarrow> unat ?X < unat (flip_last v)"
      by (rule 1(1) [OF refl False 1(2,3) nz]) (simp add: u)
    have eq: "lt_loop vars v = OR (lt_clause vars v) # lt_loop vars (flip_last v)"
      using False by (subst lt_loop.simps) (simp add: Let_def)
    have hi: "i < ?n" if "bit v i" for i
    proof -
      have "take_bit ?n (unat v) = unat v" using lt by (simp add: take_bit_nat_eq_self)
      moreover have "bit (unat v) i" using that by (simp add: bit_unsigned_iff)
      ultimately show ?thesis by (metis bit_take_bit_iff)
    qed
    have cl: "eval \<sigma> (OR (lt_clause vars v)) \<longleftrightarrow> (\<exists>i. bit v i \<and> \<not> bit ?X i)"
      using hi 1(3) by (auto simp: lt_clause_eval 1(2) bit_spelled)
    have "(\<exists>i. bit v i \<and> \<not> bit ?X i) \<and> unat ?X < unat v + 2 ^ builtin_ctz v \<longleftrightarrow> unat ?X < unat v"
      using superset_le [of v ?X] close_superset [OF u(3), of ?X] by (meson not_le trans_less_add1)
    then show ?thesis using IH cl by (simp add: eq u(1))
  qed
qed

lemma generateLTConstraint_eval:
  assumes "list_all is_literal vars" and "length vars < 32" and "val \<noteq> 0" and "unat val \<le> 2 ^ length vars"
  shows "eval \<sigma> (generateLTConstraint vars val) \<longleftrightarrow> unat (spelled \<sigma> vars) < unat val"
  using lt_loop_eval [OF assms] by (simp add: generateLTConstraint_def)

lemma lt_loop_shape:
  "list_all is_literal vars \<Longrightarrow> c \<in> set (lt_loop vars val) \<Longrightarrow> imp_free c \<and> and_clean c \<and> \<not> isFalse c"
proof (induction vars val rule: lt_loop.induct)
  case (1 vars v)
  have lits: "list_all is_literal (lt_clause vars w)" if "list_all is_literal vars" for vars w
    using that by (induction vars w rule: lt_clause.induct) auto
  from 1 show ?case
    using lits [OF 1(2), of v]
    by (subst (asm) (2) lt_loop.simps)
      (auto simp: Let_def list_all_iff is_literal_imp_free split: if_splits)
qed

lemma generateLTConstraint_shape:
  assumes "list_all is_literal vars"
  shows "imp_free (generateLTConstraint vars val)" and "and_clean (generateLTConstraint vars val)"
    and "neg_ok (generateLTConstraint vars val)"
  using lt_loop_shape [OF assms, of _ val]
  by (auto simp: generateLTConstraint_def list_all_iff imp_free_neg_ok)

subsection \<open>generateEquivConstraint\<close>

text \<open>For two vectors of variables, and for two constraints; \<open>clone\<close> is the identity here.\<close>

fun equiv_clauses :: "constraint list \<Rightarrow> constraint list \<Rightarrow> constraint list" where
  "equiv_clauses (x # xs) (y # ys) = OR [negate x, y] # OR [x, negate y] # equiv_clauses xs ys"
| "equiv_clauses _ _ = []"

definition generateEquivConstraints :: "constraint list \<Rightarrow> constraint list \<Rightarrow> constraint" where
  "generateEquivConstraints var1 var2 = (if var1 = [] then TRUE else AND (equiv_clauses var1 var2))"

definition generateEquivConstraint :: "constraint \<Rightarrow> constraint \<Rightarrow> constraint" where
  "generateEquivConstraint var1 var2 = AND [OR [negate var1, var2], OR [var1, negate var2]]"

lemma generateEquivConstraint_eval:
  "imp_free a \<Longrightarrow> imp_free b \<Longrightarrow> eval \<sigma> (generateEquivConstraint a b) \<longleftrightarrow> (eval \<sigma> a \<longleftrightarrow> eval \<sigma> b)"
  by (auto simp: generateEquivConstraint_def eval_negate)

lemma equiv_clauses_eval:
  assumes "length xs = length ys" and "list_all is_literal xs" and "list_all is_literal ys"
  shows "(\<forall>c \<in> set (equiv_clauses xs ys). eval \<sigma> c) \<longleftrightarrow> map (eval \<sigma>) xs = map (eval \<sigma>) ys"
  using assms by (induction xs ys rule: list_induct2) (auto simp: eval_negate is_literal_imp_free)

lemma generateEquivConstraints_eval:
  assumes "length xs = length ys" and "list_all is_literal xs" and "list_all is_literal ys"
  shows "eval \<sigma> (generateEquivConstraints xs ys) \<longleftrightarrow> map (eval \<sigma>) xs = map (eval \<sigma>) ys"
  using equiv_clauses_eval [OF assms] assms(1) by (auto simp: generateEquivConstraints_def)

lemma generateEquivConstraints_spelled:
  assumes "length xs = length ys" and "list_all is_literal xs" and "list_all is_literal ys"
    and "eval \<sigma> (generateEquivConstraints xs ys)"
  shows "spelled \<sigma> xs = spelled \<sigma> ys"
  using generateEquivConstraints_eval [OF assms(1-3)] assms(4) by (simp add: spelled_def)

lemma spelled_inj:
  assumes "length xs = length ys" and "length xs \<le> 32" and "spelled \<sigma> xs = spelled \<sigma> ys"
  shows "map (eval \<sigma>) xs = map (eval \<sigma>) ys"
proof (rule nth_equalityI)
  show "length (map (eval \<sigma>) xs) = length (map (eval \<sigma>) ys)" using assms(1) by simp
  fix i assume "i < length (map (eval \<sigma>) xs)"
  then show "map (eval \<sigma>) xs ! i = map (eval \<sigma>) ys ! i"
    using assms bit_spelled [of xs \<sigma> i] bit_spelled [of ys \<sigma> i] by simp
qed

lemma equiv_clauses_shape:
  assumes "length xs = length ys" and "list_all is_literal xs" and "list_all is_literal ys"
  shows "list_all (\<lambda>c. imp_free c \<and> and_clean c \<and> \<not> isFalse c) (equiv_clauses xs ys)"
  using assms by (induction xs ys rule: list_induct2) (auto simp: is_literal_imp_free)

lemma generateEquivConstraints_shape:
  assumes "length xs = length ys" and "list_all is_literal xs" and "list_all is_literal ys"
  shows "imp_free (generateEquivConstraints xs ys)" and "and_clean (generateEquivConstraints xs ys)"
  using equiv_clauses_shape [OF assms] by (auto simp: generateEquivConstraints_def list_all_iff)

end
