(* ===== verification/Encodings.thy ===== *)
theory Encodings
  imports ConstraintGens Records
begin

section \<open>Encodings of values by variables (valuerecord, functionrecord, equalsrecord, branchrecord)\<close>

text \<open>
  Each of these classes holds an array of propositional variables and represents one of several
  values by the number the variables spell. The locale \<open>value_encoding\<close> is the contract the
  constraint generator relies on: two different values exclude each other, and the encodings can be
  negated and simplified. It is interpreted on the four classes.
\<close>

locale value_encoding =
  fixes wf :: "'r \<Rightarrow> bool" and enc :: "'r \<Rightarrow> 'v \<Rightarrow> constraint option"
  assumes exclusive: "wf r \<Longrightarrow> enc r v = Some c \<Longrightarrow> enc r w = Some d \<Longrightarrow> eval \<sigma> c \<Longrightarrow> eval \<sigma> d \<Longrightarrow> v = w"
    and imp_free: "wf r \<Longrightarrow> enc r v = Some c \<Longrightarrow> imp_free c"
    and clean: "wf r \<Longrightarrow> enc r v = Some c \<Longrightarrow> and_clean c"
begin

definition chosen :: "'r \<Rightarrow> (nat \<Rightarrow> bool) \<Rightarrow> 'v \<Rightarrow> bool" where
  "chosen r \<sigma> v \<longleftrightarrow> (\<exists>c. enc r v = Some c \<and> eval \<sigma> c)"

lemma chosen_unique: "wf r \<Longrightarrow> chosen r \<sigma> v \<Longrightarrow> chosen r \<sigma> w \<Longrightarrow> v = w"
  using exclusive by (auto simp: chosen_def)

lemma negate_other:
  "wf r \<Longrightarrow> enc r v = Some c \<Longrightarrow> chosen r \<sigma> w \<Longrightarrow> v \<noteq> w \<Longrightarrow> eval \<sigma> (negate c)"
  using exclusive [of r v c w] eval_negate imp_free by (auto simp: chosen_def)

end

subsection \<open>Decoding\<close>

fun is_var :: "constraint \<Rightarrow> bool" where
  "is_var (VAR v) = True"
| "is_var _ = False"

lemma is_var_literal: "is_var c \<Longrightarrow> is_literal c"
  by (cases c) auto

lemma all_var_literal: "list_all is_var cs \<Longrightarrow> list_all is_literal cs"
  by (auto simp: list_all_iff is_var_literal)

text \<open>The decoding loop reads the solution at \<open>vars[j]->getVar()\<close>, which asserts a variable.\<close>

definition decode :: "(nat \<Rightarrow> bool) \<Rightarrow> constraint list \<Rightarrow> uint32 option" where
  "decode sol vars =
     (if list_all is_var vars then Some (spell (map (\<lambda>c. case c of VAR v \<Rightarrow> sol v | _ \<Rightarrow> False) vars)) else None)"

lemma decode_spelled: "list_all is_var vars \<Longrightarrow> decode \<sigma> vars = Some (spelled \<sigma> vars)"
proof -
  assume v: "list_all is_var vars"
  then have "map (\<lambda>c. case c of VAR v \<Rightarrow> \<sigma> v | _ \<Rightarrow> False) vars = map (eval \<sigma>) vars"
    by (induction vars) (auto elim: is_var.elims(2))
  then show ?thesis using v by (simp only: decode_def spelled_def if_True)
qed

subsection \<open>ValueRecord (valuerecord.cc)\<close>

text \<open>
  A \<open>ValueRecord\<close> has the set it encodes and the number of variables, fixed when it is made:
  \<open>NUMBITS(numvalue-1)\<close> on \<open>uint\<close>, so an empty set would ask for 32 variables.
\<close>

definition ValueRecord_numvars :: "uint64 list \<Rightarrow> nat" where
  "ValueRecord_numvars s = numbits (of_nat (length s) - 1)"

definition vr_getValue :: "uint64 list \<Rightarrow> nat \<Rightarrow> constraint list \<Rightarrow> (nat \<Rightarrow> bool) \<Rightarrow> uint64 option" where
  "vr_getValue s numvars vars satsolution = do {
     value \<leftarrow> decode satsolution (take numvars vars);
     Some (if numvars = 0 then (case s of v # _ \<Rightarrow> v | [] \<Rightarrow> 111111111)
           else if unat value < length s then s ! unat value else 111111111) }"

definition vr_getValueEncoding :: "uint64 list \<Rightarrow> nat \<Rightarrow> constraint list \<Rightarrow> uint64 \<Rightarrow> constraint option" where
  "vr_getValueEncoding s numvars vars value =
     (case index_of value s of
        None \<Rightarrow> None
      | Some i \<Rightarrow> Some (if numvars = 0 then TRUE else generateConstraint (take numvars vars) (of_nat i)))"

definition vr_wf :: "uint64 list \<times> constraint list \<Rightarrow> bool" where
  "vr_wf r \<longleftrightarrow> distinct (fst r) \<and> length (fst r) < 2 ^ 32 \<and> list_all is_var (snd r) \<and>
     length (snd r) = ValueRecord_numvars (fst r)"

lemma index_fits:
  assumes "i < m" and "m < 2 ^ 32"
  shows "unat (of_nat i :: uint32) = i" and "i < 2 ^ numbits (of_nat m - 1 :: uint32)"
proof -
  have nat: "unat (of_nat k :: uint32) = k" if "k < 2 ^ 32" for k
    using that by (simp add: unsigned_of_nat take_bit_nat_eq_self)
  show i: "unat (of_nat i :: uint32) = i" using assms by (intro nat) simp
  have "(of_nat m - 1 :: uint32) = of_nat (m - 1)" using assms(1) by simp
  moreover have "unat (of_nat (m - 1) :: uint32) = m - 1" using assms by (intro nat) simp
  ultimately have "unat (of_nat i :: uint32) \<le> unat (of_nat m - 1 :: uint32)" using i assms(1) by simp
  from numbits_mono_fits [OF this] show "i < 2 ^ numbits (of_nat m - 1 :: uint32)" using i by simp
qed

lemma index_of_inj: "index_of v xs = Some i \<Longrightarrow> index_of w xs = Some i \<Longrightarrow> v = w"
  using index_of_Some_nth [of v xs i] index_of_Some_nth [of w xs i] by auto

text \<open>The number spelled by the variables is the index of the encoded value.\<close>

lemma indexed_eval:
  assumes "list_all is_literal vars" and "length vars = numbits (of_nat m - 1 :: uint32)"
    and "i < m" and "m < 2 ^ 32"
  shows "eval \<sigma> (generateConstraint vars (of_nat i)) \<longleftrightarrow> unat (spelled \<sigma> vars) = i"
proof -
  have l: "length vars \<le> 32" using assms(2) numbits_le by simp
  have "unat (of_nat i :: uint32) < 2 ^ length vars" using index_fits [OF assms(3,4)] assms(2) by simp
  from generateConstraint_eval [OF assms(1) l this] show ?thesis
    using index_fits(1) [OF assms(3,4)] by (metis unat_eqI)
qed

lemma vr_enc_eval:
  assumes "vr_wf (s, vars)" and "vr_getValueEncoding s (ValueRecord_numvars s) vars v = Some c"
  shows "\<exists>i < length s. index_of v s = Some i \<and> (eval \<sigma> c \<longleftrightarrow> unat (spelled \<sigma> vars) = i)"
proof -
  from assms(2) obtain i where i: "index_of v s = Some i"
    "c = (if ValueRecord_numvars s = 0 then TRUE else generateConstraint (take (ValueRecord_numvars s) vars) (of_nat i))"
    by (auto simp: vr_getValueEncoding_def split: option.splits)
  have il: "i < length s" using index_of_Some_nth [OF i(1)] by simp
  have w: "list_all is_literal vars" "length vars = ValueRecord_numvars s" "length s < 2 ^ 32"
    using assms(1) by (auto simp: vr_wf_def all_var_literal)
  have "eval \<sigma> c \<longleftrightarrow> unat (spelled \<sigma> vars) = i"
  proof (cases "ValueRecord_numvars s = 0")
    case True
    then have "i = 0" using index_fits(2) [OF il w(3)] by (simp add: ValueRecord_numvars_def)
    then show ?thesis using True i(2) w(2) by (simp add: spelled_def)
  next
    case False
    then show ?thesis
      using indexed_eval [OF w(1) _ il w(3), of \<sigma>] i(2) w(2) by (simp add: ValueRecord_numvars_def)
  qed
  then show ?thesis using i(1) il by blast
qed

interpretation vr: value_encoding vr_wf "\<lambda>(s, vars) v. vr_getValueEncoding s (ValueRecord_numvars s) vars v"
proof (unfold_locales, goal_cases)
  case (1 r v c w d \<sigma>)
  obtain s vars where r: "r = (s, vars)" by (cases r)
  from vr_enc_eval [of s vars v c \<sigma>] vr_enc_eval [of s vars w d \<sigma>] 1 r show ?case
    by (auto intro: index_of_inj)
next
  case (2 r v c)
  then show ?case
    using generateConstraint_shape all_var_literal
    by (auto simp: vr_wf_def vr_getValueEncoding_def split: option.splits if_splits prod.splits)
next
  case (3 r v c)
  then show ?case
    using generateConstraint_shape all_var_literal
    by (auto simp: vr_wf_def vr_getValueEncoding_def split: option.splits if_splits prod.splits)
qed

text \<open>The solution read back is the value whose encoding holds, and only members have an encoding.\<close>

theorem vr_roundtrip:
  assumes "vr_wf (s, vars)" and "vr_getValueEncoding s (ValueRecord_numvars s) vars v = Some c"
    and "eval \<sigma> c"
  shows "vr_getValue s (ValueRecord_numvars s) vars \<sigma> = Some v"
proof -
  from vr_enc_eval [OF assms(1,2), of \<sigma>] assms(3) obtain i where
    i: "i < length s" "index_of v s = Some i" "unat (spelled \<sigma> vars) = i" by auto
  have w: "list_all is_var vars" "length vars = ValueRecord_numvars s" using assms(1) by (auto simp: vr_wf_def)
  have "s ! i = v" using index_of_Some_nth [OF i(2)] by simp
  moreover have "i = 0" if "ValueRecord_numvars s = 0" using that w(2) i(3) by (simp add: spelled_def)
  ultimately show ?thesis
    using i w by (cases s) (auto simp: vr_getValue_def decode_spelled)
qed

theorem vr_total:
  assumes "vr_wf (s, vars)"
  shows "v \<in> set s \<longleftrightarrow> (\<exists>c. vr_getValueEncoding s (ValueRecord_numvars s) vars v = Some c)"
  using index_of_None_iff [of v s] by (auto simp: vr_getValueEncoding_def split: option.splits)

subsection \<open>FunctionRecord (functionrecord.cc)\<close>

text \<open>
  A function output has one code per known output and, unless the record is a phi, one more for
  an output that no execution has produced yet.
\<close>

definition FunctionRecord_set :: "eprecord \<Rightarrow> uint64 list option" where
  "FunctionRecord_set f = (if phi f then getSet VC_BASEINDEX f else getSet VC_FUNCOUTINDEX f)"

definition FunctionRecord_numvars :: "eprecord \<Rightarrow> nat option" where
  "FunctionRecord_numvars f =
     (if phi f then map_option (\<lambda>s. numbits (of_nat (length s) - 1)) (getSet VC_BASEINDEX f)
      else map_option (\<lambda>s. numbits (of_nat (length s + 1) - 1)) (getSet VC_FUNCOUTINDEX f))"

definition fr_getValueEncoding :: "eprecord \<Rightarrow> constraint list \<Rightarrow> uint64 \<Rightarrow> constraint option" where
  "fr_getValueEncoding f vars val = do {
     s \<leftarrow> FunctionRecord_set f;
     i \<leftarrow> index_of val s;
     Some (generateConstraint vars (of_nat i)) }"

definition fr_getNoValueEncoding :: "constraint list \<Rightarrow> constraint" where
  "fr_getNoValueEncoding vars = AND vars"

definition fr_wf :: "eprecord \<times> constraint list \<Rightarrow> bool" where
  "fr_wf r \<longleftrightarrow> (\<exists>s. FunctionRecord_set (fst r) = Some s \<and> distinct s \<and> length s + 1 < 2 ^ 32) \<and>
     list_all is_var (snd r) \<and> FunctionRecord_numvars (fst r) = Some (length (snd r))"

lemma fr_enc_eval:
  assumes "fr_wf (f, vars)" and "fr_getValueEncoding f vars v = Some c"
  shows "\<exists>s i. FunctionRecord_set f = Some s \<and> index_of v s = Some i \<and> i < length s \<and>
    (eval \<sigma> c \<longleftrightarrow> unat (spelled \<sigma> vars) = i) \<and> (\<not> phi f \<longrightarrow> i + 1 < 2 ^ length vars)"
proof -
  from assms(2) obtain s i where s: "FunctionRecord_set f = Some s" "index_of v s = Some i"
    "c = generateConstraint vars (of_nat i)"
    by (auto simp: fr_getValueEncoding_def Option.bind_eq_Some_conv)
  have il: "i < length s" using index_of_Some_nth [OF s(2)] by simp
  have w: "list_all is_literal vars" "length s + 1 < 2 ^ 32" "FunctionRecord_numvars f = Some (length vars)"
    using assms(1) s(1) by (auto simp: fr_wf_def all_var_literal)
  show ?thesis
  proof (cases "phi f")
    case True
    then have "length vars = numbits (of_nat (length s) - 1 :: uint32)"
      using w(3) s(1) by (simp add: FunctionRecord_numvars_def FunctionRecord_set_def)
    from indexed_eval [OF w(1) this il] w(2) s il True show ?thesis by simp
  next
    case False
    then have l: "length vars = numbits (of_nat (length s + 1) - 1 :: uint32)"
      using w(3) s(1) by (simp add: FunctionRecord_numvars_def FunctionRecord_set_def)
    have "i < length s + 1" using il by simp
    from indexed_eval [OF w(1) l this w(2)] have "eval \<sigma> c \<longleftrightarrow> unat (spelled \<sigma> vars) = i" using s(3) by simp
    moreover have "i + 1 < 2 ^ length vars"
      using index_fits(2) [of "i + 1" "length s + 1"] il w(2) l by simp
    ultimately show ?thesis using s il by blast
  qed
qed

interpretation fr: value_encoding fr_wf "\<lambda>(f, vars) v. fr_getValueEncoding f vars v"
proof (unfold_locales, goal_cases)
  case (1 r v c w d \<sigma>)
  obtain f vars where r: "r = (f, vars)" by (cases r)
  from fr_enc_eval [of f vars v c \<sigma>] fr_enc_eval [of f vars w d \<sigma>] 1 r show ?case
    by (auto intro: index_of_inj)
next
  case (2 r v c)
  then show ?case
    using generateConstraint_shape all_var_literal
    by (auto simp: fr_wf_def fr_getValueEncoding_def Option.bind_eq_Some_conv split: prod.splits)
next
  case (3 r v c)
  then show ?case
    using generateConstraint_shape all_var_literal
    by (auto simp: fr_wf_def fr_getValueEncoding_def Option.bind_eq_Some_conv split: prod.splits)
qed

text \<open>When the variables spell all ones, no known output is chosen.\<close>

lemma all_ones:
  assumes "length vars \<le> 32" and "\<forall>c \<in> set vars. eval \<sigma> c"
  shows "unat (spelled \<sigma> vars) + 1 = 2 ^ length vars"
proof -
  have "spelled \<sigma> vars = mask (length vars)"
    by (rule bit_word_eqI) (use assms in \<open>auto simp: bit_spelled bit_mask_iff\<close>)
  moreover have "unat (mask n :: uint32) + 1 = 2 ^ n" if "n \<le> 32" for n
  proof -
    have "unat (mask n :: uint32) = mask n"
      by (rule bit_eqI) (use that in \<open>auto simp: bit_unsigned_iff bit_mask_iff\<close>)
    then show ?thesis by (simp add: mask_eq_exp_minus_1)
  qed
  ultimately show ?thesis using assms(1) by simp
qed

theorem fr_no_value:
  assumes "fr_wf (f, vars)" and "\<not> phi f" and "eval \<sigma> (fr_getNoValueEncoding vars)"
    and "fr_getValueEncoding f vars v = Some c"
  shows "\<not> eval \<sigma> c"
proof
  assume "eval \<sigma> c"
  with fr_enc_eval [OF assms(1,4), of \<sigma>] assms(2) have "unat (spelled \<sigma> vars) + 1 < 2 ^ length vars" by auto
  moreover have "length vars \<le> 32"
  proof -
    have "\<exists>x. length vars = numbits x"
      using assms(1) by (auto simp: fr_wf_def FunctionRecord_numvars_def dest: sym split: if_splits)
    then show ?thesis using numbits_le by auto
  qed
  ultimately show False using all_ones [of vars \<sigma>] assms(3) by (simp add: fr_getNoValueEncoding_def)
qed

subsection \<open>EqualsRecord (equalsrecord.cc)\<close>

definition er_getValueEncoding :: "constraint \<Rightarrow> uint64 \<Rightarrow> constraint" where
  "er_getValueEncoding vars val = (if val \<noteq> 0 then vars else negate vars)"

interpretation er: value_encoding is_var "\<lambda>v b. Some (er_getValueEncoding v (if b then 1 else 0))"
proof (unfold_locales, goal_cases)
  case (1 r v c w d \<sigma>)
  then show ?case by (cases r) (auto simp: er_getValueEncoding_def split: if_splits)
next
  case (2 r v c)
  then show ?case by (cases r) (auto simp: er_getValueEncoding_def split: if_splits)
next
  case (3 r v c)
  then show ?case by (cases r) (auto simp: er_getValueEncoding_def split: if_splits)
qed

subsection \<open>BranchRecord (branchrecord.cc)\<close>

record branch_record =
  br_branch :: rid
  br_hasNext :: bool
  br_numdirections :: nat
  br_alwaysexecuted :: bool
  br_vars :: "constraint list"

definition new_BranchRecord :: "heap \<Rightarrow> rid \<Rightarrow> constraint list \<Rightarrow> bool \<Rightarrow> branch_record" where
  "new_BranchRecord h r nvars isalwaysexecuted =
     \<lparr> br_branch = r, br_hasNext = (nextRecord (recs h r) \<noteq> None), br_numdirections = numValues h r,
       br_alwaysexecuted = isalwaysexecuted, br_vars = nvars \<rparr>"

definition getAnyBranch :: "branch_record \<Rightarrow> constraint" where
  "getAnyBranch br = (if br_alwaysexecuted br then TRUE else OR (br_vars br))"

definition getNewBranch :: "branch_record \<Rightarrow> constraint" where
  "getNewBranch br = AND (br_vars br)"

definition getBranch :: "heap \<Rightarrow> branch_record \<Rightarrow> vid \<Rightarrow> constraint option" where
  "getBranch h br val = do {
     index \<leftarrow> getIndex_ptr h (br_branch br) val;
     let index = (if br_alwaysexecuted br then index else index + 1);
     Some (generateConstraint (br_vars br) (of_nat index)) }"

definition getBranchValue :: "branch_record \<Rightarrow> (nat \<Rightarrow> bool) \<Rightarrow> int option" where
  "getBranchValue br array = do {
     value \<leftarrow> decode array (br_vars br);
     let value = (if br_alwaysexecuted br then value else value - 1);
     Some (sint value) }"

text \<open>The number of codes \<open>ConstGen::insertBranch\<close> makes room for (constgen.cc).\<close>

definition branch_codes :: "nat \<Rightarrow> nat \<Rightarrow> bool \<Rightarrow> nat" where
  "branch_codes numvalues len always =
     (let numvalue = (if numvalues < len then numvalues + 1 else numvalues) in
      if always then numvalue else numvalue + 1)"

definition br_wf :: "heap \<times> branch_record \<Rightarrow> bool" where
  "br_wf p \<longleftrightarrow> (let (h, br) = p; r = recs h (br_branch br); m = branch_codes (numValues h (br_branch br)) (rec_len r) (br_alwaysexecuted br) in
     distinct (valuevector r) \<and> m < 2 ^ 31 \<and> list_all is_var (br_vars br) \<and>
     length (br_vars br) = numbits (of_nat m - 1))"

lemma br_enc_eval:
  assumes "br_wf (h, br)" and "getBranch h br val = Some c"
  shows "\<exists>i. getIndex_ptr h (br_branch br) val = Some i \<and> i < numValues h (br_branch br) \<and>
    (eval \<sigma> c \<longleftrightarrow> unat (spelled \<sigma> (br_vars br)) = (if br_alwaysexecuted br then i else i + 1))"
proof -
  from assms(2) obtain i where i: "getIndex_ptr h (br_branch br) val = Some i"
    "c = generateConstraint (br_vars br) (of_nat (if br_alwaysexecuted br then i else i + 1))"
    by (auto simp: getBranch_def Option.bind_eq_Some_conv Let_def)
  have il: "i < numValues h (br_branch br)"
    using index_of_Some_nth [of val _ i] i(1) by (simp add: getIndex_ptr_def numValues_def)
  define m where "m = branch_codes (numValues h (br_branch br)) (rec_len (recs h (br_branch br))) (br_alwaysexecuted br)"
  have w: "list_all is_literal (br_vars br)" "m < 2 ^ 32" "length (br_vars br) = numbits (of_nat m - 1)"
    using assms(1) by (auto simp: br_wf_def m_def Let_def all_var_literal)
  have "(if br_alwaysexecuted br then i else i + 1) < m"
    using il by (auto simp: m_def branch_codes_def Let_def)
  from indexed_eval [OF w(1,3) this w(2)] i il show ?thesis by blast
qed

interpretation br: value_encoding br_wf "\<lambda>(h, br) val. getBranch h br val"
proof (unfold_locales, goal_cases)
  case (1 r v c w d \<sigma>)
  obtain h b where r: "r = (h, b)" by (cases r)
  from br_enc_eval [of h b v c \<sigma>] br_enc_eval [of h b w d \<sigma>] 1 r show ?case
    by (auto simp: getIndex_ptr_def split: if_splits intro: index_of_inj)
next
  case (2 r v c)
  then show ?case
    using generateConstraint_shape all_var_literal
    by (auto simp: br_wf_def getBranch_def Let_def Option.bind_eq_Some_conv split: prod.splits)
next
  case (3 r v c)
  then show ?case
    using generateConstraint_shape all_var_literal
    by (auto simp: br_wf_def getBranch_def Let_def Option.bind_eq_Some_conv split: prod.splits)
qed

text \<open>Reading a solution back gives the direction index of the branch whose encoding holds.\<close>

theorem br_roundtrip:
  assumes "br_wf (h, br)" and "getBranch h br val = Some c" and "eval \<sigma> c"
  shows "\<exists>i. getIndex_ptr h (br_branch br) val = Some i \<and> getBranchValue br \<sigma> = Some (int i)"
proof -
  from br_enc_eval [OF assms(1,2), of \<sigma>] assms(3) obtain i where
    i: "getIndex_ptr h (br_branch br) val = Some i" "i < numValues h (br_branch br)"
      "unat (spelled \<sigma> (br_vars br)) = (if br_alwaysexecuted br then i else i + 1)" by auto
  have v: "list_all is_var (br_vars br)" using assms(1) by (auto simp: br_wf_def Let_def)
  have "numValues h (br_branch br) < 2 ^ 31"
    using assms(1) by (auto simp: br_wf_def branch_codes_def Let_def split: if_splits)
  then have small: "i < 2 ^ 31" using i(2) by simp
  have "spelled \<sigma> (br_vars br) = of_nat (if br_alwaysexecuted br then i else i + 1)"
  proof -
    have "of_nat (unat (spelled \<sigma> (br_vars br))) = spelled \<sigma> (br_vars br)" by simp
    then show ?thesis using i(3) by simp
  qed
  then have "(if br_alwaysexecuted br then spelled \<sigma> (br_vars br) else spelled \<sigma> (br_vars br) - 1) = of_nat i"
    by simp
  moreover have "sint (of_nat i :: uint32) = int i"
    using small by (simp add: signed_of_nat signed_take_bit_int_eq_self)
  ultimately show ?thesis using i(1) v by (auto simp: getBranchValue_def decode_spelled Let_def)
qed

text \<open>
  When the branch was not executed no direction is chosen, and when some direction is chosen the
  branch was executed. A new direction excludes all known ones.
\<close>

theorem br_any:
  assumes "br_wf (h, br)" and "getBranch h br val = Some c" and "eval \<sigma> c"
  shows "eval \<sigma> (getAnyBranch br)"
proof (cases "br_alwaysexecuted br")
  case True
  then show ?thesis by (simp add: getAnyBranch_def)
next
  case False
  with br_enc_eval [OF assms(1,2), of \<sigma>] assms(3) have "unat (spelled \<sigma> (br_vars br)) \<noteq> 0" by auto
  then have "spelled \<sigma> (br_vars br) \<noteq> 0" by (metis unsigned_0)
  then obtain i where "bit (spelled \<sigma> (br_vars br)) i" using word32_bit_ex by blast
  moreover have "length (br_vars br) \<le> 32" using assms(1) numbits_le by (auto simp: br_wf_def Let_def)
  ultimately show ?thesis using False by (auto simp: bit_spelled getAnyBranch_def)
qed

theorem br_new:
  assumes "br_wf (h, br)" and "numValues h (br_branch br) < rec_len (recs h (br_branch br))"
    and "eval \<sigma> (getNewBranch br)" and "getBranch h br val = Some c"
  shows "\<not> eval \<sigma> c"
proof
  assume "eval \<sigma> c"
  with br_enc_eval [OF assms(1,4), of \<sigma>] obtain i where i: "i < numValues h (br_branch br)"
    "unat (spelled \<sigma> (br_vars br)) = (if br_alwaysexecuted br then i else i + 1)" by auto
  define m where "m = branch_codes (numValues h (br_branch br)) (rec_len (recs h (br_branch br))) (br_alwaysexecuted br)"
  have w: "m < 2 ^ 32" "length (br_vars br) = numbits (of_nat m - 1)"
    using assms(1) by (auto simp: br_wf_def m_def Let_def)
  have "unat (spelled \<sigma> (br_vars br)) + 1 < m"
    using i assms(2) by (auto simp: m_def branch_codes_def Let_def)
  from index_fits(2) [OF this w(1)] w(2) have "unat (spelled \<sigma> (br_vars br)) + 1 < 2 ^ length (br_vars br)" by simp
  moreover have "length (br_vars br) \<le> 32" using w(2) numbits_le by simp
  ultimately show False using all_ones [of "br_vars br" \<sigma>] assms(3) by (simp add: getNewBranch_def)
qed

text \<open>An example: the branch record 0 with two of three directions recorded, and the codes 0 to 3.\<close>

definition example_heap :: heap where
  "example_heap =
     \<lparr> recs = (\<lambda>_. (new_EPRecord BRANCHDIR (new_exec_point 0 0) None 0 1 3 False)\<lparr> valuevector := [4, 5] \<rparr>),
       vals = (\<lambda>_. new_EPValue (new_exec_point 0 0) 0 0 0 8), goalsets = (\<lambda>_. []) \<rparr>"

definition example_branch :: branch_record where
  "example_branch = new_BranchRecord example_heap 0 [VAR 1, VAR 2] False"

lemma example_branch_wf: "br_wf (example_heap, example_branch)"
  by (simp add: br_wf_def example_heap_def example_branch_def new_BranchRecord_def new_EPRecord_def
      branch_codes_def numValues_def)

lemma example_branch_dir: "getBranch example_heap example_branch 4 = Some (AND [VAR 1, NOTVAR 2])"
  by code_simp

end
