(* ===== verification/Solver.thy ===== *)
theory Solver
  imports Constraints
begin

section \<open>The incremental solver (inc\_solver.cc)\<close>

text \<open>
  \<open>IncrementalSolver\<close> talks to the SAT solver process through two pipes. Literals go into a
  buffer of \<open>IS_BUFFERSIZE\<close> integers that is written out when it is full; the answer is read
  back as an integer, a number of variables and one integer per variable. The state here is the
  buffer (its first \<open>offset\<close> entries), all integers written to the pipe so far, the bytes the pipe
  from the solver will deliver, in the pieces the calls of \<open>read\<close> return them, and the array of the
  last solution. Creating and killing the process is not modelled beyond the reset of these fields.
\<close>

type_synonym byte = "8 word"
type_synonym int32 = "32 word"

record isolver =
  buffer :: "int list"
  written :: "int list"
  from_solver :: "byte list list"
  solution :: "int32 list option"
  solutionsize :: nat

definition IS_UNSAT :: int32 where "IS_UNSAT = 0"
definition IS_SAT :: int32 where "IS_SAT = 1"
definition IS_FREEZE :: int where "IS_FREEZE = 3"
definition IS_RUNSOLVER :: int where "IS_RUNSOLVER = 4"
definition IS_BUFFERSIZE :: nat where "IS_BUFFERSIZE = 1024"

definition new_IncrementalSolver :: isolver where
  "new_IncrementalSolver = \<lparr> buffer = [], written = [], from_solver = [], solution = None, solutionsize = 0 \<rparr>"

definition solver_reset :: "isolver \<Rightarrow> isolver" where
  "solver_reset s = s\<lparr> buffer := [], written := [], from_solver := [] \<rparr>"

definition flushBuffer :: "isolver \<Rightarrow> isolver" where
  "flushBuffer s = s\<lparr> written := written s @ buffer s, buffer := [] \<rparr>"

definition addClauseLiteral :: "int \<Rightarrow> isolver \<Rightarrow> isolver" where
  "addClauseLiteral literal s =
     (let s = s\<lparr> buffer := buffer s @ [literal] \<rparr> in
      if length (buffer s) = IS_BUFFERSIZE then flushBuffer s else s)"

definition finishedClauses :: "isolver \<Rightarrow> isolver" where
  "finishedClauses s = addClauseLiteral 0 s"

definition freeze :: "int \<Rightarrow> isolver \<Rightarrow> isolver" where
  "freeze v s = addClauseLiteral v (addClauseLiteral IS_FREEZE s)"

definition startSolve :: "isolver \<Rightarrow> isolver" where
  "startSolve s = flushBuffer (addClauseLiteral IS_RUNSOLVER s)"

text \<open>
  The loop of \<open>readSolver\<close>: each call of \<open>read\<close> returns at most the bytes still wanted and at
  most one piece; what is left of a piece stays. A pipe with nothing more to deliver makes
  \<open>read\<close> return 0 for ever: the loop does not end, which is \<open>None\<close> here.
\<close>

fun read_loop :: "nat \<Rightarrow> byte list list \<Rightarrow> (byte list \<times> byte list list) option" where
  "read_loop n [] = (if n = 0 then Some ([], []) else None)"
| "read_loop n (piece # pieces) =
     (if length piece < n then do {
        (bs, rest) \<leftarrow> read_loop (n - length piece) pieces;
        Some (piece @ bs, rest) }
      else Some (take n piece, if drop n piece = [] then pieces else drop n piece # pieces))"

definition readSolver :: "nat \<Rightarrow> isolver \<Rightarrow> (byte list \<times> isolver) option" where
  "readSolver n s = do {
     (bs, rest) \<leftarrow> read_loop n (from_solver s);
     Some (bs, s\<lparr> from_solver := rest \<rparr>) }"

text \<open>The little-endian integer of four bytes, and the integers of an array of them.\<close>

definition int_of_bytes :: "byte list \<Rightarrow> int32" where
  "int_of_bytes bs = foldr (\<lambda>b w. or (push_bit 8 w) (ucast b)) bs 0"

fun ints_of_bytes :: "byte list \<Rightarrow> int32 list" where
  "ints_of_bytes (a # b # c # d # bs) = int_of_bytes [a, b, c, d] # ints_of_bytes bs"
| "ints_of_bytes _ = []"

definition readIntSolver :: "isolver \<Rightarrow> (int32 \<times> isolver) option" where
  "readIntSolver s = do { (bs, s) \<leftarrow> readSolver 4 s; Some (int_of_bytes bs, s) }"

text \<open>
  \<open>getSolution\<close> writes behind the element 0 of the array; the array is replaced whenever the answer
  has more variables than \<open>solutionsize\<close>, which the code never changes from 0. With no variables and
  no array yet, the read of no bytes touches no array, and the array stays missing.
\<close>

definition getSolution :: "isolver \<Rightarrow> (int32 \<times> isolver) option" where
  "getSolution s = do {
     (result, s) \<leftarrow> readIntSolver s;
     if result = IS_SAT then do {
       (numVars, s) \<leftarrow> readIntSolver s;
       let n = nat (sint numVars);
       let s = (if solutionsize s < n then s\<lparr> solution := Some (replicate (n + 1) 0) \<rparr> else s);
       (bs, s) \<leftarrow> readSolver (4 * n) s;
       let vals = ints_of_bytes bs;
       Some (result, s\<lparr> solution := map_option (\<lambda>a. take 1 a @ vals @ drop (1 + length vals) a) (solution s) \<rparr>) }
     else Some (result, s) }"

text \<open>
  The solver process is a parameter: what it sends back, in the pieces the reads see, for all the
  integers written to it so far.
\<close>

definition solve :: "(int list \<Rightarrow> byte list list) \<Rightarrow> isolver \<Rightarrow> (int32 \<times> isolver) option" where
  "solve sat s =
     (let s = startSolve s in
      getSolution (s\<lparr> from_solver := from_solver s @ sat (written s) \<rparr>))"

definition getValue :: "nat \<Rightarrow> isolver \<Rightarrow> bool option" where
  "getValue v s = do { a \<leftarrow> solution s; x \<leftarrow> nth_opt a v; Some (x \<noteq> 0) }"

subsection \<open>What reaches the solver\<close>

text \<open>The integers the solver has been or will be given, in order.\<close>

definition stream :: "isolver \<Rightarrow> int list" where
  "stream s = written s @ buffer s"

definition solver_inv :: "isolver \<Rightarrow> bool" where
  "solver_inv s \<longleftrightarrow> length (buffer s) < IS_BUFFERSIZE \<and>
     solutionsize s = 0 \<and> solution s \<noteq> Some []"

lemma stream_flush [simp]: "stream (flushBuffer s) = stream s"
  by (simp add: stream_def flushBuffer_def)

lemma stream_addClauseLiteral [simp]: "stream (addClauseLiteral l s) = stream s @ [l]"
  by (simp add: stream_def addClauseLiteral_def flushBuffer_def Let_def)

lemma stream_fold_literals: "stream (fold addClauseLiteral ls s) = stream s @ ls"
  by (induction ls arbitrary: s) simp_all

lemma stream_finishedClauses [simp]: "stream (finishedClauses s) = stream s @ [0]"
  by (simp add: finishedClauses_def)

lemma stream_freeze [simp]: "stream (freeze v s) = stream s @ [IS_FREEZE, v]"
  by (simp add: freeze_def)

lemma startSolve_written: "buffer (startSolve s) = []" "written (startSolve s) = stream s @ [IS_RUNSOLVER]"
proof -
  show b: "buffer (startSolve s) = []" by (simp add: startSolve_def flushBuffer_def)
  have "stream (startSolve s) = stream s @ [IS_RUNSOLVER]" by (simp add: startSolve_def)
  with b show "written (startSolve s) = stream s @ [IS_RUNSOLVER]" by (simp add: stream_def)
qed

lemma solver_inv_new [simp]: "solver_inv new_IncrementalSolver"
  by (simp add: solver_inv_def new_IncrementalSolver_def IS_BUFFERSIZE_def)

lemma solver_inv_addClauseLiteral: "solver_inv s \<Longrightarrow> solver_inv (addClauseLiteral l s)"
  by (auto simp: solver_inv_def addClauseLiteral_def flushBuffer_def Let_def IS_BUFFERSIZE_def)

lemma solver_inv_fold: "solver_inv s \<Longrightarrow> solver_inv (fold addClauseLiteral ls s)"
  by (induction ls arbitrary: s) (simp_all add: solver_inv_addClauseLiteral)

lemma solver_inv_flush: "solver_inv s \<Longrightarrow> solver_inv (flushBuffer s)"
  by (simp add: solver_inv_def flushBuffer_def IS_BUFFERSIZE_def)

lemma solver_inv_ops:
  "solver_inv s \<Longrightarrow> solver_inv (finishedClauses s)" "solver_inv s \<Longrightarrow> solver_inv (freeze v s)"
  "solver_inv s \<Longrightarrow> solver_inv (startSolve s)" "solver_inv s \<Longrightarrow> solver_inv (solver_reset s)"
  by (simp_all add: finishedClauses_def freeze_def startSolve_def solver_inv_addClauseLiteral solver_inv_flush)
    (simp add: solver_inv_def solver_reset_def IS_BUFFERSIZE_def)

subsection \<open>What is read back\<close>

text \<open>Reading does not depend on how the bytes are cut into pieces.\<close>

lemma read_loop_concat:
  "read_loop n ps = Some (bs, rest) \<Longrightarrow> bs = take n (concat ps) \<and> concat rest = drop n (concat ps) \<and> length bs = n"
proof (induction n ps arbitrary: bs rest rule: read_loop.induct)
  case (1 n)
  then show ?case by (simp split: if_splits)
next
  case (2 n piece pieces)
  show ?case
  proof (cases "length piece < n")
    case True
    then obtain bs' where "read_loop (n - length piece) pieces = Some (bs', rest)" "bs = piece @ bs'"
      using 2(2) by (simp add: do_simps) blast
    with 2(1) [OF True, of bs' rest] True show ?thesis
      by (metis append.simps(1) concat.simps(2) drop_append drop_all le_add_diff_inverse length_append less_imp_le_nat take_all take_append)
  next
    case False
    with 2(2) have "bs = take n piece" "rest = (if drop n piece = [] then pieces else drop n piece # pieces)"
      by simp_all
    with False show ?thesis by simp
  qed
qed

lemma read_loop_ends: "n \<le> length (concat ps) \<Longrightarrow> \<exists>r. read_loop n ps = Some r"
proof (induction n ps rule: read_loop.induct)
  case (1 n)
  then show ?case by simp
next
  case (2 n piece pieces)
  show ?case
  proof (cases "length piece < n")
    case True
    with 2(2) have "n - length piece \<le> length (concat pieces)" by auto
    with 2(1) [OF True] True show ?thesis by auto
  qed simp
qed

text \<open>With fewer bytes than asked for the loop never ends.\<close>

lemma read_loop_stuck: "length (concat ps) < n \<Longrightarrow> read_loop n ps = None"
  by (induction n ps rule: read_loop.induct) auto

lemma length_ints_of_bytes: "length (ints_of_bytes bs) = length bs div 4"
  by (induction bs rule: ints_of_bytes.induct) auto

text \<open>
  A satisfiable answer: the array holds a 0 and then exactly the integers the solver sent, so
  variable \<open>v\<close> has the value of the \<open>v\<close>-th of them.
\<close>

theorem getSolution_sat:
  assumes inv: "solver_inv s" and sat: "int_of_bytes r = IS_SAT" "length r = 4"
    and num: "length nv = 4" "sint (int_of_bytes nv) = int n" "0 < n"
    and vals: "length bs = 4 * n"
    and pieces: "concat (from_solver s) = r @ nv @ bs @ rest"
  shows "\<exists>s'. getSolution s = Some (IS_SAT, s') \<and> solution s' = Some (0 # ints_of_bytes bs) \<and>
    concat (from_solver s') = rest"
proof -
  have ne: "ps \<noteq> []" if "concat ps = x # xs" for ps and x :: byte and xs using that by auto
  have "length (concat (from_solver s)) \<ge> 4" using pieces sat by simp
  moreover have "from_solver s \<noteq> []" using pieces sat by auto
  ultimately obtain b1 r1 where l1: "read_loop 4 (from_solver s) = Some (b1, r1)"
    by (metis read_loop_ends surj_pair)
  from read_loop_concat [OF l1] have b1: "b1 = r" and r1: "concat r1 = nv @ bs @ rest"
    using pieces sat by auto
  have "4 \<le> length (concat r1)" "r1 \<noteq> []" using r1 num by auto
  then obtain b2 r2 where l2: "read_loop 4 r1 = Some (b2, r2)" by (metis read_loop_ends surj_pair)
  from read_loop_concat [OF l2] have b2: "b2 = nv" and r2: "concat r2 = bs @ rest" using r1 num by auto
  have "4 * n \<le> length (concat r2)" "r2 \<noteq> []" using r2 vals num by auto
  then obtain b3 r3 where l3: "read_loop (4 * n) r2 = Some (b3, r3)" by (metis read_loop_ends surj_pair)
  from read_loop_concat [OF l3] have b3: "b3 = bs" and r3: "concat r3 = rest" using r2 vals by auto
  have n: "nat (sint (int_of_bytes nv)) = n" using num by simp
  have "solutionsize s = 0" using inv by (simp add: solver_inv_def)
  then show ?thesis using l1 l2 l3 b1 b2 b3 n num(3) sat r3 vals
    by (auto simp: getSolution_def readIntSolver_def readSolver_def length_ints_of_bytes)
qed

end
