(* ===== verification/ConstGen.thy ===== *)
theory ConstGen
  imports ExecControl Encodings Solver
begin

section \<open>The constraint generator: state, variables, orders (constgen.h, constgen.cc)\<close>

text \<open>
  \<open>ConstGen\<close> turns the recorded execution into a SAT problem. This theory has its state, the
  allocation of variables, the emission of constraints to the solver, the goals, the order
  constraints between memory operations and the transitivity constraints. The generator reads the
  execution, which is an argument; \<open>None\<close> stands for a failed assertion or a use of a null pointer.
  The pair table \<open>rpt\<close> compares pairs in both orders (theory \<open>Records\<close>, \<open>RecPairEquals\<close>), so it is
  a map from ordered pairs of which at most one orientation is stored.
\<close>

subsection \<open>State\<close>

text \<open>A \<open>StoreLoadSet\<close>: \<open>addrencodings\<close> and \<open>valencodings\<close> hold the numbers of variables.\<close>

record slset =
  storeloadset :: "rid list"
  addresses :: "uint64 list"
  sl_values :: "uint64 list"
  addrvars :: "rid \<Rightarrow> constraint list option"
  valvars :: "rid \<Rightarrow> constraint list option"
  valrmwrvars :: "rid \<Rightarrow> constraint list option"
  addrencodings :: "nat option"
  valencodings :: "nat option"

definition new_StoreLoadSet :: slset where
  "new_StoreLoadSet =
     \<lparr> storeloadset = [], addresses = [], sl_values = [], addrvars = (\<lambda>_. None), valvars = (\<lambda>_. None),
       valrmwrvars = (\<lambda>_. None), addrencodings = None, valencodings = None \<rparr>"

text \<open>
  \<open>slheap\<close> holds the sets by identity, \<open>None\<close> where none is allocated. \<open>goalvararray\<close> is the
  allocated array, an entry \<open>None\<close> being a goal that was reached.
\<close>

record cgen =
  slheap :: "nat \<Rightarrow> slset option"
  next_sls :: nat
  storeloadtable :: "uint64 \<Rightarrow> nat option"
  cg_loadtable :: "rid \<Rightarrow> rid list option"
  workstack :: "rid list"
  threadactions :: "rid list list"
  rpt :: "rid \<times> rid \<Rightarrow> constraint option"
  numconstraints :: nat
  goalset :: "constraint list"
  yieldlist :: "rid list"
  goalvararray :: "constraint option list option"
  cg_vars :: "constraint list"
  branchtable :: "rid \<Rightarrow> branch_record option"
  functiontable :: "rid \<Rightarrow> constraint list option"
  equalstable :: "rid \<Rightarrow> constraint option"
  nonlocaltrans :: "rid list"
  incompleteexploredbranch :: "rid list"
  execcondtable :: "rid \<Rightarrow> rid list option"
  solver :: "isolver option"
  rectoint :: "rid \<Rightarrow> nat option"
  yieldtable :: "rid \<Rightarrow> constraint option"
  varindex :: nat
  has_untaken_branches :: bool

definition new_ConstGen :: cgen where
  "new_ConstGen =
     \<lparr> slheap = (\<lambda>_. None), next_sls = 0, storeloadtable = (\<lambda>_. None), cg_loadtable = (\<lambda>_. None),
       workstack = [], threadactions = [], rpt = (\<lambda>_. None), numconstraints = 0, goalset = [],
       yieldlist = [], goalvararray = None, cg_vars = [], branchtable = (\<lambda>_. None),
       functiontable = (\<lambda>_. None), equalstable = (\<lambda>_. None), nonlocaltrans = [],
       incompleteexploredbranch = [], execcondtable = (\<lambda>_. None), solver = None,
       rectoint = (\<lambda>_. None), yieldtable = (\<lambda>_. None), varindex = 1, has_untaken_branches = False \<rparr>"

text \<open>
  \<open>reset\<close> clears every table; the variables allocated so far stay in \<open>vars\<close> and are handed out
  again from number 1. The solver and the stack of work are not touched.
\<close>

definition resetstoreloadtable :: "cgen \<Rightarrow> cgen" where
  "resetstoreloadtable g = g\<lparr> slheap := (\<lambda>_. None), storeloadtable := (\<lambda>_. None) \<rparr>"

definition cg_reset :: "cgen \<Rightarrow> cgen" where
  "cg_reset g = (resetstoreloadtable g)\<lparr>
     goalvararray := None, functiontable := (\<lambda>_. None), equalstable := (\<lambda>_. None),
     branchtable := (\<lambda>_. None), cg_loadtable := (\<lambda>_. None), execcondtable := (\<lambda>_. None),
     rpt := (\<lambda>_. None), nonlocaltrans := [], incompleteexploredbranch := [], threadactions := [],
     rectoint := (\<lambda>_. None), yieldtable := (\<lambda>_. None), yieldlist := [], goalset := [],
     varindex := 1, numconstraints := 0, has_untaken_branches := False \<rparr>"

subsection \<open>Variables\<close>

definition getNewVar :: "cgen \<Rightarrow> constraint \<times> cgen" where
  "getNewVar g =
     (if length (cg_vars g) < varindex g then
        let var = VAR (varindex g) in (var, g\<lparr> cg_vars := cg_vars g @ [var], varindex := varindex g + 1 \<rparr>)
      else (cg_vars g ! (varindex g - 1), g\<lparr> varindex := varindex g + 1 \<rparr>))"

fun getArrayNewVars :: "nat \<Rightarrow> cgen \<Rightarrow> constraint list \<times> cgen" where
  "getArrayNewVars 0 g = ([], g)"
| "getArrayNewVars (Suc n) g =
     (let (v, g) = getNewVar g; (vs, g) = getArrayNewVars n g in (v # vs, g))"

subsection \<open>Constraints\<close>

text \<open>\<open>printConstraint\<close> and \<open>printNegConstraint\<close> hand a literal to the solver.\<close>

definition printConstraint :: "int \<Rightarrow> cgen \<Rightarrow> cgen option" where
  "printConstraint value g = map_option (\<lambda>s. g\<lparr> solver := Some (addClauseLiteral value s) \<rparr>) (solver g)"

definition addClause :: "constraint \<Rightarrow> cgen \<Rightarrow> cgen option" where
  "addClause simp g =
     (if isTrue simp then Some g
      else if isFalse simp then None
      else do {
        literals \<leftarrow> printDIMACS simp;
        g \<leftarrow> foldM printConstraint literals g;
        Some (g\<lparr> numconstraints := numconstraints g + 1 \<rparr>) })"

definition addConstraint :: "constraint \<Rightarrow> cgen \<Rightarrow> cgen option" where
  "addConstraint c g = foldM addClause (simplify c) g"

subsection \<open>Goals\<close>

definition addGoal :: "rid \<Rightarrow> constraint \<Rightarrow> cgen \<Rightarrow> cgen" where
  "addGoal r c g = g\<lparr> rectoint := (rectoint g)(r \<mapsto> length (goalset g)), goalset := goalset g @ [c] \<rparr>"

definition addBranchGoal :: "rid \<Rightarrow> constraint \<Rightarrow> cgen \<Rightarrow> cgen" where
  "addBranchGoal r c g = addGoal r c (g\<lparr> has_untaken_branches := True \<rparr>)"

definition achievedGoal :: "rid \<Rightarrow> cgen \<Rightarrow> cgen option" where
  "achievedGoal r g =
     (case rectoint g r of
        None \<Rightarrow> Some g
      | Some index \<Rightarrow> do {
          arr \<leftarrow> goalvararray g;
          if index < length arr then Some (g\<lparr> goalvararray := Some (arr[index := None]) \<rparr>) else None })"

text \<open>The body of the loop of \<open>translateGoals\<close>, with the variables made so far.\<close>

fun translate_goals :: "constraint list \<Rightarrow> cgen \<Rightarrow> (constraint list \<times> cgen) option" where
  "translate_goals [] g = Some ([], g)"
| "translate_goals (goal # goals) g = do {
     let (v, g) = getNewVar g;
     g \<leftarrow> addConstraint (OR [negate v, goal]) g;
     (vs, g) \<leftarrow> translate_goals goals g;
     Some (v # vs, g) }"

definition translateGoals :: "cgen \<Rightarrow> cgen option" where
  "translateGoals g = do {
     (vs, g) \<leftarrow> translate_goals (goalset g) g;
     g \<leftarrow> addConstraint (OR vs) (g\<lparr> goalvararray := Some (map Some vs) \<rparr>);
     Some g }"

subsection \<open>Order constraints\<close>

text \<open>The entry of a pair, in whichever orientation it is stored.\<close>

definition rpt_get :: "rid \<Rightarrow> rid \<Rightarrow> cgen \<Rightarrow> (rid \<times> constraint) option" where
  "rpt_get first second g =
     (case rpt g (first, second) of
        Some c \<Rightarrow> Some (first, c)
      | None \<Rightarrow> map_option (\<lambda>c. (second, c)) (rpt g (second, first)))"

definition same_thread :: "execution \<Rightarrow> rid \<Rightarrow> rid \<Rightarrow> bool" where
  "same_thread e r s = (ep_tid (r_ep (rec_of e r)) = ep_tid (r_ep (rec_of e s)))"

text \<open>\<open>first\<close> precedes \<open>second\<close> in program order.\<close>

definition program_order :: "execution \<Rightarrow> rid \<Rightarrow> rid \<Rightarrow> bool option" where
  "program_order e first second =
     map_option (\<lambda>c. c = CR_AFTER) (ep_compare (r_ep (rec_of e first)) (r_ep (rec_of e second)))"

definition getOrderConstraint :: "config \<Rightarrow> execution \<Rightarrow> rid \<Rightarrow> rid \<Rightarrow> cgen \<Rightarrow> constraint option" where
  "getOrderConstraint cfg e first second g =
     (if same_thread e first second \<and> (\<not> TSO cfg \<or> rpt_get first second g = None) then do {
        b \<leftarrow> program_order e first second;
        Some (if b then TRUE else FALSE) }
      else do {
        (epr1, c) \<leftarrow> rpt_get first second g;
        Some (if epr1 \<noteq> first then negate c else c) })"

definition getOrder :: "config \<Rightarrow> execution \<Rightarrow> rid \<Rightarrow> rid \<Rightarrow> (nat \<Rightarrow> bool) \<Rightarrow> cgen \<Rightarrow> bool option" where
  "getOrder cfg e first second satsolution g =
     (if TSO cfg \<and> rpt_get first second g = None \<and> same_thread e first second
      then program_order e first second
      else do {
        (epr1, c) \<leftarrow> rpt_get first second g;
        order \<leftarrow> (case c of TRUE \<Rightarrow> Some True | FALSE \<Rightarrow> Some False
                    | _ \<Rightarrow> map_option satsolution (getVar c));
        Some (if epr1 = first then order else \<not> order) })"

text \<open>Order by the start of the second thread, or by a join with the first one.\<close>

definition joins_before :: "execution \<Rightarrow> rid \<Rightarrow> rid \<Rightarrow> rid \<Rightarrow> bool option" where
  "joins_before e first second j =
     (if ep_tid (r_ep (rec_of e j)) = ep_tid (r_ep (rec_of e second)) then do {
        b \<leftarrow> program_order e j second;
        Some (b \<and> jointhread (rec_of e j) = Some (ep_tid (r_ep (rec_of e first)))) }
      else Some False)"

fun any_opt :: "('a \<Rightarrow> bool option) \<Rightarrow> 'a list \<Rightarrow> bool option" where
  "any_opt f [] = Some False"
| "any_opt f (x # xs) = do { b \<leftarrow> f x; if b then Some True else any_opt f xs }"

definition orderThread :: "execution \<Rightarrow> rid \<Rightarrow> rid \<Rightarrow> bool option" where
  "orderThread e first second = do {
     tr2 \<leftarrow> nth_opt (ThreadList e) (ep_tid (r_ep (rec_of e second)));
     started \<leftarrow> (case parentrecord tr2 of
                   None \<Rightarrow> Some False
                 | Some p \<Rightarrow> if same_thread e p first then program_order e first p else Some False);
     if started then Some True else any_opt (joins_before e first second) (joinvec e) }"

definition createOrderConstraint :: "execution \<Rightarrow> rid \<Rightarrow> rid \<Rightarrow> cgen \<Rightarrow> cgen option" where
  "createOrderConstraint e first second g =
     (if rpt_get first second g = None then do {
        isbefore \<leftarrow> orderThread e first second;
        after \<leftarrow> (if isbefore then Some False else orderThread e second first);
        let (c, g) = (if isbefore then (TRUE, g) else if after then (FALSE, g) else getNewVar g);
        Some (g\<lparr> rpt := (rpt g)((first, second) \<mapsto> c) \<rparr>) }
      else Some g)"

end
