(* ===== verification/StoreLoadSets.thy ===== *)
theory StoreLoadSets
  imports ConstGen
begin

section \<open>Groups of memory operations (storeloadset.cc, constgen.cc)\<close>

text \<open>
  Memory operations that can touch a common address share a \<open>StoreLoadSet\<close>, which numbers the
  addresses and the values they may use and gives each operation variables for its address and
  value. This theory has the operations of the set, the grouping done by the generator in its first
  pass, and the proof that grouping keeps the sets a partition: the table maps every address of a
  grouped operation to the one set that operation is in.
\<close>

subsection \<open>StoreLoadSet\<close>

definition writes :: "eprecord \<Rightarrow> bool" where
  "writes r = (event r = STORE \<or> event r = RMW)"

definition sls_add :: "execution \<Rightarrow> rid \<Rightarrow> slset \<Rightarrow> slset option" where
  "sls_add e r s = do {
     addrs \<leftarrow> getSet VC_ADDRINDEX (rec_of e r);
     vs \<leftarrow> (if writes (rec_of e r) then getStoreSet (rec_of e r) else Some []);
     Some (s\<lparr> storeloadset := oset_add r (storeloadset s), addresses := oset_adds addrs (addresses s),
              sl_values := oset_adds vs (sl_values s) \<rparr>) }"

definition genEncoding :: "slset \<Rightarrow> slset" where
  "genEncoding s = s\<lparr> addrencodings := Some (ValueRecord_numvars (addresses s)),
                      valencodings := Some (ValueRecord_numvars (sl_values s)) \<rparr>"

definition put_sls :: "nat \<Rightarrow> slset \<Rightarrow> cgen \<Rightarrow> cgen" where
  "put_sls i s g = g\<lparr> slheap := (slheap g)(i \<mapsto> s) \<rparr>"

text \<open>
  The three tables of variables differ in the table and in the encoding that gives the number of
  variables; reading the number from an encoding that does not exist is a use of a null pointer.
\<close>

definition get_vars :: "(slset \<Rightarrow> rid \<Rightarrow> constraint list option) \<Rightarrow>
    ((rid \<Rightarrow> constraint list option) \<Rightarrow> slset \<Rightarrow> slset) \<Rightarrow> (slset \<Rightarrow> nat option) \<Rightarrow>
    nat \<Rightarrow> rid \<Rightarrow> cgen \<Rightarrow> (constraint list \<times> cgen) option" where
  "get_vars table set_table enc i r g = do {
     s \<leftarrow> slheap g i;
     case table s r of
       Some vars \<Rightarrow> Some (vars, g)
     | None \<Rightarrow> do {
         numvars \<leftarrow> enc s;
         let (vars, g) = getArrayNewVars numvars g;
         Some (vars, put_sls i (set_table ((table s)(r \<mapsto> vars)) s) g) } }"

definition getAddrVars :: "nat \<Rightarrow> rid \<Rightarrow> cgen \<Rightarrow> (constraint list \<times> cgen) option" where
  "getAddrVars = get_vars addrvars (\<lambda>t s. s\<lparr> addrvars := t \<rparr>) addrencodings"

definition getValVars :: "nat \<Rightarrow> rid \<Rightarrow> cgen \<Rightarrow> (constraint list \<times> cgen) option" where
  "getValVars = get_vars valvars (\<lambda>t s. s\<lparr> valvars := t \<rparr>) valencodings"

definition getRMWRValVars :: "nat \<Rightarrow> rid \<Rightarrow> cgen \<Rightarrow> (constraint list \<times> cgen) option" where
  "getRMWRValVars = get_vars valrmwrvars (\<lambda>t s. s\<lparr> valrmwrvars := t \<rparr>) valencodings"

text \<open>Both encodings are made together, on first use of either.\<close>

definition need_encoding :: "(slset \<Rightarrow> nat option) \<Rightarrow> nat \<Rightarrow> cgen \<Rightarrow> cgen option" where
  "need_encoding enc i g = do {
     s \<leftarrow> slheap g i;
     Some (if enc s = None then put_sls i (genEncoding s) g else g) }"

definition getNumValVars :: "nat \<Rightarrow> cgen \<Rightarrow> (nat \<times> cgen) option" where
  "getNumValVars i g = do {
     g \<leftarrow> need_encoding valencodings i g; s \<leftarrow> slheap g i; n \<leftarrow> valencodings s; Some (n, g) }"

definition getNumAddrVars :: "nat \<Rightarrow> cgen \<Rightarrow> (nat \<times> cgen) option" where
  "getNumAddrVars i g = do {
     g \<leftarrow> need_encoding addrencodings i g; s \<leftarrow> slheap g i; n \<leftarrow> addrencodings s; Some (n, g) }"

text \<open>The constraint that an operation has an address or value; the null constraint is \<open>None\<close>.\<close>

definition sls_getAddressEncoding :: "nat \<Rightarrow> rid \<Rightarrow> uint64 \<Rightarrow> cgen \<Rightarrow> (constraint option \<times> cgen) option" where
  "sls_getAddressEncoding i r addr g = do {
     g \<leftarrow> need_encoding addrencodings i g;
     (vars, g) \<leftarrow> getAddrVars i r g;
     s \<leftarrow> slheap g i;
     n \<leftarrow> addrencodings s;
     Some (vr_getValueEncoding (addresses s) n vars addr, g) }"

definition sls_getValueEncoding :: "nat \<Rightarrow> rid \<Rightarrow> uint64 \<Rightarrow> cgen \<Rightarrow> (constraint option \<times> cgen) option" where
  "sls_getValueEncoding i r val g = do {
     g \<leftarrow> need_encoding valencodings i g;
     (vars, g) \<leftarrow> getValVars i r g;
     s \<leftarrow> slheap g i;
     n \<leftarrow> valencodings s;
     Some (vr_getValueEncoding (sl_values s) n vars val, g) }"

definition sls_getRMWRValueEncoding :: "nat \<Rightarrow> rid \<Rightarrow> uint64 \<Rightarrow> cgen \<Rightarrow> (constraint option \<times> cgen) option" where
  "sls_getRMWRValueEncoding i r val g = do {
     g \<leftarrow> need_encoding valencodings i g;
     (vars, g) \<leftarrow> getRMWRValVars i r g;
     s \<leftarrow> slheap g i;
     n \<leftarrow> valencodings s;
     Some (vr_getValueEncoding (sl_values s) n vars val, g) }"

text \<open>Reading the address or value of an operation from a solution.\<close>

definition sls_readAddress :: "nat \<Rightarrow> rid \<Rightarrow> (nat \<Rightarrow> bool) \<Rightarrow> cgen \<Rightarrow> (uint64 \<times> cgen) option" where
  "sls_readAddress i r sat g = do {
     (vars, g) \<leftarrow> getAddrVars i r g; s \<leftarrow> slheap g i; n \<leftarrow> addrencodings s;
     v \<leftarrow> vr_getValue (addresses s) n vars sat; Some (v, g) }"

definition sls_readValue :: "nat \<Rightarrow> rid \<Rightarrow> (nat \<Rightarrow> bool) \<Rightarrow> cgen \<Rightarrow> (uint64 \<times> cgen) option" where
  "sls_readValue i r sat g = do {
     (vars, g) \<leftarrow> getValVars i r g; s \<leftarrow> slheap g i; n \<leftarrow> valencodings s;
     v \<leftarrow> vr_getValue (sl_values s) n vars sat; Some (v, g) }"

definition sls_readRMWRValue :: "nat \<Rightarrow> rid \<Rightarrow> (nat \<Rightarrow> bool) \<Rightarrow> cgen \<Rightarrow> (uint64 \<times> cgen) option" where
  "sls_readRMWRValue i r sat g = do {
     (vars, g) \<leftarrow> getRMWRValVars i r g; s \<leftarrow> slheap g i; n \<leftarrow> valencodings s;
     v \<leftarrow> vr_getValue (sl_values s) n vars sat; Some (v, g) }"

subsection \<open>Grouping\<close>

text \<open>One member moved: it joins \<open>to\<close>, and its addresses are mapped to \<open>to\<close>.\<close>

definition move_member :: "execution \<Rightarrow> nat \<Rightarrow> rid \<Rightarrow> cgen \<Rightarrow> cgen option" where
  "move_member e to r g = do {
     t \<leftarrow> slheap g to;
     t \<leftarrow> sls_add e r t;
     addrs \<leftarrow> getSet VC_ADDRINDEX (rec_of e r);
     Some ((put_sls to t g)\<lparr> storeloadtable := fold (\<lambda>a m. m(a \<mapsto> to)) addrs (storeloadtable g) \<rparr>) }"

definition mergeSets :: "execution \<Rightarrow> nat \<Rightarrow> nat \<Rightarrow> cgen \<Rightarrow> cgen option" where
  "mergeSets e to from g = do {
     f \<leftarrow> slheap g from;
     g \<leftarrow> foldM (move_member e to) (storeloadset f) g;
     Some (g\<lparr> slheap := (slheap g)(from := None) \<rparr>) }"

definition group_address :: "execution \<Rightarrow> nat \<Rightarrow> uint64 \<Rightarrow> cgen \<Rightarrow> cgen option" where
  "group_address e isls addr g =
     (case storeloadtable g addr of
        None \<Rightarrow> Some (g\<lparr> storeloadtable := (storeloadtable g)(addr \<mapsto> isls) \<rparr>)
      | Some sls \<Rightarrow> if sls \<noteq> isls then mergeSets e isls sls g else Some g)"

definition groupMemoryOperations :: "execution \<Rightarrow> rid \<Rightarrow> cgen \<Rightarrow> cgen option" where
  "groupMemoryOperations e r g = do {
     addrs \<leftarrow> getSet VC_ADDRINDEX (rec_of e r);
     case addrs of
       [] \<Rightarrow> None
     | iaddr # rest \<Rightarrow> do {
         let (isls, g) =
           (case storeloadtable g iaddr of
              Some i \<Rightarrow> (i, g)
            | None \<Rightarrow> (next_sls g, (put_sls (next_sls g) new_StoreLoadSet g)\<lparr>
                        storeloadtable := (storeloadtable g)(iaddr \<mapsto> next_sls g),
                        next_sls := next_sls g + 1 \<rparr>));
         s \<leftarrow> slheap g isls;
         s \<leftarrow> sls_add e r s;
         foldM (group_address e isls) rest (put_sls isls s g) } }"

definition getStoreLoadSet :: "execution \<Rightarrow> rid \<Rightarrow> cgen \<Rightarrow> nat option" where
  "getStoreLoadSet e r g = do {
     addrs \<leftarrow> getSet VC_ADDRINDEX (rec_of e r);
     case addrs of [] \<Rightarrow> None | addr # _ \<Rightarrow> storeloadtable g addr }"

subsection \<open>The groups partition the operations\<close>

text \<open>The addresses an operation may use, and the values it may write.\<close>

definition addrs_of :: "execution \<Rightarrow> rid \<Rightarrow> uint64 set" where
  "addrs_of e r = (case getSet VC_ADDRINDEX (rec_of e r) of None \<Rightarrow> {} | Some s \<Rightarrow> set s)"

definition stores_of :: "execution \<Rightarrow> rid \<Rightarrow> uint64 set" where
  "stores_of e r =
     (if writes (rec_of e r) then case getStoreSet (rec_of e r) of None \<Rightarrow> {} | Some s \<Rightarrow> set s else {})"

text \<open>
  \<open>sl_part e E g\<close>: the state while the obligations \<open>E\<close> are open, a triple of a set, a member and
  one of its addresses that is not yet mapped to the set. With \<open>E\<close> empty it is the invariant
  between operations.
\<close>

definition sls_ok :: "execution \<Rightarrow> slset \<Rightarrow> bool" where
  "sls_ok e s \<longleftrightarrow>
     distinct (storeloadset s) \<and> distinct (addresses s) \<and> distinct (sl_values s) \<and>
     set (addresses s) = (\<Union>r \<in> set (storeloadset s). addrs_of e r) \<and>
     set (sl_values s) = (\<Union>r \<in> set (storeloadset s). stores_of e r)"

definition sl_part :: "execution \<Rightarrow> (nat \<times> rid \<times> uint64) set \<Rightarrow> cgen \<Rightarrow> bool" where
  "sl_part e E g \<longleftrightarrow>
     (\<forall>i s. slheap g i = Some s \<longrightarrow> i < next_sls g \<and> sls_ok e s \<and>
        (\<forall>r \<in> set (storeloadset s). \<forall>a \<in> addrs_of e r. (i, r, a) \<notin> E \<longrightarrow> storeloadtable g a = Some i)) \<and>
     (\<forall>a i. storeloadtable g a = Some i \<longrightarrow> (\<exists>s. slheap g i = Some s \<and> a \<in> set (addresses s)))"

definition sl_inv :: "execution \<Rightarrow> cgen \<Rightarrow> bool" where
  "sl_inv e g \<longleftrightarrow> sl_part e {} g"

definition member_of :: "cgen \<Rightarrow> nat \<Rightarrow> rid \<Rightarrow> bool" where
  "member_of g i r \<longleftrightarrow> (\<exists>s. slheap g i = Some s \<and> r \<in> set (storeloadset s))"

lemma sl_inv_empty [simp]: "sl_inv e new_ConstGen" "sl_inv e (cg_reset g)"
  by (simp_all add: sl_inv_def sl_part_def new_ConstGen_def cg_reset_def resetstoreloadtable_def)

lemma sls_add_fields:
  assumes "sls_add e r s = Some s'"
  shows "set (storeloadset s') = insert r (set (storeloadset s))"
    and "set (addresses s') = addrs_of e r \<union> set (addresses s)"
    and "set (sl_values s') = stores_of e r \<union> set (sl_values s)"
    and "distinct (storeloadset s') = distinct (storeloadset s)"
    and "distinct (addresses s') = distinct (addresses s)"
    and "distinct (sl_values s') = distinct (sl_values s)"
  using assms
  by (auto simp: sls_add_def do_simps addrs_of_def stores_of_def split: if_splits)

lemma fold_map_to: "fold (\<lambda>a m. m(a \<mapsto> i)) as t a = (if a \<in> set as then Some i else t a)"
  by (induction as arbitrary: t) auto

lemma put_sls_simps [simp]:
  "slheap (put_sls i s g) = (slheap g)(i \<mapsto> s)" "storeloadtable (put_sls i s g) = storeloadtable g"
  "next_sls (put_sls i s g) = next_sls g"
  by (simp_all add: put_sls_def)

lemma sls_ok_add: "sls_add e r s = Some s' \<Longrightarrow> sls_ok e s \<Longrightarrow> sls_ok e s'"
  using sls_add_fields [of e r s s'] by (simp add: sls_ok_def)

lemma sls_ok_new [simp]: "sls_ok e new_StoreLoadSet"
  by (simp add: sls_ok_def new_StoreLoadSet_def)

lemma sl_partD:
  assumes "sl_part e E g" and "slheap g i = Some s"
  shows "i < next_sls g" and "sls_ok e s"
    and "r \<in> set (storeloadset s) \<Longrightarrow> a \<in> addrs_of e r \<Longrightarrow> (i, r, a) \<notin> E \<Longrightarrow> storeloadtable g a = Some i"
  using assms unfolding sl_part_def by blast+

lemma sl_part_table:
  "sl_part e E g \<Longrightarrow> storeloadtable g a = Some i \<Longrightarrow>
    \<exists>s r. slheap g i = Some s \<and> r \<in> set (storeloadset s) \<and> a \<in> addrs_of e r"
  unfolding sl_part_def sls_ok_def by (metis UN_E)

lemma sl_part_close:
  assumes "sl_part e E g" and "\<And>i r a. (i, r, a) \<in> E \<Longrightarrow> (i, r, a) \<notin> E' \<Longrightarrow> storeloadtable g a = Some i"
  shows "sl_part e E' g"
  unfolding sl_part_def
proof (intro conjI allI impI ballI)
  fix i s assume i: "slheap g i = Some s"
  show "i < next_sls g" "sls_ok e s" using sl_partD [OF assms(1) i] by blast+
  fix r a assume "r \<in> set (storeloadset s)" "a \<in> addrs_of e r" "(i, r, a) \<notin> E'"
  then show "storeloadtable g a = Some i"
    using sl_partD(3) [OF assms(1) i] assms(2) by blast
next
  fix a i assume "storeloadtable g a = Some i"
  then show "\<exists>s. slheap g i = Some s \<and> a \<in> set (addresses s)" using assms(1) unfolding sl_part_def by blast
qed

text \<open>What the loop of \<open>mergeSets\<close> leaves.\<close>

lemma move_members:
  assumes "foldM (move_member e to) rs g = Some g'" and "slheap g to = Some t" and "sls_ok e t"
  shows "\<exists>t'. slheap g' = (slheap g)(to \<mapsto> t') \<and> sls_ok e t' \<and> next_sls g' = next_sls g \<and>
    set (storeloadset t') = set rs \<union> set (storeloadset t) \<and>
    storeloadtable g' = (\<lambda>a. if a \<in> (\<Union>r \<in> set rs. addrs_of e r) then Some to else storeloadtable g a)"
  using assms
proof (induction rs arbitrary: g t)
  case Nil
  then show ?case by (intro exI [of _ t]) (auto simp: fun_eq_iff)
next
  case (Cons r rs)
  from Cons.prems(1) obtain g1 where g1: "move_member e to r g = Some g1"
    and rest: "foldM (move_member e to) rs g1 = Some g'" by (auto simp: do_simps)
  from g1 Cons.prems(2) obtain t1 addrs where t1: "sls_add e r t = Some t1"
    and ad: "getSet VC_ADDRINDEX (rec_of e r) = Some addrs"
    and g1': "g1 = (put_sls to t1 g)\<lparr> storeloadtable := fold (\<lambda>a m. m(a \<mapsto> to)) addrs (storeloadtable g) \<rparr>"
    by (auto simp: move_member_def do_simps)
  have ok: "sls_ok e t1" by (rule sls_ok_add [OF t1 Cons.prems(3)])
  have a: "addrs_of e r = set addrs" using ad by (simp add: addrs_of_def)
  have m: "set (storeloadset t1) = insert r (set (storeloadset t))" by (rule sls_add_fields(1) [OF t1])
  have "slheap g1 to = Some t1" by (simp add: g1')
  from Cons.IH [OF rest this ok] obtain t' where "slheap g' = (slheap g1)(to \<mapsto> t')" "sls_ok e t'"
    "next_sls g' = next_sls g" "set (storeloadset t') = set rs \<union> set (storeloadset t1)"
    "storeloadtable g' = (\<lambda>a. if a \<in> (\<Union>r \<in> set rs. addrs_of e r) then Some to
      else storeloadtable g1 a)"
    by (auto simp: g1' simp del: fun_upd_apply)
  moreover from this(1) have "slheap g' = (slheap g)(to \<mapsto> t')" by (simp add: g1')
  ultimately show ?case
    by (intro exI [of _ t']) (use m a in \<open>auto simp: fold_map_to fun_eq_iff g1'\<close>)
qed

lemma mergeSets_part:
  assumes "mergeSets e to from g = Some g'" and part: "sl_part e E g" and ne: "to \<noteq> from"
    and to: "slheap g to = Some t" and fr: "slheap g from = Some f"
    and E: "\<And>i r a. (i, r, a) \<in> E \<Longrightarrow> i = to"
  shows "sl_part e (E - {(to, r, a) |r a. a \<in> (\<Union>q \<in> set (storeloadset f). addrs_of e q)}) g' \<and>
    (\<forall>i r. member_of g' i r \<longleftrightarrow>
       (if i = to then member_of g to r \<or> member_of g from r else i \<noteq> from \<and> member_of g i r))"
proof -
  let ?F = "\<Union>q \<in> set (storeloadset f). addrs_of e q"
  from assms(1) fr obtain g1 where g1: "foldM (move_member e to) (storeloadset f) g = Some g1"
    "g' = g1\<lparr> slheap := (slheap g1)(from := None) \<rparr>" by (auto simp: mergeSets_def do_simps)
  have okt: "sls_ok e t" by (rule sl_partD(2) [OF part to])
  from move_members [OF g1(1) to okt] obtain t' where t': "slheap g1 = (slheap g)(to \<mapsto> t')" "sls_ok e t'"
    "next_sls g1 = next_sls g" "set (storeloadset t') = set (storeloadset f) \<union> set (storeloadset t)"
    "storeloadtable g1 = (\<lambda>a. if a \<in> ?F then Some to else storeloadtable g a)" by blast
  have h: "slheap g' = ((slheap g)(to \<mapsto> t'))(from := None)"
    and tab: "storeloadtable g' = (\<lambda>a. if a \<in> ?F then Some to else storeloadtable g a)"
    and n: "next_sls g' = next_sls g" using g1(2) t' by simp_all
  have fa: "storeloadtable g a = Some from" if "a \<in> ?F" for a
    using that sl_partD(3) [OF part fr] E ne by blast
  have "sl_part e (E - {(to, r, a) |r a. a \<in> ?F}) g'"
    unfolding sl_part_def
  proof (intro conjI allI impI ballI)
    fix i s assume i: "slheap g' i = Some s"
    then have ni: "i \<noteq> from" by (auto simp: h)
    show "i < next_sls g'" using i part to by (auto simp: h n sl_partD(1) split: if_splits)
    show "sls_ok e s" using i part t'(2) by (auto simp: h sl_partD(2) split: if_splits)
    fix r a assume ra: "r \<in> set (storeloadset s)" "a \<in> addrs_of e r" and nE: "(i, r, a) \<notin> E - {(to, r, a) |r a. a \<in> ?F}"
    show "storeloadtable g' a = Some i"
    proof (cases "i = to")
      case True
      show ?thesis
      proof (cases "a \<in> ?F")
        case False
        with True i ra t'(4) have "r \<in> set (storeloadset t)" by (auto simp: h ne)
        with sl_partD(3) [OF part to this ra(2)] nE True False show ?thesis by (auto simp: tab)
      qed (simp add: tab True)
    next
      case False
      with i ni have s: "slheap g i = Some s" by (simp add: h)
      have "(i, r, a) \<notin> E" using E False by blast
      with sl_partD(3) [OF part s ra] have "storeloadtable g a = Some i" by simp
      with fa ni have "a \<notin> ?F" by fastforce
      with \<open>storeloadtable g a = Some i\<close> show ?thesis by (simp add: tab)
    qed
  next
    fix a i assume a: "storeloadtable g' a = Some i"
    show "\<exists>s. slheap g' i = Some s \<and> a \<in> set (addresses s)"
    proof (cases "a \<in> ?F")
      case True
      with a have "i = to" by (simp add: tab)
      moreover have "a \<in> set (addresses t')" using t'(2,4) True by (auto simp: sls_ok_def)
      ultimately show ?thesis using ne by (simp add: h)
    next
      case False
      with a have g: "storeloadtable g a = Some i" by (simp add: tab)
      with part obtain s where s: "slheap g i = Some s" "a \<in> set (addresses s)" unfolding sl_part_def by blast
      have "i \<noteq> from"
      proof
        assume "i = from"
        with s fr have "a \<in> set (addresses f)" by simp
        with sl_partD(2) [OF part fr] have "a \<in> ?F" by (simp add: sls_ok_def)
        with False show False by simp
      qed
      moreover have "a \<in> set (addresses t')" if "i = to"
        using s that to t'(2,4) okt by (auto simp: sls_ok_def)
      ultimately show ?thesis using s by (auto simp: h)
    qed
  qed
  moreover have "member_of g' i r \<longleftrightarrow>
       (if i = to then member_of g to r \<or> member_of g from r else i \<noteq> from \<and> member_of g i r)" for i r
    using ne to fr t'(4) by (auto simp: member_of_def h)
  ultimately show ?thesis by blast
qed

lemma list_case_Some:
  assumes "(case xs of [] \<Rightarrow> None | x # ys \<Rightarrow> f x ys) = Some z"
  obtains x ys where "xs = x # ys" "f x ys = Some z"
  using assms by (cases xs) auto

text \<open>Mapping one more address of the operation being grouped.\<close>

lemma group_address_part:
  assumes "group_address e isls a g = Some g'" and part: "sl_part e E g"
    and E: "\<And>i q b. (i, q, b) \<in> E \<Longrightarrow> i = isls \<and> q = r"
    and r: "member_of g isls r" and a: "a \<in> addrs_of e r"
  shows "sl_part e (E - {(isls, r, a)}) g' \<and> member_of g' isls r \<and>
    (\<forall>q. (\<exists>i. member_of g' i q) \<longleftrightarrow> (\<exists>i. member_of g i q)) \<and> storeloadtable g' a = Some isls"
proof -
  obtain t where t: "slheap g isls = Some t" "r \<in> set (storeloadset t)" using r by (auto simp: member_of_def)
  then have at: "a \<in> set (addresses t)" using sl_partD(2) [OF part t(1)] a by (auto simp: sls_ok_def)
  show ?thesis
  proof (cases "storeloadtable g a")
    case None
    then have g': "g' = g\<lparr> storeloadtable := (storeloadtable g)(a \<mapsto> isls) \<rparr>"
      using assms(1) by (simp add: group_address_def)
    have "storeloadtable g' b = Some i"
      if "slheap g i = Some s" "q \<in> set (storeloadset s)" "b \<in> addrs_of e q" "(i, q, b) \<notin> E - {(isls, r, a)}" for i s q b
    proof (cases "(i, q, b) \<in> E")
      case True
      with that(4) show ?thesis by (simp add: g')
    next
      case False
      from sl_partD(3) [OF part that(1-3) False] None show ?thesis by (auto simp: g')
    qed
    then have "sl_part e (E - {(isls, r, a)}) g'"
      using part t(1) at by (auto simp: sl_part_def g')
    moreover have "member_of g' i q = member_of g i q" for i q by (simp add: member_of_def g')
    ultimately show ?thesis using r by (simp add: g')
  next
    case (Some sls)
    show ?thesis
    proof (cases "sls = isls")
      case True
      then have g': "g' = g" using assms(1) Some by (simp add: group_address_def)
      have "sl_part e (E - {(isls, r, a)}) g" by (rule sl_part_close [OF part]) (use Some True in auto)
      then show ?thesis using r Some True by (auto simp: g')
    next
      case False
      then have m: "mergeSets e isls sls g = Some g'" using assms(1) Some by (simp add: group_address_def)
      from sl_part_table [OF part Some] obtain f q where f: "slheap g sls = Some f" "q \<in> set (storeloadset f)"
        "a \<in> addrs_of e q" by blast
      note M = mergeSets_part [OF m part False [symmetric] t(1) f(1)]
      have p: "sl_part e (E - {(isls, r, a) |r a. a \<in> (\<Union>q \<in> set (storeloadset f). addrs_of e q)}) g'"
        and mem: "\<And>i q. member_of g' i q \<longleftrightarrow>
          (if i = isls then member_of g isls q \<or> member_of g sls q else i \<noteq> sls \<and> member_of g i q)"
        using M E by blast+
      have r': "member_of g' isls r" using mem r by simp
      have all: "(\<exists>i. member_of g' i q) \<longleftrightarrow> (\<exists>i. member_of g i q)" for q using mem False by metis
      obtain t' where t': "slheap g' isls = Some t'" "q \<in> set (storeloadset t')"
        using mem [of isls q] f by (auto simp: member_of_def)
      have "storeloadtable g' a = Some isls"
      proof (rule sl_partD(3) [OF p t' f(3)])
        show "(isls, q, a) \<notin> E - {(isls, r, a) |r a. a \<in> (\<Union>q \<in> set (storeloadset f). addrs_of e q)}"
          using f by blast
      qed
      moreover have "sl_part e (E - {(isls, r, a)}) g'"
      proof (rule sl_part_close [OF p])
        fix i q b assume "(i, q, b) \<in> E - {(isls, r, a) |r a. a \<in> (\<Union>q \<in> set (storeloadset f). addrs_of e q)}"
          and n: "(i, q, b) \<notin> E - {(isls, r, a)}"
        then have "(i, q, b) = (isls, r, a)" by blast
        with \<open>storeloadtable g' a = Some isls\<close> show "storeloadtable g' b = Some i" by simp
      qed
      ultimately show ?thesis using r' all by blast
    qed
  qed
qed

lemma group_addresses:
  assumes "foldM (group_address e isls) as g = Some g'" and "sl_part e E g"
    and "\<And>i q b. (i, q, b) \<in> E \<Longrightarrow> i = isls \<and> q = r \<and> b \<in> set as" and "member_of g isls r"
    and "set as \<subseteq> addrs_of e r"
  shows "sl_inv e g' \<and> member_of g' isls r \<and> (\<forall>q. (\<exists>i. member_of g' i q) \<longleftrightarrow> (\<exists>i. member_of g i q))"
  using assms
proof (induction as arbitrary: g E)
  case Nil
  then have "E = {}" by auto
  with Nil show ?case by (simp add: sl_inv_def)
next
  case (Cons a as)
  from Cons.prems(1) obtain g1 where g1: "group_address e isls a g = Some g1" "foldM (group_address e isls) as g1 = Some g'"
    by (auto simp: do_simps)
  have A: "sl_part e (E - {(isls, r, a)}) g1" "member_of g1 isls r"
    "\<forall>q. (\<exists>i. member_of g1 i q) \<longleftrightarrow> (\<exists>i. member_of g i q)"
    using group_address_part [OF g1(1) Cons.prems(2) _ Cons.prems(4)] Cons.prems(3,5) by auto
  have "(i, q, b) \<in> E - {(isls, r, a)} \<Longrightarrow> i = isls \<and> q = r \<and> b \<in> set as" for i q b
    using Cons.prems(3) [of i q b] by auto
  from Cons.IH [OF g1(2) A(1) this A(2)] Cons.prems(5) A(3) show ?case by auto
qed

text \<open>
  Grouping an operation keeps the partition, puts the operation into a set and takes no other
  operation out of the sets.
\<close>

theorem group_partition:
  assumes "groupMemoryOperations e r g = Some g'" and inv: "sl_inv e g"
  shows "sl_inv e g'" and "\<exists>i. member_of g' i r"
    and "\<And>q. (\<exists>i. member_of g' i q) \<longleftrightarrow> q = r \<or> (\<exists>i. member_of g i q)"
proof -
  from assms(1) obtain a as where as: "getSet VC_ADDRINDEX (rec_of e r) = Some (a # as)"
    by (auto simp: groupMemoryOperations_def bind_eq_Some_conv elim: list_case_Some)
  then have adr: "addrs_of e r = insert a (set as)" by (simp add: addrs_of_def)
  define ig where "ig = (case storeloadtable g a of
              Some i \<Rightarrow> (i, g)
            | None \<Rightarrow> (next_sls g, (put_sls (next_sls g) new_StoreLoadSet g)\<lparr>
                        storeloadtable := (storeloadtable g)(a \<mapsto> next_sls g), next_sls := next_sls g + 1 \<rparr>))"
  obtain i g1 where ig: "ig = (i, g1)" by (cases ig)
  from assms(1) as ig obtain s s' where s: "slheap g1 i = Some s" "sls_add e r s = Some s'"
    and rest: "foldM (group_address e i) as (put_sls i s' g1) = Some g'"
    by (auto simp: groupMemoryOperations_def ig_def [symmetric] Let_def do_simps)
  let ?g = "put_sls i s' g1"
  have tab: "storeloadtable g1 a = Some i" using ig by (auto simp: ig_def split: option.splits)
  have tab': "storeloadtable g1 b = Some j \<longleftrightarrow> (if b = a then j = i else storeloadtable g b = Some j)" for b j
    using ig by (auto simp: ig_def split: option.splits if_splits)
  have fresh: "slheap g (next_sls g) = None"
    using sl_partD(1) [OF inv [unfolded sl_inv_def], of "next_sls g"] by (cases "slheap g (next_sls g)") auto
  have h1: "slheap g1 j = Some t \<longleftrightarrow> slheap g j = Some t \<or> (storeloadtable g a = None \<and> j = i \<and> t = new_StoreLoadSet)" for j t
    using ig fresh by (auto simp: ig_def split: option.splits if_splits)
  have nx: "next_sls g \<le> next_sls g1" "storeloadtable g a = None \<Longrightarrow> i < next_sls g1"
    using ig by (auto simp: ig_def split: option.splits)
  have g: "j < next_sls g" "sls_ok e t" "q \<in> set (storeloadset t) \<Longrightarrow> b \<in> addrs_of e q \<Longrightarrow> storeloadtable g b = Some j"
    if "slheap g j = Some t" for j t q b using sl_partD [OF inv [unfolded sl_inv_def] that] by auto
  have ok: "sls_ok e s" using s(1) h1 g by auto
  have old: "storeloadtable g1 b = Some j" if "slheap g1 j = Some t" "q \<in> set (storeloadset t)" "b \<in> addrs_of e q" for j t q b
    using that g(3) [of j t q b] h1 [of j t] ig
    by (auto simp: new_StoreLoadSet_def ig_def split: option.splits)
  have mem': "set (storeloadset s') = insert r (set (storeloadset s))" by (rule sls_add_fields(1) [OF s(2)])
  have part: "sl_part e {(i, r, b) |b. b \<in> set as} ?g"
    unfolding sl_part_def
  proof (intro conjI allI impI ballI)
    fix j t assume j: "slheap ?g j = Some t"
    show "j < next_sls ?g" using j s(1) h1 nx g(1) by (auto split: if_splits) (meson less_le_trans)+
    show "sls_ok e t" using j h1 g(2) sls_ok_add [OF s(2) ok] by (auto split: if_splits)
    fix q b assume q: "q \<in> set (storeloadset t)" "b \<in> addrs_of e q" "(j, q, b) \<notin> {(i, r, b) |b. b \<in> set as}"
    show "storeloadtable ?g b = Some j"
    proof (cases "j = i")
      case True
      with j have "t = s'" by simp
      with q(1) mem' consider "q \<in> set (storeloadset s)" | "q = r" by auto
      then show ?thesis
      proof cases
        case 1
        from old [OF s(1) 1 q(2)] True show ?thesis by simp
      next
        case 2
        with q adr True have "b = a" by auto
        with tab True show ?thesis by simp
      qed
    next
      case False
      with j old [of j t q b] q show ?thesis by simp
    qed
  next
    fix b j assume b: "storeloadtable ?g b = Some j"
    show "\<exists>t. slheap ?g j = Some t \<and> b \<in> set (addresses t)"
    proof (cases "b = a")
      case True
      with b tab' have "j = i" by simp
      moreover have "a \<in> set (addresses s')" using sls_add_fields(2) [OF s(2)] adr by simp
      ultimately show ?thesis using True by simp
    next
      case False
      with b tab' have "storeloadtable g b = Some j" by simp
      with inv obtain t where t: "slheap g j = Some t" "b \<in> set (addresses t)"
        unfolding sl_inv_def sl_part_def by blast
      have "b \<in> set (addresses s')" if "j = i"
      proof -
        have "slheap g1 j = Some t" using h1 t by simp
        with that s(1) have "t = s" by simp
        with t sls_add_fields(2) [OF s(2)] show ?thesis by simp
      qed
      then show ?thesis using t h1 [of j t] by auto
    qed
  qed
  have m: "member_of ?g i r" using mem' by (simp add: member_of_def)
  have upd: "member_of ?g j q \<longleftrightarrow> member_of g1 j q \<or> (j = i \<and> q = r)" for j q
    using s(1) mem' by (cases "j = i") (auto simp: member_of_def)
  have old_mem: "member_of g1 j q \<Longrightarrow> member_of g j q" for j q
    using h1 by (auto simp: member_of_def new_StoreLoadSet_def)
  have mem: "(\<exists>j. member_of ?g j q) \<longleftrightarrow> q = r \<or> (\<exists>j. member_of g j q)" for q
  proof
    assume "\<exists>j. member_of ?g j q"
    then obtain j where "member_of ?g j q" by (rule exE)
    then have "member_of g1 j q \<or> (j = i \<and> q = r)" by (simp only: upd)
    then show "q = r \<or> (\<exists>j. member_of g j q)" by (auto dest: old_mem)
  next
    assume "q = r \<or> (\<exists>j. member_of g j q)"
    then show "\<exists>j. member_of ?g j q"
    proof
      assume "\<exists>j. member_of g j q"
      then obtain j t where t: "slheap g j = Some t" "q \<in> set (storeloadset t)" by (auto simp: member_of_def)
      then have "slheap g1 j = Some t" using h1 by simp
      with t have "member_of ?g j q" using upd [of j q] by (auto simp: member_of_def)
      then show ?thesis by blast
    qed (use m in blast)
  qed
  have R: "sl_inv e g' \<and> member_of g' i r \<and> (\<forall>q. (\<exists>i. member_of g' i q) \<longleftrightarrow> (\<exists>j. member_of ?g j q))"
    by (rule group_addresses [OF rest part _ m]) (use adr in auto)
  show "sl_inv e g'" using R by blast
  show "\<exists>i. member_of g' i r" using R by blast
  show "\<And>q. (\<exists>i. member_of g' i q) \<longleftrightarrow> q = r \<or> (\<exists>i. member_of g i q)" using R mem by blast
qed

text \<open>Operations that may use a common address are in the same set, which is the one the table finds.\<close>

lemma shared_address_same_set:
  assumes "sl_inv e g" and "member_of g i q" and "member_of g j r" and "a \<in> addrs_of e q" and "a \<in> addrs_of e r"
  shows "i = j"
proof -
  have "storeloadtable g a = Some k" if "member_of g k p" "a \<in> addrs_of e p" for k p
    using that assms(1) by (auto simp: member_of_def sl_inv_def dest: sl_partD(3))
  from this [OF assms(2,4)] this [OF assms(3,5)] show ?thesis by simp
qed

lemma getStoreLoadSet_member:
  assumes "sl_inv e g" and "member_of g i r" and "getStoreLoadSet e r g = Some j"
  shows "j = i"
proof -
  from assms(3) obtain a as where "getSet VC_ADDRINDEX (rec_of e r) = Some (a # as)" "storeloadtable g a = Some j"
    by (auto simp: getStoreLoadSet_def bind_eq_Some_conv elim: list_case_Some)
  moreover from this(1) have "a \<in> addrs_of e r" by (simp add: addrs_of_def)
  ultimately show ?thesis
    using assms(1,2) by (auto simp: member_of_def sl_inv_def dest: sl_partD(3))
qed

end
