(* ===== verification/LoadRF.thy ===== *)
theory LoadRF
  imports StoreLoadSets
begin

section \<open>What a load reads from (constgen.cc, loadrf.cc)\<close>

text \<open>
  When an operation executes, which stores a load may read from, which other stores can come
  between a store and a load, the constraints for values, and \<open>LoadRF\<close>, which ties a load to the
  store it reads.
\<close>

text \<open>The results of \<open>f\<close> over a list, if all are defined.\<close>

fun map_opt :: "('a \<Rightarrow> 'b option) \<Rightarrow> 'a list \<Rightarrow> 'b list option" where
  "map_opt f [] = Some []"
| "map_opt f (x # xs) = do { y \<leftarrow> f x; ys \<leftarrow> map_opt f xs; Some (y # ys) }"

subsection \<open>Execution conditions\<close>

definition execcond :: "cgen \<Rightarrow> rid \<Rightarrow> rid list" where
  "execcond g r = (case execcondtable g r of None \<Rightarrow> [] | Some srs \<Rightarrow> srs)"

definition isAlwaysExecuted :: "execution \<Rightarrow> rid \<Rightarrow> cgen \<Rightarrow> bool" where
  "isAlwaysExecuted e r g = (branch (rec_of e r) = None \<and> execcond g r = [])"

text \<open>The constraint for the direction of the branch value \<open>b\<close>.\<close>

definition direction :: "execution \<Rightarrow> vid \<Rightarrow> cgen \<Rightarrow> constraint option" where
  "direction e b g = do {
     guardbr \<leftarrow> branchtable g (v_record (val_of e b));
     getBranch (hp e) guardbr b }"

definition getExecutionConstraint :: "execution \<Rightarrow> rid \<Rightarrow> cgen \<Rightarrow> constraint option" where
  "getExecutionConstraint e r g = do {
     away \<leftarrow> map_opt (\<lambda>nonlocal. do {
               b \<leftarrow> branch (rec_of e nonlocal);
               c \<leftarrow> direction e b g;
               Some (negate c) }) (execcond g r);
     own \<leftarrow> (case branch (rec_of e r) of
               None \<Rightarrow> Some []
             | Some b \<Rightarrow> map_option (\<lambda>c. [c]) (direction e b g));
     Some (case away @ own of [] \<Rightarrow> TRUE | [c] \<Rightarrow> c | array \<Rightarrow> AND array) }"

text \<open>The search up the enclosing branches; a cyclic chain would not end.\<close>

partial_function (option) under_branch :: "execution \<Rightarrow> vid option \<Rightarrow> vid \<Rightarrow> bool option" where
  [code]: "under_branch e br target =
     (case br of
        None \<Rightarrow> Some False
      | Some b \<Rightarrow> if b = target then Some True else under_branch e (branch (rec_of e (v_record (val_of e b)))) target)"

definition subsumesExecutionConstraint :: "config \<Rightarrow> execution \<Rightarrow> rid \<Rightarrow> rid \<Rightarrow> cgen \<Rightarrow> bool option" where
  "subsumesExecutionConstraint cfg e recordsubsumes r g = do {
     under \<leftarrow> (case branch (rec_of e recordsubsumes) of
                 None \<Rightarrow> Some True
               | Some target \<Rightarrow> under_branch e (branch (rec_of e r)) target);
     if \<not> under then Some False
     else map_option Not (any_opt (\<lambda>q. do {
            c \<leftarrow> getOrderConstraint cfg e q r g;
            Some (\<not> isTrue c) }) (execcond g recordsubsumes)) }"

subsection \<open>Stores a load may read from\<close>

definition before_load :: "execution \<Rightarrow> rid \<Rightarrow> rid \<Rightarrow> bool option" where
  "before_load e load store = (if same_thread e store load then program_order e store load else Some True)"

definition mayread_addr :: "execution \<Rightarrow> rid \<Rightarrow> uint64 \<Rightarrow> rid list \<Rightarrow> rid list option" where
  "mayread_addr e load addr srs =
     (case storetable e addr of
        None \<Rightarrow> Some srs
      | Some rs \<Rightarrow> foldM (\<lambda>store srs. do {
            ok \<leftarrow> before_load e load store;
            Some (if ok then oset_add store srs else srs) }) rs srs)"

text \<open>
  With a single address, the last store of the same thread before the load that always executes
  and has this address only hides the stores before it.
\<close>

definition latest_store :: "execution \<Rightarrow> rid \<Rightarrow> cgen \<Rightarrow> rid list \<Rightarrow> rid option option" where
  "latest_store e load g rs =
     foldM (\<lambda>store latest.
        if same_thread e store load \<and> isAlwaysExecuted e store g then do {
          addrs \<leftarrow> getSet VC_ADDRINDEX (rec_of e store);
          if length addrs \<noteq> 1 then Some latest
          else do {
            b \<leftarrow> program_order e store load;
            newer \<leftarrow> (if b then case latest of None \<Rightarrow> Some True | Some l \<Rightarrow> program_order e l store
                      else Some False);
            Some (if newer then Some store else latest) } }
        else Some latest) rs None"

definition mayread_opt :: "execution \<Rightarrow> rid \<Rightarrow> rid option \<Rightarrow> rid list \<Rightarrow> rid list option" where
  "mayread_opt e load latest rs =
     foldM (\<lambda>store srs.
        if same_thread e store load then do {
          b \<leftarrow> program_order e store load;
          ok \<leftarrow> (if b then case latest of None \<Rightarrow> Some True | Some l \<Rightarrow> map_option Not (program_order e store l)
                 else Some False);
          Some (if ok then oset_add store srs else srs) }
        else Some (oset_add store srs)) rs []"

definition getMayReadFromSetOpt :: "execution \<Rightarrow> rid \<Rightarrow> cgen \<Rightarrow> (rid list \<times> cgen) option" where
  "getMayReadFromSetOpt e load g =
     (case cg_loadtable g load of
        Some srs \<Rightarrow> Some (srs, g)
      | None \<Rightarrow> do {
          addrs \<leftarrow> getSet VC_ADDRINDEX (rec_of e load);
          addr \<leftarrow> nth_opt addrs 0;
          rs \<leftarrow> storetable e addr;
          latest \<leftarrow> latest_store e load g rs;
          srs \<leftarrow> mayread_opt e load latest rs;
          Some (srs, g\<lparr> cg_loadtable := (cg_loadtable g)(load \<mapsto> srs) \<rparr>) })"

definition getMayReadFromSet :: "execution \<Rightarrow> rid \<Rightarrow> cgen \<Rightarrow> (rid list \<times> cgen) option" where
  "getMayReadFromSet e load g = do {
     addrs \<leftarrow> getSet VC_ADDRINDEX (rec_of e load);
     if length addrs = 1 then getMayReadFromSetOpt e load g
     else case cg_loadtable g load of
            Some srs \<Rightarrow> Some (srs, g)
          | None \<Rightarrow> do {
              srs \<leftarrow> foldM (mayread_addr e load) addrs [];
              Some (srs, g\<lparr> cg_loadtable := (cg_loadtable g)(load \<mapsto> srs) \<rparr>) } }"

subsection \<open>Conflicting stores\<close>

definition surely_ordered :: "config \<Rightarrow> execution \<Rightarrow> cgen \<Rightarrow> rid \<Rightarrow> rid \<Rightarrow> bool option" where
  "surely_ordered cfg e g r s = map_option isTrue (getOrderConstraint cfg e r s g)"

text \<open>
  A store that is surely between \<open>a\<close> and \<open>b\<close>, has \<open>addr\<close> as its only address and executes
  whenever \<open>conflict\<close> does.
\<close>

definition hides :: "config \<Rightarrow> execution \<Rightarrow> cgen \<Rightarrow> uint64 \<Rightarrow> rid \<Rightarrow> rid \<Rightarrow> rid \<Rightarrow> rid \<Rightarrow> bool option" where
  "hides cfg e g addr conflict a b checkstore = do {
     after \<leftarrow> surely_ordered cfg e g a checkstore;
     if \<not> after then Some False
     else do {
       isbefore \<leftarrow> surely_ordered cfg e g checkstore b;
       if \<not> isbefore then Some False
       else do {
         addrs \<leftarrow> getSet VC_ADDRINDEX (rec_of e checkstore);
         if length addrs \<noteq> 1 \<or> addr \<notin> set addrs then Some False
         else subsumesExecutionConstraint cfg e checkstore conflict g } } }"

definition redundant :: "config \<Rightarrow> execution \<Rightarrow> cgen \<Rightarrow> uint64 \<Rightarrow> rid \<Rightarrow> rid \<Rightarrow> rid \<Rightarrow> rid list \<Rightarrow> bool option" where
  "redundant cfg e g addr store load conflict srs = do {
     afterstore \<leftarrow> surely_ordered cfg e g store conflict;
     beforeload \<leftarrow> surely_ordered cfg e g conflict load;
     prune \<leftarrow> (if afterstore then any_opt (hides cfg e g addr conflict store conflict) srs else Some False);
     if beforeload \<and> \<not> prune then any_opt (hides cfg e g addr conflict conflict load) srs else Some prune }"

text \<open>\<open>Some None\<close> is the null result: with more than one common address nothing is pruned.\<close>

definition computeConflictSet ::
  "config \<Rightarrow> execution \<Rightarrow> rid \<Rightarrow> rid \<Rightarrow> rid list \<Rightarrow> cgen \<Rightarrow> rid list option option" where
  "computeConflictSet cfg e store load baseset g = do {
     saddrs \<leftarrow> getSet VC_ADDRINDEX (rec_of e store);
     laddrs \<leftarrow> getSet VC_ADDRINDEX (rec_of e load);
     let common = filter (\<lambda>a. a \<in> set laddrs) saddrs;
     if common = [] then None
     else if length common \<noteq> 1 then Some None
     else do {
       srs \<leftarrow> foldM (\<lambda>conflict srs. do {
                 b \<leftarrow> redundant cfg e g (hd common) store load conflict srs;
                 Some (if b then remove1 conflict srs else srs) }) baseset baseset;
       Some (Some srs) } }"

subsection \<open>Value encodings\<close>

definition fr_encoding :: "execution \<Rightarrow> rid \<Rightarrow> constraint list \<Rightarrow> uint64 \<Rightarrow> constraint option option" where
  "fr_encoding e r vars val = do {
     _ \<leftarrow> FunctionRecord_set (rec_of e r);
     Some (fr_getValueEncoding (rec_of e r) vars val) }"

definition getRetValueEncoding :: "execution \<Rightarrow> rid \<Rightarrow> uint64 \<Rightarrow> cgen \<Rightarrow> (constraint option \<times> cgen) option" where
  "getRetValueEncoding e r val g =
     (case event (rec_of e r) of
        EQUALS \<Rightarrow> do { v \<leftarrow> equalstable g r; Some (Some (er_getValueEncoding v val), g) }
      | FUNCTION \<Rightarrow> do { vars \<leftarrow> functiontable g r; c \<leftarrow> fr_encoding e r vars val; Some (c, g) }
      | LOAD \<Rightarrow> do { i \<leftarrow> getStoreLoadSet e r g; sls_getValueEncoding i r val g }
      | RMW \<Rightarrow> do { i \<leftarrow> getStoreLoadSet e r g; sls_getRMWRValueEncoding i r val g }
      | _ \<Rightarrow> None)"

definition getMemValueEncoding :: "execution \<Rightarrow> rid \<Rightarrow> uint64 \<Rightarrow> cgen \<Rightarrow> (constraint option \<times> cgen) option" where
  "getMemValueEncoding e r val g =
     (if writes (rec_of e r) then do { i \<leftarrow> getStoreLoadSet e r g; sls_getValueEncoding i r val g } else None)"

text \<open>The use of a constraint that must not be null.\<close>

definition ret_value :: "execution \<Rightarrow> rid \<Rightarrow> uint64 \<Rightarrow> cgen \<Rightarrow> (constraint \<times> cgen) option" where
  "ret_value e r val g = do { (c, g) \<leftarrow> getRetValueEncoding e r val g; c \<leftarrow> c; Some (c, g) }"

definition mem_value :: "execution \<Rightarrow> rid \<Rightarrow> uint64 \<Rightarrow> cgen \<Rightarrow> (constraint \<times> cgen) option" where
  "mem_value e r val g = do { (c, g) \<leftarrow> getMemValueEncoding e r val g; c \<leftarrow> c; Some (c, g) }"

subsection \<open>LoadRF\<close>

text \<open>One variable vector says which store is read: its code is the position in the set.\<close>

definition new_LoadRF :: "execution \<Rightarrow> rid \<Rightarrow> cgen \<Rightarrow> (constraint list \<times> cgen) option" where
  "new_LoadRF e load g = do {
     (mrfSet, g) \<leftarrow> getMayReadFromSet e load g;
     Some (getArrayNewVars (numbits (of_nat (length mrfSet))) g) }"

text \<open>Under TSO a store and a load of one thread are related by program order here.\<close>

definition rf_order :: "config \<Rightarrow> execution \<Rightarrow> rid \<Rightarrow> rid \<Rightarrow> cgen \<Rightarrow> constraint option" where
  "rf_order cfg e first second g =
     (if TSO cfg \<and> same_thread e first second
      then map_option (\<lambda>b. if b then TRUE else FALSE) (program_order e first second)
      else getOrderConstraint cfg e first second g)"

text \<open>What all stores of one load share: the variables of the load.\<close>

record rf_context =
  rf_sls :: nat
  rf_vars :: "constraint list"
  loadvalvars :: "constraint list"
  loadaddrvars :: "constraint list"

definition rf_conflict :: "config \<Rightarrow> execution \<Rightarrow> rid \<Rightarrow> rf_context \<Rightarrow> nat \<Rightarrow> rid \<Rightarrow> rid \<Rightarrow> cgen \<Rightarrow> cgen option" where
  "rf_conflict cfg e load rf storeindex store conflictstore g = do {
     (confstoreaddrvars, g) \<leftarrow> getAddrVars (rf_sls rf) conflictstore g;
     storebeforeconflict \<leftarrow> getOrderConstraint cfg e store conflictstore g;
     if isFalse storebeforeconflict then Some g
     else do {
       conflictbeforeload \<leftarrow> rf_order cfg e conflictstore load g;
       if isFalse conflictbeforeload then Some g
       else do {
         let rfconst = generateConstraint (rf_vars rf) (of_nat storeindex);
         ex \<leftarrow> getExecutionConstraint e conflictstore g;
         addConstraint (IMPLIES (AND [storebeforeconflict, conflictbeforeload, rfconst, ex])
           (negate (generateEquivConstraints (loadaddrvars rf) confstoreaddrvars))) g } } }"

definition rf_store :: "config \<Rightarrow> execution \<Rightarrow> rid \<Rightarrow> rf_context \<Rightarrow> rid list \<Rightarrow> nat \<times> rid \<Rightarrow> cgen \<Rightarrow> cgen option" where
  "rf_store cfg e load rf mrfSet p g = do {
     let (storeindex, store) = p;
     (storevalvars, g) \<leftarrow> getValVars (rf_sls rf) store g;
     let rfconst = (if rf_vars rf = [] then TRUE else generateConstraint (rf_vars rf) (of_nat storeindex));
     storebeforeload \<leftarrow> rf_order cfg e store load g;
     let storevalmatch = generateEquivConstraints (loadvalvars rf) storevalvars;
     storeexecuted \<leftarrow> getExecutionConstraint e store g;
     (storeaddrvars, g) \<leftarrow> getAddrVars (rf_sls rf) store g;
     let storeaddressmatch = generateEquivConstraints (loadaddrvars rf) storeaddrvars;
     g \<leftarrow> addConstraint (IMPLIES rfconst (AND [storebeforeload, storevalmatch, storeexecuted, storeaddressmatch])) g;
     conflictSet \<leftarrow> computeConflictSet cfg e store load mrfSet g;
     foldM (rf_conflict cfg e load rf storeindex store)
       (case conflictSet of None \<Rightarrow> mrfSet | Some cs \<Rightarrow> cs) g }"

definition rf_genConstraints :: "config \<Rightarrow> execution \<Rightarrow> rid \<Rightarrow> constraint list \<Rightarrow> cgen \<Rightarrow> cgen option" where
  "rf_genConstraints cfg e load vars g = do {
     (mrfSet, g) \<leftarrow> getMayReadFromSet e load g;
     i \<leftarrow> getStoreLoadSet e load g;
     (_, g) \<leftarrow> getNumValVars i g;
     (_, g) \<leftarrow> getNumAddrVars i g;
     (lvals, g) \<leftarrow> (if event (rec_of e load) = RMW then getRMWRValVars i load g else getValVars i load g);
     (laddrs, g) \<leftarrow> getAddrVars i load g;
     let rf = \<lparr> rf_sls = i, rf_vars = vars, loadvalvars = lvals, loadaddrvars = laddrs \<rparr>;
     g \<leftarrow> foldM (rf_store cfg e load rf mrfSet) (enumerate 0 mrfSet) g;
     ex \<leftarrow> getExecutionConstraint e load g;
     addConstraint (IMPLIES ex (generateLTConstraint vars (of_nat (length mrfSet)))) g }"

definition processLoadRF :: "config \<Rightarrow> execution \<Rightarrow> rid \<Rightarrow> cgen \<Rightarrow> cgen option" where
  "processLoadRF cfg e load g = do {
     (vars, g) \<leftarrow> new_LoadRF e load g;
     rf_genConstraints cfg e load vars g }"

end
