(* ===== verification/Processing.thy ===== *)
theory Processing
  imports LoadRF
begin

section \<open>The two passes over the recorded execution (constgen.cc)\<close>

text \<open>
  The first pass (\<open>visitRecord\<close>) gives every record its variables and tables, the second pass
  (\<open>processRecord\<close>) emits the constraints that make an assignment of the variables an execution,
  and collects as goals the behaviours not seen yet. The traversal follows the records in program
  order with a stack of pending branches; it ends when the graph is finite and acyclic, which the
  recursion does not assume: \<open>None\<close> is also a traversal that never returns.
\<close>

subsection \<open>First pass\<close>

definition recordExecCond :: "execution \<Rightarrow> rid \<Rightarrow> cgen \<Rightarrow> cgen option" where
  "recordExecCond e r g = do {
     srs \<leftarrow> foldM (\<lambda>nonlocal srs. do {
         let epnl = r_ep (rec_of e nonlocal);
         subsumed \<leftarrow> (case branch (rec_of e r) of
             None \<Rightarrow> Some False
           | Some b \<Rightarrow> map_option (\<lambda>c. c = CR_BEFORE)
               (ep_compare (r_ep (rec_of e (v_record (val_of e b)))) epnl));
         if subsumed then Some srs
         else do {
           c \<leftarrow> ep_compare (r_ep (rec_of e r)) epnl;
           Some (if c = CR_BEFORE then oset_add nonlocal srs else srs) } }) (nonlocaltrans g) [];
     Some (if srs = [] then g else g\<lparr> execcondtable := (execcondtable g)(r \<mapsto> srs) \<rparr>) }"

definition insertNonLocal :: "rid \<Rightarrow> cgen \<Rightarrow> cgen" where
  "insertNonLocal r g = g\<lparr> nonlocaltrans := oset_add r (nonlocaltrans g) \<rparr>"

definition insertLabel :: "execution \<Rightarrow> rid \<Rightarrow> cgen \<Rightarrow> cgen" where
  "insertLabel e r g =
     g\<lparr> nonlocaltrans := filter (\<lambda>n. nextRecord (rec_of e n) \<noteq> Some r) (nonlocaltrans g) \<rparr>"

definition insertBranch :: "config \<Rightarrow> execution \<Rightarrow> rid \<Rightarrow> cgen \<Rightarrow> cgen" where
  "insertBranch cfg e r g =
     (let open_dirs = numValues (hp e) r < rec_len (rec_of e r);
          g = (if open_dirs \<and> noexecyields cfg
               then g\<lparr> incompleteexploredbranch := oset_add r (incompleteexploredbranch g) \<rparr> else g);
          always = isAlwaysExecuted e r g;
          numvalue = branch_codes (numValues (hp e) r) (rec_len (rec_of e r)) always;
          (bits, g) = getArrayNewVars (numbits (of_nat numvalue - 1)) g in
      g\<lparr> branchtable := (branchtable g)(r \<mapsto> new_BranchRecord (hp e) r bits always) \<rparr>)"

definition insertFunction :: "execution \<Rightarrow> rid \<Rightarrow> cgen \<Rightarrow> cgen option" where
  "insertFunction e r g = do {
     n \<leftarrow> FunctionRecord_numvars (rec_of e r);
     let (fvars, g) = getArrayNewVars n g;
     Some (g\<lparr> functiontable := (functiontable g)(r \<mapsto> fvars) \<rparr>) }"

definition insertEquals :: "rid \<Rightarrow> cgen \<Rightarrow> cgen" where
  "insertEquals r g = (let (v, g) = getNewVar g in g\<lparr> equalstable := (equalstable g)(r \<mapsto> v) \<rparr>)"

text \<open>Under TSO a load gets an order variable with every store before it up to a sure fence.\<close>

fun tso_actions :: "execution \<Rightarrow> rid \<Rightarrow> rid list \<Rightarrow> cgen \<Rightarrow> cgen option" where
  "tso_actions e load [] g = Some g"
| "tso_actions e load (oldrec # older) g =
     (if (event (rec_of e oldrec) = RMW \<or> event (rec_of e oldrec) = FENCE) \<and> isAlwaysExecuted e oldrec g then Some g
      else if event (rec_of e oldrec) = STORE then do {
        g \<leftarrow> createOrderConstraint e oldrec load g;
        tso_actions e load older g }
      else tso_actions e load older g)"

definition insertTSOAction :: "execution \<Rightarrow> rid \<Rightarrow> cgen \<Rightarrow> cgen option" where
  "insertTSOAction e load g =
     (if event (rec_of e load) \<noteq> LOAD then Some g
      else do {
        vector \<leftarrow> nth_opt (threadactions g) (ep_tid (r_ep (rec_of e load)));
        tso_actions e load (rev (butlast vector)) g })"

definition insertAction :: "config \<Rightarrow> execution \<Rightarrow> rid \<Rightarrow> cgen \<Rightarrow> cgen option" where
  "insertAction cfg e r g = do {
     let thread = ep_tid (r_ep (rec_of e r));
     let actions = resize_to (thread + 1) [] (threadactions g);
     let actions = actions[thread := actions ! thread @ [r]];
     g \<leftarrow> foldM (\<lambda>oldrec. createOrderConstraint e oldrec r)
            (concat (map (\<lambda>i. if i = thread then [] else actions ! i) [0..<length actions]))
            (g\<lparr> threadactions := actions \<rparr>);
     if TSO cfg then insertTSOAction e r g else Some g }"

definition visitRecord :: "config \<Rightarrow> execution \<Rightarrow> rid \<Rightarrow> cgen \<Rightarrow> cgen option" where
  "visitRecord cfg e r g =
     (let ev = event (rec_of e r) in
      if ev = EQUALS then map_option (insertEquals r) (recordExecCond e r g)
      else if ev = FUNCTION then Option.bind (recordExecCond e r g) (insertFunction e r)
      else if ev = FENCE then (if TSO cfg then Option.bind (recordExecCond e r g) (insertAction cfg e r) else Some g)
      else if ev = LOAD \<or> ev = STORE \<or> ev = RMW then do {
        g \<leftarrow> recordExecCond e r g;
        g \<leftarrow> insertAction cfg e r g;
        groupMemoryOperations e r g }
      else if ev = BRANCHDIR then map_option (insertBranch cfg e r) (recordExecCond e r g)
      else if ev = LOOPEXIT \<or> ev = YIELD then recordExecCond e r g
      else if ev = NONLOCALTRANS then map_option (insertNonLocal r) (recordExecCond e r g)
      else if ev = LABEL then Some (insertLabel e r g)
      else Some g)"

subsection \<open>Transitivity of the order\<close>

definition genTransOrderConstraint :: "config \<Rightarrow> execution \<Rightarrow> rid \<Rightarrow> rid \<Rightarrow> rid \<Rightarrow> cgen \<Rightarrow> cgen option" where
  "genTransOrderConstraint cfg e t1rec t2rec t3rec g = do {
     c21 \<leftarrow> getOrderConstraint cfg e t2rec t1rec g;
     c32 \<leftarrow> getOrderConstraint cfg e t3rec t2rec g;
     c13 \<leftarrow> getOrderConstraint cfg e t1rec t3rec g;
     g \<leftarrow> addConstraint (OR [c21, c32, c13]) g;
     c12 \<leftarrow> getOrderConstraint cfg e t1rec t2rec g;
     c23 \<leftarrow> getOrderConstraint cfg e t2rec t3rec g;
     c31 \<leftarrow> getOrderConstraint cfg e t3rec t1rec g;
     addConstraint (OR [c12, c23, c31]) g }"

definition genTrans3 :: "config \<Rightarrow> execution \<Rightarrow> rid list \<Rightarrow> rid list \<Rightarrow> rid list \<Rightarrow> cgen \<Rightarrow> cgen option" where
  "genTrans3 cfg e t1vec t2vec t3vec =
     foldM (\<lambda>t1rec. foldM (\<lambda>t2rec. foldM (genTransOrderConstraint cfg e t1rec t2rec) t3vec) t2vec) t1vec"

text \<open>
  \<open>t3rec\<close> after \<open>t2rec\<close> in its thread, and \<open>t0rec\<close> before \<open>t1rec\<close> in its thread; the second
  constraint of each kind is for a store and a later load of one thread that TSO may reorder.
\<close>

definition intra_after :: "config \<Rightarrow> execution \<Rightarrow> rid \<Rightarrow> rid \<Rightarrow> constraint \<Rightarrow> rid \<Rightarrow> cgen \<Rightarrow> cgen option" where
  "intra_after cfg e t1rec t2rec c21 t3rec g = do {
     c13 \<leftarrow> getOrderConstraint cfg e t1rec t3rec g;
     if TSO cfg then do {
       c32 \<leftarrow> getOrderConstraint cfg e t3rec t2rec g;
       g \<leftarrow> (if \<not> isFalse c32 then do {
               c12 \<leftarrow> getOrderConstraint cfg e t1rec t2rec g;
               c23 \<leftarrow> getOrderConstraint cfg e t2rec t3rec g;
               c31 \<leftarrow> getOrderConstraint cfg e t3rec t1rec g;
               addConstraint (OR [c31, c23, c12]) g }
             else Some g);
       addConstraint (OR [c21, c32, c13]) g }
     else addConstraint (OR [c21, c13]) g }"

definition intra_before :: "config \<Rightarrow> execution \<Rightarrow> rid \<Rightarrow> rid \<Rightarrow> constraint \<Rightarrow> rid \<Rightarrow> cgen \<Rightarrow> cgen option" where
  "intra_before cfg e t1rec t2rec c21 t0rec g = do {
     c02 \<leftarrow> getOrderConstraint cfg e t0rec t2rec g;
     if TSO cfg then do {
       c10 \<leftarrow> getOrderConstraint cfg e t1rec t0rec g;
       g \<leftarrow> (if \<not> isFalse c10 then do {
               c01 \<leftarrow> getOrderConstraint cfg e t0rec t1rec g;
               c12 \<leftarrow> getOrderConstraint cfg e t1rec t2rec g;
               c20 \<leftarrow> getOrderConstraint cfg e t2rec t0rec g;
               addConstraint (OR [c01, c12, c20]) g }
             else Some g);
       addConstraint (OR [c10, c21, c02]) g }
     else addConstraint (OR [c21, c02]) g }"

definition genTransPair :: "config \<Rightarrow> execution \<Rightarrow> rid list \<Rightarrow> rid list \<Rightarrow> nat \<times> nat \<Rightarrow> cgen \<Rightarrow> cgen option" where
  "genTransPair cfg e t1vec t2vec p g = do {
     let (t1i, t2i) = p;
     let t1rec = t1vec ! t1i;
     let t2rec = t2vec ! t2i;
     c21 \<leftarrow> getOrderConstraint cfg e t2rec t1rec g;
     if isTrue c21 then Some g
     else do {
       g \<leftarrow> foldM (intra_after cfg e t1rec t2rec c21) (drop (t2i + 1) t2vec) g;
       foldM (intra_before cfg e t1rec t2rec c21) (take t1i t1vec) g } }"

definition genTrans2 :: "config \<Rightarrow> execution \<Rightarrow> rid list \<Rightarrow> rid list \<Rightarrow> cgen \<Rightarrow> cgen option" where
  "genTrans2 cfg e t1vec t2vec =
     foldM (genTransPair cfg e t1vec t2vec) (List.product [0..<length t1vec] [0..<length t2vec])"

definition genTransOrderConstraints :: "config \<Rightarrow> execution \<Rightarrow> cgen \<Rightarrow> cgen option" where
  "genTransOrderConstraints cfg e g =
     foldM (\<lambda>t1. foldM (\<lambda>t2 g. do {
         let t1vec = threadactions g ! t1;
         let t2vec = threadactions g ! t2;
         g \<leftarrow> genTrans2 cfg e t1vec t2vec g;
         g \<leftarrow> genTrans2 cfg e t2vec t1vec g;
         foldM (\<lambda>t3 g. genTrans3 cfg e t1vec t2vec (threadactions g ! t3) g) [0..<t2] g }) [0..<t1])
       [0..<length (threadactions g)] g"

text \<open>
  The TSO constraints for a store and the loads after it. The code reads the record at the index
  of the store, not of the load, so it never sees a load.
\<close>

fun tso_loads :: "config \<Rightarrow> execution \<Rightarrow> rid list \<Rightarrow> nat \<Rightarrow> rid option \<Rightarrow> rid option \<Rightarrow> nat list \<Rightarrow> cgen \<Rightarrow> cgen option" where
  "tso_loads cfg e tvec store_i laststore lastload [] g = Some g"
| "tso_loads cfg e tvec store_i laststore lastload (load_i # loads) g =
     (let store = tvec ! store_i; r = tvec ! store_i in
      if (event (rec_of e r) = RMW \<or> event (rec_of e r) = FENCE) \<and> isAlwaysExecuted e r g then Some g
      else if event (rec_of e r) \<noteq> LOAD then tso_loads cfg e tvec store_i laststore lastload loads g
      else do {
        g \<leftarrow> (case laststore of
                None \<Rightarrow> Some g
              | Some l \<Rightarrow> do {
                  storeload \<leftarrow> getOrderConstraint cfg e store r g;
                  earlystoreload \<leftarrow> getOrderConstraint cfg e l r g;
                  addConstraint (IMPLIES storeload earlystoreload) g });
        g \<leftarrow> (case lastload of
                None \<Rightarrow> Some g
              | Some l \<Rightarrow> do {
                  storeearlyload \<leftarrow> getOrderConstraint cfg e store l g;
                  storeload \<leftarrow> getOrderConstraint cfg e store r g;
                  addConstraint (IMPLIES storeearlyload storeload) g });
        tso_loads cfg e tvec store_i laststore (Some r) loads g })"

fun tso_stores :: "config \<Rightarrow> execution \<Rightarrow> rid list \<Rightarrow> rid option \<Rightarrow> nat list \<Rightarrow> cgen \<Rightarrow> cgen option" where
  "tso_stores cfg e tvec laststore [] g = Some g"
| "tso_stores cfg e tvec laststore (store_i # stores) g =
     (if event (rec_of e (tvec ! store_i)) \<noteq> STORE then tso_stores cfg e tvec laststore stores g
      else do {
        g \<leftarrow> tso_loads cfg e tvec store_i laststore None [store_i + 1..<length tvec] g;
        tso_stores cfg e tvec (Some (tvec ! store_i)) stores g })"

definition genTSOTransOrderConstraints :: "config \<Rightarrow> execution \<Rightarrow> cgen \<Rightarrow> cgen option" where
  "genTSOTransOrderConstraints cfg e g =
     foldM (\<lambda>tvec. tso_stores cfg e tvec None [0..<length tvec]) (threadactions g) g"

end
