(* ===== verification/Generation.thy ===== *)
theory Generation
  imports Processing
begin

section \<open>The second pass and the run of the generator (constgen.cc)\<close>

text \<open>
  The constraints for every kind of record, the traversal, and the operations the planner calls:
  \<open>process\<close> builds and solves a new encoding, \<open>canReuseEncoding\<close> asks the same solver for another
  goal. The solver process is the parameter \<open>sat\<close> of these two: from the integers written to it so
  far to the bytes it sends back, in pieces.
\<close>

subsection \<open>Sources of values\<close>

text \<open>The record an input comes from, \<open>None\<close> for a constant; the code asserts that it is one record.\<close>

definition dep_src :: "execution \<Rightarrow> rid \<Rightarrow> nat \<Rightarrow> rid option option" where
  "dep_src e r i =
     (case getRevDependences e r i of
        None \<Rightarrow> Some None
      | Some [src] \<Rightarrow> Some (Some src)
      | Some _ \<Rightarrow> None)"

definition first_of :: "execution \<Rightarrow> rid \<Rightarrow> nat \<Rightarrow> uint64 option" where
  "first_of e r i = do { s \<leftarrow> getSet i (rec_of e r); nth_opt s 0 }"

definition sl_values_of :: "nat \<Rightarrow> cgen \<Rightarrow> uint64 list option" where
  "sl_values_of i g = map_option sl_values (slheap g i)"

subsection \<open>Branches\<close>

definition branch_value :: "execution \<Rightarrow> rid \<Rightarrow> branch_record \<Rightarrow> rid \<Rightarrow> vid \<Rightarrow> cgen \<Rightarrow> cgen option" where
  "branch_value e r br val_record branchval g = do {
     let val = v_value (val_of e branchval);
     ex \<leftarrow> getExecutionConstraint e r g;
     dir \<leftarrow> getBranch (hp e) br branchval;
     if val = 0 \<or> \<not> anyvalue (rec_of e r) then do {
       (c, g) \<leftarrow> ret_value e val_record val g;
       addConstraint (IMPLIES (AND [ex, c]) dir) g }
     else do {
       (zero, g) \<leftarrow> getRetValueEncoding e val_record 0 g;
       case zero of
         Some z \<Rightarrow> addConstraint (IMPLIES (AND [negate z, ex]) dir) g
       | None \<Rightarrow>
           foldM (\<lambda>epval g. do {
               (valuematches, g) \<leftarrow> ret_value e val_record (v_value (val_of e epval)) g;
               addConstraint (IMPLIES (AND [ex, valuematches]) dir) g })
             (valuevector (rec_of e val_record)) g } }"

definition processBranch :: "execution \<Rightarrow> rid \<Rightarrow> cgen \<Rightarrow> cgen option" where
  "processBranch e r g = do {
     br \<leftarrow> branchtable g r;
     let g = (if numValues (hp e) r < rec_len (rec_of e r) then addBranchGoal r (getNewBranch br) g else g);
     base \<leftarrow> getExecutionConstraint e r g;
     g \<leftarrow> (if \<not> isAlwaysExecuted e r g then addConstraint (IMPLIES (getAnyBranch br) base) g else Some g);
     src \<leftarrow> dep_src e r VC_BASEINDEX;
     val_record \<leftarrow> src;
     foldM (branch_value e r br val_record) (valuevector (rec_of e r)) g }"

subsection \<open>Memory operations\<close>

definition processAddresses :: "execution \<Rightarrow> rid \<Rightarrow> cgen \<Rightarrow> cgen option" where
  "processAddresses e r g = do {
     sls \<leftarrow> getStoreLoadSet e r g;
     src \<leftarrow> dep_src e r VC_ADDRINDEX;
     case src of
       None \<Rightarrow> do {
         v \<leftarrow> nth_opt (valuevector (rec_of e r)) 0;
         (addrenc, g) \<leftarrow> sls_getAddressEncoding sls r (v_addr (val_of e v)) g;
         addrenc \<leftarrow> addrenc;
         addConstraint addrenc g }
     | Some src \<Rightarrow> do {
         addrs \<leftarrow> getSet VC_ADDRINDEX (rec_of e r);
         foldM (\<lambda>addr g. do {
             (srcenc, g) \<leftarrow> ret_value e src (addr - offset (rec_of e r)) g;
             (addrenc, g) \<leftarrow> sls_getAddressEncoding sls r addr g;
             addrenc \<leftarrow> addrenc;
             addConstraint (IMPLIES srcenc addrenc) g }) addrs g } }"

definition processLoad :: "config \<Rightarrow> execution \<Rightarrow> rid \<Rightarrow> cgen \<Rightarrow> cgen option" where
  "processLoad cfg e r g = do {
     g \<leftarrow> processLoadRF cfg e r g;
     processAddresses e r g }"

definition processStore :: "execution \<Rightarrow> rid \<Rightarrow> cgen \<Rightarrow> cgen option" where
  "processStore e r g = do {
     src \<leftarrow> dep_src e r VC_BASEINDEX;
     g \<leftarrow> (case src of
            None \<Rightarrow> do {
              v \<leftarrow> nth_opt (valuevector (rec_of e r)) 0;
              (storeenc, g) \<leftarrow> mem_value e r (v_value (val_of e v)) g;
              addConstraint storeenc g }
          | Some src \<Rightarrow> do {
              vs \<leftarrow> getStoreSet (rec_of e r);
              foldM (\<lambda>val g. do {
                  (srcenc, g) \<leftarrow> ret_value e src val g;
                  (storeenc, g) \<leftarrow> mem_value e r val g;
                  addConstraint (IMPLIES srcenc storeenc) g }) vs g });
     processAddresses e r g }"

text \<open>
  The two halves of a compare-and-swap: \<open>eq\<close> is true exactly when the value read is the expected
  one; then the new value is stored, otherwise the value read.
\<close>

definition cas_compare :: "execution \<Rightarrow> rid \<Rightarrow> nat \<Rightarrow> constraint \<Rightarrow> cgen \<Rightarrow> cgen option" where
  "cas_compare e r sls eq g = do {
     src \<leftarrow> dep_src e r VC_OLDVALCASINDEX;
     case src of
       None \<Rightarrow> do {
         valcas \<leftarrow> first_of e r VC_OLDVALCASINDEX;
         (rmwr, g) \<leftarrow> sls_getRMWRValueEncoding sls r valcas g;
         case rmwr of
           None \<Rightarrow> addConstraint (negate eq) g
         | Some rmwr \<Rightarrow> addConstraint (generateEquivConstraint eq rmwr) g }
     | Some src \<Rightarrow> do {
         vs \<leftarrow> sl_values_of sls g;
         g \<leftarrow> foldM (\<lambda>valcas g. do {
             (srcenc, g) \<leftarrow> getRetValueEncoding e src valcas g;
             (storeenc, g) \<leftarrow> sls_getRMWRValueEncoding sls r valcas g;
             case (srcenc, storeenc) of
               (Some srcenc, Some storeenc) \<Rightarrow>
                 addConstraint (IMPLIES storeenc (AND [IMPLIES srcenc eq, IMPLIES eq srcenc])) g
             | (None, storeenc) \<Rightarrow> do {
                 storeenc \<leftarrow> storeenc;
                 addConstraint (IMPLIES storeenc (negate eq)) g }
             | (Some srcenc, None) \<Rightarrow> Some g }) vs g;
         olds \<leftarrow> getSet VC_OLDVALCASINDEX (rec_of e r);
         foldM (\<lambda>val g. do {
             vs \<leftarrow> sl_values_of sls g;
             if val \<notin> set vs then do {
               (srcenc, g) \<leftarrow> ret_value e src val g;
               addConstraint (IMPLIES srcenc (negate eq)) g }
             else Some g }) olds g } }"

definition cas_store :: "execution \<Rightarrow> rid \<Rightarrow> nat \<Rightarrow> constraint \<Rightarrow> cgen \<Rightarrow> cgen option" where
  "cas_store e r sls eq g = do {
     src \<leftarrow> dep_src e r VC_BASEINDEX;
     g \<leftarrow> (case src of
            None \<Rightarrow> do {
              val \<leftarrow> first_of e r VC_BASEINDEX;
              (storeenc, g) \<leftarrow> mem_value e r val g;
              addConstraint (IMPLIES eq storeenc) g }
          | Some src \<Rightarrow> do {
              vs \<leftarrow> getStoreSet (rec_of e r);
              foldM (\<lambda>val g. do {
                  (srcenc, g) \<leftarrow> getRetValueEncoding e src val g;
                  case srcenc of
                    None \<Rightarrow> Some g
                  | Some srcenc \<Rightarrow> do {
                      (storeenc, g) \<leftarrow> mem_value e r val g;
                      addConstraint (IMPLIES (AND [eq, srcenc]) storeenc) g } }) vs g });
     (_, g) \<leftarrow> getNumValVars sls g;
     (vv, g) \<leftarrow> getValVars sls r g;
     (rv, g) \<leftarrow> getRMWRValVars sls r g;
     addConstraint (IMPLIES (negate eq) (generateEquivConstraints vv rv)) g }"

definition processCAS :: "config \<Rightarrow> execution \<Rightarrow> rid \<Rightarrow> cgen \<Rightarrow> cgen option" where
  "processCAS cfg e r g = do {
     g \<leftarrow> processLoadRF cfg e r g;
     let (eq, g) = getNewVar g;
     sls \<leftarrow> getStoreLoadSet e r g;
     g \<leftarrow> cas_compare e r sls eq g;
     g \<leftarrow> cas_store e r sls eq g;
     processAddresses e r g }"

definition processEXC :: "config \<Rightarrow> execution \<Rightarrow> rid \<Rightarrow> cgen \<Rightarrow> cgen option" where
  "processEXC cfg e r g = do {
     g \<leftarrow> processLoadRF cfg e r g;
     src \<leftarrow> dep_src e r VC_BASEINDEX;
     g \<leftarrow> (case src of
            None \<Rightarrow> do {
              val \<leftarrow> first_of e r VC_BASEINDEX;
              (storeenc, g) \<leftarrow> mem_value e r val g;
              addConstraint storeenc g }
          | Some src \<Rightarrow> do {
              vs \<leftarrow> getStoreSet (rec_of e r);
              foldM (\<lambda>val g. do {
                  (srcenc, g) \<leftarrow> ret_value e src val g;
                  (storeenc, g) \<leftarrow> mem_value e r val g;
                  addConstraint (IMPLIES srcenc storeenc) g }) vs g });
     processAddresses e r g }"

text \<open>
  An atomic add: \<open>var\<close> false says that the sum is one of the known values. For an addend that is
  computed, the code takes the values of the store set, which holds sums, as the addends.
\<close>

definition add_sum :: "execution \<Rightarrow> rid \<Rightarrow> uint64 \<Rightarrow> uint64 \<Rightarrow> uint64" where
  "add_sum e r memval val = bit_and64 (memval + val) (getmask (rec_len (rec_of e r)))"

definition processAdd :: "config \<Rightarrow> execution \<Rightarrow> rid \<Rightarrow> cgen \<Rightarrow> cgen option" where
  "processAdd cfg e r g = do {
     g \<leftarrow> processLoadRF cfg e r g;
     let (var, g) = getNewVar g;
     ex \<leftarrow> getExecutionConstraint e r g;
     let g = addGoal r (AND [var, ex]) g;
     sls \<leftarrow> getStoreLoadSet e r g;
     src \<leftarrow> dep_src e r VC_BASEINDEX;
     valset \<leftarrow> sl_values_of sls g;
     g \<leftarrow> (case src of
            None \<Rightarrow> do {
              val \<leftarrow> first_of e r VC_BASEINDEX;
              foldM (\<lambda>memval g.
                  if add_sum e r memval val \<in> set valset then do {
                    (loadenc, g) \<leftarrow> sls_getRMWRValueEncoding sls r memval g;
                    loadenc \<leftarrow> loadenc;
                    (storeenc, g) \<leftarrow> mem_value e r (add_sum e r memval val) g;
                    addConstraint (IMPLIES loadenc (AND [storeenc, negate var])) g }
                  else Some g) valset g }
          | Some src \<Rightarrow> do {
              vs \<leftarrow> getStoreSet (rec_of e r);
              foldM (\<lambda>val. foldM (\<lambda>memval g.
                  if add_sum e r memval val \<in> set valset then do {
                    (srcenc, g) \<leftarrow> ret_value e src val g;
                    (loadenc, g) \<leftarrow> sls_getRMWRValueEncoding sls r memval g;
                    loadenc \<leftarrow> loadenc;
                    (storeenc, g) \<leftarrow> mem_value e r (add_sum e r memval val) g;
                    addConstraint (IMPLIES (AND [srcenc, loadenc]) (AND [negate var, storeenc])) g }
                  else Some g) valset) vs g });
     processAddresses e r g }"

subsection \<open>Yields\<close>

text \<open>The last earlier yield of the same thread in the list.\<close>

fun previous_yield :: "execution \<Rightarrow> rid \<Rightarrow> rid list \<Rightarrow> rid option option" where
  "previous_yield e r [] = Some None"
| "previous_yield e r (y # ys) =
     (if same_thread e y r then do {
        c \<leftarrow> ep_compare (r_ep (rec_of e r)) (r_ep (rec_of e y));
        if c = CR_BEFORE then Some (Some y) else previous_yield e r ys }
      else previous_yield e r ys)"

definition novel_branch :: "execution \<Rightarrow> rid \<Rightarrow> rid option \<Rightarrow> rid \<Rightarrow> bool option" where
  "novel_branch e r prevyield b =
     (if \<not> same_thread e b r then Some False
      else do {
        c \<leftarrow> ep_compare (r_ep (rec_of e r)) (r_ep (rec_of e b));
        if c \<noteq> CR_BEFORE then Some False
        else case prevyield of
               None \<Rightarrow> Some True
             | Some p \<Rightarrow> map_option (\<lambda>c. c \<noteq> CR_BEFORE) (ep_compare (r_ep (rec_of e p)) (r_ep (rec_of e b))) })"

definition computeYieldCond :: "execution \<Rightarrow> rid \<Rightarrow> cgen \<Rightarrow> cgen option" where
  "computeYieldCond e r g = do {
     prevyield \<leftarrow> previous_yield e r (rev (yieldlist g));
     let g = g\<lparr> yieldlist := yieldlist g @ [r] \<rparr>;
     novel \<leftarrow> foldM (\<lambda>b cs. do {
         n \<leftarrow> novel_branch e r prevyield b;
         if n then do { br \<leftarrow> branchtable g b; Some (cs @ [getNewBranch br]) } else Some cs })
       (incompleteexploredbranch g) [];
     old \<leftarrow> (case prevyield of None \<Rightarrow> Some [] | Some p \<Rightarrow> map_option (\<lambda>c. [c]) (yieldtable g p));
     let cor = (if old @ novel = [] then FALSE else OR (old @ novel));
     let (var, g) = getNewVar g;
     g \<leftarrow> addConstraint (IMPLIES var cor) g;
     Some (g\<lparr> yieldtable := (yieldtable g)(r \<mapsto> var) \<rparr>) }"

definition processYield :: "config \<Rightarrow> execution \<Rightarrow> rid \<Rightarrow> cgen \<Rightarrow> cgen option" where
  "processYield cfg e r g =
     (if noexecyields cfg then do {
        g \<leftarrow> computeYieldCond e r g;
        ex \<leftarrow> getExecutionConstraint e r g;
        branchaway \<leftarrow> yieldtable g r;
        addConstraint (OR [negate ex, branchaway]) g }
      else Some g)"

subsection \<open>Functions\<close>

text \<open>One input of a phi: whenever the input has a value and its record executes, so has the output.\<close>

definition phi_input :: "execution \<Rightarrow> rid \<Rightarrow> rid \<Rightarrow> rid option \<Rightarrow> cgen \<Rightarrow> cgen option" where
  "phi_input e r input guard g = do {
     vs \<leftarrow> getSet VC_BASEINDEX (rec_of e r);
     foldM (\<lambda>val g. do {
         (inputencoding, g) \<leftarrow> getRetValueEncoding e input val g;
         case inputencoding of
           None \<Rightarrow> Some g
         | Some inputencoding \<Rightarrow> do {
             guard \<leftarrow> guard;
             branchconstraint \<leftarrow> getExecutionConstraint e guard g;
             (outputencoding, g) \<leftarrow> ret_value e r val g;
             addConstraint (IMPLIES (AND [inputencoding, branchconstraint]) outputencoding) g } }) vs g }"

definition processLoopPhi :: "execution \<Rightarrow> rid \<Rightarrow> cgen \<Rightarrow> cgen option" where
  "processLoopPhi e r g = do {
     phiset \<leftarrow> philooptable (rec_of e r);
     foldM (\<lambda>rip. phi_input e r (snd rip) (fst rip)) phiset g }"

definition processPhi :: "execution \<Rightarrow> rid \<Rightarrow> cgen \<Rightarrow> cgen option" where
  "processPhi e r g = do {
     inputs \<leftarrow> getRevDependences e r VC_BASEINDEX;
     foldM (\<lambda>input. phi_input e r input (Some input)) inputs g }"

definition goal_fits :: "execution \<Rightarrow> rid \<Rightarrow> cgoal \<Rightarrow> bool option" where
  "goal_fits e r goal =
     (if func_shares_goalset (rec_of e r) then
        map_option Not (any_opt (\<lambda>i. do {
            v \<leftarrow> nth_opt (valarray goal) (i + VC_BASEINDEX);
            s \<leftarrow> getSet (i + VC_BASEINDEX) (rec_of e r);
            Some (v \<notin> set s) }) [0..<getNumFuncInputs (rec_of e r)])
      else Some True)"

fun input_constraints :: "execution \<Rightarrow> cgoal \<Rightarrow> nat \<Rightarrow> rid list \<Rightarrow> cgen \<Rightarrow> (constraint list \<times> cgen) option" where
  "input_constraints e goal i [] g = Some ([], g)"
| "input_constraints e goal i (input # inputs) g = do {
     v \<leftarrow> nth_opt (valarray goal) (i + VC_BASEINDEX);
     (c, g) \<leftarrow> ret_value e input v g;
     (cs, g) \<leftarrow> input_constraints e goal (Suc i) inputs g;
     Some (c # cs, g) }"

definition function_behavior :: "execution \<Rightarrow> rid \<Rightarrow> rid list \<Rightarrow> cgoal \<Rightarrow> cgen \<Rightarrow> cgen option" where
  "function_behavior e r inputs goal g = do {
     fits \<leftarrow> goal_fits e r goal;
     if \<not> fits then Some g
     else do {
       (carray, g) \<leftarrow> input_constraints e goal 0 inputs g;
       (out, g) \<leftarrow> ret_value e r (outputvalue goal) g;
       addConstraint (if inputs = [] then out else IMPLIES (AND carray) out) g } }"

definition processFunction :: "execution \<Rightarrow> rid \<Rightarrow> cgen \<Rightarrow> cgen option" where
  "processFunction e r g =
     (if loopphi (rec_of e r) then processLoopPhi e r g
      else if phi (rec_of e r) then processPhi e r g
      else do {
        goals \<leftarrow> completed (rec_of e r);
        inputs \<leftarrow> map_opt (\<lambda>i. Option.bind (dep_src e r (i + VC_BASEINDEX)) id)
                   [0..<getNumFuncInputs (rec_of e r)];
        g \<leftarrow> foldM (function_behavior e r inputs) (goalsets (hp e) goals) g;
        fvars \<leftarrow> functiontable g r;
        ex \<leftarrow> getExecutionConstraint e r g;
        Some (addGoal r (AND [fr_getNoValueEncoding fvars, ex]) g) })"

subsection \<open>Equality tests\<close>

text \<open>A fresh variable that is true when two literals agree.\<close>

definition equal_bit :: "constraint \<times> constraint \<Rightarrow> cgen \<Rightarrow> (constraint \<times> cgen) option" where
  "equal_bit p g = do {
     let (var1, var2) = p;
     let (v, g) = getNewVar g;
     g \<leftarrow> addConstraint (OR [var1, negate var2, negate v]) g;
     g \<leftarrow> addConstraint (OR [var2, negate var1, negate v]) g;
     g \<leftarrow> addConstraint (OR [var1, var2, v]) g;
     g \<leftarrow> addConstraint (OR [negate var2, negate var1, v]) g;
     Some (v, g) }"

fun equal_bits :: "(constraint \<times> constraint) list \<Rightarrow> cgen \<Rightarrow> (constraint list \<times> cgen) option" where
  "equal_bits [] g = Some ([], g)"
| "equal_bits (p # ps) g = do {
     (v, g) \<leftarrow> equal_bit p g;
     (vs, g) \<leftarrow> equal_bits ps g;
     Some (v # vs, g) }"

definition reads :: "execution \<Rightarrow> rid \<Rightarrow> bool" where
  "reads e r = (event (rec_of e r) = LOAD \<or> event (rec_of e r) = RMW)"

definition read_vars :: "execution \<Rightarrow> nat \<Rightarrow> rid \<Rightarrow> cgen \<Rightarrow> (constraint list \<times> cgen) option" where
  "read_vars e sls r g = (if event (rec_of e r) = RMW then getRMWRValVars sls r g else getValVars sls r g)"

definition equals_special :: "execution \<Rightarrow> constraint \<Rightarrow> nat \<Rightarrow> rid \<Rightarrow> rid \<Rightarrow> cgen \<Rightarrow> cgen option" where
  "equals_special e outputtrue sls in0 in1 g = do {
     (numvalvars, g) \<leftarrow> getNumValVars sls g;
     (valvar1, g) \<leftarrow> read_vars e sls in0 g;
     (valvar2, g) \<leftarrow> read_vars e sls in1 g;
     (vs, g) \<leftarrow> equal_bits (zip (take numvalvars valvar1) (take numvalvars valvar2)) g;
     g \<leftarrow> addConstraint (IMPLIES (AND vs) outputtrue) g;
     addConstraint (IMPLIES outputtrue (AND vs)) g }"

definition equals_const :: "execution \<Rightarrow> constraint \<Rightarrow> rid \<Rightarrow> uint64 \<Rightarrow> cgen \<Rightarrow> cgen option" where
  "equals_const e outputtrue input constval g = do {
     (l, g) \<leftarrow> ret_value e input constval g;
     g \<leftarrow> addConstraint (IMPLIES l outputtrue) g;
     (l2, g) \<leftarrow> ret_value e input constval g;
     addConstraint (IMPLIES outputtrue l2) g }"

definition equals_pairs :: "execution \<Rightarrow> rid \<Rightarrow> constraint \<Rightarrow> rid \<Rightarrow> rid \<Rightarrow> cgen \<Rightarrow> cgen option" where
  "equals_pairs e r outputtrue in0 in1 g = do {
     vs1 \<leftarrow> getSet VC_BASEINDEX (rec_of e r);
     vs2 \<leftarrow> getSet (VC_BASEINDEX + 1) (rec_of e r);
     foldM (\<lambda>val1. foldM (\<lambda>val2 g. do {
         (l, g) \<leftarrow> ret_value e in0 val1 g;
         (rc, g) \<leftarrow> ret_value e in1 val2 g;
         addConstraint (IMPLIES (AND [l, rc]) (if val1 = val2 then outputtrue else negate outputtrue)) g }) vs2) vs1 g }"

definition same_group :: "execution \<Rightarrow> rid \<Rightarrow> rid \<Rightarrow> cgen \<Rightarrow> bool" where
  "same_group e r s g = (reads e r \<and> reads e s \<and> getStoreLoadSet e r g = getStoreLoadSet e s g)"

definition processEquals :: "execution \<Rightarrow> rid \<Rightarrow> cgen \<Rightarrow> cgen option" where
  "processEquals e r g =
     (if getNumFuncInputs (rec_of e r) \<noteq> 2 then None
      else do {
        in0 \<leftarrow> dep_src e r VC_BASEINDEX;
        in1 \<leftarrow> dep_src e r (VC_BASEINDEX + 1);
        (outputtrue, g) \<leftarrow> ret_value e r 1 g;
        v \<leftarrow> getVar outputtrue;
        case (in0, in1) of
          (None, None) \<Rightarrow> do {
            constval \<leftarrow> first_of e r VC_BASEINDEX;
            constval2 \<leftarrow> first_of e r (VC_BASEINDEX + 1);
            addConstraint (if constval = constval2 then outputtrue else negate outputtrue) g }
        | (None, Some i1) \<Rightarrow> do {
            constval \<leftarrow> first_of e r VC_BASEINDEX;
            equals_const e outputtrue i1 constval g }
        | (Some i0, None) \<Rightarrow> do {
            constval \<leftarrow> first_of e r (VC_BASEINDEX + 1);
            equals_const e outputtrue i0 constval g }
        | (Some i0, Some i1) \<Rightarrow>
            (if same_group e i0 i1 g then do {
               sls \<leftarrow> getStoreLoadSet e i0 g;
               equals_special e outputtrue sls i0 i1 g }
             else equals_pairs e r outputtrue i0 i1 g) })"

subsection \<open>Fences\<close>

text \<open>
  A fence that does not always execute: if it does, the last store before it precedes the first
  load after it.
\<close>

definition processFence :: "execution \<Rightarrow> config \<Rightarrow> rid \<Rightarrow> cgen \<Rightarrow> cgen option" where
  "processFence e cfg r g =
     (if isAlwaysExecuted e r g then Some g
      else do {
        tvec \<leftarrow> nth_opt (threadactions g) (ep_tid (r_ep (rec_of e r)));
        let upto = takeWhile (\<lambda>q. q \<noteq> r) tvec @ (if r \<in> set tvec then [r] else []);
        case filter (\<lambda>q. event (rec_of e q) = STORE) upto of
          [] \<Rightarrow> Some g
        | stores \<Rightarrow>
            (case filter (\<lambda>q. event (rec_of e q) = LOAD) (drop (length upto) tvec) of
               [] \<Rightarrow> Some g
             | load # _ \<Rightarrow> do {
                 condition \<leftarrow> getExecutionConstraint e r g;
                 storeload \<leftarrow> getOrderConstraint cfg e (last stores) load g;
                 addConstraint (IMPLIES condition storeload) g }) })"

subsection \<open>Second pass and traversal\<close>

definition processRMW :: "config \<Rightarrow> execution \<Rightarrow> rid \<Rightarrow> cgen \<Rightarrow> cgen option" where
  "processRMW cfg e r g = do {
     g \<leftarrow> (if TSO cfg then processFence e cfg r g else Some g);
     aop \<leftarrow> op (rec_of e r);
     (case aop of ADD \<Rightarrow> processAdd cfg e r g | CAS \<Rightarrow> processCAS cfg e r g | EXC \<Rightarrow> processEXC cfg e r g) }"

definition processRecord :: "config \<Rightarrow> execution \<Rightarrow> rid \<Rightarrow> cgen \<Rightarrow> cgen option" where
  "processRecord cfg e r g =
     (case event (rec_of e r) of
        FUNCTION \<Rightarrow> processFunction e r g
      | EQUALS \<Rightarrow> processEquals e r g
      | LOAD \<Rightarrow> processLoad cfg e r g
      | STORE \<Rightarrow> processStore e r g
      | FENCE \<Rightarrow> (if TSO cfg then processFence e cfg r g else Some g)
      | RMW \<Rightarrow> processRMW cfg e r g
      | YIELD \<Rightarrow> processYield cfg e r g
      | BRANCHDIR \<Rightarrow> processBranch e r g
      | _ \<Rightarrow> Some g)"

definition push_work :: "rid list \<Rightarrow> cgen \<Rightarrow> cgen" where
  "push_work rs g = g\<lparr> workstack := workstack g @ rs \<rparr>"

text \<open>What follows a record: the records pushed for later, and the one to go on with.\<close>

definition successors :: "config \<Rightarrow> execution \<Rightarrow> rid \<Rightarrow> (rid list \<times> rid option) option" where
  "successors cfg e r =
     (let q = rec_of e r;
          nextr = (case nextRecord q of None \<Rightarrow> [] | Some n \<Rightarrow> [n]);
          child = (case childRecord q of None \<Rightarrow> [] | Some c \<Rightarrow> [c]) in
      if event q = LOOPENTER then map_option (\<lambda>c. (nextr @ [c], None)) (childRecord q)
      else if event q = NONLOCALTRANS \<or> event q = LOOPEXIT \<or> (event q = YIELD \<and> noexecyields cfg)
      then Some (child, None)
      else if event q = BRANCHDIR
      then Some (child @ nextr @ concat (map (\<lambda>v. case firstrecord (val_of e v) of None \<Rightarrow> [] | Some f \<Rightarrow> [f])
                                        (valuevector q)), None)
      else Some (child, nextRecord q))"

partial_function (option) traverseRecord ::
  "config \<Rightarrow> execution \<Rightarrow> bool \<Rightarrow> rid \<Rightarrow> cgen \<Rightarrow> cgen option" where
  [code]: "traverseRecord cfg e initial r g = do {
     g \<leftarrow> (if initial then visitRecord cfg e r g else processRecord cfg e r g);
     (work, nextr) \<leftarrow> successors cfg e r;
     let g = push_work work g;
     case nextr of None \<Rightarrow> Some g | Some n \<Rightarrow> traverseRecord cfg e initial n g }"

partial_function (option) traverse_work :: "config \<Rightarrow> execution \<Rightarrow> bool \<Rightarrow> cgen \<Rightarrow> cgen option" where
  [code]: "traverse_work cfg e initial g =
     (if workstack g = [] then Some g
      else do {
        g \<leftarrow> traverseRecord cfg e initial (last (workstack g)) (g\<lparr> workstack := butlast (workstack g) \<rparr>);
        traverse_work cfg e initial g })"

definition traverse :: "config \<Rightarrow> execution \<Rightarrow> bool \<Rightarrow> cgen \<Rightarrow> cgen option" where
  "traverse cfg e initial g = do {
     first \<leftarrow> getEPRecord MCID_FIRST e;
     g \<leftarrow> traverseRecord cfg e initial first g;
     traverse_work cfg e initial g }"

end
