(* ===== verification/GenRun.thy ===== *)
theory GenRun
  imports Generation
begin

section \<open>Running the generator (constgen.cc)\<close>

text \<open>
  \<open>process\<close> builds a new encoding of the recorded execution and solves it; \<open>canReuseEncoding\<close> asks
  the solver of the last encoding for a goal not reached yet. Both answer, with their result, the
  solution that is handed to \<open>ScheduleBuilder::buildSchedule\<close>. Two things are not under the code's
  control and are parameters: \<open>sat\<close>, the solver process, and \<open>oob\<close>, what is read past the end of the
  solution array. \<open>runSolver\<close> reads the entries 0 to \<open>varindex\<close> although the last variable is
  \<open>varindex - 1\<close>, and the solver need not report the variables that occur in no clause.
\<close>

type_synonym sat_process = "int list \<Rightarrow> byte list list"
type_synonym assignment = "nat \<Rightarrow> bool"

definition runSolver :: "sat_process \<Rightarrow> assignment \<Rightarrow> cgen \<Rightarrow> (assignment option \<times> cgen) option" where
  "runSolver sat oob g = do {
     s \<leftarrow> solver g;
     (result, s) \<leftarrow> solve sat s;
     let g = g\<lparr> solver := Some s \<rparr>;
     if result = IS_UNSAT then Some (None, g)
     else if result = IS_SAT then
       Some (Some (\<lambda>i. case getValue i s of Some b \<Rightarrow> b | None \<Rightarrow> oob i), g)
     else None }"

definition finish_clauses :: "cgen \<Rightarrow> cgen option" where
  "finish_clauses g = map_option (\<lambda>s. g\<lparr> solver := Some (finishedClauses s) \<rparr>) (solver g)"

text \<open>The goals whose variable is true are reached.\<close>

definition clear_goals :: "assignment \<Rightarrow> constraint option list \<Rightarrow> constraint option list option" where
  "clear_goals \<sigma> arr = map_opt (\<lambda>c.
     case c of None \<Rightarrow> Some None
     | Some var \<Rightarrow> do { v \<leftarrow> getVar var; Some (if \<sigma> v then None else Some var) }) arr"

definition freeze_goals :: "constraint option list \<Rightarrow> isolver \<Rightarrow> isolver option" where
  "freeze_goals arr s = foldM (\<lambda>c s. do { var \<leftarrow> c; v \<leftarrow> getVar var; Some (freeze (int v) s) }) arr s"

text \<open>The encoding without and with the choice of a goal.\<close>

definition encode_behaviors :: "config \<Rightarrow> execution \<Rightarrow> cgen \<Rightarrow> cgen option" where
  "encode_behaviors cfg e g = do {
     g \<leftarrow> traverse cfg e True (g\<lparr> solver := Some new_IncrementalSolver \<rparr>);
     g \<leftarrow> genTransOrderConstraints cfg e g;
     g \<leftarrow> (if TSO cfg then genTSOTransOrderConstraints cfg e g else Some g);
     traverse cfg e False g }"

definition encode :: "config \<Rightarrow> execution \<Rightarrow> cgen \<Rightarrow> cgen option" where
  "encode cfg e g = do {
     g \<leftarrow> encode_behaviors cfg e g;
     translateGoals g }"

definition process :: "config \<Rightarrow> sat_process \<Rightarrow> assignment \<Rightarrow> execution \<Rightarrow> cgen
    \<Rightarrow> (bool \<times> assignment option \<times> cgen) option" where
  "process cfg sat oob e g = do {
     g \<leftarrow> encode cfg e g;
     if goalset g = [] \<or> (only_branches cfg \<and> \<not> has_untaken_branches g)
     then Some (True, None, g\<lparr> solver := None \<rparr>)
     else do {
       g \<leftarrow> finish_clauses g;
       arr \<leftarrow> goalvararray g;
       s \<leftarrow> solver g;
       s \<leftarrow> freeze_goals arr s;
       (sol, g) \<leftarrow> runSolver sat oob (g\<lparr> solver := Some s \<rparr>);
       case sol of
         None \<Rightarrow> Some (True, None, g\<lparr> solver := None \<rparr>)
       | Some \<sigma> \<Rightarrow> do {
           arr \<leftarrow> clear_goals \<sigma> arr;
           Some (False, Some \<sigma>, g\<lparr> goalvararray := Some arr \<rparr>) } } }"

definition canReuseEncoding :: "sat_process \<Rightarrow> assignment \<Rightarrow> cgen \<Rightarrow> (bool \<times> assignment option \<times> cgen) option" where
  "canReuseEncoding sat oob g =
     (if solver g = None then Some (False, None, g)
      else do {
        arr \<leftarrow> (if goalset g = [] then Some [] else goalvararray g);
        let remaining = List.map_filter id arr;
        if remaining = [] then Some (False, None, g)
        else do {
          g \<leftarrow> addConstraint (OR remaining) g;
          g \<leftarrow> finish_clauses g;
          (sol, g) \<leftarrow> runSolver sat oob g;
          case sol of
            None \<Rightarrow> Some (False, None, g)
          | Some \<sigma> \<Rightarrow> do {
              arr \<leftarrow> clear_goals \<sigma> arr;
              Some (True, Some \<sigma>, g\<lparr> goalvararray := Some arr \<rparr>) } } })"

end
