(* ===== verification/Scheduling.thy ===== *)
theory Scheduling
  imports GenRun
begin

section \<open>Schedules (mcschedule.cc, schedulebuilder.cc)\<close>

text \<open>
  \<open>ScheduleBuilder\<close> reads a schedule off a solution of the solver: it walks all threads at once and
  repeatedly takes the memory operation that the solution orders first; every operation taken waits
  for the last operations of the other threads. \<open>MCScheduler\<close> enforces these waits while the program
  runs. A wait pair is the point at which a thread stops and the point it waits for another thread
  to pass. The flag \<open>newbehavior\<close> of the scheduler is a field of the execution in this model.
\<close>

subsection \<open>MCScheduler\<close>

type_synonym wait_pair = "exec_point \<times> exec_point"

text \<open>\<open>waitsetlen\<close> is the length of the index arrays.\<close>

record mcscheduler =
  waitset :: "wait_pair list list"
  waitsetindex :: "nat list"
  storeset :: "wait_pair list list"
  storesetindex :: "nat list"

definition new_MCScheduler :: mcscheduler where
  "new_MCScheduler = \<lparr> waitset = [], waitsetindex = replicate 4 0, storeset = [], storesetindex = replicate 4 0 \<rparr>"

definition addWaitPair :: "config \<Rightarrow> execution \<Rightarrow> rid \<Rightarrow> rid \<Rightarrow> mcscheduler \<Rightarrow> mcscheduler" where
  "addWaitPair cfg e stoprec waitrec s =
     (let stoppoint = r_ep (rec_of e stoprec);
          waitpoint = r_ep (rec_of e waitrec);
          tid = ep_tid stoppoint;
          len = (if length (waitsetindex s) \<le> tid then 2 * tid else length (waitsetindex s));
          s = s\<lparr> waitset := resize_to (tid + 1) [] (waitset s),
                 storeset := (if TSO cfg then resize_to (tid + 1) [] (storeset s) else storeset s),
                 waitsetindex := resize_to len 0 (waitsetindex s),
                 storesetindex := (if TSO cfg then resize_to len 0 (storesetindex s) else storesetindex s) \<rparr> in
      if TSO cfg \<and> event (rec_of e stoprec) = STORE
      then s\<lparr> storeset := (storeset s)[tid := storeset s ! tid @ [(stoppoint, waitpoint)]] \<rparr>
      else s\<lparr> waitset := (waitset s)[tid := waitset s ! tid @ [(stoppoint, waitpoint)]] \<rparr>)"

definition sched_reset :: "mcscheduler \<Rightarrow> mcscheduler" where
  "sched_reset s =
     s\<lparr> waitset := map (\<lambda>_. []) (waitset s), waitsetindex := map (\<lambda>_. 0) (waitsetindex s),
        storeset := map (\<lambda>_. []) (storeset s), storesetindex := map (\<lambda>_. 0) (storesetindex s) \<rparr>"

definition clear_newbehavior :: "execution \<Rightarrow> execution" where
  "clear_newbehavior e = e\<lparr> newbehavior := False \<rparr>"

definition passed :: "compare_result \<Rightarrow> bool" where
  "passed c = (c = CR_BEFORE \<or> c = CR_INCOMPARABLE)"

text \<open>Whether a wait that has hit its stop point is over.\<close>

definition wait_over :: "config \<Rightarrow> execution \<Rightarrow> exec_point \<Rightarrow> bool option" where
  "wait_over cfg e waitpoint = do {
     let waittid = ep_tid waitpoint;
     waitthread \<leftarrow> nth_opt (ExecPointList e) waittid;
     comparewt \<leftarrow> ep_compare waitthread waitpoint;
     if passed comparewt then
       (if TSO cfg then do {
          waitrec \<leftarrow> EPTable e (ep_key waitpoint);
          if event (rec_of e waitrec) = STORE then do {
            first_store \<leftarrow> getStoreBuffer waittid e;
            (case first_store of
               None \<Rightarrow> Some True
             | Some v \<Rightarrow> map_option passed (ep_compare (v_ep (val_of e v)) waitpoint)) }
          else Some True }
        else Some True)
     else do {
       empty \<leftarrow> (if TSO cfg then isEmptyStoreBuffer waittid e else Some True);
       if \<not> empty then Some False
       else map_option is_complete (nth_opt (ThreadList e) waittid) } }"

text \<open>The loop over the wait pairs of a thread from index \<open>i\<close>: the answer and the new index.\<close>

fun check_pairs :: "config \<Rightarrow> execution \<Rightarrow> exec_point \<Rightarrow> wait_pair list \<Rightarrow> nat \<Rightarrow> (bool \<times> nat) option" where
  "check_pairs cfg e current [] i = Some (True, i)"
| "check_pairs cfg e current ((stop, wait) # wps) i = do {
     c \<leftarrow> ep_compare stop current;
     if c = CR_EQUALS then do {
       over \<leftarrow> wait_over cfg e wait;
       if over then check_pairs cfg e current wps (i + 1) else Some (False, i) }
     else Some (True, i) }"

definition checkSet :: "config \<Rightarrow> execution \<Rightarrow> nat \<Rightarrow> wait_pair list list \<Rightarrow> nat list \<Rightarrow> exec_point
    \<Rightarrow> (bool \<times> nat list) option" where
  "checkSet cfg e tid wset setindex current =
     (if length wset \<le> tid \<or> newbehavior e then Some (True, setindex)
      else do {
        i \<leftarrow> nth_opt setindex tid;
        (b, j) \<leftarrow> check_pairs cfg e current (drop i (wset ! tid)) i;
        Some (b, setindex[tid := j]) })"

definition check_thread :: "config \<Rightarrow> execution \<Rightarrow> nat \<Rightarrow> mcscheduler \<Rightarrow> (bool \<times> mcscheduler) option" where
  "check_thread cfg e tid s = do {
     current \<leftarrow> nth_opt (ExecPointList e) tid;
     (b, ind) \<leftarrow> checkSet cfg e tid (waitset s) (waitsetindex s) current;
     Some (b, s\<lparr> waitsetindex := ind \<rparr>) }"

definition check_store_buffer :: "config \<Rightarrow> execution \<Rightarrow> nat \<Rightarrow> mcscheduler \<Rightarrow> (bool \<times> mcscheduler) option" where
  "check_store_buffer cfg e tid s = do {
     v \<leftarrow> Option.bind (getStoreBuffer tid e) id;
     (b, ind) \<leftarrow> checkSet cfg e tid (storeset s) (storesetindex s) (v_ep (val_of e v));
     Some (b, s\<lparr> storesetindex := ind \<rparr>) }"

text \<open>The search for the next thread, starting at \<open>tid\<close>, of at most \<open>n\<close> threads.\<close>

fun find_thread :: "config \<Rightarrow> execution \<Rightarrow> nat \<Rightarrow> nat \<Rightarrow> mcscheduler \<Rightarrow> (nat \<times> mcscheduler) option" where
  "find_thread cfg e 0 tid s = Some (tid, s)"
| "find_thread cfg e (Suc n) tid s = do {
     th \<leftarrow> nth_opt (ThreadList e) tid;
     let next = (tid + 1) mod next_thread_id e;
     if is_complete th then find_thread cfg e n next s
     else do {
       (ok, s) \<leftarrow> check_thread cfg e tid s;
       if ok then Some (tid, s) else find_thread cfg e n next s } }"

text \<open>
  Under TSO the search also tries to commit the oldest store of each buffer, and a store that is
  committed changes the execution: the answer \<open>Inl\<close> is the thread whose store is to be committed.
\<close>

fun find_tso :: "config \<Rightarrow> execution \<Rightarrow> nat \<Rightarrow> nat \<Rightarrow> bool \<Rightarrow> mcscheduler \<Rightarrow> ((nat + nat) \<times> mcscheduler) option" where
  "find_tso cfg e 0 tid sbuf s = Some (Inr tid, s)"
| "find_tso cfg e (Suc n) tid sbuf s =
     (if sbuf then do {
        empty \<leftarrow> isEmptyStoreBuffer tid e;
        (ok, s) \<leftarrow> (if empty then Some (False, s) else check_store_buffer cfg e tid s);
        if ok then Some (Inl tid, s)
        else find_tso cfg e n ((tid + 1) mod next_thread_id e) False s }
      else do {
        th \<leftarrow> nth_opt (ThreadList e) tid;
        (ok, s) \<leftarrow> (if is_complete th then Some (False, s) else check_thread cfg e tid s);
        if ok then Some (Inr tid, s) else find_tso cfg e n tid True s })"

partial_function (option) search_tso :: "config \<Rightarrow> nat \<Rightarrow> execution \<Rightarrow> mcscheduler
    \<Rightarrow> (nat \<times> execution \<times> mcscheduler) option" where
  [code]: "search_tso cfg t e s = do {
     (r, s) \<leftarrow> find_tso cfg e (2 * next_thread_id e) t True s;
     case r of
       Inr tid \<Rightarrow> Some (tid, e, s)
     | Inl tid \<Rightarrow> do { e \<leftarrow> doStore tid e; search_tso cfg t e s } }"

definition swap_threads :: "nat option \<Rightarrow> execution \<Rightarrow> execution option" where
  "swap_threads next e = set_current_thread next e"

definition check_preempt :: "config \<Rightarrow> execution \<Rightarrow> mcscheduler \<Rightarrow> (execution \<times> mcscheduler) option" where
  "check_preempt cfg e s = do {
     t \<leftarrow> curr_thread e;
     (tid, e, s) \<leftarrow>
       (if TSO cfg then search_tso cfg t e s
        else do {
          (tid, s) \<leftarrow> find_thread cfg e (next_thread_id e) ((t + 1) mod next_thread_id e) s;
          Some (tid, e, s) });
     th \<leftarrow> nth_opt (ThreadList e) tid;
     e \<leftarrow> swap_threads (if is_complete th then None else Some tid) e;
     Some (e, s) }"

subsection \<open>ScheduleBuilder\<close>

text \<open>
  The vectors are in snapshotted memory, so every call of \<open>buildSchedule\<close> starts with them empty.
\<close>

record sched_builder =
  sb_threads :: "rid option list"
  lastoperation :: "rid option list"
  sb_stores :: "rid list list"
  storelastoperation :: "rid option list"

partial_function (option) sb_getNextRecord :: "execution \<Rightarrow> cgen \<Rightarrow> rid \<Rightarrow> rid option option" where
  [code]: "sb_getNextRecord e g r = do {
     nextr \<leftarrow> (if event (rec_of e r) = BRANCHDIR \<and> nextRecord (rec_of e r) \<noteq> None then do {
                br \<leftarrow> branchtable g r;
                Some (if br_hasNext br then nextRecord (rec_of e r) else None) }
              else Some (nextRecord (rec_of e r)));
     case nextr of
       Some n \<Rightarrow> Some (Some n)
     | None \<Rightarrow> (case branch (rec_of e r) of
                None \<Rightarrow> Some None
              | Some b \<Rightarrow> sb_getNextRecord e g (v_record (val_of e b))) }"

definition sb_new_thread :: "rid option \<Rightarrow> sched_builder \<Rightarrow> sched_builder" where
  "sb_new_thread r b =
     b\<lparr> sb_threads := sb_threads b @ [r], lastoperation := lastoperation b @ [None],
        sb_stores := sb_stores b @ [[]], storelastoperation := storelastoperation b @ [None] \<rparr>"

text \<open>The direction the solution takes at a branch; a code that is no direction goes past it.\<close>

definition sb_branch :: "execution \<Rightarrow> cgen \<Rightarrow> assignment \<Rightarrow> rid \<Rightarrow> rid option option" where
  "sb_branch e g \<sigma> r = do {
     br \<leftarrow> branchtable g r;
     index \<leftarrow> getBranchValue br \<sigma>;
     if 0 \<le> index \<and> index < int (br_numdirections br)
     then do { v \<leftarrow> nth_opt (valuevector (rec_of e r)) (nat index); Some (firstrecord (val_of e v)) }
     else Some None }"

definition sb_processRecord :: "config \<Rightarrow> execution \<Rightarrow> cgen \<Rightarrow> assignment \<Rightarrow> rid \<Rightarrow> sched_builder
    \<Rightarrow> (rid option \<times> sched_builder) option" where
  "sb_processRecord cfg e g \<sigma> r b =
     (let ev = event (rec_of e r) in
      if ev = LOAD \<or> ev = STORE \<or> ev = RMW \<or> (ev = FENCE \<and> TSO cfg) then Some (Some r, b)
      else if ev = LOOPENTER then Some (childRecord (rec_of e r), b)
      else if ev = YIELD \<and> noexecyields cfg then Some (None, b)
      else if ev = FENCE then None
      else do {
        first \<leftarrow> (if ev = BRANCHDIR then sb_branch e g \<sigma> r else Some None);
        let b = (if ev = THREADCREATE then sb_new_thread (childRecord (rec_of e r)) b else b);
        nextr \<leftarrow> (case first of Some f \<Rightarrow> Some (Some f) | None \<Rightarrow> sb_getNextRecord e g r);
        Some (nextr, b) })"

text \<open>Under TSO stores go into the buffer of the thread, fences and RMWs wait for it to be empty.\<close>

definition sb_buffer :: "config \<Rightarrow> execution \<Rightarrow> cgen \<Rightarrow> nat \<Rightarrow> rid option \<Rightarrow> sched_builder \<Rightarrow> mcscheduler
    \<Rightarrow> (rid option \<times> sched_builder \<times> mcscheduler) option" where
  "sb_buffer cfg e g index nextr b s =
     (case nextr of
        None \<Rightarrow> Some (None, b, s)
      | Some n \<Rightarrow>
          (let buf = sb_stores b ! index;
               s' = (if buf = [] then s else addWaitPair cfg e n (last buf) s) in
           if \<not> TSO cfg then Some (nextr, b, s)
           else if event (rec_of e n) = STORE then do {
             m \<leftarrow> sb_getNextRecord e g n;
             Some (m, b\<lparr> sb_stores := (sb_stores b)[index := buf @ [n]] \<rparr>, s) }
           else if event (rec_of e n) = FENCE then do {
             m \<leftarrow> sb_getNextRecord e g n;
             Some (m, b, s') }
           else if event (rec_of e n) = RMW then Some (nextr, b, s')
           else Some (nextr, b, s)))"

text \<open>Every thread is moved on to its next memory operation.\<close>

partial_function (option) sb_advance :: "config \<Rightarrow> execution \<Rightarrow> cgen \<Rightarrow> assignment \<Rightarrow> nat \<Rightarrow> sched_builder
    \<Rightarrow> mcscheduler \<Rightarrow> (sched_builder \<times> mcscheduler) option" where
  [code]: "sb_advance cfg e g \<sigma> index b s =
     (if length (sb_threads b) \<le> index then Some (b, s)
      else case sb_threads b ! index of
             None \<Rightarrow> sb_advance cfg e g \<sigma> (index + 1) b s
           | Some r \<Rightarrow> do {
               (nextr, b) \<leftarrow> sb_processRecord cfg e g \<sigma> r b;
               (nextr, b, s) \<leftarrow> sb_buffer cfg e g index nextr b s;
               if nextr \<noteq> Some r
               then sb_advance cfg e g \<sigma> index (b\<lparr> sb_threads := (sb_threads b)[index := nextr] \<rparr>) s
               else sb_advance cfg e g \<sigma> (index + 1) b s })"

definition earlier :: "config \<Rightarrow> execution \<Rightarrow> cgen \<Rightarrow> assignment \<Rightarrow> rid option \<Rightarrow> rid option \<Rightarrow> rid option option" where
  "earlier cfg e g \<sigma> r earliest =
     (case (r, earliest) of
        (None, _) \<Rightarrow> Some earliest
      | (Some r, None) \<Rightarrow> Some (Some r)
      | (Some r, Some q) \<Rightarrow> map_option (\<lambda>b. if b then Some r else earliest) (getOrder cfg e r q \<sigma> g))"

definition sb_earliest :: "config \<Rightarrow> execution \<Rightarrow> cgen \<Rightarrow> assignment \<Rightarrow> sched_builder \<Rightarrow> rid option option" where
  "sb_earliest cfg e g \<sigma> b =
     foldM (\<lambda>index earliest. do {
         earliest \<leftarrow> earlier cfg e g \<sigma> (sb_threads b ! index) earliest;
         if TSO cfg \<and> sb_stores b ! index \<noteq> []
         then earlier cfg e g \<sigma> (Some (hd (sb_stores b ! index))) earliest
         else Some earliest }) [0..<length (sb_threads b)] None"

definition wait_for :: "config \<Rightarrow> execution \<Rightarrow> rid \<Rightarrow> rid option \<Rightarrow> mcscheduler \<Rightarrow> mcscheduler" where
  "wait_for cfg e r lastop s = (case lastop of None \<Rightarrow> s | Some l \<Rightarrow> addWaitPair cfg e r l s)"

definition sb_take :: "config \<Rightarrow> execution \<Rightarrow> cgen \<Rightarrow> rid \<Rightarrow> nat \<Rightarrow> sched_builder \<times> mcscheduler
    \<Rightarrow> (sched_builder \<times> mcscheduler) option" where
  "sb_take cfg e g earliest index bs = do {
     let (b, s) = bs;
     (b, s) \<leftarrow>
       (if sb_threads b ! index = Some earliest then do {
          nextr \<leftarrow> sb_getNextRecord e g earliest;
          Some (b\<lparr> sb_threads := (sb_threads b)[index := nextr],
                   lastoperation := (lastoperation b)[index := Some earliest] \<rparr>, s) }
        else Some (b, wait_for cfg e earliest (lastoperation b ! index) s));
     if \<not> TSO cfg then Some (b, s)
     else if sb_stores b ! index \<noteq> [] \<and> hd (sb_stores b ! index) = earliest
     then Some (b\<lparr> sb_stores := (sb_stores b)[index := tl (sb_stores b ! index)],
                   storelastoperation := (storelastoperation b)[index := Some earliest] \<rparr>, s)
     else Some (b, wait_for cfg e earliest (storelastoperation b ! index) s) }"

partial_function (option) sb_loop :: "config \<Rightarrow> execution \<Rightarrow> cgen \<Rightarrow> assignment \<Rightarrow> sched_builder \<Rightarrow> mcscheduler
    \<Rightarrow> mcscheduler option" where
  [code]: "sb_loop cfg e g \<sigma> b s = do {
     (b, s) \<leftarrow> sb_advance cfg e g \<sigma> 0 b s;
     earliest \<leftarrow> sb_earliest cfg e g \<sigma> b;
     case earliest of
       None \<Rightarrow> Some s
     | Some r \<Rightarrow> do {
         (b, s) \<leftarrow> foldM (sb_take cfg e g r) [0..<length (sb_threads b)] (b, s);
         sb_loop cfg e g \<sigma> b s } }"

definition buildSchedule :: "config \<Rightarrow> execution \<Rightarrow> cgen \<Rightarrow> assignment \<Rightarrow> mcscheduler \<Rightarrow> mcscheduler option" where
  "buildSchedule cfg e g \<sigma> s = do {
     first \<leftarrow> getEPRecord MCID_FIRST e;
     sb_loop cfg e g \<sigma> (sb_new_thread (Some first)
       \<lparr> sb_threads = [], lastoperation = [], sb_stores = [], storelastoperation = [] \<rparr>) s }"

end
