(* ===== verification/Planning.thy ===== *)
theory Planning
  imports Scheduling
begin

section \<open>The planner (planner.cc)\<close>

text \<open>
  After each execution the planner propagates the new addresses and values the execution recorded:
  a change says that a record has a new address, a new value it stores or a new value it returns,
  and is passed on to the records that can see it, which may record changes in turn. When nothing
  is left to propagate, the generator builds a new encoding. The set \<open>changeset\<close> is the field
  \<open>changes\<close> of the execution.
\<close>

definition VC_VALOUTINDEX :: nat where "VC_VALOUTINDEX = 5"

subsection \<open>Registering a value\<close>

text \<open>\<open>getSet(index)->add(val)\<close>: whether the value is new.\<close>

definition add_value :: "rid \<Rightarrow> nat \<Rightarrow> uint64 \<Rightarrow> execution \<Rightarrow> (bool \<times> execution) option" where
  "add_value r index val e = do {
     s \<leftarrow> getSet index (rec_of e r);
     e \<leftarrow> addToSet index val r e;
     Some (val \<notin> set s, e) }"

definition storeIndex :: "eprecord \<Rightarrow> nat" where
  "storeIndex r = (if event r = RMW then VC_RMWOUTINDEX else VC_BASEINDEX)"

definition registerBranchValue :: "rid \<Rightarrow> uint64 \<Rightarrow> nat \<Rightarrow> execution \<Rightarrow> execution option" where
  "registerBranchValue r val index e = map_option snd (add_value r index val e)"

definition registerEqualsValue :: "rid \<Rightarrow> uint64 \<Rightarrow> nat \<Rightarrow> execution \<Rightarrow> execution option" where
  "registerEqualsValue r val index e = map_option snd (add_value r index val e)"

definition with_offset :: "execution \<Rightarrow> rid \<Rightarrow> uint64 \<Rightarrow> nat \<Rightarrow> uint64" where
  "with_offset e r val index = (if index = VC_ADDRINDEX then val + offset (rec_of e r) else val)"

definition registerLoadValue :: "rid \<Rightarrow> uint64 \<Rightarrow> nat \<Rightarrow> execution \<Rightarrow> execution option" where
  "registerLoadValue r val index e = do {
     let val = with_offset e r val index;
     (is_new, e) \<leftarrow> add_value r index val e;
     if \<not> is_new then Some e
     else if index = VC_ADDRINDEX then addChange r val VC_ADDRINDEX (addLoadTable val r e)
     else if index = VC_RFINDEX then addChange r val VC_VALOUTINDEX e
     else None }"

definition doRMWRFChange :: "rid \<Rightarrow> uint64 \<Rightarrow> execution \<Rightarrow> execution option" where
  "doRMWRFChange r readval e = do {
     e \<leftarrow> addChange r readval VC_VALOUTINDEX e;
     if op (rec_of e r) = Some CAS then do {
       (is_new, e) \<leftarrow> add_value r (storeIndex (rec_of e r)) readval e;
       if is_new then addChange r readval VC_RMWOUTINDEX e else Some e }
     else Some e }"

definition doRMWBaseChange :: "rid \<Rightarrow> uint64 \<Rightarrow> execution \<Rightarrow> execution option" where
  "doRMWBaseChange r baseval e =
     (case op (rec_of e r) of
        None \<Rightarrow> None
      | Some CAS \<Rightarrow> do {
          (is_new, e) \<leftarrow> add_value r (storeIndex (rec_of e r)) baseval e;
          if is_new then addChange r baseval VC_RMWOUTINDEX e else Some e }
      | Some ADD \<Rightarrow> Some e
      | Some EXC \<Rightarrow> Some e)"

definition doRMWOldValChange :: "rid \<Rightarrow> execution \<Rightarrow> execution option" where
  "doRMWOldValChange r e = Some e"

definition compatibleStoreLoad :: "rid \<Rightarrow> rid \<Rightarrow> bool" where
  "compatibleStoreLoad store load \<longleftrightarrow> store \<noteq> load"

text \<open>\<open>registerRMWValue\<close> at the index of the values read, which is not recursive.\<close>

definition rmw_reads :: "rid \<Rightarrow> uint64 \<Rightarrow> execution \<Rightarrow> execution option" where
  "rmw_reads r val e = do {
     (is_new, e) \<leftarrow> add_value r VC_RFINDEX val e;
     if is_new then doRMWRFChange r val e else Some e }"

definition doRMWNewAddrChange :: "rid \<Rightarrow> uint64 \<Rightarrow> execution \<Rightarrow> execution option" where
  "doRMWNewAddrChange r val e = do {
     e \<leftarrow> addChange r val VC_ADDRINDEX (addStoreTable val r (addLoadTable val r e));
     stores \<leftarrow> storetable e val;
     foldM (\<lambda>store e.
         if compatibleStoreLoad store r then do {
           vs \<leftarrow> getStoreSet (rec_of e store);
           foldM (rmw_reads r) vs e }
         else Some e) stores e }"

definition registerRMWValue :: "rid \<Rightarrow> uint64 \<Rightarrow> nat \<Rightarrow> execution \<Rightarrow> execution option" where
  "registerRMWValue r val index e = do {
     let val = with_offset e r val index;
     (is_new, e) \<leftarrow> add_value r index val e;
     if \<not> is_new then Some e
     else if index = VC_ADDRINDEX then doRMWNewAddrChange r val e
     else if index = VC_RFINDEX then doRMWRFChange r val e
     else if index = VC_BASEINDEX then doRMWBaseChange r val e
     else if index = VC_OLDVALCASINDEX \<and> op (rec_of e r) = Some CAS then doRMWOldValChange r e
     else None }"

definition registerStoreValue :: "rid \<Rightarrow> uint64 \<Rightarrow> nat \<Rightarrow> execution \<Rightarrow> execution option" where
  "registerStoreValue r val index e = do {
     let val = with_offset e r val index;
     (is_new, e) \<leftarrow> add_value r index val e;
     if index = VC_ADDRINDEX then addChange r val index (if is_new then addStoreTable val r e else e)
     else if index = VC_BASEINDEX then addChange r val index e
     else Some e }"

definition registerFunctionValue :: "rid \<Rightarrow> uint64 \<Rightarrow> nat \<Rightarrow> execution \<Rightarrow> execution option" where
  "registerFunctionValue r val index e = do {
     (newval, e) \<leftarrow> add_value r index val e;
     if phi (rec_of e r) then addChange r val VC_FUNCOUTINDEX e
     else if newval \<and> func_shares_goalset (rec_of e r) then do {
       c \<leftarrow> completed (rec_of e r);
       foldM (\<lambda>goal e. do {
           v \<leftarrow> nth_opt (valarray goal) index;
           if v = val then evalGoal r goal e else Some e }) (goalsets (hp e) c) e }
     else Some e }"

definition registerValue :: "rid \<Rightarrow> uint64 \<Rightarrow> nat \<Rightarrow> execution \<Rightarrow> execution option" where
  "registerValue r val index e =
     (case event (rec_of e r) of
        LOAD \<Rightarrow> registerLoadValue r val index e
      | RMW \<Rightarrow> registerRMWValue r val index e
      | STORE \<Rightarrow> registerStoreValue r val index e
      | FUNCTION \<Rightarrow> registerFunctionValue r val index e
      | EQUALS \<Rightarrow> registerEqualsValue r val index e
      | BRANCHDIR \<Rightarrow> registerBranchValue r val index e
      | _ \<Rightarrow> Some e)"

subsection \<open>Processing a change\<close>

definition processNewReturnValue :: "mcchange \<Rightarrow> execution \<Rightarrow> execution option" where
  "processNewReturnValue c e =
     (case eprecorddep e (ch_record c) of
        None \<Rightarrow> Some e
      | Some deps \<Rightarrow> foldM (\<lambda>dep. registerValue (fst dep) (ch_val c) (snd dep)) deps e)"

text \<open>The values of a store, passed on to a load.\<close>

definition pass_values :: "rid \<Rightarrow> rid \<Rightarrow> execution \<Rightarrow> execution option" where
  "pass_values store load e =
     (if compatibleStoreLoad store load then do {
        vs \<leftarrow> getStoreSet (rec_of e store);
        foldM (\<lambda>v. registerValue load v VC_RFINDEX) vs e }
      else Some e)"

definition processNewLoadAddress :: "mcchange \<Rightarrow> execution \<Rightarrow> execution option" where
  "processNewLoadAddress c e =
     (case storetable e (ch_val c) of
        None \<Rightarrow> Some e
      | Some stores \<Rightarrow> foldM (\<lambda>store. pass_values store (ch_record c)) stores e)"

definition processNewStoreAddress :: "mcchange \<Rightarrow> execution \<Rightarrow> execution option" where
  "processNewStoreAddress c e =
     (case loadtable e (ch_val c) of
        None \<Rightarrow> Some e
      | Some rset \<Rightarrow> foldM (pass_values (ch_record c)) rset e)"

definition processNewStoreValue :: "mcchange \<Rightarrow> execution \<Rightarrow> execution option" where
  "processNewStoreValue c e = do {
     addrset \<leftarrow> getSet VC_ADDRINDEX (rec_of e (ch_record c));
     foldM (\<lambda>addr e.
         case loadtable e addr of
           None \<Rightarrow> Some e
         | Some rset \<Rightarrow>
             foldM (\<lambda>load e.
                if compatibleStoreLoad (ch_record c) load then registerValue load (ch_val c) VC_RFINDEX e
                else Some e) rset e) addrset e }"

text \<open>
  \<open>processFunction\<close>, \<open>processEquals\<close>, \<open>processLoad\<close>, \<open>processRMW\<close> and \<open>processStore\<close>, by the kind of
  the record and the index of the change.
\<close>

definition processChange :: "mcchange \<Rightarrow> execution \<Rightarrow> execution option" where
  "processChange c e =
     (let ev = event (rec_of e (ch_record c)); i = ch_index c in
      if ev = FUNCTION \<or> ev = EQUALS then processNewReturnValue c e
      else if ev = LOAD then
        (if i = VC_ADDRINDEX then processNewLoadAddress c e
         else if i = VC_VALOUTINDEX then processNewReturnValue c e
         else None)
      else if ev = RMW then
        (if i = VC_ADDRINDEX then processNewStoreAddress c e
         else if i = VC_RMWOUTINDEX then processNewStoreValue c e
         else if i = VC_VALOUTINDEX then processNewReturnValue c e
         else None)
      else if ev = STORE then
        (if i = VC_ADDRINDEX then processNewStoreAddress c e
         else if i = VC_BASEINDEX then processNewStoreValue c e
         else None)
      else None)"

subsection \<open>The loop over the changes\<close>

record planner =
  pl_exec :: execution
  pl_cgen :: cgen
  pl_sched :: mcscheduler
  completedset :: "mcchange list"
  finished :: bool

definition new_Planner :: "execution \<Rightarrow> planner" where
  "new_Planner e =
     \<lparr> pl_exec = e, pl_cgen = new_ConstGen, pl_sched = new_MCScheduler, completedset = [], finished = False \<rparr>"

text \<open>One iteration: the first change is taken out, and processed unless it has been.\<close>

definition change_step :: "planner \<Rightarrow> planner option" where
  "change_step p =
     (case changes (pl_exec p) of
        [] \<Rightarrow> None
      | c # cs \<Rightarrow>
          (let e = (pl_exec p)\<lparr> changes := cs \<rparr> in
           if c \<in> set (completedset p) then Some (p\<lparr> pl_exec := e \<rparr>)
           else do {
             e \<leftarrow> processChange c e;
             Some (p\<lparr> pl_exec := e, completedset := oset_add c (completedset p) \<rparr>) }))"

partial_function (option) changes_loop :: "planner \<Rightarrow> planner option" where
  [code]: "changes_loop p =
     (if changes (pl_exec p) = [] then Some p else do { p \<leftarrow> change_step p; changes_loop p })"

definition processChanges :: "planner \<Rightarrow> planner option" where
  "processChanges p = do { p \<leftarrow> changes_loop p; Some (p\<lparr> completedset := [] \<rparr>) }"

text \<open>
  \<open>plan\<close>: a goal of the last encoding that the solver can still reach gives the next schedule;
  otherwise the changes are propagated and a new encoding is built. When that has no goal or no
  solution, the exploration is finished.
\<close>

definition schedule :: "config \<Rightarrow> assignment option \<Rightarrow> planner \<Rightarrow> planner option" where
  "schedule cfg sol p =
     (case sol of
        None \<Rightarrow> Some p
      | Some \<sigma> \<Rightarrow> do {
          s \<leftarrow> buildSchedule cfg (pl_exec p) (pl_cgen p) \<sigma> (pl_sched p);
          Some (p\<lparr> pl_sched := s \<rparr>) })"

definition plan :: "config \<Rightarrow> sat_process \<Rightarrow> assignment \<Rightarrow> planner \<Rightarrow> planner option" where
  "plan cfg sat oob p = do {
     let p = p\<lparr> pl_sched := sched_reset (pl_sched p), pl_exec := clear_newbehavior (pl_exec p) \<rparr>;
     (reused, sol, g) \<leftarrow> canReuseEncoding sat oob (pl_cgen p);
     let p = p\<lparr> pl_cgen := g \<rparr>;
     if reused then schedule cfg sol p
     else do {
       p \<leftarrow> processChanges p;
       (fin, sol, g) \<leftarrow> process cfg sat oob (pl_exec p) (cg_reset (pl_cgen p));
       schedule cfg sol (p\<lparr> pl_cgen := g, finished := finished p \<or> fin \<rparr>) } }"

end
