(* ===== verification/Interface.thy ===== *)
theory Interface
  imports Planning
begin

section \<open>The interface of the program under test (libinterface.cc)\<close>

text \<open>
  The functions the instrumented program calls. Each works on the execution of the model; the
  typed memory accesses convert to and from the 64-bit values of the execution.
\<close>

definition store_8 :: "config \<Rightarrow> uint64 \<Rightarrow> 8 word \<Rightarrow> execution \<Rightarrow> execution option" where
  "store_8 cfg addr val e = exec_store cfg addr (ucast val) 1 e"

definition store_16 :: "config \<Rightarrow> uint64 \<Rightarrow> 16 word \<Rightarrow> execution \<Rightarrow> execution option" where
  "store_16 cfg addr val e = exec_store cfg addr (ucast val) 2 e"

definition store_32 :: "config \<Rightarrow> uint64 \<Rightarrow> 32 word \<Rightarrow> execution \<Rightarrow> execution option" where
  "store_32 cfg addr val e = exec_store cfg addr (ucast val) 4 e"

definition store_64 :: "config \<Rightarrow> uint64 \<Rightarrow> 64 word \<Rightarrow> execution \<Rightarrow> execution option" where
  "store_64 cfg addr val e = exec_store cfg addr val 8 e"

text \<open>The conversion of the result to the type of the access.\<close>

definition narrow :: "(uint64 \<times> execution) option \<Rightarrow> ('n::len word \<times> execution) option" where
  "narrow r = map_option (\<lambda>(v, e). (ucast v, e)) r"

definition load_8 :: "config \<Rightarrow> uint64 \<Rightarrow> execution \<Rightarrow> (8 word \<times> execution) option" where
  "load_8 cfg addr e = narrow (exec_load cfg addr 1 e)"

definition load_16 :: "config \<Rightarrow> uint64 \<Rightarrow> execution \<Rightarrow> (16 word \<times> execution) option" where
  "load_16 cfg addr e = narrow (exec_load cfg addr 2 e)"

definition load_32 :: "config \<Rightarrow> uint64 \<Rightarrow> execution \<Rightarrow> (32 word \<times> execution) option" where
  "load_32 cfg addr e = narrow (exec_load cfg addr 4 e)"

definition load_64 :: "config \<Rightarrow> uint64 \<Rightarrow> execution \<Rightarrow> (64 word \<times> execution) option" where
  "load_64 cfg addr e = exec_load cfg addr 8 e"

text \<open>The read-modify-writes read the cell themselves, past the store buffer.\<close>

definition rmw_8 :: "atomicop \<Rightarrow> uint64 \<Rightarrow> 8 word \<Rightarrow> 8 word \<Rightarrow> execution \<Rightarrow> (8 word \<times> execution) option" where
  "rmw_8 aop addr oldval valarg e =
     narrow (exec_rmw aop addr 1 (read_mem addr 1 (mem e)) (ucast oldval) (ucast valarg) e)"

definition rmw_16 :: "atomicop \<Rightarrow> uint64 \<Rightarrow> 16 word \<Rightarrow> 16 word \<Rightarrow> execution \<Rightarrow> (16 word \<times> execution) option" where
  "rmw_16 aop addr oldval valarg e =
     narrow (exec_rmw aop addr 2 (read_mem addr 2 (mem e)) (ucast oldval) (ucast valarg) e)"

definition rmw_32 :: "atomicop \<Rightarrow> uint64 \<Rightarrow> 32 word \<Rightarrow> 32 word \<Rightarrow> execution \<Rightarrow> (32 word \<times> execution) option" where
  "rmw_32 aop addr oldval valarg e =
     narrow (exec_rmw aop addr 4 (read_mem addr 4 (mem e)) (ucast oldval) (ucast valarg) e)"

definition rmw_64 :: "atomicop \<Rightarrow> uint64 \<Rightarrow> 64 word \<Rightarrow> 64 word \<Rightarrow> execution \<Rightarrow> (64 word \<times> execution) option" where
  "rmw_64 aop addr oldval valarg e = exec_rmw aop addr 8 (read_mem addr 8 (mem e)) oldval valarg e"

text \<open>The announcement of the operands of the next operation.\<close>

definition MC2_nextOpLoad :: "MCID \<Rightarrow> execution \<Rightarrow> MCID \<times> execution" where
  "MC2_nextOpLoad addr e = loadMCID addr 0 e"

definition MC2_nextOpStore :: "MCID \<Rightarrow> MCID \<Rightarrow> execution \<Rightarrow> execution" where
  "MC2_nextOpStore addr val e = storeMCID addr 0 val e"

definition MC2_nextOpLoadOffset :: "MCID \<Rightarrow> uint64 \<Rightarrow> execution \<Rightarrow> MCID \<times> execution" where
  "MC2_nextOpLoadOffset addr off e = loadMCID addr off e"

definition MC2_nextOpStoreOffset :: "MCID \<Rightarrow> uint64 \<Rightarrow> MCID \<Rightarrow> execution \<Rightarrow> execution" where
  "MC2_nextOpStoreOffset addr off val e = storeMCID addr off val e"

definition MC2_nextRMW :: "MCID \<Rightarrow> MCID \<Rightarrow> MCID \<Rightarrow> execution \<Rightarrow> MCID \<times> execution" where
  "MC2_nextRMW addr oldval valarg e = nextRMW addr 0 oldval valarg e"

definition MC2_nextRMWOffset :: "MCID \<Rightarrow> uint64 \<Rightarrow> MCID \<Rightarrow> MCID \<Rightarrow> execution \<Rightarrow> MCID \<times> execution" where
  "MC2_nextRMWOffset addr off oldval valarg e = nextRMW addr off oldval valarg e"

text \<open>Functions of the program: arguments without an identifier are left out.\<close>

definition MC2_function :: "int \<Rightarrow> uint64 \<Rightarrow> MCID list \<Rightarrow> execution \<Rightarrow> (MCID \<times> execution) option" where
  "MC2_function numbytesretval val args e =
     exec_function 0 (nat numbytesretval) val (filter (\<lambda>v. v \<noteq> MCID_NODEP) args) e"

definition MC2_function_id :: "nat \<Rightarrow> int \<Rightarrow> uint64 \<Rightarrow> MCID list \<Rightarrow> execution \<Rightarrow> (MCID \<times> execution) option" where
  "MC2_function_id fid numbytesretval val args e =
     exec_function fid (nat numbytesretval) val (filter (\<lambda>v. v \<noteq> MCID_NODEP) args) e"

definition MC2_fence :: "config \<Rightarrow> execution \<Rightarrow> execution option" where
  "MC2_fence cfg e = (if TSO cfg then exec_fence e else Some e)"

end
