(* ===== verification/Snapshots.thy ===== *)
theory Snapshots
  imports SC_Prelude
begin

section \<open>Snapshots of memory (snapshot.cc, snapshot-interface.cc)\<close>

text \<open>
  The checker runs the program again and again from a snapshot of memory. The \<open>mprotect\<close> variant
  (the configured one, \<open>USE_MPROTECT_SNAPSHOT 2\<close>) protects the pages of the registered regions; the
  first write to a page faults, and the handler copies the page to the backing store before it
  allows the write. Rolling back copies the saved pages back. Memory is a function from page
  numbers to page contents of any type; a page number stands for its base address.
\<close>

subsection \<open>State and operations\<close>

record 'p snapshotter =
  pages :: "nat \<Rightarrow> 'p"
  protected :: "nat \<Rightarrow> bool"
  regions :: "(nat \<times> nat) list"
  backing :: "(nat \<times> 'p) list"
  snapShots :: "nat list"
  maxRegions :: nat
  maxBackingPages :: nat
  maxSnapShots :: nat

definition new_snapshotter :: "(nat \<Rightarrow> 'p) \<Rightarrow> nat \<Rightarrow> nat \<Rightarrow> nat \<Rightarrow> 'p snapshotter" where
  "new_snapshotter mem backing_pages snapshots nregions =
     \<lparr> pages = mem, protected = (\<lambda>_. False), regions = [], backing = [], snapShots = [],
       maxRegions = nregions, maxBackingPages = backing_pages, maxSnapShots = snapshots \<rparr>"

definition in_region :: "'p snapshotter \<Rightarrow> nat \<Rightarrow> bool" where
  "in_region s p \<longleftrightarrow> list_ex (\<lambda>(base, n). base \<le> p \<and> p < base + n) (regions s)"

definition mprot_add_to_snapshot :: "nat \<Rightarrow> nat \<Rightarrow> 'p snapshotter \<Rightarrow> 'p snapshotter option" where
  "mprot_add_to_snapshot addr numPages s =
     (if length (regions s) = maxRegions s then None
      else Some (s\<lparr> regions := regions s @ [(addr, numPages)] \<rparr>))"

text \<open>The fault handler: the page is saved, then it can be written.\<close>

definition mprot_handle_pf :: "nat \<Rightarrow> 'p snapshotter \<Rightarrow> 'p snapshotter option" where
  "mprot_handle_pf p s =
     (if length (backing s) = maxBackingPages s then None
      else Some (s\<lparr> backing := backing s @ [(p, pages s p)], protected := (protected s)(p := False) \<rparr>))"

text \<open>A write of the program to a page.\<close>

definition write_page :: "nat \<Rightarrow> 'p \<Rightarrow> 'p snapshotter \<Rightarrow> 'p snapshotter option" where
  "write_page p v s = do {
     s \<leftarrow> (if protected s p then mprot_handle_pf p s else Some s);
     Some (s\<lparr> pages := (pages s)(p := v) \<rparr>) }"

definition protect_regions :: "bool \<Rightarrow> 'p snapshotter \<Rightarrow> 'p snapshotter" where
  "protect_regions b s = s\<lparr> protected := (\<lambda>p. if in_region s p then b else protected s p) \<rparr>"

definition mprot_take_snapshot :: "'p snapshotter \<Rightarrow> (nat \<times> 'p snapshotter) option" where
  "mprot_take_snapshot s =
     (let s = protect_regions True s in
      if length (snapShots s) = maxSnapShots s then None
      else Some (length (snapShots s), s\<lparr> snapShots := snapShots s @ [length (backing s)] \<rparr>))"

text \<open>
  Rolling back to the last snapshot copies every page saved since then; to an older one, the first
  copy of each page saved since then, and the later snapshots are dropped.
\<close>

fun restore_all :: "(nat \<times> 'p) list \<Rightarrow> (nat \<Rightarrow> 'p) \<Rightarrow> nat \<Rightarrow> 'p" where
  "restore_all [] m = m"
| "restore_all ((p, v) # bs) m = restore_all bs (m(p := v))"

fun restore_first :: "nat list \<Rightarrow> (nat \<times> 'p) list \<Rightarrow> (nat \<Rightarrow> 'p) \<Rightarrow> nat \<Rightarrow> 'p" where
  "restore_first dup [] m = m"
| "restore_first dup ((p, v) # bs) m =
     (if p \<in> set dup then restore_first dup bs m else restore_first (p # dup) bs (m(p := v)))"

definition mprot_roll_back :: "nat \<Rightarrow> 'p snapshotter \<Rightarrow> 'p snapshotter option" where
  "mprot_roll_back theID s = do {
     first \<leftarrow> nth_opt (snapShots s) theID;
     if length (snapShots s) = theID + 1
     then Some (s\<lparr> pages := restore_all (drop first (backing s)) (pages s) \<rparr>)
     else do {
       let s = protect_regions False s;
       let s = s\<lparr> pages := restore_first [] (drop first (backing s)) (pages s),
                  snapShots := take theID (snapShots s), backing := take first (backing s) \<rparr>;
       (_, s) \<leftarrow> mprot_take_snapshot s;
       Some s } }"

subsection \<open>The stack of snapshots\<close>

text \<open>
  \<open>backTrackBeforeStep\<close> looks for the last entry whose index is not after \<open>seqindex\<close>, and pops the
  entries it passes; the loop counts \<open>i\<close> up where it should count down, so that after one pop it
  reads past the end of the stack, which is \<open>None\<close>.
\<close>

partial_function (option) backtrack_loop ::
  "int \<Rightarrow> int \<Rightarrow> (nat \<times> int) list \<Rightarrow> (int \<times> (nat \<times> int) list) option" where
  [code]: "backtrack_loop seqindex i stack =
     (if i < 0 then Some (i, stack)
      else case nth_opt stack (nat i) of
             None \<Rightarrow> None
           | Some (sid, ind) \<Rightarrow>
               if ind \<le> seqindex then Some (i, stack)
               else backtrack_loop seqindex (i + 1) (butlast stack))"

definition backTrackBeforeStep ::
  "int \<Rightarrow> (nat \<times> int) list \<Rightarrow> 'p snapshotter \<Rightarrow> (int \<times> (nat \<times> int) list \<times> 'p snapshotter) option" where
  "backTrackBeforeStep seqindex stack s = do {
     (i, stack) \<leftarrow> backtrack_loop seqindex (int (length stack) - 1) stack;
     if i < 0 then None
     else do {
       (sid, ind) \<leftarrow> nth_opt stack (nat i);
       s \<leftarrow> mprot_roll_back sid s;
       Some (ind, stack, s) } }"

definition snapshotStep :: "int \<Rightarrow> (nat \<times> int) list \<Rightarrow> 'p snapshotter \<Rightarrow> ((nat \<times> int) list \<times> 'p snapshotter) option" where
  "snapshotStep seqindex stack s = do {
     (sid, s) \<leftarrow> mprot_take_snapshot s;
     Some (stack @ [(sid, seqindex)], s) }"

text \<open>It returns exactly when the last entry can be used, and then pops nothing.\<close>

lemma backTrackBeforeStep_result:
  "backTrackBeforeStep seqindex stack s =
     (if stack \<noteq> [] \<and> snd (last stack) \<le> seqindex
      then map_option (\<lambda>s. (snd (last stack), stack, s)) (mprot_roll_back (fst (last stack)) s)
      else None)"
proof (cases stack rule: rev_cases)
  case Nil
  then show ?thesis by (simp add: backTrackBeforeStep_def backtrack_loop.simps)
next
  case (snoc st en)
  obtain sid ind where en: "en = (sid, ind)" by (cases en)
  have n: "nat (int (length stack) - 1) = length st" "\<not> int (length stack) - 1 < 0" using snoc by auto
  have nth: "length st < length stack" "stack ! length st = (sid, ind)" using snoc en by auto
  show ?thesis
  proof (cases "ind \<le> seqindex")
    case True
    then have "backtrack_loop seqindex (int (length stack) - 1) stack = Some (int (length stack) - 1, stack)"
      using n nth by (subst backtrack_loop.simps) (simp add: nth_opt_def)
    then show ?thesis using n nth True snoc en
      by (cases "mprot_roll_back sid s") (simp_all add: backTrackBeforeStep_def nth_opt_def)
  next
    case False
    have "nth_opt (butlast stack) (nat (int (length stack) - 1 + 1)) = None" using snoc by (simp add: nth_opt_def)
    then have "backtrack_loop seqindex (int (length stack) - 1 + 1) (butlast stack) = None"
      by (subst backtrack_loop.simps) simp
    then have "backtrack_loop seqindex (int (length stack) - 1) stack = None"
      using n nth False by (subst backtrack_loop.simps) (simp add: nth_opt_def)
    then show ?thesis using False snoc en by (simp add: backTrackBeforeStep_def)
  qed
qed

subsection \<open>Rolling back restores memory\<close>

text \<open>What a page had when the oldest copy in \<open>bs\<close> was made, or has now.\<close>

definition at_save :: "(nat \<times> 'p) list \<Rightarrow> (nat \<Rightarrow> 'p) \<Rightarrow> nat \<Rightarrow> 'p" where
  "at_save bs m p = (case map_of bs p of None \<Rightarrow> m p | Some v \<Rightarrow> v)"

lemma at_save_simps [simp]:
  "at_save [] m p = m p"
  "at_save ((q, v) # bs) m p = (if p = q then v else at_save bs m p)"
  by (simp_all add: at_save_def)

lemma at_save_upd: "at_save bs (m(q := v)) p = (if p = q \<and> map_of bs q = None then v else at_save bs m p)"
  by (auto simp: at_save_def split: option.splits)

lemma at_save_append: "at_save (xs @ ys) m p = (if map_of xs p = None then at_save ys m p else at_save xs m p)"
  by (auto simp: at_save_def map_add_def split: option.splits)

lemma at_save_None: "map_of bs p = None \<Longrightarrow> at_save bs m p = m p"
  by (simp add: at_save_def)

lemma restore_first_at: "restore_first dup bs m p = (if p \<in> set dup then m p else at_save bs m p)"
  by (induction bs arbitrary: dup m) (auto simp: at_save_def split: option.splits)

lemma restore_all_at: "distinct (map fst bs) \<Longrightarrow> restore_all bs m p = at_save bs m p"
  by (induction bs arbitrary: m) (auto simp: at_save_upd map_of_eq_None_iff)

lemma map_of_drop_later:
  assumes "map_of (drop j bs) p \<noteq> None" and "i \<le> j"
  shows "map_of (drop i bs) p \<noteq> None"
proof -
  from assms(2) have "drop j bs = drop (j - i) (drop i bs)" by simp
  then have "drop i bs = take (j - i) (drop i bs) @ drop j bs" by (metis append_take_drop_id)
  then have "map_of (drop i bs) = map_of (take (j - i) (drop i bs) @ drop j bs)" by simp
  with assms(1) show ?thesis by (auto simp: map_add_def split: option.splits)
qed

text \<open>
  The invariant, with \<open>Ms\<close> the memories at the snapshots taken: each can be rebuilt from the copies
  made since, a page of a region that is not protected has been copied since the last snapshot, and
  no page has been copied twice since then.
\<close>

definition snap_base :: "(nat \<Rightarrow> 'p) list \<Rightarrow> 'p snapshotter \<Rightarrow> bool" where
  "snap_base Ms s \<longleftrightarrow>
     length Ms = length (snapShots s) \<and> sorted (snapShots s) \<and>
     (\<forall>k < length Ms. snapShots s ! k \<le> length (backing s)) \<and>
     (\<forall>k < length Ms. \<forall>p. in_region s p \<longrightarrow>
        at_save (drop (snapShots s ! k) (backing s)) (pages s) p = (Ms ! k) p) \<and>
     (\<forall>p. protected s p \<longrightarrow> in_region s p \<and> snapShots s \<noteq> [])"

definition snap_inv :: "(nat \<Rightarrow> 'p) list \<Rightarrow> 'p snapshotter \<Rightarrow> bool" where
  "snap_inv Ms s \<longleftrightarrow> snap_base Ms s \<and>
     (snapShots s \<noteq> [] \<longrightarrow> distinct (map fst (drop (last (snapShots s)) (backing s)))) \<and>
     (snapShots s \<noteq> [] \<longrightarrow>
        (\<forall>p. in_region s p \<longrightarrow> (protected s p \<longleftrightarrow> map_of (drop (last (snapShots s)) (backing s)) p = None)))"

lemma snap_baseD:
  assumes "snap_base Ms s"
  shows "length Ms = length (snapShots s)" and "sorted (snapShots s)"
    and "k < length Ms \<Longrightarrow> snapShots s ! k \<le> length (backing s)"
    and "k < length Ms \<Longrightarrow> in_region s p \<Longrightarrow> at_save (drop (snapShots s ! k) (backing s)) (pages s) p = (Ms ! k) p"
    and "protected s p \<Longrightarrow> in_region s p \<and> snapShots s \<noteq> []"
  using assms unfolding snap_base_def by blast+

lemma snap_invD:
  assumes "snap_inv Ms s"
  shows "length Ms = length (snapShots s)" and "sorted (snapShots s)"
    and "k < length Ms \<Longrightarrow> snapShots s ! k \<le> length (backing s)"
    and "k < length Ms \<Longrightarrow> in_region s p \<Longrightarrow> at_save (drop (snapShots s ! k) (backing s)) (pages s) p = (Ms ! k) p"
    and "protected s p \<Longrightarrow> in_region s p \<and> snapShots s \<noteq> []"
    and "snapShots s \<noteq> [] \<Longrightarrow> distinct (map fst (drop (last (snapShots s)) (backing s)))"
    and "snapShots s \<noteq> [] \<Longrightarrow> in_region s p \<Longrightarrow>
      protected s p \<longleftrightarrow> map_of (drop (last (snapShots s)) (backing s)) p = None"
  using assms unfolding snap_inv_def snap_base_def by blast+

lemma snap_invI:
  assumes "length Ms = length (snapShots s)" and "sorted (snapShots s)"
    and "\<And>k. k < length Ms \<Longrightarrow> snapShots s ! k \<le> length (backing s)"
    and "\<And>k p. k < length Ms \<Longrightarrow> in_region s p \<Longrightarrow> at_save (drop (snapShots s ! k) (backing s)) (pages s) p = (Ms ! k) p"
    and "\<And>p. protected s p \<Longrightarrow> in_region s p \<and> snapShots s \<noteq> []"
    and "snapShots s \<noteq> [] \<Longrightarrow> distinct (map fst (drop (last (snapShots s)) (backing s)))"
    and "\<And>p. snapShots s \<noteq> [] \<Longrightarrow> in_region s p \<Longrightarrow>
      protected s p \<longleftrightarrow> map_of (drop (last (snapShots s)) (backing s)) p = None"
  shows "snap_inv Ms s"
  using assms unfolding snap_inv_def snap_base_def by blast

lemma snap_inv_last:
  assumes "snap_inv Ms s" and "snapShots s \<noteq> []"
  shows "last (snapShots s) \<le> length (backing s)" and "k < length Ms \<Longrightarrow> snapShots s ! k \<le> last (snapShots s)"
  using assms snap_invD(1-3) [OF assms(1)] by (auto simp: last_conv_nth intro: sorted_nth_mono)

lemma snap_inv_new: "snap_inv [] (new_snapshotter mem b n r)"
  by (simp add: snap_inv_def snap_base_def new_snapshotter_def)

text \<open>Regions are registered before the first snapshot.\<close>

lemma snap_inv_region:
  assumes "snap_inv [] s" and "mprot_add_to_snapshot a n s = Some s'"
  shows "snap_inv [] s'"
  using assms by (auto simp: snap_inv_def snap_base_def mprot_add_to_snapshot_def split: if_splits)

lemma in_region_cong: "regions s' = regions s \<Longrightarrow> in_region s' p = in_region s p"
  by (simp add: in_region_def)

lemma snap_inv_write:
  assumes inv: "snap_inv Ms s" and wr: "write_page q v s = Some s'"
  shows "snap_inv Ms s'"
proof (cases "protected s q")
  case False
  then have s': "s' = s\<lparr> pages := (pages s)(q := v) \<rparr>" using wr by (simp add: write_page_def)
  have reg: "in_region s' p = in_region s p" for p by (rule in_region_cong) (simp add: s')
  have saved: "map_of (drop (snapShots s ! k) (backing s)) q \<noteq> None" if "k < length Ms" "in_region s q" for k
  proof -
    have ne: "snapShots s \<noteq> []" using that snap_invD(1) [OF inv] by auto
    with snap_invD(7) [OF inv ne that(2)] False
    have "map_of (drop (last (snapShots s)) (backing s)) q \<noteq> None" by simp
    then show ?thesis by (rule map_of_drop_later) (rule snap_inv_last(2) [OF inv ne that(1)])
  qed
  have mem: "at_save (drop (snapShots s ! k) (backing s)) ((pages s)(q := v)) p = (Ms ! k) p"
    if "k < length Ms" "in_region s p" for k p
    using snap_invD(4) [OF inv that] saved [OF that(1)] that(2) by (auto simp: at_save_upd)
  show ?thesis
  proof (rule snap_invI)
    show "at_save (drop (snapShots s' ! k) (backing s')) (pages s') p = (Ms ! k) p" if "k < length Ms" "in_region s' p" for k p
      using mem [OF that(1)] that(2) unfolding reg by (simp add: s')
    show "protected s' p \<longleftrightarrow> map_of (drop (last (snapShots s')) (backing s')) p = None"
      if "snapShots s' \<noteq> []" "in_region s' p" for p
      using snap_invD(7) [OF inv] that unfolding reg by (simp add: s')
    show "in_region s' p \<and> snapShots s' \<noteq> []" if "protected s' p" for p
      using snap_invD(5) [OF inv, of p] that unfolding reg by (simp add: s')
  qed (use snap_invD(1,2,3,6) [OF inv] in \<open>simp_all add: s'\<close>)
next
  case True
  then have s': "s' = s\<lparr> backing := backing s @ [(q, pages s q)], protected := (protected s)(q := False),
      pages := (pages s)(q := v) \<rparr>"
    using wr by (auto simp: write_page_def mprot_handle_pf_def split: if_splits)
  from snap_invD(5) [OF inv True] have rq: "in_region s q" and ne: "snapShots s \<noteq> []" by auto
  have reg: "in_region s' p = in_region s p" for p by (rule in_region_cong) (simp add: s')
  have fresh: "map_of (drop (last (snapShots s)) (backing s)) q = None" using snap_invD(7) [OF inv ne rq] True by simp
  have le: "last (snapShots s) \<le> length (backing s)" by (rule snap_inv_last(1) [OF inv ne])
  have mem: "at_save (drop (snapShots s ! k) (backing s @ [(q, pages s q)])) ((pages s)(q := v)) p = (Ms ! k) p"
    if "k < length Ms" "in_region s p" for k p
    using snap_invD(3) [OF inv that(1)] snap_invD(4) [OF inv that]
    by (auto simp: at_save_append at_save_upd at_save_None)
  show ?thesis
  proof (rule snap_invI)
    show "length Ms = length (snapShots s')" "sorted (snapShots s')" using snap_invD(1,2) [OF inv] by (simp_all add: s')
    show "snapShots s' ! k \<le> length (backing s')" if "k < length Ms" for k
      using snap_invD(3) [OF inv that] by (simp add: s')
    show "in_region s' p \<and> snapShots s' \<noteq> []" if "protected s' p" for p
      using that snap_invD(5) [OF inv, of p] by (simp add: s' reg [unfolded s'] split: if_splits)
    show "distinct (map fst (drop (last (snapShots s')) (backing s')))"
      using snap_invD(6) [OF inv ne] fresh le by (simp add: s' map_of_eq_None_iff)
    show "protected s' p \<longleftrightarrow> map_of (drop (last (snapShots s')) (backing s')) p = None" if "in_region s' p" for p
      using snap_invD(7) [OF inv ne, of p] that fresh le unfolding reg by (auto simp: s' map_add_Some_iff)
    show "at_save (drop (snapShots s' ! k) (backing s')) (pages s') p = (Ms ! k) p" if "k < length Ms" "in_region s' p" for k p
      using mem [OF that(1)] that(2) unfolding reg by (simp add: s')
  qed
qed

lemma protect_regions_fields [simp]:
  "pages (protect_regions b s) = pages s" "backing (protect_regions b s) = backing s"
  "snapShots (protect_regions b s) = snapShots s" "regions (protect_regions b s) = regions s"
  by (simp_all add: protect_regions_def)

lemma take_snapshot_inv:
  assumes base: "snap_base Ms s" and snap: "mprot_take_snapshot s = Some (k, s')"
    and M: "\<And>p. in_region s p \<Longrightarrow> pages s p = M p"
  shows "snap_inv (Ms @ [M]) s'" and "k = length Ms" and "pages s' = pages s"
proof -
  have s': "s' = s\<lparr> protected := (\<lambda>p. in_region s p \<or> protected s p), snapShots := snapShots s @ [length (backing s)] \<rparr>"
    and k: "k = length (snapShots s)"
    using snap by (auto simp: mprot_take_snapshot_def protect_regions_def Let_def split: if_splits)
  show "k = length Ms" using k snap_baseD(1) [OF base] by simp
  show "pages s' = pages s" by (simp add: s')
  have reg: "in_region s' p = in_region s p" for p by (rule in_region_cong) (simp add: s')
  have sorted: "sorted (snapShots s @ [length (backing s)])"
    using snap_baseD(1-3) [OF base] by (auto simp: sorted_append in_set_conv_nth)
  have mem: "at_save (drop ((snapShots s @ [length (backing s)]) ! j) (backing s)) (pages s) p = ((Ms @ [M]) ! j) p"
    if "j < length (Ms @ [M])" "in_region s p" for j p
    using that snap_baseD(1) [OF base] snap_baseD(4) [OF base _ that(2)] M [OF that(2)]
    by (cases "j = length Ms") (auto simp: nth_append)
  have bnd: "(snapShots s @ [length (backing s)]) ! j \<le> length (backing s)" if "j < length (Ms @ [M])" for j
    using that snap_baseD(1,3) [OF base] by (cases "j = length Ms") (auto simp: nth_append)
  show "snap_inv (Ms @ [M]) s'"
  proof (rule snap_invI)
    show "protected s' p \<longleftrightarrow> map_of (drop (last (snapShots s')) (backing s')) p = None" if "in_region s' p" for p
      using that unfolding reg by (simp add: s')
    show "in_region s' p \<and> snapShots s' \<noteq> []" if "protected s' p" for p
      using that snap_baseD(5) [OF base, of p] by (auto simp: s' reg [unfolded s'])
  qed (use snap_baseD(1) [OF base] sorted mem bnd in \<open>simp_all add: s' reg [unfolded s']\<close>)
qed

lemma drop_take_split: "i \<le> n \<Longrightarrow> drop i xs = drop i (take n xs) @ drop n xs"
proof -
  assume "i \<le> n"
  then have "drop i xs = take (n - i) (drop i xs) @ drop n xs"
    by (metis append_take_drop_id drop_drop le_add_diff_inverse2)
  then show ?thesis by (simp add: drop_take)
qed

text \<open>Rolling back to a snapshot restores every page of the regions to what it was then.\<close>

theorem roll_back_restores:
  assumes inv: "snap_inv Ms s" and rb: "mprot_roll_back k s = Some s'"
  shows "snap_inv (take (k + 1) Ms) s'" and "in_region s p \<Longrightarrow> pages s' p = (Ms ! k) p"
proof -
  from rb have k: "k < length (snapShots s)" by (auto simp: mprot_roll_back_def do_simps)
  then have km: "k < length Ms" using snap_invD(1) [OF inv] by simp
  let ?first = "snapShots s ! k"
  have "snap_inv (take (k + 1) Ms) s' \<and> (in_region s p \<longrightarrow> pages s' p = (Ms ! k) p)"
  proof (cases "length (snapShots s) = k + 1")
    case True
    then have ne: "snapShots s \<noteq> []" by auto
    with True have l: "last (snapShots s) = ?first" by (simp add: last_conv_nth)
    have s': "s' = s\<lparr> pages := restore_all (drop ?first (backing s)) (pages s) \<rparr>"
      using rb k True by (simp add: mprot_roll_back_def nth_opt_def)
    have reg: "in_region s' p = in_region s p" for p by (rule in_region_cong) (simp add: s')
    have r: "restore_all (drop ?first (backing s)) (pages s) p = at_save (drop ?first (backing s)) (pages s) p" for p
      using snap_invD(6) [OF inv ne] l by (simp add: restore_all_at)
    have keep: "at_save (drop (snapShots s ! j) (backing s)) (restore_all (drop ?first (backing s)) (pages s)) p
        = at_save (drop (snapShots s ! j) (backing s)) (pages s) p" if "j < length Ms" for j p
    proof (cases "map_of (drop (snapShots s ! j) (backing s)) p")
      case None
      then have "map_of (drop ?first (backing s)) p = None"
        using map_of_drop_later [OF _ snap_inv_last(2) [OF inv ne that]] l by metis
      with None show ?thesis by (simp add: at_save_None r)
    qed (simp add: at_save_def)
    have "snap_inv Ms s'"
    proof (rule snap_invI)
      show "at_save (drop (snapShots s' ! j) (backing s')) (pages s') p = (Ms ! j) p" if "j < length Ms" "in_region s' p" for j p
        using snap_invD(4) [OF inv that(1)] keep [OF that(1)] that(2) unfolding reg by (simp add: s')
      show "protected s' p \<longleftrightarrow> map_of (drop (last (snapShots s')) (backing s')) p = None" if "in_region s' p" for p
        using snap_invD(7) [OF inv ne] that unfolding reg by (simp add: s')
      show "in_region s' p \<and> snapShots s' \<noteq> []" if "protected s' p" for p
        using snap_invD(5) [OF inv, of p] that unfolding reg by (simp add: s')
    qed (use snap_invD(1,2,3,6) [OF inv] in \<open>simp_all add: s'\<close>)
    then show ?thesis using True snap_invD(1) [OF inv] snap_invD(4) [OF inv km] by (simp add: s' r)
  next
    case False
    let ?s = "(protect_regions False s)\<lparr> pages := restore_first [] (drop ?first (backing s)) (pages s),
        snapShots := take k (snapShots s), backing := take ?first (backing s) \<rparr>"
    obtain j where t: "mprot_take_snapshot ?s = Some (j, s')"
      using rb k False by (auto simp: mprot_roll_back_def nth_opt_def Let_def do_simps)
    have reg: "in_region ?s p = in_region s p" for p by (rule in_region_cong) (simp add: protect_regions_def)
    have pg: "pages ?s p = (Ms ! k) p" if "in_region ?s p" for p
      using snap_invD(4) [OF inv km] that by (simp add: restore_first_at reg)
    have eq: "at_save (drop i (take ?first (backing s))) (restore_first [] (drop ?first (backing s)) (pages s)) p
        = at_save (drop i (backing s)) (pages s) p" if "i \<le> ?first" for i p
      by (subst drop_take_split [OF that])
        (auto simp: at_save_append restore_first_at at_save_None at_save_def split: option.splits)
    have le: "snapShots s ! i \<le> ?first" if "i < k" for i
      using sorted_nth_mono [OF snap_invD(2) [OF inv]] that k by simp
    have "snap_base (take k Ms) ?s"
      unfolding snap_base_def reg
    proof (intro conjI allI impI)
      fix i p assume i: "i < length (take k Ms)" and p: "in_region s p"
      then show "at_save (drop (snapShots ?s ! i) (backing ?s)) (pages ?s) p = (take k Ms ! i) p"
        using snap_invD(4) [OF inv _ p, of i] eq [OF le] by simp
    next
      fix p assume "protected ?s p"
      then show "in_region s p" using snap_invD(5) [OF inv, of p] by (simp add: protect_regions_def split: if_splits)
    next
      fix p assume "protected ?s p"
      then show "snapShots ?s \<noteq> []" using snap_invD(5) [OF inv, of p] by (simp add: protect_regions_def split: if_splits)
    qed (use snap_invD(1-3) [OF inv] k le in \<open>simp_all add: sorted_wrt_take min_def\<close>)
    note T = take_snapshot_inv [OF this t pg]
    have "take (k + 1) Ms = take k Ms @ [Ms ! k]" using km by (simp add: take_Suc_conv_app_nth)
    then show ?thesis using T(1,3) pg reg by simp
  qed
  then show "snap_inv (take (k + 1) Ms) s'" and "in_region s p \<Longrightarrow> pages s' p = (Ms ! k) p" by auto
qed

text \<open>Page 3 holds 7 when the snapshot is taken, and is written after it.\<close>

definition example_run :: "nat snapshotter option" where
  "example_run = do {
     s \<leftarrow> mprot_add_to_snapshot 2 4 (new_snapshotter (\<lambda>_. 7) 10 10 10);
     (_, s) \<leftarrow> mprot_take_snapshot s;
     write_page 3 8 s }"

lemma example_run_inv: "\<exists>s. example_run = Some s \<and> snap_inv [\<lambda>_. 7] s \<and> pages s 3 = 8 \<and> in_region s 3 \<and>
    snapShots s = [0]"
proof -
  let ?s0 = "(new_snapshotter (\<lambda>_. 7 :: nat) 10 10 10)\<lparr> regions := [(2, 4)] \<rparr>"
  have base: "snap_base [] ?s0" by (simp add: snap_base_def new_snapshotter_def)
  obtain s1 where s1: "mprot_take_snapshot ?s0 = Some (0, s1)"
    by (simp add: mprot_take_snapshot_def protect_regions_def new_snapshotter_def)
  then have inv: "snap_inv ([] @ [\<lambda>_. 7]) s1"
    by (rule take_snapshot_inv(1) [OF base]) (simp add: new_snapshotter_def)
  obtain s2 where s2: "write_page 3 8 s1 = Some s2" "pages s2 3 = 8" "in_region s2 3" "snapShots s2 = [0]"
    using s1 by (auto simp: mprot_take_snapshot_def protect_regions_def new_snapshotter_def write_page_def
        mprot_handle_pf_def in_region_def)
  from snap_inv_write [OF inv s2(1)] have "snap_inv [\<lambda>_. 7] s2" by simp
  with s1 s2 show ?thesis
    by (auto simp: example_run_def mprot_add_to_snapshot_def new_snapshotter_def)
qed

end
