(* ===== verification/Allocators.thy ===== *)
theory Allocators
  imports McUtil Snapshots
begin

section \<open>Memory allocators (mymemory.cc, snapshot.cc)\<close>

text \<open>
  The library replaces \<open>malloc\<close> and its relatives. Until the heap of the program exists, requests
  are served from a static array; afterwards the program gets memory from a heap that only grows, so
  that the snapshots can restore it, and the checker itself from the C library. This theory has the
  two bump allocators, the routing of requests and releases, the rounding of addresses to pages and
  the layout of the heaps. Addresses and sizes are 64-bit words. The addresses of the static array
  and of the blocks that the C library's \<open>malloc\<close> returns are arguments.
\<close>

subsection \<open>State\<close>

definition BOOTSTRAPBYTES :: uint64 where "BOOTSTRAPBYTES = 131072"

text \<open>\<open>early_offset\<close> is \<open>offset\<close>; \<open>user_space\<close> says that \<open>user_snapshot_space\<close> is not null.\<close>

record alloc_state =
  early_offset :: uint64
  user_space :: bool
  switch_alloc :: bool
  allocation_ptr :: uint64
  top_ptr :: uint64

subsection \<open>The two bump allocators\<close>

definition align8 :: "uint64 \<Rightarrow> uint64" where
  "align8 sz = bit_and64 (sz + 7) (- 8)"

text \<open>\<open>None\<close> is the exit with a message, or the failed assertion.\<close>

definition HandleEarlyAllocationRequest :: "uint64 \<Rightarrow> uint64 \<Rightarrow> alloc_state \<Rightarrow> (uint64 \<times> alloc_state) option" where
  "HandleEarlyAllocationRequest bootstrapmemory sz s =
     (let sz = align8 sz in
      if sz > BOOTSTRAPBYTES - early_offset s then None
      else Some (bootstrapmemory + early_offset s, s\<lparr> early_offset := early_offset s + sz \<rparr>))"

definition real_user_malloc :: "uint64 \<Rightarrow> alloc_state \<Rightarrow> (uint64 \<times> alloc_state) option" where
  "real_user_malloc sz s =
     (let p = allocation_ptr s + align8 sz in
      if p \<le> top_ptr s then Some (allocation_ptr s, s\<lparr> allocation_ptr := p \<rparr>) else None)"

subsection \<open>Routing\<close>

datatype alloc_source = LIBC | USER | EARLY

definition malloc_source :: "alloc_state \<Rightarrow> alloc_source" where
  "malloc_source s = (if user_space s then if switch_alloc s then LIBC else USER else EARLY)"

text \<open>\<open>calloc\<close> never asks the C library, and multiplies without a check.\<close>

definition calloc_source :: "alloc_state \<Rightarrow> alloc_source" where
  "calloc_source s = (if user_space s then USER else EARLY)"

definition calloc_size :: "uint64 \<Rightarrow> uint64 \<Rightarrow> uint64" where
  "calloc_size num sz = num * sz"

definition DontFree :: "uint64 \<Rightarrow> uint64 \<Rightarrow> bool" where
  "DontFree bootstrapmemory ptr = (bootstrapmemory \<le> ptr \<and> ptr < bootstrapmemory + BOOTSTRAPBYTES)"

datatype free_action = NOT_FREED | LIBC_FREE | MSPACE_FREE

definition free_of :: "uint64 \<Rightarrow> uint64 \<Rightarrow> alloc_state \<Rightarrow> free_action" where
  "free_of bootstrapmemory ptr s =
     (if \<not> DontFree bootstrapmemory ptr then if switch_alloc s then LIBC_FREE else MSPACE_FREE
      else NOT_FREED)"

subsection \<open>Pages and the layout of the heaps\<close>

definition PAGESIZE :: uint64 where "PAGESIZE = 4096"

definition PageAlignAddressUpward :: "uint64 \<Rightarrow> uint64" where
  "PageAlignAddressUpward addr = bit_and64 (addr + PAGESIZE - 1) (- PAGESIZE)"

definition ReturnPageAlignedAddress :: "uint64 \<Rightarrow> uint64" where
  "ReturnPageAlignedAddress addr = bit_and64 addr (- PAGESIZE)"

text \<open>
  \<open>mprot_snapshot_init\<close> asks for three blocks, given with their addresses. The sizes are computed
  in 32 bits. The result is the three regions, each a base and a number of pages, in the order they
  are registered, and the pointers of the heap of the program.
\<close>

definition user_block_size :: "uint32 \<Rightarrow> uint32" where
  "user_block_size numheappages = (numheappages - 32 + 1) * 4096"

definition thread_block_size :: uint32 where
  "thread_block_size = 33 * 4096"

definition model_block_size :: "uint32 \<Rightarrow> uint32" where
  "model_block_size numheappages = (numheappages + 1) * 4096"

definition heap_layout ::
  "uint32 \<Rightarrow> uint64 \<Rightarrow> uint64 \<Rightarrow> uint64 \<Rightarrow> (uint64 \<times> uint32) list \<times> uint64 \<times> uint64" where
  "heap_layout numheappages basemySpace basethreadSpace base_model_snapshot_space =
     (let user = PageAlignAddressUpward basemySpace;
          thread = PageAlignAddressUpward basethreadSpace;
          model = PageAlignAddressUpward base_model_snapshot_space in
      ([(user, numheappages - 32), (thread, 32), (model, numheappages)],
       user, user + ucast ((numheappages - 32) * 4096 :: uint32)))"

subsection \<open>Rounding\<close>

lemma unat_and_neg_exp:
  assumes "k < 64"
  shows "unat (bit_and64 x (- (2 ^ k))) = unat x - unat x mod 2 ^ k"
proof -
  have "bit_and64 x (- (2 ^ k)) = push_bit k (drop_bit k x)"
    by (rule bit_word_eqI) (auto simp: bit_and64_def minus_exp_eq_not_mask bit_simps)
  then have "unat (bit_and64 x (- (2 ^ k))) = take_bit LENGTH(64) (push_bit k (drop_bit k (unat x)))"
    by (simp only: unsigned_push_bit_eq unsigned_drop_bit_eq take_bit_nat_eq_self [OF unsigned_less])
  then have e: "unat (bit_and64 x (- (2 ^ k))) = take_bit 64 (2 ^ k * (unat x div 2 ^ k))"
    by (simp add: push_bit_eq_mult drop_bit_eq_div mult.commute)
  have "2 ^ k * (unat x div 2 ^ k) \<le> unat x" by simp
  moreover have "unat x < 2 ^ LENGTH(64)" by (rule unsigned_less)
  ultimately have "2 ^ k * (unat x div 2 ^ k) < 2 ^ LENGTH(64)" by (rule le_less_trans)
  with e show ?thesis by (simp add: take_bit_nat_eq_self minus_mod_eq_mult_div)
qed

lemma align8_bounds:
  assumes "unat sz + 7 < 2 ^ 64"
  shows "unat sz \<le> unat (align8 sz)" and "unat (align8 sz) \<le> unat sz + 7" and "8 dvd unat (align8 sz)"
proof -
  have "unat (sz + 7) = unat sz + 7" using assms by (simp add: unat_plus_if')
  moreover have "unat (align8 sz) = unat (sz + 7) - unat (sz + 7) mod 8"
    using unat_and_neg_exp [of 3 "sz + 7"] by (simp add: align8_def)
  ultimately have a: "unat (align8 sz) = unat sz + 7 - (unat sz + 7) mod 8" by simp
  show "unat sz \<le> unat (align8 sz)" "unat (align8 sz) \<le> unat sz + 7"
    unfolding a using mod_less_divisor [of 8 "unat sz + 7"] by linarith+
  show "8 dvd unat (align8 sz)" unfolding a by (rule dvd_minus_mod)
qed

lemma page_align_bounds:
  assumes "unat addr + 4095 < 2 ^ 64"
  shows "unat addr \<le> unat (PageAlignAddressUpward addr)" and "unat (PageAlignAddressUpward addr) \<le> unat addr + 4095"
    and "4096 dvd unat (PageAlignAddressUpward addr)"
proof -
  have "unat (addr + 4095) = unat addr + 4095" using assms by (simp add: unat_plus_if')
  moreover have "unat (PageAlignAddressUpward addr) = unat (addr + 4095) - unat (addr + 4095) mod 4096"
    using unat_and_neg_exp [of 12 "addr + 4095"] by (simp add: PageAlignAddressUpward_def PAGESIZE_def add_diff_eq [symmetric])
  ultimately have a: "unat (PageAlignAddressUpward addr) = unat addr + 4095 - (unat addr + 4095) mod 4096" by simp
  show "unat addr \<le> unat (PageAlignAddressUpward addr)" "unat (PageAlignAddressUpward addr) \<le> unat addr + 4095"
    unfolding a using mod_less_divisor [of 4096 "unat addr + 4095"] by linarith+
  show "4096 dvd unat (PageAlignAddressUpward addr)" unfolding a by (rule dvd_minus_mod)
qed

subsection \<open>Blocks do not overlap\<close>

text \<open>A sequence of requests, with the blocks that answer them.\<close>

fun alloc_all :: "(uint64 \<Rightarrow> 's \<Rightarrow> (uint64 \<times> 's) option) \<Rightarrow> uint64 list \<Rightarrow> 's \<Rightarrow> ((uint64 \<times> uint64) list \<times> 's) option" where
  "alloc_all alloc [] s = Some ([], s)"
| "alloc_all alloc (sz # szs) s = do {
     (p, s) \<leftarrow> alloc sz s;
     (bs, s) \<leftarrow> alloc_all alloc szs s;
     Some ((p, sz) # bs, s) }"

definition block_before :: "uint64 \<times> uint64 \<Rightarrow> uint64 \<times> uint64 \<Rightarrow> bool" where
  "block_before b c \<longleftrightarrow> unat (fst b) + unat (snd b) \<le> unat (fst c)"

definition sane_size :: "uint64 \<Rightarrow> bool" where
  "sane_size sz \<longleftrightarrow> unat sz < 2 ^ 62"

text \<open>
  What a client relies on: memory is handed out from the bottom to the top of one range, and a
  block has the size asked for.
\<close>

locale bump =
  fixes alloc :: "uint64 \<Rightarrow> 's \<Rightarrow> (uint64 \<times> 's) option"
    and lo hi :: "'s \<Rightarrow> nat"
    and sound :: "'s \<Rightarrow> bool"
  assumes lo_hi: "sound s \<Longrightarrow> lo s \<le> hi s"
    and alloc_block: "sound s \<Longrightarrow> sane_size sz \<Longrightarrow> alloc sz s = Some (p, s') \<Longrightarrow>
      sound s' \<and> unat p = lo s \<and> lo s + unat sz \<le> lo s' \<and> hi s' = hi s"
begin

lemma blocks:
  assumes "alloc_all alloc szs s = Some (bs, s')" and "sound s" and "\<forall>sz \<in> set szs. sane_size sz"
  shows "sound s' \<and> hi s' = hi s \<and> lo s \<le> lo s' \<and> map snd bs = szs \<and> sorted_wrt block_before bs \<and>
    (\<forall>b \<in> set bs. lo s \<le> unat (fst b) \<and> unat (fst b) + unat (snd b) \<le> lo s')"
  using assms
proof (induction szs arbitrary: s bs)
  case Nil
  then show ?case by simp
next
  case (Cons sz szs)
  from Cons.prems(1) obtain p s1 bs1 where p: "alloc sz s = Some (p, s1)" "alloc_all alloc szs s1 = Some (bs1, s')"
    "bs = (p, sz) # bs1" by (auto simp: do_simps)
  from alloc_block [OF Cons.prems(2) _ p(1)] Cons.prems(3)
  have a: "sound s1" "unat p = lo s" "lo s + unat sz \<le> lo s1" "hi s1 = hi s" by auto
  from Cons.IH [OF p(2) a(1)] Cons.prems(3) have IH: "sound s'" "hi s' = hi s1" "lo s1 \<le> lo s'" "map snd bs1 = szs"
    "sorted_wrt block_before bs1" "\<forall>b \<in> set bs1. lo s1 \<le> unat (fst b) \<and> unat (fst b) + unat (snd b) \<le> lo s'" by auto
  have "\<forall>b \<in> set bs1. block_before (p, sz) b" using IH(6) a by (auto simp: block_before_def)
  then show ?case using a IH by (auto simp: p(3))
qed

lemma blocks_in_range:
  assumes "alloc_all alloc szs s = Some (bs, s')" and "sound s" and "\<forall>sz \<in> set szs. sane_size sz"
  shows "\<forall>b \<in> set bs. lo s \<le> unat (fst b) \<and> unat (fst b) + unat (snd b) \<le> hi s"
  using blocks [OF assms] lo_hi [of s'] by force

end

text \<open>The static array lies inside the address space; user addresses are below \<open>2 ^ 63\<close>.\<close>

definition early_ok :: "uint64 \<Rightarrow> alloc_state \<Rightarrow> bool" where
  "early_ok boot s \<longleftrightarrow> unat boot + unat BOOTSTRAPBYTES < 2 ^ 64 \<and> early_offset s \<le> BOOTSTRAPBYTES"

definition early_end :: "uint64 \<Rightarrow> alloc_state \<Rightarrow> nat" where
  "early_end boot s = unat boot + unat (early_offset s)"

definition heap_ok :: "alloc_state \<Rightarrow> bool" where
  "heap_ok s \<longleftrightarrow> allocation_ptr s \<le> top_ptr s \<and> unat (top_ptr s) < 2 ^ 63"

lemma sane_align8:
  assumes "sane_size sz"
  shows "unat sz \<le> unat (align8 sz)" and "unat (align8 sz) \<le> 2 ^ 62 + 7"
  using assms align8_bounds [of sz] by (simp_all add: sane_size_def)

lemma early_block:
  assumes "early_ok boot s" and "sane_size sz" and "HandleEarlyAllocationRequest boot sz s = Some (p, s')"
  shows "early_ok boot s' \<and> unat p = early_end boot s \<and> early_end boot s + unat sz \<le> early_end boot s'"
proof -
  let ?n = "align8 sz"
  from assms(3) have a: "?n \<le> BOOTSTRAPBYTES - early_offset s" "p = boot + early_offset s"
    "s' = s\<lparr> early_offset := early_offset s + ?n \<rparr>"
    by (simp_all add: HandleEarlyAllocationRequest_def Let_def not_less split: if_splits)
  have o: "unat (early_offset s) \<le> 131072" and b: "unat boot + 131072 < 2 ^ 64"
    using assms(1) by (simp_all add: early_ok_def BOOTSTRAPBYTES_def word_le_nat_alt)
  have "unat (BOOTSTRAPBYTES - early_offset s) = 131072 - unat (early_offset s)"
    using assms(1) by (simp add: early_ok_def BOOTSTRAPBYTES_def unat_sub)
  then have n: "unat ?n \<le> 131072 - unat (early_offset s)" using a(1) by (simp add: word_le_nat_alt)
  have e: "unat (early_offset s + ?n) = unat (early_offset s) + unat ?n" using n o by (simp add: unat_plus_if')
  have p: "unat p = unat boot + unat (early_offset s)" using b o by (simp add: a(2) unat_plus_if')
  show ?thesis using n o b e p sane_align8(1) [OF assms(2)]
    by (auto simp: early_ok_def early_end_def a(3) BOOTSTRAPBYTES_def word_le_nat_alt)
qed

lemma heap_block:
  assumes "heap_ok s" and "sane_size sz" and "real_user_malloc sz s = Some (p, s')"
  shows "heap_ok s' \<and> unat p = unat (allocation_ptr s) \<and>
    unat (allocation_ptr s) + unat sz \<le> unat (allocation_ptr s') \<and> top_ptr s' = top_ptr s"
proof -
  let ?n = "align8 sz"
  from assms(3) have a: "allocation_ptr s + ?n \<le> top_ptr s" "p = allocation_ptr s"
    "s' = s\<lparr> allocation_ptr := allocation_ptr s + ?n \<rparr>"
    by (auto simp: real_user_malloc_def Let_def split: if_splits)
  have "unat (allocation_ptr s) < 2 ^ 63" using assms(1) by (auto simp: heap_ok_def word_le_nat_alt)
  then have "unat (allocation_ptr s + ?n) = unat (allocation_ptr s) + unat ?n"
    using sane_align8(2) [OF assms(2)] by (simp add: unat_plus_if')
  then show ?thesis using assms(1) a sane_align8(1) [OF assms(2)] by (simp add: heap_ok_def)
qed

interpretation early: bump "HandleEarlyAllocationRequest boot" "early_end boot"
  "\<lambda>_. unat boot + unat BOOTSTRAPBYTES" "early_ok boot" for boot
proof unfold_locales
  fix s assume "early_ok boot s"
  then show "early_end boot s \<le> unat boot + unat BOOTSTRAPBYTES"
    by (simp add: early_ok_def early_end_def word_le_nat_alt)
next
  fix s sz p s' assume "early_ok boot s" "sane_size sz" "HandleEarlyAllocationRequest boot sz s = Some (p, s')"
  from early_block [OF this] show "early_ok boot s' \<and> unat p = early_end boot s \<and>
      early_end boot s + unat sz \<le> early_end boot s' \<and> unat boot + unat BOOTSTRAPBYTES = unat boot + unat BOOTSTRAPBYTES"
    by blast
qed

interpretation user_heap: bump real_user_malloc "\<lambda>s. unat (allocation_ptr s)" "\<lambda>s. unat (top_ptr s)" heap_ok
proof unfold_locales
  fix s assume "heap_ok s"
  then show "unat (allocation_ptr s) \<le> unat (top_ptr s)" by (simp add: heap_ok_def word_le_nat_alt)
next
  fix s sz p s' assume "heap_ok s" "sane_size sz" "real_user_malloc sz s = Some (p, s')"
  from heap_block [OF this] show "heap_ok s' \<and> unat p = unat (allocation_ptr s) \<and>
      unat (allocation_ptr s) + unat sz \<le> unat (allocation_ptr s') \<and> unat (top_ptr s') = unat (top_ptr s)"
    by simp
qed

text \<open>Blocks of the static array stay inside it and are never freed.\<close>

lemma early_blocks_in_array:
  assumes "early_ok boot s" and "alloc_all (HandleEarlyAllocationRequest boot) szs s = Some (bs, s')"
    and "\<forall>sz \<in> set szs. sane_size sz"
  shows "map snd bs = szs \<and> sorted_wrt block_before bs \<and>
    (\<forall>b \<in> set bs. unat boot \<le> unat (fst b) \<and> unat (fst b) + unat (snd b) \<le> unat boot + unat BOOTSTRAPBYTES)"
  using early.blocks [OF assms(2,1,3)] early.blocks_in_range [OF assms(2,1,3)] by (auto simp: early_end_def)

lemma array_not_freed:
  assumes "early_ok boot s" and "unat boot \<le> unat p" and "unat p < unat boot + unat BOOTSTRAPBYTES"
  shows "free_of boot p t = NOT_FREED"
proof -
  have b: "unat boot + 131072 < 2 ^ 64" using assms(1) by (simp add: early_ok_def BOOTSTRAPBYTES_def)
  then have "unat (boot + BOOTSTRAPBYTES) = unat boot + 131072" by (simp add: BOOTSTRAPBYTES_def unat_plus_if')
  with assms(2,3) show ?thesis by (simp add: free_of_def DontFree_def BOOTSTRAPBYTES_def word_le_nat_alt word_less_nat_alt)
qed

subsection \<open>Sizes that wrap around\<close>

text \<open>The largest sizes round to 0: the request is answered, with no memory behind the pointer.\<close>

lemma huge_request:
  assumes "unat sz + 7 \<ge> 2 ^ 64"
  shows "align8 sz = 0"
proof -
  have "unat sz < 2 ^ LENGTH(64)" by (rule unsigned_less)
  then have s: "unat (sz + 7) = unat sz + 7 - 2 ^ 64" "unat sz + 7 - 2 ^ 64 < 8" using assms by (simp_all add: unat_plus_if')
  then have "unat (align8 sz) = 0" using unat_and_neg_exp [of 3 "sz + 7"] by (simp add: align8_def)
  then show ?thesis by (simp add: unat_eq_0)
qed

subsection \<open>The heaps lie inside their blocks\<close>

lemma unat_pages: "unat n < 2 ^ 20 \<Longrightarrow> unat ((n :: uint32) * 4096) = unat n * 4096"
proof -
  assume "unat n < 2 ^ 20"
  then have "unat n * 4096 < 2 ^ 32" by simp
  then show ?thesis by (simp add: unat_word_ariths)
qed

lemma region_in_block:
  fixes n :: uint32
  assumes "unat n < 2 ^ 20 - 1" and "unat base + unat ((n + 1) * 4096) < 2 ^ 64"
  shows "unat base \<le> unat (PageAlignAddressUpward base)"
    and "unat (PageAlignAddressUpward base) + 4096 * unat n \<le> unat base + unat ((n + 1) * 4096)"
    and "4096 dvd unat (PageAlignAddressUpward base)"
proof -
  have n: "unat (n + 1) = unat n + 1" using assms(1) by (simp add: unat_plus_if')
  have s: "unat ((n + 1) * 4096) = (unat n + 1) * 4096" using unat_pages [of "n + 1"] assms(1) by (simp add: n)
  have "unat base + 4095 < 2 ^ 64" using assms(2) unfolding s by simp
  from page_align_bounds [OF this] s show "unat base \<le> unat (PageAlignAddressUpward base)"
    "unat (PageAlignAddressUpward base) + 4096 * unat n \<le> unat base + unat ((n + 1) * 4096)"
    "4096 dvd unat (PageAlignAddressUpward base)" by auto
qed

lemma unat_add_lem':
  fixes a b :: uint64
  assumes "unat a + unat b < 2 ^ 64"
  shows "unat (a + b) = unat a + unat b"
  using assms by (simp add: unat_plus_if')

text \<open>
  For fewer than \<open>2 ^ 20\<close> pages the 32-bit sizes are exact, every region lies inside its block, and
  the heap of the program is its region.
\<close>

lemma heap_layout_in_blocks:
  assumes "heap_layout n b1 b2 b3 = (rs, alloc, limit)" and "32 \<le> unat n" and "unat n < 2 ^ 20 - 1"
    and "unat b1 + unat (user_block_size n) < 2 ^ 64" and "unat b2 + unat thread_block_size < 2 ^ 64"
    and "unat b3 + unat (model_block_size n) < 2 ^ 64"
  shows "\<exists>u t m. rs = [(u, n - 32), (t, 32), (m, n)] \<and> alloc = u \<and> unat limit = unat u + 4096 * (unat n - 32) \<and>
    unat b1 \<le> unat u \<and> unat u + 4096 * (unat n - 32) \<le> unat b1 + unat (user_block_size n) \<and>
    unat b2 \<le> unat t \<and> unat t + 4096 * 32 \<le> unat b2 + unat thread_block_size \<and>
    unat b3 \<le> unat m \<and> unat m + 4096 * unat n \<le> unat b3 + unat (model_block_size n)"
proof -
  let ?u = "PageAlignAddressUpward b1" and ?t = "PageAlignAddressUpward b2" and ?m = "PageAlignAddressUpward b3"
  have n32: "unat (n - 32) = unat n - 32" using assms(2) by (simp add: unat_sub word_le_nat_alt)
  have u: "unat b1 \<le> unat ?u" "unat ?u + 4096 * (unat n - 32) \<le> unat b1 + unat (user_block_size n)"
    using region_in_block [of "n - 32" b1] assms(3,4) by (simp_all add: n32 user_block_size_def)
  have t: "unat b2 \<le> unat ?t" "unat ?t + 4096 * 32 \<le> unat b2 + unat thread_block_size"
    using region_in_block [of 32 b2] assms(5) by (simp_all add: thread_block_size_def)
  have m: "unat b3 \<le> unat ?m" "unat ?m + 4096 * unat n \<le> unat b3 + unat (model_block_size n)"
    using region_in_block [of n b3] assms(3,6) by (simp_all add: model_block_size_def)
  have w: "unat (ucast ((n - 32) * 4096 :: uint32) :: uint64) = 4096 * (unat n - 32)"
    using unat_pages [of "n - 32"] assms(3) by (simp add: n32 unsigned_ucast_eq take_bit_nat_eq_self)
  from assms(1) [symmetric] have rs: "rs = [(?u, n - 32), (?t, 32), (?m, n)]" and al: "alloc = ?u"
    and tp: "limit = ?u + ucast ((n - 32) * 4096 :: uint32)" by (simp_all only: heap_layout_def Let_def prod.inject)
  have "unat ?u + unat (ucast ((n - 32) * 4096 :: uint32) :: uint64) < 2 ^ 64" unfolding w using u(2) assms(4) by linarith
  then have "unat limit = unat ?u + 4096 * (unat n - 32)" unfolding tp w [symmetric] by (rule unat_add_lem')
  then show ?thesis using u t m rs al by blast
qed

subsection \<open>The heap of the program is restored by the snapshots\<close>

definition page_of :: "nat \<Rightarrow> nat" where
  "page_of a = a div 4096"

text \<open>The regions as the snapshotter has them, with page numbers.\<close>

definition region_pages :: "(uint64 \<times> uint32) list \<Rightarrow> (nat \<times> nat) list" where
  "region_pages rs = map (\<lambda>(base, n). (page_of (unat base), unat n)) rs"

lemma block_in_region:
  assumes "heap_layout n b1 b2 b3 = (rs, alloc, limit)" and "32 \<le> unat n" and "unat n < 2 ^ 20 - 1"
    and "unat b1 + unat (user_block_size n) < 2 ^ 63" and "unat b2 + unat thread_block_size < 2 ^ 63"
    and "unat b3 + unat (model_block_size n) < 2 ^ 63"
    and "allocation_ptr s = alloc" and "top_ptr s = limit"
    and "alloc_all real_user_malloc szs s = Some (bs, s')" and "\<forall>sz \<in> set szs. sane_size sz"
    and "regions sn = region_pages rs"
    and "(p, sz) \<in> set bs" and "unat p \<le> a" and "a < unat p + unat sz"
  shows "in_region sn (page_of a)"
proof -
  have "unat b1 + unat (user_block_size n) < 2 ^ 64" "unat b2 + unat thread_block_size < 2 ^ 64"
    "unat b3 + unat (model_block_size n) < 2 ^ 64" using assms(4-6) by simp_all
  from heap_layout_in_blocks [OF assms(1-3) this] obtain t m where rs: "rs = [(alloc, n - 32), (t, 32), (m, n)]"
    and lim: "unat limit = unat alloc + 4096 * (unat n - 32)"
    and le: "unat alloc + 4096 * (unat n - 32) \<le> unat b1 + unat (user_block_size n)" by blast
  have "heap_ok s" using assms(4,7,8) lim le by (simp add: heap_ok_def word_le_nat_alt)
  from user_heap.blocks_in_range [OF assms(9) this assms(10)] assms(7,8,12-14)
  have a: "unat alloc \<le> a" "a < unat alloc + 4096 * (unat n - 32)" unfolding lim [symmetric] by force+
  have al: "4096 dvd unat alloc"
    using assms(1,4) page_align_bounds(3) [of b1] le
    by (auto simp: heap_layout_def Let_def user_block_size_def)
  have n32: "unat (n - 32) = unat n - 32" using assms(2) by (simp add: unat_sub word_le_nat_alt)
  from al obtain k where k: "unat alloc = 4096 * k" by blast
  then have "k \<le> a div 4096" "a div 4096 < k + (unat n - 32)" using a by (simp_all add: less_mult_imp_div_less div_le_mono)
  then have "k \<le> a div 4096" "a div 4096 < k + unat n - 32" using assms(2) by linarith+
  then show ?thesis using k by (simp add: in_region_def assms(11) region_pages_def rs page_of_def n32)
qed

subsection \<open>Examples\<close>

text \<open>Two requests served from an array at address 409600.\<close>

definition example_early :: alloc_state where
  "example_early = \<lparr> early_offset = 0, user_space = False, switch_alloc = False, allocation_ptr = 0, top_ptr = 0 \<rparr>"

lemma example_early_run:
  "early_ok 409600 example_early"
  "alloc_all (HandleEarlyAllocationRequest 409600) [13, 8] example_early =
    Some ([(409600, 13), (409616, 8)], example_early\<lparr> early_offset := 24 \<rparr>)"
  "\<forall>sz \<in> set [13, 8]. sane_size sz"
  by (simp_all add: example_early_def early_ok_def sane_size_def BOOTSTRAPBYTES_def HandleEarlyAllocationRequest_def align8_def
      bit_and64_def Let_def)

text \<open>Two requests to the heap of the program, with 90000 pages as \<open>main\<close> asks for.\<close>

definition example_space :: alloc_state where
  "example_space = \<lparr> early_offset = 0, user_space = True, switch_alloc = False, allocation_ptr = 1052672,
     top_ptr = 369561600 \<rparr>"

definition example_snapshotter :: "nat snapshotter" where
  "example_snapshotter = \<lparr> pages = (\<lambda>_. 0), protected = (\<lambda>_. False), regions = [(257, 89968), (98256, 32), (98512, 90000)],
     backing = [], snapShots = [], maxRegions = 1024, maxBackingPages = 200000, maxSnapShots = 1024 \<rparr>"

lemma example_space_run:
  "heap_layout 90000 1048592 402452496 403501072 =
    ([(1052672, 89968), (402456576, 32), (403505152, 90000)], 1052672, 369561600)"
  "32 \<le> unat (90000 :: uint32)" "unat (90000 :: uint32) < 2 ^ 20 - 1"
  "unat (1048592 :: uint64) + unat (user_block_size 90000) < 2 ^ 63"
  "unat (402452496 :: uint64) + unat thread_block_size < 2 ^ 63"
  "unat (403501072 :: uint64) + unat (model_block_size 90000) < 2 ^ 63"
  "allocation_ptr example_space = 1052672" "top_ptr example_space = 369561600"
  "alloc_all real_user_malloc [4097, 100] example_space =
    Some ([(1052672, 4097), (1056776, 100)], example_space\<lparr> allocation_ptr := 1056880 \<rparr>)"
  "\<forall>sz \<in> set [4097, 100]. sane_size sz"
  "regions example_snapshotter = region_pages [(1052672, 89968), (402456576, 32), (403505152, 90000)]"
  by (simp_all add: example_space_def example_snapshotter_def heap_layout_def user_block_size_def thread_block_size_def
      model_block_size_def PageAlignAddressUpward_def PAGESIZE_def bit_and64_def real_user_malloc_def align8_def Let_def
      sane_size_def region_pages_def page_of_def)

end
