(* ===== verification/ForkSnapshots.thy ===== *)
theory ForkSnapshots
  imports Snapshots
begin

section \<open>Snapshots with fork (snapshot.cc)\<close>

text \<open>
  The other variant of the snapshots: a snapshot is a process that waits for its child, and the
  program goes on in the child. To roll back, the running process leaves the identifier in shared
  memory and exits; its parent wakes up, and exits too unless the identifier is its own, in which
  case it forks a new child. The theory has both variants implement one specification, so that a
  program cannot tell them apart. Identifiers are natural numbers; \<open>mIDToRollback\<close> is -1 when no
  rollback is under way.
\<close>

subsection \<open>State and operations\<close>

text \<open>
  \<open>waiting\<close> has the processes blocked in \<open>waitpid\<close>, the youngest first, each with its \<open>snapshotid\<close>
  and its private memory. \<open>snapshotid\<close> and \<open>own_pages\<close> belong to the running process; the other
  two fields are in the shared memory.
\<close>

record 'p fork_snapshotter =
  waiting :: "(nat \<times> (nat \<Rightarrow> 'p)) list"
  snapshotid :: nat
  own_pages :: "nat \<Rightarrow> 'p"
  mIDToRollback :: int
  currSnapShotID :: nat

definition createSharedMemory :: "(nat \<Rightarrow> 'p) \<Rightarrow> 'p fork_snapshotter" where
  "createSharedMemory m =
     \<lparr> waiting = [], snapshotid = 0, own_pages = m, mIDToRollback = - 1, currSnapShotID = 0 \<rparr>"

text \<open>One turn of the loop of \<open>fork_snapshot_init\<close>: the process waits, its child runs.\<close>

definition fork_child :: "'p fork_snapshotter \<Rightarrow> 'p fork_snapshotter" where
  "fork_child s = s\<lparr> currSnapShotID := snapshotid s + 1, waiting := (snapshotid s, own_pages s) # waiting s \<rparr>"

text \<open>After its child has exited: \<open>None\<close> when the last process has exited too.\<close>

fun child_exited :: "(nat \<times> (nat \<Rightarrow> 'p)) list \<Rightarrow> 'p fork_snapshotter \<Rightarrow> 'p fork_snapshotter option" where
  "child_exited [] s = None"
| "child_exited ((sid, m) # ps) s =
     (if mIDToRollback s \<noteq> int sid then child_exited ps s
      else Some (fork_child (s\<lparr> waiting := ps, snapshotid := sid, own_pages := m \<rparr>)))"

definition fork_take_snapshot :: "'p fork_snapshotter \<Rightarrow> nat \<times> 'p fork_snapshotter" where
  "fork_take_snapshot s =
     (let s = fork_child (s\<lparr> snapshotid := currSnapShotID s \<rparr>) in (snapshotid s, s))"

definition fork_roll_back :: "nat \<Rightarrow> 'p fork_snapshotter \<Rightarrow> 'p fork_snapshotter option" where
  "fork_roll_back theID s = do {
     s \<leftarrow> child_exited (waiting s) (s\<lparr> mIDToRollback := int theID \<rparr>);
     Some (s\<lparr> mIDToRollback := - 1 \<rparr>) }"

subsection \<open>The specification\<close>

text \<open>What a program does to memory, and the answer it sees: the identifier of a new snapshot.\<close>

datatype 'p mem_event = Write nat 'p | Snap | Roll nat

fun spec_event :: "'p mem_event \<Rightarrow> (nat \<Rightarrow> 'p) \<times> (nat \<Rightarrow> 'p) list \<Rightarrow>
    (nat option \<times> (nat \<Rightarrow> 'p) \<times> (nat \<Rightarrow> 'p) list) option" where
  "spec_event (Write p v) (m, Ms) = Some (None, m(p := v), Ms)"
| "spec_event Snap (m, Ms) = Some (Some (length Ms), m, Ms @ [m])"
| "spec_event (Roll k) (m, Ms) = (if k < length Ms then Some (None, Ms ! k, take (k + 1) Ms) else None)"

fun run_events :: "('e \<Rightarrow> 's \<Rightarrow> ('r \<times> 's) option) \<Rightarrow> 'e list \<Rightarrow> 's \<Rightarrow> ('r list \<times> 's) option" where
  "run_events ev [] s = Some ([], s)"
| "run_events ev (x # xs) s = do {
     (r, s) \<leftarrow> ev x s;
     (rs, s) \<leftarrow> run_events ev xs s;
     Some (r # rs, s) }"

text \<open>An implementation answers as the specification does; \<open>rel\<close> relates the states.\<close>

locale snapshotting =
  fixes event :: "'p mem_event \<Rightarrow> 's \<Rightarrow> (nat option \<times> 's) option"
    and rel :: "'s \<Rightarrow> (nat \<Rightarrow> 'p) \<times> (nat \<Rightarrow> 'p) list \<Rightarrow> bool"
  assumes simulates: "rel s a \<Longrightarrow> event x s = Some (r, s') \<Longrightarrow> \<exists>a'. spec_event x a = Some (r, a') \<and> rel s' a'"
begin

lemma run_simulates:
  "rel s a \<Longrightarrow> run_events event xs s = Some (rs, s') \<Longrightarrow> \<exists>a'. run_events spec_event xs a = Some (rs, a') \<and> rel s' a'"
proof (induction xs arbitrary: s a rs)
  case Nil
  then show ?case by simp
next
  case (Cons x xs)
  from Cons.prems(2) obtain r s1 rs1 where s1: "event x s = Some (r, s1)" "run_events event xs s1 = Some (rs1, s')"
    "rs = r # rs1" by (auto simp: do_simps)
  from simulates [OF Cons.prems(1) s1(1)] obtain a1 where "spec_event x a = Some (r, a1)" "rel s1 a1" by blast
  with Cons.IH [OF _ s1(2)] s1(3) show ?case by fastforce
qed

end

text \<open>One that never fails where the specification does not.\<close>

locale total_snapshotting = snapshotting +
  assumes progress: "rel s a \<Longrightarrow> spec_event x a = Some (r, a') \<Longrightarrow> event x s \<noteq> None"
begin

lemma run_progress:
  "rel s a \<Longrightarrow> run_events spec_event xs a = Some (rs, a') \<Longrightarrow> \<exists>s'. run_events event xs s = Some (rs, s') \<and> rel s' a'"
proof (induction xs arbitrary: s a rs)
  case Nil
  then show ?case by simp
next
  case (Cons x xs)
  from Cons.prems(2) obtain r a1 rs1 where a1: "spec_event x a = Some (r, a1)" "run_events spec_event xs a1 = Some (rs1, a')"
    "rs = r # rs1" by (auto simp: do_simps)
  from progress [OF Cons.prems(1) a1(1)] obtain r' s1 where s1: "event x s = Some (r', s1)" by auto
  from simulates [OF Cons.prems(1) s1] a1(1) have "r' = r" "rel s1 a1" by auto
  with Cons.IH [OF _ a1(2)] s1 a1(3) show ?case by fastforce
qed

end

subsection \<open>Both variants implement it\<close>

fun mprot_event :: "'p mem_event \<Rightarrow> 'p snapshotter \<Rightarrow> (nat option \<times> 'p snapshotter) option" where
  "mprot_event (Write p v) s = map_option (Pair None) (write_page p v s)"
| "mprot_event Snap s = map_option (\<lambda>(k, s). (Some k, s)) (mprot_take_snapshot s)"
| "mprot_event (Roll k) s = map_option (Pair None) (mprot_roll_back k s)"

fun fork_event :: "'p mem_event \<Rightarrow> 'p fork_snapshotter \<Rightarrow> (nat option \<times> 'p fork_snapshotter) option" where
  "fork_event (Write p v) s = Some (None, s\<lparr> own_pages := (own_pages s)(p := v) \<rparr>)"
| "fork_event Snap s = (let (k, s) = fork_take_snapshot s in Some (Some k, s))"
| "fork_event (Roll k) s = map_option (Pair None) (fork_roll_back k s)"

text \<open>The \<open>mprotect\<close> variant covers the pages of the regions only.\<close>

definition mprot_rel :: "'p snapshotter \<Rightarrow> (nat \<Rightarrow> 'p) \<times> (nat \<Rightarrow> 'p) list \<Rightarrow> bool" where
  "mprot_rel s a \<longleftrightarrow> snap_inv (snd a) s \<and> (\<forall>p. in_region s p \<longrightarrow> pages s p = fst a p)"

definition fork_rel :: "'p fork_snapshotter \<Rightarrow> (nat \<Rightarrow> 'p) \<times> (nat \<Rightarrow> 'p) list \<Rightarrow> bool" where
  "fork_rel s a \<longleftrightarrow> waiting s = rev (enumerate 0 (snd a)) \<and> own_pages s = fst a \<and>
     currSnapShotID s = length (snd a) \<and> mIDToRollback s = - 1"

lemma write_page_fields:
  "write_page p v s = Some s' \<Longrightarrow> pages s' = (pages s)(p := v) \<and> regions s' = regions s"
  by (auto simp: write_page_def mprot_handle_pf_def split: if_splits)

lemma take_snapshot_regions: "mprot_take_snapshot s = Some (k, s') \<Longrightarrow> regions s' = regions s"
  by (auto simp: mprot_take_snapshot_def protect_regions_def Let_def split: if_splits)

lemma roll_back_regions: "mprot_roll_back k s = Some s' \<Longrightarrow> regions s' = regions s"
  by (auto simp: mprot_roll_back_def Let_def do_simps protect_regions_def dest!: take_snapshot_regions split: if_splits)

lemma roll_back_known: "snap_inv Ms s \<Longrightarrow> mprot_roll_back k s = Some s' \<Longrightarrow> k < length Ms"
  by (auto simp: mprot_roll_back_def do_simps dest: snap_invD(1))

interpretation mprot: snapshotting mprot_event mprot_rel
proof unfold_locales
  fix s :: "'p snapshotter" and a x r s'
  assume rel: "mprot_rel s a" and ev: "mprot_event x s = Some (r, s')"
  obtain m Ms where a: "a = (m, Ms)" by (cases a)
  from rel have inv: "snap_inv Ms s" and eq: "\<And>p. in_region s p \<Longrightarrow> pages s p = m p" by (auto simp: mprot_rel_def a)
  show "\<exists>a'. spec_event x a = Some (r, a') \<and> mprot_rel s' a'"
  proof (cases x)
    case (Write p v)
    with ev have w: "write_page p v s = Some s'" "r = None" by auto
    from snap_inv_write [OF inv w(1)] write_page_fields [OF w(1)] eq have "mprot_rel s' (m(p := v), Ms)"
      by (simp add: mprot_rel_def in_region_def)
    then show ?thesis by (simp add: a Write w(2))
  next
    case Snap
    with ev obtain k where t: "mprot_take_snapshot s = Some (k, s')" "r = Some k" by auto
    have base: "snap_base Ms s" using inv by (simp add: snap_inv_def)
    note T = take_snapshot_inv [OF base t(1) eq]
    from T(1,3) take_snapshot_regions [OF t(1)] eq have "mprot_rel s' (m, Ms @ [m])"
      by (simp add: mprot_rel_def in_region_def)
    then show ?thesis using T(2) by (simp add: a Snap t(2))
  next
    case (Roll k)
    with ev have t: "mprot_roll_back k s = Some s'" "r = None" by auto
    from roll_back_restores [OF inv t(1)] roll_back_regions [OF t(1)] have "mprot_rel s' (Ms ! k, take (k + 1) Ms)"
      by (simp add: mprot_rel_def in_region_def)
    then show ?thesis using roll_back_known [OF inv t(1)] by (simp add: a Roll t(2))
  qed
qed

text \<open>The processes younger than the snapshot exit, and its own process goes on.\<close>

lemma child_exited_finds:
  assumes "mIDToRollback s = int k"
  shows "child_exited (rev (enumerate 0 Ms)) s =
    (if k < length Ms then Some (s\<lparr> waiting := rev (enumerate 0 (take (k + 1) Ms)), snapshotid := k,
       own_pages := Ms ! k, currSnapShotID := k + 1 \<rparr>) else None)"
proof (induction Ms rule: rev_induct)
  case Nil
  then show ?case by simp
next
  case (snoc M Ms)
  then show ?case using assms
    by (auto simp: enumerate_append_eq nth_append fork_child_def)
qed

interpretation fork: total_snapshotting fork_event fork_rel
proof unfold_locales
  fix s :: "'p fork_snapshotter" and a x r s'
  assume rel: "fork_rel s a" and ev: "fork_event x s = Some (r, s')"
  obtain m Ms where a: "a = (m, Ms)" by (cases a)
  show "\<exists>a'. spec_event x a = Some (r, a') \<and> fork_rel s' a'"
    using rel ev
    by (cases x) (auto simp: a fork_rel_def fork_take_snapshot_def fork_child_def fork_roll_back_def child_exited_finds
        enumerate_append_eq Let_def do_simps split: if_splits)
next
  fix s :: "'p fork_snapshotter" and a x r a'
  assume rel: "fork_rel s a" and ev: "spec_event x a = Some (r, a')"
  obtain m Ms where a: "a = (m, Ms)" by (cases a)
  show "fork_event x s \<noteq> None"
    using rel ev
    by (cases x) (auto simp: a fork_rel_def fork_take_snapshot_def fork_roll_back_def child_exited_finds
        Let_def do_simps split: if_splits)
qed

subsection \<open>The variants agree\<close>

lemma fork_follows_mprot:
  assumes "mprot_rel s a" and "fork_rel t a" and "run_events mprot_event xs s = Some (rs, s')"
  shows "\<exists>t'. run_events fork_event xs t = Some (rs, t') \<and> (\<forall>p. in_region s' p \<longrightarrow> own_pages t' p = pages s' p)"
proof -
  from mprot.run_simulates [OF assms(1,3)] obtain a' where a': "run_events spec_event xs a = Some (rs, a')" "mprot_rel s' a'"
    by blast
  from fork.run_progress [OF assms(2) a'(1)] obtain t' where "run_events fork_event xs t = Some (rs, t')" "fork_rel t' a'"
    by blast
  with a'(2) show ?thesis by (auto simp: mprot_rel_def fork_rel_def)
qed

lemma mprot_rel_new: "mprot_rel ((new_snapshotter m b n r)\<lparr> regions := rs \<rparr>) (m, [])"
  by (simp add: mprot_rel_def snap_inv_def snap_base_def new_snapshotter_def)

lemma fork_rel_new: "fork_rel (createSharedMemory m) (m, [])"
  by (simp add: fork_rel_def createSharedMemory_def)

text \<open>Page 3 holds 7; it is written after each of two snapshots, and the first is restored.\<close>

definition example_events :: "nat mem_event list" where
  "example_events = [Snap, Write 3 8, Snap, Write 3 9, Roll 0, Write 4 1]"

definition example_pages :: "nat snapshotter" where
  "example_pages = (new_snapshotter (\<lambda>_. 7) 10 10 10)\<lparr> regions := [(2, 4)] \<rparr>"

lemma example_events_run:
  "\<exists>s'. run_events mprot_event example_events example_pages = Some ([Some 0, None, Some 1, None, None, None], s') \<and>
    in_region s' 3 \<and> pages s' 3 = 7"
proof -
  have "map_option (\<lambda>(rs, s'). (rs, in_region s' 3, pages s' 3)) (run_events mprot_event example_events example_pages)
      = Some ([Some 0, None, Some 1, None, None, None], True, 7)" by code_simp
  then show ?thesis by auto
qed

end
