(* ===== verification/Traversal.thy ===== *)
theory Traversal
  imports GenRun
begin

section \<open>The traversal of the recorded execution (constgen.cc)\<close>

text \<open>
  Both passes walk the records with a stack of pending ones. The records they have to meet are given
  by the links of the record alone (\<open>linked\<close>): the next record, the record of a loop body, the first
  record of each direction of a branch. Two locales have the traversal: what a pass keeps at every
  record it keeps on the way, and a pass that leaves the stack as it is meets every linked record.
\<close>

subsection \<open>Linked records\<close>

text \<open>
  A jump, the end of a loop body and, with the option, a yield go on elsewhere: what is recorded as
  their next record does not follow them.
\<close>

inductive linked :: "config \<Rightarrow> execution \<Rightarrow> rid \<Rightarrow> bool" for cfg e where
  linked_first: "getEPRecord MCID_FIRST e = Some r \<Longrightarrow> linked cfg e r"
| linked_next: "linked cfg e r \<Longrightarrow> nextRecord (rec_of e r) = Some n \<Longrightarrow>
    event (rec_of e r) \<notin> {NONLOCALTRANS, LOOPEXIT} \<Longrightarrow> \<not> (event (rec_of e r) = YIELD \<and> noexecyields cfg) \<Longrightarrow>
    linked cfg e n"
| linked_child: "linked cfg e r \<Longrightarrow> childRecord (rec_of e r) = Some c \<Longrightarrow> linked cfg e c"
| linked_branch: "linked cfg e r \<Longrightarrow> event (rec_of e r) = BRANCHDIR \<Longrightarrow> v \<in> set (valuevector (rec_of e r)) \<Longrightarrow>
    firstrecord (val_of e v) = Some f \<Longrightarrow> linked cfg e f"

text \<open>What the code goes on with after a record covers its links.\<close>

definition follows :: "config \<Rightarrow> execution \<Rightarrow> rid \<Rightarrow> rid set" where
  "follows cfg e r = (case successors cfg e r of None \<Rightarrow> {} | Some (work, nextr) \<Rightarrow> set work \<union> set_option nextr)"

lemma linked_follows:
  assumes "successors cfg e r = Some (work, nextr)"
  shows "nextRecord (rec_of e r) = Some n \<Longrightarrow> event (rec_of e r) \<notin> {NONLOCALTRANS, LOOPEXIT} \<Longrightarrow>
      \<not> (event (rec_of e r) = YIELD \<and> noexecyields cfg) \<Longrightarrow> n \<in> follows cfg e r"
    and "childRecord (rec_of e r) = Some c \<Longrightarrow> c \<in> follows cfg e r"
    and "event (rec_of e r) = BRANCHDIR \<Longrightarrow> v \<in> set (valuevector (rec_of e r)) \<Longrightarrow>
      firstrecord (val_of e v) = Some f \<Longrightarrow> f \<in> follows cfg e r"
proof -
  have F: "follows cfg e r = set work \<union> set_option nextr" by (simp add: follows_def assms)
  note S = assms [unfolded successors_def Let_def]
  show "nextRecord (rec_of e r) = Some n \<Longrightarrow> event (rec_of e r) \<notin> {NONLOCALTRANS, LOOPEXIT} \<Longrightarrow>
      \<not> (event (rec_of e r) = YIELD \<and> noexecyields cfg) \<Longrightarrow> n \<in> follows cfg e r"
    unfolding F using S by (auto split: if_splits)
  show "childRecord (rec_of e r) = Some c \<Longrightarrow> c \<in> follows cfg e r"
    unfolding F using S by (auto split: if_splits)
  show "event (rec_of e r) = BRANCHDIR \<Longrightarrow> v \<in> set (valuevector (rec_of e r)) \<Longrightarrow>
      firstrecord (val_of e v) = Some f \<Longrightarrow> f \<in> follows cfg e r"
    unfolding F using S by (force split: if_splits)
qed

subsection \<open>A pass over the records\<close>

definition pass :: "config \<Rightarrow> execution \<Rightarrow> bool \<Rightarrow> rid \<Rightarrow> cgen \<Rightarrow> cgen option" where
  "pass cfg e initial r g = (if initial then visitRecord cfg e r g else processRecord cfg e r g)"

text \<open>\<open>leads g h\<close>: the pass can take the generator from \<open>g\<close> to \<open>h\<close>.\<close>

locale walk =
  fixes cfg :: config and e :: execution and initial :: bool
    and ok :: "cgen \<Rightarrow> bool" and leads :: "cgen \<Rightarrow> cgen \<Rightarrow> bool"
  assumes refl: "ok g \<Longrightarrow> leads g g"
    and trans: "leads g h \<Longrightarrow> leads h k \<Longrightarrow> leads g k"
    and kept: "leads g h \<Longrightarrow> ok h"
    and work: "leads g h \<Longrightarrow> leads g (h\<lparr> workstack := w \<rparr>)"
    and step: "ok g \<Longrightarrow> pass cfg e initial r g = Some h \<Longrightarrow> leads g h"
begin

lemma traverseRecord_leads:
  assumes "traverseRecord cfg e initial r g = Some g'" and "ok g"
  shows "leads g g'"
proof -
  let ?P = "\<lambda>c x i r g g'. c = cfg \<longrightarrow> x = e \<longrightarrow> i = initial \<longrightarrow> ok g \<longrightarrow> leads g g'"
  have "?P cfg e initial r g g'"
  proof (rule traverseRecord.raw_induct [where P = ?P, OF _ assms(1)], intro impI)
    fix f c x i r g g'
    assume IH: "\<And>c x i r g g'. f c x i r g = Some g' \<Longrightarrow> ?P c x i r g g'"
      and run: "do {
         g \<leftarrow> (if i then visitRecord c x r g else processRecord c x r g);
         (work, nextr) \<leftarrow> successors c x r;
         let g = push_work work g;
         case nextr of None \<Rightarrow> Some g | Some n \<Rightarrow> f c x i n g } = Some g'"
      and eq: "c = cfg" "x = e" "i = initial" and ok: "ok g"
    from run obtain h us nextr where h: "pass cfg e initial r g = Some h"
      and n: "(case nextr of None \<Rightarrow> Some (push_work us h) | Some n \<Rightarrow> f cfg e initial n (push_work us h)) = Some g'"
      unfolding eq pass_def by (auto simp: do_simps Let_def)
    have l: "leads g (push_work us h)" unfolding push_work_def by (rule work [OF step [OF ok h]])
    show "leads g g'"
    proof (cases nextr)
      case None
      with n l show ?thesis by simp
    next
      case (Some n')
      with n have "f cfg e initial n' (push_work us h) = Some g'" by simp
      from IH [OF this] kept [OF l] show ?thesis using trans [OF l] by blast
    qed
  qed
  with assms(2) show ?thesis by blast
qed

lemma traverse_work_leads:
  assumes "traverse_work cfg e initial g = Some g'" and "ok g"
  shows "leads g g'"
proof -
  let ?P = "\<lambda>c x i g g'. c = cfg \<longrightarrow> x = e \<longrightarrow> i = initial \<longrightarrow> ok g \<longrightarrow> leads g g'"
  have "?P cfg e initial g g'"
  proof (rule traverse_work.raw_induct [where P = ?P, OF _ assms(1)], intro impI)
    fix f c x i g g'
    assume IH: "\<And>c x i g g'. f c x i g = Some g' \<Longrightarrow> ?P c x i g g'"
      and run: "(if workstack g = [] then Some g
      else do {
        g \<leftarrow> traverseRecord c x i (last (workstack g)) (g\<lparr> workstack := butlast (workstack g) \<rparr>);
        f c x i g }) = Some g'"
      and eq: "c = cfg" "x = e" "i = initial" and ok: "ok g"
    show "leads g g'"
    proof (cases "workstack g = []")
      case True
      with run refl [OF ok] show ?thesis by simp
    next
      case False
      let ?g = "g\<lparr> workstack := butlast (workstack g) \<rparr>"
      from run False obtain h where h: "traverseRecord cfg e initial (last (workstack g)) ?g = Some h"
        "f cfg e initial h = Some g'" unfolding eq by (auto simp: do_simps)
      have r0: "leads g ?g" by (rule work [OF refl [OF ok]])
      have r1: "leads g h" by (rule trans [OF r0 traverseRecord_leads [OF h(1) kept [OF r0]]])
      from IH [OF h(2)] kept [OF r1] show ?thesis using trans [OF r1] by blast
    qed
  qed
  with assms(2) show ?thesis by blast
qed

theorem traverse_leads:
  assumes "traverse cfg e initial g = Some g'" and "ok g"
  shows "leads g g'"
proof -
  from assms(1) obtain first h where h: "traverseRecord cfg e initial first g = Some h" "traverse_work cfg e initial h = Some g'"
    by (auto simp: traverse_def do_simps)
  have l: "leads g h" by (rule traverseRecord_leads [OF h(1) assms(2)])
  show ?thesis by (rule trans [OF l traverse_work_leads [OF h(2) kept [OF l]]])
qed

end

text \<open>A pass that leaves the stack as it is passes over all linked records.\<close>

locale traversal = walk +
  assumes stack: "ok g \<Longrightarrow> pass cfg e initial r g = Some h \<Longrightarrow> workstack h = workstack g"
begin

definition passed_over :: "cgen \<Rightarrow> cgen \<Rightarrow> rid \<Rightarrow> bool" where
  "passed_over g g' r \<longleftrightarrow> successors cfg e r \<noteq> None \<and>
     (\<exists>h h'. leads g h \<and> pass cfg e initial r h = Some h' \<and> leads h' g')"

lemma passed_over_mono: "passed_over h h' r \<Longrightarrow> leads g h \<Longrightarrow> leads h' g' \<Longrightarrow> passed_over g g' r"
  unfolding passed_over_def by (blast intro: trans)

text \<open>All records \<open>rs\<close> are passed over, and what follows them is among them or on the stack.\<close>

definition covers :: "cgen \<Rightarrow> cgen \<Rightarrow> rid set \<Rightarrow> rid list \<Rightarrow> bool" where
  "covers g g' rs ws \<longleftrightarrow> (\<forall>q \<in> rs. passed_over g g' q \<and> follows cfg e q \<subseteq> rs \<union> set ws)"

lemma coversD: "covers g g' rs ws \<Longrightarrow> q \<in> rs \<Longrightarrow> passed_over g g' q"
    "covers g g' rs ws \<Longrightarrow> q \<in> rs \<Longrightarrow> p \<in> follows cfg e q \<Longrightarrow> p \<in> rs \<union> set ws"
  unfolding covers_def by blast+

lemma covers_mono: "covers h h' rs ws \<Longrightarrow> leads g h \<Longrightarrow> leads h' g' \<Longrightarrow> covers g g' rs ws"
  unfolding covers_def using passed_over_mono by blast

lemma covers_insert:
  assumes "covers g g' rs ws" and "passed_over g g' r" and "follows cfg e r \<subseteq> rs \<union> set us"
  shows "covers g g' (insert r rs) (us @ ws)"
  using assms unfolding covers_def by auto

lemma covers_union: "covers g g' rs ws \<Longrightarrow> covers g g' us [] \<Longrightarrow> set ws \<subseteq> us \<Longrightarrow> covers g g' (rs \<union> us) []"
  unfolding covers_def by auto

lemma traverseRecord_covers:
  assumes "traverseRecord cfg e initial r g = Some g'" and "ok g"
  shows "leads g g' \<and> (\<exists>rs ws. workstack g' = workstack g @ ws \<and> r \<in> rs \<and> covers g g' rs ws)"
proof -
  let ?S = "\<lambda>r g g'. leads g g' \<and> (\<exists>rs ws. workstack g' = workstack g @ ws \<and> r \<in> rs \<and> covers g g' rs ws)"
  let ?P = "\<lambda>c x i r g g'. c = cfg \<longrightarrow> x = e \<longrightarrow> i = initial \<longrightarrow> ok g \<longrightarrow> ?S r g g'"
  have "?P cfg e initial r g g'"
  proof (rule traverseRecord.raw_induct [where P = ?P, OF _ assms(1)], intro impI)
    fix f c x i r g g'
    assume IH: "\<And>c x i r g g'. f c x i r g = Some g' \<Longrightarrow> ?P c x i r g g'"
      and run': "do {
         g \<leftarrow> (if i then visitRecord c x r g else processRecord c x r g);
         (work, nextr) \<leftarrow> successors c x r;
         let g = push_work work g;
         case nextr of None \<Rightarrow> Some g | Some n \<Rightarrow> f c x i n g } = Some g'"
      and eq: "c = cfg" "x = e" "i = initial" and ok: "ok g"
    from run' obtain h us nextr where h: "pass cfg e initial r g = Some h" "successors cfg e r = Some (us, nextr)"
      and n: "(case nextr of None \<Rightarrow> Some (push_work us h) | Some n \<Rightarrow> f cfg e initial n (push_work us h)) = Some g'"
      unfolding eq pass_def by (auto simp: do_simps Let_def)
    let ?h = "push_work us h"
    note st = conjI [OF step [OF ok h(1)] stack [OF ok h(1)]]
    have lh: "leads h ?h" unfolding push_work_def by (rule work [OF refl]) (rule kept [OF conjunct1 [OF st]])
    have gh: "leads g ?h" by (rule trans [OF conjunct1 [OF st] lh])
    have w: "workstack ?h = workstack g @ us" using st by (simp add: push_work_def)
    have p: "passed_over g g' r" if "leads ?h g'"
      unfolding passed_over_def using refl [OF ok] h trans [OF lh that] by auto
    have fo: "follows cfg e r = set us \<union> set_option nextr" by (simp add: follows_def h(2))
    show "?S r g g'"
    proof (cases nextr)
      case None
      with n have e: "g' = ?h" by simp
      have "covers g g' (insert r {}) (us @ [])"
        by (rule covers_insert) (use p refl [OF kept [OF gh]] e fo None in \<open>simp_all add: covers_def\<close>)
      with gh w e show ?thesis by auto
    next
      case (Some n')
      with n have "f cfg e initial n' ?h = Some g'" by simp
      from IH [OF this] kept [OF gh] obtain rs ws where R: "leads ?h g'"
        "workstack g' = workstack ?h @ ws" "n' \<in> rs" "covers ?h g' rs ws" by blast
      have "covers g g' rs ws" by (rule covers_mono [OF R(4) gh refl [OF kept [OF R(1)]]])
      from covers_insert [OF this p [OF R(1)], of us] fo Some R(3) have "covers g g' (insert r rs) (us @ ws)" by auto
      then show ?thesis using trans [OF gh R(1)] R(2) w by (intro conjI exI [of _ "insert r rs"] exI [of _ "us @ ws"]) auto
    qed
  qed
  with assms(2) show ?thesis by blast
qed

lemma traverse_work_covers:
  assumes "traverse_work cfg e initial g = Some g'" and "ok g"
  shows "leads g g' \<and> (\<exists>rs. set (workstack g) \<subseteq> rs \<and> covers g g' rs [])"
proof -
  let ?S = "\<lambda>g g'. leads g g' \<and> (\<exists>rs. set (workstack g) \<subseteq> rs \<and> covers g g' rs [])"
  let ?P = "\<lambda>c x i g g'. c = cfg \<longrightarrow> x = e \<longrightarrow> i = initial \<longrightarrow> ok g \<longrightarrow> ?S g g'"
  have "?P cfg e initial g g'"
  proof (rule traverse_work.raw_induct [where P = ?P, OF _ assms(1)], intro impI)
    fix f c x i g g'
    assume IH: "\<And>c x i g g'. f c x i g = Some g' \<Longrightarrow> ?P c x i g g'"
      and run': "(if workstack g = [] then Some g
      else do {
        g \<leftarrow> traverseRecord c x i (last (workstack g)) (g\<lparr> workstack := butlast (workstack g) \<rparr>);
        f c x i g }) = Some g'"
      and eq: "c = cfg" "x = e" "i = initial" and ok: "ok g"
    show "?S g g'"
    proof (cases "workstack g = []")
      case True
      with run' refl [OF ok] show ?thesis by (auto simp: covers_def intro!: exI [of _ "{}"])
    next
      case False
      let ?g = "g\<lparr> workstack := butlast (workstack g) \<rparr>"
      from run' False obtain h where h: "traverseRecord cfg e initial (last (workstack g)) ?g = Some h"
        "f cfg e initial h = Some g'" unfolding eq by (auto simp: do_simps)
      have r0: "leads g ?g" by (rule work [OF refl [OF ok]])
      from traverseRecord_covers [OF h(1) kept [OF r0]] obtain rs ws where R: "leads ?g h"
        "workstack h = workstack ?g @ ws" "last (workstack g) \<in> rs" "covers ?g h rs ws" by blast
      from IH [OF h(2)] kept [OF R(1)] obtain us where U: "leads h g'" "set (workstack h) \<subseteq> us" "covers h g' us []" by blast
      have "covers g g' rs ws" by (rule covers_mono [OF R(4) r0 U(1)])
      moreover have "covers g g' us []" by (rule covers_mono [OF U(3) trans [OF r0 R(1)] refl [OF kept [OF U(1)]]])
      moreover have "set ws \<subseteq> us" using U(2) R(2) by auto
      ultimately have "covers g g' (rs \<union> us) []" by (rule covers_union)
      moreover have "set (workstack g) \<subseteq> rs \<union> us"
        using U(2) R(2,3) False by (cases "workstack g" rule: rev_cases) auto
      ultimately show ?thesis using trans [OF r0 trans [OF R(1) U(1)]] by blast
    qed
  qed
  with assms(2) show ?thesis by blast
qed

theorem traverse_covers:
  assumes "traverse cfg e initial g = Some g'" and "ok g" and "linked cfg e r"
  shows "\<exists>h h'. leads g h \<and> pass cfg e initial r h = Some h' \<and> leads h' g'"
proof -
  from assms(1) obtain first h where h: "getEPRecord MCID_FIRST e = Some first"
    "traverseRecord cfg e initial first g = Some h" "traverse_work cfg e initial h = Some g'"
    by (auto simp: traverse_def do_simps)
  from traverseRecord_covers [OF h(2) assms(2)] obtain rs ws where R: "leads g h"
    "workstack h = workstack g @ ws" "first \<in> rs" "covers g h rs ws" by blast
  from traverse_work_covers [OF h(3) kept [OF R(1)]] obtain us where U: "leads h g'"
    "set (workstack h) \<subseteq> us" "covers h g' us []" by blast
  have "covers g g' rs ws" by (rule covers_mono [OF R(4) refl [OF assms(2)] U(1)])
  moreover have "covers g g' us []" by (rule covers_mono [OF U(3) R(1) refl [OF kept [OF U(1)]]])
  moreover have "set ws \<subseteq> us" using U(2) R(2) by auto
  ultimately have C: "covers g g' (rs \<union> us) []" by (rule covers_union)
  have next_in: "p \<in> rs \<union> us" if "q \<in> rs \<union> us" and "p \<in> follows cfg e q" for p q
    using coversD(2) [OF C that] by simp
  from assms(3) have "r \<in> rs \<union> us"
  proof induction
    case (linked_first r)
    with h(1) R(3) show ?case by simp
  next
    case (linked_next r n)
    from coversD(1) [OF C linked_next.IH] obtain w x where "successors cfg e r = Some (w, x)" by (auto simp: passed_over_def)
    from linked_follows(1) [OF this linked_next.hyps(2-4)] show ?case by (rule next_in [OF linked_next.IH])
  next
    case (linked_child r c)
    from coversD(1) [OF C linked_child.IH] obtain w x where "successors cfg e r = Some (w, x)" by (auto simp: passed_over_def)
    from linked_follows(2) [OF this linked_child.hyps(2)] show ?case by (rule next_in [OF linked_child.IH])
  next
    case (linked_branch r v f)
    from coversD(1) [OF C linked_branch.IH] obtain w x where "successors cfg e r = Some (w, x)" by (auto simp: passed_over_def)
    from linked_follows(3) [OF this linked_branch.hyps(2-4)] show ?case by (rule next_in [OF linked_branch.IH])
  qed
  from coversD(1) [OF C this] show ?thesis by (auto simp: passed_over_def)
qed

end

end
