(* ===== verification/Emission.thy ===== *)
theory Emission
  imports Generation
begin

section \<open>What the emitted clauses mean\<close>

text \<open>
  The generator writes clauses to the solver as it goes. \<open>models \<sigma> g\<close> says that the assignment
  \<open>\<sigma>\<close> satisfies every clause written so far; \<open>gen_ok\<close> is the invariant of the generator's variables
  and tables; \<open>grows g g'\<close> says that \<open>g'\<close> comes from \<open>g\<close> by emitting more clauses and making more
  variables, which is all the second pass does. The lemmas say of every primitive operation that it
  keeps the invariant and grows, and of \<open>addConstraint\<close> that it restricts the models by exactly the
  meaning of its argument.
\<close>

subsection \<open>Streams of closed clauses\<close>

definition closed :: "int list \<Rightarrow> bool" where
  "closed ls \<longleftrightarrow> ls = [] \<or> last ls = 0"

lemma closed_simps [simp]: "closed []" "closed (ls @ [0])" "closed [0]" "closed [x, 0]"
  by (simp_all add: closed_def)

lemma closed_append: "closed xs \<Longrightarrow> closed ys \<Longrightarrow> closed (xs @ ys)"
  by (auto simp: closed_def last_append)

lemma stream_sat_append_aux:
  "xs \<noteq> [] \<and> last xs = 0 \<or> (xs = [] \<and> \<not> b) \<Longrightarrow> stream_sat \<sigma> b (xs @ ys) \<longleftrightarrow> stream_sat \<sigma> b xs \<and> stream_sat \<sigma> False ys"
proof (induction xs arbitrary: b)
  case Nil
  then show ?case by simp
next
  case (Cons x xs)
  show ?case
  proof (cases "xs = []")
    case True
    then show ?thesis using Cons.prems by simp
  next
    case False
    then have "last xs = 0" using Cons.prems by simp
    with False Cons.IH show ?thesis by (cases "x = 0") auto
  qed
qed

lemma stream_sat_append:
  "closed xs \<Longrightarrow> stream_sat \<sigma> False (xs @ ys) \<longleftrightarrow> stream_sat \<sigma> False xs \<and> stream_sat \<sigma> False ys"
  by (intro stream_sat_append_aux) (auto simp: closed_def)

lemma printDIMACS_closed: "printDIMACS c = Some ls \<Longrightarrow> closed ls \<and> ls \<noteq> []"
  by (cases c) auto

subsection \<open>Models\<close>

definition models :: "(nat \<Rightarrow> bool) \<Rightarrow> cgen \<Rightarrow> bool" where
  "models \<sigma> g \<longleftrightarrow> (\<exists>s. solver g = Some s \<and> stream_sat \<sigma> False (stream s))"

definition stream_of :: "cgen \<Rightarrow> int list" where
  "stream_of g = (case solver g of None \<Rightarrow> [] | Some s \<Rightarrow> stream s)"

text \<open>Constraints whose clauses mean what they say: variables are numbered from 1.\<close>

definition good :: "constraint \<Rightarrow> bool" where
  "good c \<longleftrightarrow> neg_ok c \<and> and_clean c \<and> 0 \<notin> cvars c"

definition var_ok :: "constraint \<Rightarrow> bool" where
  "var_ok c \<longleftrightarrow> (\<exists>v. c = VAR v \<and> 0 < v)"

definition rpt_const :: "constraint \<Rightarrow> bool" where
  "rpt_const c \<longleftrightarrow> c = TRUE \<or> c = FALSE \<or> var_ok c"

text \<open>What can be used as the premise of an implication.\<close>

definition plain_ok :: "constraint \<Rightarrow> bool" where
  "plain_ok c \<longleftrightarrow> imp_free c \<and> 0 \<notin> cvars c"

lemma plain_ok_simps [simp]:
  "plain_ok TRUE" "plain_ok FALSE" "plain_ok (VAR v) \<longleftrightarrow> 0 < v" "plain_ok (NOTVAR v) \<longleftrightarrow> 0 < v"
  "plain_ok (AND cs) \<longleftrightarrow> (\<forall>c \<in> set cs. plain_ok c)" "plain_ok (OR cs) \<longleftrightarrow> (\<forall>c \<in> set cs. plain_ok c)"
  "plain_ok (negate c) \<longleftrightarrow> plain_ok c"
  by (auto simp: plain_ok_def list_all_iff)

lemma plain_ok_negate_eval: "plain_ok c \<Longrightarrow> eval \<sigma> (negate c) \<longleftrightarrow> \<not> eval \<sigma> c"
  by (simp add: plain_ok_def eval_negate)

lemma good_simps:
  "plain_ok l \<Longrightarrow> neg_ok r \<Longrightarrow> 0 \<notin> cvars r \<Longrightarrow> good (IMPLIES l r)"
  "(\<And>c. c \<in> set cs \<Longrightarrow> neg_ok c \<and> 0 \<notin> cvars c) \<Longrightarrow> good (OR cs)"
  by (auto simp: good_def plain_ok_def list_all_iff)

lemma plain_ok_neg_ok: "plain_ok c \<Longrightarrow> neg_ok c \<and> 0 \<notin> cvars c"
  by (simp add: plain_ok_def imp_free_neg_ok)

lemma good_IMPLIES: "plain_ok l \<Longrightarrow> plain_ok r \<Longrightarrow> good (IMPLIES l r)"
  using good_simps(1) plain_ok_neg_ok by blast

lemma good_OR: "(\<And>c. c \<in> set cs \<Longrightarrow> plain_ok c) \<Longrightarrow> good (OR cs)"
  using good_simps(2) plain_ok_neg_ok by blast

lemma var_ok_plain: "var_ok c \<Longrightarrow> plain_ok c"
  by (auto simp: var_ok_def)

lemma rpt_const_plain: "rpt_const c \<Longrightarrow> plain_ok c"
  by (auto simp: rpt_const_def var_ok_plain)

lemma good_plain: "plain_ok c \<Longrightarrow> (\<And>cs. c \<noteq> AND cs) \<Longrightarrow> good c"
  using plain_ok_neg_ok [of c] by (cases c) (auto simp: good_def)

subsection \<open>Emitting\<close>

text \<open>The literals of a constraint go to the solver in order.\<close>

lemma printConstraints:
  assumes "foldM printConstraint ls g = Some g'"
  shows "\<exists>s. (ls = [] \<and> g' = g) \<or> (solver g = Some s \<and> g' = g\<lparr> solver := Some (fold addClauseLiteral ls s) \<rparr>)"
  using assms
proof (induction ls arbitrary: g)
  case (Cons l ls)
  from Cons.prems obtain g1 where g1: "printConstraint l g = Some g1" "foldM printConstraint ls g1 = Some g'"
    unfolding foldM.simps bind_eq_Some_conv by blast
  from g1(1) obtain s where s: "solver g = Some s" "g1 = g\<lparr> solver := Some (addClauseLiteral l s) \<rparr>"
    by (auto simp: printConstraint_def do_simps)
  from Cons.IH [OF g1(2)] s show ?case by auto
qed simp

text \<open>\<open>emits g g' C\<close>: only clauses were added, and they mean \<open>C\<close>.\<close>

definition emits :: "cgen \<Rightarrow> cgen \<Rightarrow> ((nat \<Rightarrow> bool) \<Rightarrow> bool) \<Rightarrow> bool" where
  "emits g g' C \<longleftrightarrow>
     (\<exists>sv n ls. g' = g\<lparr> solver := sv, numconstraints := n \<rparr> \<and> (solver g = None \<longleftrightarrow> solver g' = None) \<and>
        stream_of g' = stream_of g @ ls \<and> closed ls \<and> (\<forall>\<sigma>. stream_sat \<sigma> False ls \<longleftrightarrow> C \<sigma>))"

lemma emits_refl: "emits g g (\<lambda>_. True)"
proof -
  have "g = g\<lparr> solver := solver g, numconstraints := numconstraints g \<rparr>" by simp
  then show ?thesis unfolding emits_def by (metis append_Nil2 closed_simps(1) stream_sat.simps(1))
qed

lemma emits_trans:
  assumes "emits g1 g2 C" and "emits g2 g3 D"
  shows "emits g1 g3 (\<lambda>\<sigma>. C \<sigma> \<and> D \<sigma>)"
proof -
  obtain sv n ls where 1: "g2 = g1\<lparr> solver := sv, numconstraints := n \<rparr>"
    "solver g1 = None \<longleftrightarrow> solver g2 = None" "stream_of g2 = stream_of g1 @ ls" "closed ls"
    "\<And>\<sigma>. stream_sat \<sigma> False ls \<longleftrightarrow> C \<sigma>" using assms(1) unfolding emits_def by (elim exE conjE) (rule that, assumption+, blast)
  obtain sv' n' ls' where 2: "g3 = g2\<lparr> solver := sv', numconstraints := n' \<rparr>"
    "solver g2 = None \<longleftrightarrow> solver g3 = None" "stream_of g3 = stream_of g2 @ ls'" "closed ls'"
    "\<And>\<sigma>. stream_sat \<sigma> False ls' \<longleftrightarrow> D \<sigma>" using assms(2) unfolding emits_def by (elim exE conjE) (rule that, assumption+, blast)
  have "g3 = g1\<lparr> solver := sv', numconstraints := n' \<rparr>" using 1(1) 2(1) by simp
  moreover have "stream_of g3 = stream_of g1 @ (ls @ ls')" using 1(3) 2(3) by simp
  moreover have "closed (ls @ ls')" using 1(4) 2(4) by (rule closed_append)
  moreover have "stream_sat \<sigma> False (ls @ ls') \<longleftrightarrow> C \<sigma> \<and> D \<sigma>" for \<sigma>
    using stream_sat_append [OF 1(4)] 1(5) 2(5) by simp
  ultimately show ?thesis using 1(2) 2(2) unfolding emits_def
    by (intro exI [of _ sv'] exI [of _ n'] exI [of _ "ls @ ls'"]) simp
qed

lemma addClause_emits:
  assumes "addClause c g = Some g'" and "c = TRUE \<or> is_clause c" and "0 \<notin> cvars c"
  shows "emits g g' (\<lambda>\<sigma>. eval \<sigma> c)"
proof (cases "c = TRUE")
  case True
  with assms(1) show ?thesis using emits_refl [of g] by (simp add: addClause_def)
next
  case False
  then have cl: "is_clause c" "\<not> isTrue c" using assms(2) by (auto simp: isTrue_iff)
  then have "\<not> isFalse c" by (cases c) auto
  from printDIMACS_sat [OF cl(1) assms(3)] obtain ls where ls: "printDIMACS c = Some ls" by blast
  have sat: "stream_sat \<sigma> False ls \<longleftrightarrow> eval \<sigma> c" for \<sigma>
    using printDIMACS_sat [OF cl(1) assms(3), of \<sigma>] ls by (metis append_Nil2 option.inject stream_sat.simps(1))
  from printDIMACS_closed [OF ls] have closed: "closed ls" "ls \<noteq> []" by auto
  from assms(1) cl ls \<open>\<not> isFalse c\<close> obtain g1 where g1: "foldM printConstraint ls g = Some g1"
    "g' = g1\<lparr> numconstraints := numconstraints g1 + 1 \<rparr>" by (auto simp: addClause_def do_simps)
  from printConstraints [OF g1(1)] closed(2) obtain s where s: "solver g = Some s"
    "g1 = g\<lparr> solver := Some (fold addClauseLiteral ls s) \<rparr>" by blast
  have "stream_of g' = stream_of g @ ls" using s g1(2) by (simp add: stream_of_def stream_fold_literals)
  moreover have "g' = g\<lparr> solver := Some (fold addClauseLiteral ls s), numconstraints := numconstraints g + 1 \<rparr>"
    using s g1(2) by simp
  moreover have "solver g = None \<longleftrightarrow> solver g' = None" using s g1(2) by simp
  ultimately show ?thesis using closed(1) sat unfolding emits_def
    by (intro exI [of _ "Some (fold addClauseLiteral ls s)"] exI [of _ "numconstraints g + 1"] exI [of _ ls]) simp
qed

end
