(* ===== verification/GenInv.thy ===== *)
theory GenInv
  imports Traversal Emission
begin

section \<open>The invariant of the generator\<close>

text \<open>
  What holds of the state of the generator between any two operations of the second pass: the
  variables handed out are numbered from 1 without gaps, every constraint in a table is made of
  variables handed out, and so is every clause written to the solver. \<open>grows g g'\<close> says that \<open>g'\<close>
  comes from \<open>g\<close> by emitting clauses, making variables and filling tables only. Both are proved for
  every operation of the second pass. The proofs follow the text of the operations: \<open>post m Q\<close> says
  that the result of \<open>m\<close>, if there is one, satisfies \<open>Q\<close>, and one rule per construct and per
  primitive operation, in the collection \<open>post_rules\<close>, takes it apart.
\<close>

named_theorems post_rules "rules for the results of generator operations"

subsection \<open>Known variables\<close>

definition known :: "cgen \<Rightarrow> constraint \<Rightarrow> bool" where
  "known g c \<longleftrightarrow> (\<forall>v \<in> cvars c. 0 < v \<and> v < varindex g)"

definition pok :: "cgen \<Rightarrow> constraint \<Rightarrow> bool" where
  "pok g c \<longleftrightarrow> imp_free c \<and> known g c"

definition isvar :: "cgen \<Rightarrow> constraint \<Rightarrow> bool" where
  "isvar g c \<longleftrightarrow> is_var c \<and> known g c"

lemma known_simps [simp]:
  "known g TRUE" "known g FALSE" "known g (VAR v) \<longleftrightarrow> 0 < v \<and> v < varindex g"
  "known g (NOTVAR v) \<longleftrightarrow> 0 < v \<and> v < varindex g" "known g (negate c) \<longleftrightarrow> known g c"
  "known g (IMPLIES l r) \<longleftrightarrow> known g l \<and> known g r"
  "known g (AND cs) \<longleftrightarrow> (\<forall>c \<in> set cs. known g c)" "known g (OR cs) \<longleftrightarrow> (\<forall>c \<in> set cs. known g c)"
  by (auto simp: known_def)

lemma pok_simps [simp]:
  "pok g TRUE" "pok g FALSE" "pok g (VAR v) \<longleftrightarrow> 0 < v \<and> v < varindex g"
  "pok g (NOTVAR v) \<longleftrightarrow> 0 < v \<and> v < varindex g" "pok g (negate c) \<longleftrightarrow> pok g c"
  "\<not> pok g (IMPLIES l r)"
  "pok g (AND cs) \<longleftrightarrow> (\<forall>c \<in> set cs. pok g c)" "pok g (OR cs) \<longleftrightarrow> (\<forall>c \<in> set cs. pok g c)"
  by (auto simp: pok_def list_all_iff)

lemma isvar_cases: "isvar g c \<longleftrightarrow> (\<exists>v. c = VAR v \<and> 0 < v \<and> v < varindex g)"
  by (cases c) (auto simp: isvar_def)

lemma isvar_pok: "isvar g c \<Longrightarrow> pok g c"
  by (auto simp: isvar_cases)

lemma pok_known: "pok g c \<Longrightarrow> known g c"
  by (simp add: pok_def)

lemma isvar_known: "isvar g c \<Longrightarrow> known g c"
  by (simp add: isvar_def)

text \<open>What stays known when variables are added.\<close>

definition carry :: "cgen \<Rightarrow> cgen \<Rightarrow> bool" where
  "carry g g' \<longleftrightarrow> (\<forall>c. known g c \<longrightarrow> known g' c) \<and> (\<forall>c. pok g c \<longrightarrow> pok g' c) \<and> (\<forall>c. isvar g c \<longrightarrow> isvar g' c)"

lemma carry_varindex: "varindex g \<le> varindex g' \<Longrightarrow> carry g g'"
  by (auto simp: carry_def known_def pok_def isvar_def)

lemma known_cong: "varindex g = varindex g' \<Longrightarrow> known g = known g'" "varindex g = varindex g' \<Longrightarrow> pok g = pok g'"
    "varindex g = varindex g' \<Longrightarrow> isvar g = isvar g'"
  by (auto simp: known_def pok_def isvar_def fun_eq_iff)

lemma known_update [simp]:
  "known (slheap_update f1 g) = known g" "known (cg_loadtable_update f2 g) = known g"
  "known (goalset_update f3 g) = known g" "known (rectoint_update f4 g) = known g"
  "known (has_untaken_branches_update f5 g) = known g" "known (solver_update f6 g) = known g"
  "known (yieldtable_update f7 g) = known g" "known (yieldlist_update f8 g) = known g"
  "known (workstack_update f9 g) = known g" "known (goalvararray_update f10 g) = known g"
  "known (numconstraints_update f11 g) = known g"
  by (rule known_cong; simp)+

lemma pok_update [simp]:
  "pok (slheap_update f1 g) = pok g" "pok (cg_loadtable_update f2 g) = pok g"
  "pok (goalset_update f3 g) = pok g" "pok (rectoint_update f4 g) = pok g"
  "pok (has_untaken_branches_update f5 g) = pok g" "pok (solver_update f6 g) = pok g"
  "pok (yieldtable_update f7 g) = pok g" "pok (yieldlist_update f8 g) = pok g"
  "pok (workstack_update f9 g) = pok g" "pok (goalvararray_update f10 g) = pok g"
  "pok (numconstraints_update f11 g) = pok g"
  by (rule known_cong; simp)+

lemma isvar_update [simp]:
  "isvar (slheap_update f1 g) = isvar g" "isvar (cg_loadtable_update f2 g) = isvar g"
  "isvar (goalset_update f3 g) = isvar g" "isvar (rectoint_update f4 g) = isvar g"
  "isvar (has_untaken_branches_update f5 g) = isvar g" "isvar (solver_update f6 g) = isvar g"
  "isvar (yieldtable_update f7 g) = isvar g" "isvar (yieldlist_update f8 g) = isvar g"
  "isvar (workstack_update f9 g) = isvar g" "isvar (goalvararray_update f10 g) = isvar g"
  "isvar (numconstraints_update f11 g) = isvar g"
  by (rule known_cong; simp)+

subsection \<open>The invariant\<close>

definition vars_ok :: "cgen \<Rightarrow> bool" where
  "vars_ok g \<longleftrightarrow> cg_vars g = map VAR [1..<Suc (length (cg_vars g))] \<and> 1 \<le> varindex g \<and>
     varindex g \<le> Suc (length (cg_vars g))"

definition stream_ok :: "cgen \<Rightarrow> bool" where
  "stream_ok g \<longleftrightarrow> closed (stream_of g) \<and> (\<forall>l \<in> set (stream_of g). nat \<bar>l\<bar> < varindex g) \<and>
     (\<forall>s. solver g = Some s \<longrightarrow> solver_inv s \<and> from_solver s = [])"

definition sls_vars_ok :: "cgen \<Rightarrow> slset \<Rightarrow> bool" where
  "sls_vars_ok g s \<longleftrightarrow>
     (\<forall>n. addrencodings s = Some n \<longrightarrow> n = ValueRecord_numvars (addresses s)) \<and>
     (\<forall>n. valencodings s = Some n \<longrightarrow> n = ValueRecord_numvars (sl_values s)) \<and>
     (\<forall>r vars. addrvars s r = Some vars \<longrightarrow> addrencodings s = Some (length vars) \<and> (\<forall>c \<in> set vars. isvar g c)) \<and>
     (\<forall>r vars. valvars s r = Some vars \<longrightarrow> valencodings s = Some (length vars) \<and> (\<forall>c \<in> set vars. isvar g c)) \<and>
     (\<forall>r vars. valrmwrvars s r = Some vars \<longrightarrow> valencodings s = Some (length vars) \<and> (\<forall>c \<in> set vars. isvar g c))"

definition tables_ok :: "cgen \<Rightarrow> bool" where
  "tables_ok g \<longleftrightarrow>
     (\<forall>p c. rpt g p = Some c \<longrightarrow> c = TRUE \<or> c = FALSE \<or> isvar g c) \<and>
     (\<forall>i s. slheap g i = Some s \<longrightarrow> sls_vars_ok g s) \<and>
     (\<forall>r br. branchtable g r = Some br \<longrightarrow> length (br_vars br) \<le> 32 \<and> (\<forall>c \<in> set (br_vars br). isvar g c)) \<and>
     (\<forall>r vars. functiontable g r = Some vars \<longrightarrow> (\<forall>c \<in> set vars. isvar g c)) \<and>
     (\<forall>r c. equalstable g r = Some c \<longrightarrow> isvar g c) \<and>
     (\<forall>r c. yieldtable g r = Some c \<longrightarrow> isvar g c) \<and>
     (\<forall>c \<in> set (goalset g). pok g c)"

definition gen_ok :: "cgen \<Rightarrow> bool" where
  "gen_ok g \<longleftrightarrow> vars_ok g \<and> stream_ok g \<and> tables_ok g"

lemma gen_okD:
  assumes "gen_ok g"
  shows "vars_ok g" "stream_ok g" "tables_ok g" "closed (stream_of g)"
    and "rpt g p = Some c \<Longrightarrow> c = TRUE \<or> c = FALSE \<or> isvar g c"
    and "slheap g i = Some s \<Longrightarrow> sls_vars_ok g s"
    and "branchtable g r = Some br \<Longrightarrow> length (br_vars br) \<le> 32 \<and> (\<forall>c \<in> set (br_vars br). isvar g c)"
    and "functiontable g r = Some vars \<Longrightarrow> c \<in> set vars \<Longrightarrow> isvar g c"
    and "equalstable g r = Some c \<Longrightarrow> isvar g c"
    and "yieldtable g r = Some c \<Longrightarrow> isvar g c"
    and "c \<in> set (goalset g) \<Longrightarrow> pok g c"
  using assms unfolding gen_ok_def tables_ok_def stream_ok_def by blast+

subsection \<open>Growth\<close>

definition sls_grows :: "slset \<Rightarrow> slset \<Rightarrow> bool" where
  "sls_grows s s' \<longleftrightarrow> storeloadset s' = storeloadset s \<and> addresses s' = addresses s \<and> sl_values s' = sl_values s \<and>
     (\<forall>n. addrencodings s = Some n \<longrightarrow> addrencodings s' = Some n) \<and>
     (\<forall>n. valencodings s = Some n \<longrightarrow> valencodings s' = Some n) \<and>
     addrvars s \<subseteq>\<^sub>m addrvars s' \<and> valvars s \<subseteq>\<^sub>m valvars s' \<and> valrmwrvars s \<subseteq>\<^sub>m valrmwrvars s'"

definition fixed :: "cgen \<Rightarrow> _" where
  "fixed g = (rpt g, branchtable g, functiontable g, equalstable g, threadactions g, execcondtable g,
     storeloadtable g, next_sls g, incompleteexploredbranch g, solver g = None)"

definition grows :: "cgen \<Rightarrow> cgen \<Rightarrow> bool" where
  "grows g g' \<longleftrightarrow> fixed g' = fixed g \<and> varindex g \<le> varindex g' \<and>
     (\<exists>ls. stream_of g' = stream_of g @ ls \<and> closed ls) \<and>
     (\<forall>i. rel_option sls_grows (slheap g i) (slheap g' i)) \<and>
     cg_loadtable g \<subseteq>\<^sub>m cg_loadtable g' \<and> (\<exists>cs. goalset g' = goalset g @ cs)"

lemma sls_grows_refl [simp]: "sls_grows s s"
  by (simp add: sls_grows_def)

lemma sls_grows_trans: "sls_grows s t \<Longrightarrow> sls_grows t u \<Longrightarrow> sls_grows s u"
  unfolding sls_grows_def by (auto intro: map_le_trans)

lemma grows_refl [simp]: "grows g g"
  by (simp add: grows_def option.rel_refl)

lemma grows_trans:
  assumes "grows g1 g2" and "grows g2 g3"
  shows "grows g1 g3"
proof -
  have "transp sls_grows" by (rule transpI) (rule sls_grows_trans)
  then have "transp (rel_option sls_grows)" by (rule option.rel_transp)
  then have h: "rel_option sls_grows (slheap g1 i) (slheap g3 i)" for i
    using assms unfolding grows_def by (meson transpD)
  obtain ls ls' where "stream_of g2 = stream_of g1 @ ls" "closed ls" "stream_of g3 = stream_of g2 @ ls'" "closed ls'"
    using assms unfolding grows_def by blast
  then have st: "stream_of g3 = stream_of g1 @ (ls @ ls')" "closed (ls @ ls')" by (simp_all add: closed_append)
  have gs: "\<exists>cs. goalset g3 = goalset g1 @ cs" using assms unfolding grows_def by force
  have "cg_loadtable g1 \<subseteq>\<^sub>m cg_loadtable g3" using assms unfolding grows_def by (blast intro: map_le_trans)
  moreover have "fixed g3 = fixed g1" "varindex g1 \<le> varindex g3" using assms unfolding grows_def by simp_all
  ultimately show ?thesis using h st gs unfolding grows_def by blast
qed

lemma grows_carry: "grows g g' \<Longrightarrow> carry g g'"
  by (rule carry_varindex) (simp add: grows_def)

definition reached :: "cgen \<Rightarrow> cgen \<Rightarrow> bool" where
  "reached g0 g \<longleftrightarrow> gen_ok g \<and> grows g0 g"

lemma reachedD: "reached g0 g \<Longrightarrow> gen_ok g" "reached g0 g \<Longrightarrow> grows g0 g"
  by (simp_all add: reached_def)

lemma reached_step: "reached g0 g \<Longrightarrow> grows g g' \<Longrightarrow> gen_ok g' \<Longrightarrow> reached g0 g'"
  by (auto simp: reached_def intro: grows_trans)

lemma tables_ok_mono:
  assumes "tables_ok g" and "carry g g'"
    and "rpt g' = rpt g" "slheap g' = slheap g" "branchtable g' = branchtable g" "functiontable g' = functiontable g"
      "equalstable g' = equalstable g" "yieldtable g' = yieldtable g" "goalset g' = goalset g"
  shows "tables_ok g'"
proof -
  have c: "isvar g c \<Longrightarrow> isvar g' c" "pok g c \<Longrightarrow> pok g' c" for c using assms(2) by (auto simp: carry_def)
  have "sls_vars_ok g s \<Longrightarrow> sls_vars_ok g' s" for s unfolding sls_vars_ok_def using c by blast
  then show ?thesis using assms(1) c unfolding tables_ok_def assms(3-9) by blast
qed

text \<open>Growth by variables and clauses only.\<close>

lemma grows_simple:
  assumes "fixed g' = fixed g" and "varindex g \<le> varindex g'" and "stream_of g' = stream_of g @ ls" and "closed ls"
    and "slheap g' = slheap g" and "cg_loadtable g' = cg_loadtable g" and "goalset g' = goalset g"
  shows "grows g g'"
  using assms by (auto simp: grows_def option.rel_refl)

subsection \<open>Variables and clauses\<close>

lemma getNewVar_result:
  assumes "vars_ok g"
  obtains cv where "getNewVar g = (VAR (varindex g), g\<lparr> cg_vars := cv, varindex := varindex g + 1 \<rparr>)"
    and "vars_ok (g\<lparr> cg_vars := cv, varindex := varindex g + 1 \<rparr>)"
proof (cases "length (cg_vars g) < varindex g")
  case True
  then have n: "varindex g = Suc (length (cg_vars g))" using assms by (simp add: vars_ok_def)
  let ?cv = "cg_vars g @ [VAR (varindex g)]"
  have "?cv = map VAR [1..<Suc (length ?cv)]"
    using assms n by (simp add: vars_ok_def)
  then show ?thesis using that [of ?cv] True n by (simp add: getNewVar_def Let_def vars_ok_def)
next
  case False
  have v: "1 \<le> varindex g" "cg_vars g = map VAR [1..<Suc (length (cg_vars g))]" using assms by (simp_all add: vars_ok_def)
  have "map VAR [1..<Suc n] ! (k - 1) = VAR k" if "1 \<le> k" "k \<le> n" for k n
    using that by (simp del: upt_Suc)
  then have "cg_vars g ! (varindex g - 1) = VAR (varindex g)" using v False by (metis not_less)
  then have "getNewVar g = (VAR (varindex g), g\<lparr> cg_vars := cg_vars g, varindex := varindex g + 1 \<rparr>)"
    using False by (simp add: getNewVar_def)
  moreover have "vars_ok (g\<lparr> cg_vars := cg_vars g, varindex := varindex g + 1 \<rparr>)"
    using assms False by (simp add: vars_ok_def del: upt_Suc)
  ultimately show ?thesis by (rule that)
qed

lemma fixed_update [simp]:
  "fixed (varindex_update f1 g) = fixed g" "fixed (cg_vars_update f2 g) = fixed g"
  "fixed (numconstraints_update f3 g) = fixed g" "fixed (cg_loadtable_update f4 g) = fixed g"
  "fixed (slheap_update f5 g) = fixed g" "fixed (goalset_update f6 g) = fixed g"
  "fixed (rectoint_update f7 g) = fixed g" "fixed (has_untaken_branches_update f8 g) = fixed g"
  "fixed (yieldtable_update f9 g) = fixed g" "fixed (yieldlist_update f10 g) = fixed g"
  "fixed (workstack_update f11 g) = fixed g" "fixed (goalvararray_update f12 g) = fixed g"
  by (simp_all add: fixed_def)

lemma stream_of_update [simp]:
  "stream_of (varindex_update f1 g) = stream_of g" "stream_of (cg_vars_update f2 g) = stream_of g"
  "stream_of (numconstraints_update f3 g) = stream_of g" "stream_of (cg_loadtable_update f4 g) = stream_of g"
  "stream_of (slheap_update f5 g) = stream_of g" "stream_of (goalset_update f6 g) = stream_of g"
  "stream_of (rectoint_update f7 g) = stream_of g" "stream_of (has_untaken_branches_update f8 g) = stream_of g"
  "stream_of (yieldtable_update f9 g) = stream_of g" "stream_of (yieldlist_update f10 g) = stream_of g"
  "stream_of (workstack_update f11 g) = stream_of g" "stream_of (goalvararray_update f12 g) = stream_of g"
  "stream_of (rpt_update f13 g) = stream_of g" "stream_of (branchtable_update f14 g) = stream_of g"
  "stream_of (functiontable_update f15 g) = stream_of g" "stream_of (equalstable_update f16 g) = stream_of g"
  "stream_of (threadactions_update f17 g) = stream_of g" "stream_of (execcondtable_update f18 g) = stream_of g"
  "stream_of (storeloadtable_update f19 g) = stream_of g" "stream_of (next_sls_update f20 g) = stream_of g"
  "stream_of (nonlocaltrans_update f21 g) = stream_of g" "stream_of (incompleteexploredbranch_update f22 g) = stream_of g"
  by (simp_all add: stream_of_def)

lemma getNewVar_grows:
  assumes "gen_ok g" and "getNewVar g = (v, g')"
  shows "v = VAR (varindex g)" and "varindex g' = varindex g + 1" and "isvar g' v" and "gen_ok g'" and "grows g g'"
    and "slheap g' = slheap g"
proof -
  obtain cv where cv: "getNewVar g = (VAR (varindex g), g\<lparr> cg_vars := cv, varindex := varindex g + 1 \<rparr>)"
    "vars_ok (g\<lparr> cg_vars := cv, varindex := varindex g + 1 \<rparr>)"
    using getNewVar_result [OF gen_okD(1) [OF assms(1)]] .
  then have g': "v = VAR (varindex g)" "g' = g\<lparr> cg_vars := cv, varindex := varindex g + 1 \<rparr>" using assms(2) by simp_all
  show "v = VAR (varindex g)" "varindex g' = varindex g + 1" "slheap g' = slheap g" by (simp_all add: g')
  have "0 < varindex g" using gen_okD(1) [OF assms(1)] by (simp add: vars_ok_def)
  then show "isvar g' v" by (simp add: isvar_cases g')
  have "carry g g'" by (rule carry_varindex) (simp add: g')
  from tables_ok_mono [OF gen_okD(3) [OF assms(1)] this] have "tables_ok g'" by (simp add: g')
  moreover have "stream_ok g'" using gen_okD(2) [OF assms(1)] by (auto simp: stream_ok_def g' less_Suc_eq)
  ultimately show "gen_ok g'" using cv(2) by (simp add: gen_ok_def g')
  show "grows g g'" by (rule grows_simple [where ls = "[]"]) (simp_all add: g')
qed

lemma print_literals_known:
  "print_literals cs = Some ls \<Longrightarrow> l \<in> set ls \<Longrightarrow> \<exists>c \<in> set cs. nat \<bar>l\<bar> \<in> cvars c"
proof (induction cs arbitrary: ls)
  case (Cons c cs)
  then show ?case by (cases c) (auto simp: do_simps)
qed simp

lemma printDIMACS_known: "printDIMACS c = Some ls \<Longrightarrow> l \<in> set ls \<Longrightarrow> l = 0 \<or> nat \<bar>l\<bar> \<in> cvars c"
  using print_literals_known by (cases c) fastforce+

lemma addClause_grows:
  assumes "gen_ok g" and "addClause c g = Some g'" and "known g c"
  shows "gen_ok g' \<and> grows g g' \<and> varindex g' = varindex g"
proof (cases "isTrue c")
  case True
  with assms(1,2) show ?thesis by (simp add: addClause_def)
next
  case False
  with assms(2) obtain ls g1 where ls: "printDIMACS c = Some ls" "foldM printConstraint ls g = Some g1"
    "g' = g1\<lparr> numconstraints := numconstraints g1 + 1 \<rparr>" by (auto simp: addClause_def do_simps split: if_splits)
  from printDIMACS_closed [OF ls(1)] have closed: "closed ls" "ls \<noteq> []" by auto
  from printConstraints [OF ls(2)] closed(2) obtain s where s: "solver g = Some s"
    "g1 = g\<lparr> solver := Some (fold addClauseLiteral ls s) \<rparr>" by blast
  have st: "stream_of g' = stream_of g @ ls" using s ls(3) by (simp add: stream_of_def stream_fold_literals)
  have "\<forall>l \<in> set ls. nat \<bar>l\<bar> < varindex g"
    using printDIMACS_known [OF ls(1)] assms(3) gen_okD(1) [OF assms(1)] by (fastforce simp: known_def vars_ok_def)
  moreover have "from_solver (fold addClauseLiteral ls t) = from_solver t" for t
    by (induction ls arbitrary: t) (simp_all add: addClauseLiteral_def flushBuffer_def Let_def)
  ultimately have "stream_ok g'" using gen_okD(2) [OF assms(1)] closed(1) unfolding stream_ok_def st
    by (auto simp: s ls(3) closed_append solver_inv_fold)
  moreover have "tables_ok g'" by (rule tables_ok_mono [OF gen_okD(3) [OF assms(1)] carry_varindex]) (simp_all add: s ls(3))
  moreover have "vars_ok g'" using gen_okD(1) [OF assms(1)] by (simp add: vars_ok_def s ls(3))
  moreover have "grows g g'"
    by (rule grows_simple [OF _ _ st closed(1)]) (use s ls(3) in \<open>simp_all add: fixed_def\<close>)
  ultimately show ?thesis by (simp add: gen_ok_def s ls(3))
qed

lemma addConstraint_grows:
  assumes "gen_ok g" and "addConstraint c g = Some g'" and "known g c"
  shows "gen_ok g' \<and> grows g g' \<and> varindex g' = varindex g"
proof -
  have k: "known g d" if "d \<in> set (simplify c)" for d
    using assms(3) cvars_simplify [OF that] by (auto simp: known_def)
  show ?thesis
    using assms(2) unfolding addConstraint_def
  proof (rule foldM_invariant [where I = "\<lambda>h. gen_ok h \<and> grows g h \<and> varindex h = varindex g"])
    fix d h h'
    assume d: "d \<in> set (simplify c)" "gen_ok h \<and> grows g h \<and> varindex h = varindex g" "addClause d h = Some h'"
    then have "known h d" using k [OF d(1)] by (simp add: known_def)
    with d addClause_grows [of h d h'] show "gen_ok h' \<and> grows g h' \<and> varindex h' = varindex g"
      by (auto intro: grows_trans)
  qed (use assms(1) in simp)
qed

end
