(* ===== verification/GenSteps.thy ===== *)
theory GenSteps
  imports GenInv
begin

section \<open>The second pass keeps the invariant\<close>

text \<open>
  Rules that follow the text of an operation, for its constructs and for the primitive operations of
  the generator, and with them: every operation of the second pass keeps \<open>gen_ok\<close> and only grows
  the state. \<open>base g0\<close> is the state the operation starts from.
\<close>

subsection \<open>Rules for the constructs\<close>

definition post :: "'a option \<Rightarrow> ('a \<Rightarrow> bool) \<Rightarrow> bool" where
  "post m Q \<longleftrightarrow> (\<forall>x. m = Some x \<longrightarrow> Q x)"

lemma postI: "(\<And>x. m = Some x \<Longrightarrow> Q x) \<Longrightarrow> post m Q"
  by (simp add: post_def)

lemma postD: "post m Q \<Longrightarrow> m = Some x \<Longrightarrow> Q x"
  by (simp add: post_def)

lemma post_mono: "post m P \<Longrightarrow> (\<And>x. P x \<Longrightarrow> Q x) \<Longrightarrow> post m Q"
  by (simp add: post_def)

lemma post_Some: "Q x \<Longrightarrow> post (Some x) Q"
  by (simp add: post_def)

lemma post_None: "post None Q"
  by (simp add: post_def)

lemma post_bind: "post m (\<lambda>x. post (f x) Q) \<Longrightarrow> post (Option.bind m f) Q"
  by (auto simp: post_def do_simps)

lemma post_if: "(b \<Longrightarrow> post x Q) \<Longrightarrow> (\<not> b \<Longrightarrow> post y Q) \<Longrightarrow> post (if b then x else y) Q"
  by simp

lemma post_option:
  "(m = None \<Longrightarrow> post x Q) \<Longrightarrow> (\<And>y. m = Some y \<Longrightarrow> post (f y) Q) \<Longrightarrow> post (case m of None \<Rightarrow> x | Some y \<Rightarrow> f y) Q"
  by (cases m) simp_all

lemma post_list:
  "(l = [] \<Longrightarrow> post x Q) \<Longrightarrow> (\<And>y ys. l = y # ys \<Longrightarrow> post (f y ys) Q) \<Longrightarrow> post (case l of [] \<Rightarrow> x | y # ys \<Rightarrow> f y ys) Q"
  by (cases l) simp_all

lemma post_prod: "(\<And>a b. p = (a, b) \<Longrightarrow> post (f a b) Q) \<Longrightarrow> post (case p of (a, b) \<Rightarrow> f a b) Q"
  by (cases p) simp

lemmas post_struct = post_Some post_None post_bind post_if post_option post_list

subsection \<open>Rules for operations\<close>

text \<open>An operation that keeps the invariant and grows, seen from a base state.\<close>

definition vars_known :: "constraint list \<Rightarrow> cgen \<Rightarrow> bool" where
  "vars_known vs g \<longleftrightarrow> (\<forall>c \<in> set vs. is_var c) \<and> (\<forall>c \<in> set vs. known g c)"

abbreviation carried :: "cgen \<Rightarrow> cgen \<Rightarrow> bool" where
  "carried g g' \<equiv> (\<forall>c. known g c \<longrightarrow> known g' c) \<and> (\<forall>vs. vars_known vs g \<longrightarrow> vars_known vs g')"

lemma grows_carried: "grows g g' \<Longrightarrow> carried g g'"
  using grows_carry [of g g'] by (auto simp: carry_def vars_known_def)

lemma reached_known: "reached g g' \<Longrightarrow> carried g g'"
  using grows_carried by (auto simp: reached_def)

lemma reached_refl: "gen_ok g \<Longrightarrow> reached g g"
  by (simp add: reached_def)

lemma reached_trans: "reached g0 g \<Longrightarrow> reached g g' \<Longrightarrow> reached g0 g'"
  by (auto simp: reached_def intro: grows_trans)

lemma post_step:
  assumes "gen_ok g \<Longrightarrow> post m (reached g)" and "reached g0 g"
    and "\<And>g'. reached g0 g' \<Longrightarrow> carried g g' \<Longrightarrow> Q g'"
  shows "post m Q"
proof (rule post_mono [OF assms(1)])
  show "gen_ok g" using assms(2) by (rule reachedD)
  fix g' assume r: "reached g g'"
  show "Q g'" by (rule assms(3) [OF reached_trans [OF assms(2) r] reached_known [OF r]])
qed

lemma post_gives:
  assumes "gen_ok g \<Longrightarrow> post m (\<lambda>(x, g'). reached g g' \<and> P x g')" and "reached g0 g"
    and "\<And>x g'. reached g0 g' \<Longrightarrow> carried g g' \<Longrightarrow> P x g' \<Longrightarrow> post (f x g') Q"
  shows "post m (\<lambda>p. post (case p of (x, g') \<Rightarrow> f x g') Q)"
proof (rule post_mono [OF assms(1)])
  show "gen_ok g" using assms(2) by (rule reachedD)
  fix p assume "case p of (x, g') \<Rightarrow> reached g g' \<and> P x g'"
  then obtain x g' where "p = (x, g')" "reached g g'" "P x g'" by blast
  then show "post (case p of (x, g') \<Rightarrow> f x g') Q"
    using assms(3) [OF reached_trans [OF assms(2)] reached_known] by simp
qed

lemma post_foldM [post_rules]:
  assumes "reached g0 g"
    and "\<And>x g1. x \<in> set xs \<Longrightarrow> reached g g1 \<Longrightarrow> carried g g1 \<Longrightarrow> post (f x g1) (reached g)"
    and "\<And>g'. reached g0 g' \<Longrightarrow> carried g g' \<Longrightarrow> Q g'"
  shows "post (foldM f xs g) Q"
proof (rule post_step [OF _ assms(1,3)])
  assume "gen_ok g"
  show "post (foldM f xs g) (reached g)"
  proof (rule postI)
    fix g' assume "foldM f xs g = Some g'"
    then show "reached g g'"
    proof (rule foldM_invariant [where I = "reached g"])
      show "reached g g" using \<open>gen_ok g\<close> by (rule reached_refl)
      fix x h h' assume "x \<in> set xs" "reached g h" "f x h = Some h'"
      from assms(2) [OF this(1,2) reached_known [OF this(2)]] this(3) show "reached g h'" by (rule postD)
    qed
  qed
qed

lemma post_addConstraint [post_rules]:
  assumes "reached g0 g" and "known g c"
    and "\<And>g'. reached g0 g' \<Longrightarrow> carried g g' \<Longrightarrow> Q g'"
  shows "post (addConstraint c g) Q"
  by (rule post_step [OF _ assms(1,3)])
    (use addConstraint_grows assms(2) in \<open>auto simp: post_def reached_def\<close>)

lemma post_getNewVar [post_rules]:
  assumes "reached g0 g"
    and "\<And>v g'. reached g0 g' \<Longrightarrow> carried g g' \<Longrightarrow> is_var v \<Longrightarrow> known g' v \<Longrightarrow> post (f v g') Q"
  shows "post (case getNewVar g of (v, g') \<Rightarrow> f v g') Q"
proof -
  obtain v g' where v: "getNewVar g = (v, g')" by (cases "getNewVar g")
  note N = getNewVar_grows [OF reachedD(1) [OF assms(1)] v]
  have "reached g0 g'" using reached_step [OF assms(1) N(5,4)] .
  moreover have "carried g g'" by (rule grows_carried [OF N(5)])
  ultimately show ?thesis using assms(2) N(3) by (simp add: v isvar_def)
qed

lemma getArrayNewVars_grows:
  assumes "gen_ok g" and "getArrayNewVars n g = (vs, g')"
  shows "gen_ok g' \<and> grows g g' \<and> (\<forall>c \<in> set vs. isvar g' c) \<and> length vs = n \<and> slheap g' = slheap g"
  using assms
proof (induction n arbitrary: g vs g')
  case (Suc n)
  obtain v g1 where v: "getNewVar g = (v, g1)" by (cases "getNewVar g")
  obtain ws g2 where w: "getArrayNewVars n g1 = (ws, g2)" by (cases "getArrayNewVars n g1")
  note N = getNewVar_grows [OF Suc.prems(1) v]
  from Suc.IH [OF N(4) w] have I: "gen_ok g2" "grows g1 g2" "\<forall>c \<in> set ws. isvar g2 c" "length ws = n"
    "slheap g2 = slheap g1" by auto
  have "isvar g2 v" using grows_carry [OF I(2)] N(3) by (simp add: carry_def)
  moreover have "grows g g2" by (rule grows_trans [OF N(5) I(2)])
  ultimately show ?case using I N(6) Suc.prems(2) v w by auto
qed simp

lemma post_getArrayNewVars [post_rules]:
  assumes "reached g0 g"
    and "\<And>vs g'. reached g0 g' \<Longrightarrow> carried g g' \<Longrightarrow> vars_known vs g' \<Longrightarrow> length vs = n \<Longrightarrow> post (f vs g') Q"
  shows "post (case getArrayNewVars n g of (vs, g') \<Rightarrow> f vs g') Q"
proof -
  obtain vs g' where v: "getArrayNewVars n g = (vs, g')" by (cases "getArrayNewVars n g")
  note N = getArrayNewVars_grows [OF reachedD(1) [OF assms(1)] v]
  have "reached g0 g'" using reached_step [OF assms(1)] N by blast
  moreover have "carried g g'" using grows_carried N by blast
  ultimately show ?thesis using assms(2) N by (simp add: v isvar_def vars_known_def)
qed

text \<open>When nothing is known of an operation.\<close>

lemma post_any: "(\<And>x. m = Some x \<Longrightarrow> Q x) \<Longrightarrow> post m Q"
  by (rule postI)

subsection \<open>Store/load sets\<close>

lemma sls_vars_ok_mono: "sls_vars_ok g s \<Longrightarrow> carry g g' \<Longrightarrow> sls_vars_ok g' s"
  unfolding sls_vars_ok_def carry_def by blast

lemma put_sls_reached:
  assumes "gen_ok g" and "slheap g i = Some s" and "sls_vars_ok g s'" and "sls_grows s s'"
  shows "reached g (put_sls i s' g)"
proof -
  let ?g = "put_sls i s' g"
  have f: "vars_ok ?g = vars_ok g" "stream_ok ?g = stream_ok g" "isvar ?g = isvar g" "pok ?g = pok g"
    by (simp_all add: put_sls_def vars_ok_def stream_ok_def)
  have "sls_vars_ok ?g = sls_vars_ok g" by (simp add: sls_vars_ok_def f fun_eq_iff)
  then have "tables_ok ?g" using gen_okD(3) [OF assms(1)] assms(3) unfolding tables_ok_def f
    by (auto simp: put_sls_def)
  moreover have "grows g ?g" unfolding grows_def using assms(2,4)
    by (auto simp: put_sls_def option.rel_refl intro: exI [of _ "[]"])
  ultimately show ?thesis using assms(1) f by (simp add: reached_def gen_ok_def)
qed

lemma get_vars_grows:
  assumes gv: "get_vars table set_table enc i r g = Some (vars, g')" and ok: "gen_ok g"
    and T1: "\<And>s. sls_vars_ok g s \<Longrightarrow> table s r = Some vars \<Longrightarrow> enc s = Some (length vars) \<and> (\<forall>c \<in> set vars. isvar g c)"
    and T2: "\<And>h s. sls_vars_ok h s \<Longrightarrow> enc s = Some (length vars) \<Longrightarrow> \<forall>c \<in> set vars. isvar h c \<Longrightarrow>
      sls_vars_ok h (set_table ((table s)(r \<mapsto> vars)) s)"
    and T3: "\<And>s. table s r = None \<Longrightarrow> sls_grows s (set_table ((table s)(r \<mapsto> vars)) s)"
    and T4: "\<And>t s. table (set_table t s) = t" "\<And>t s. enc (set_table t s) = enc s"
  shows "reached g g' \<and> (\<exists>s. slheap g' i = Some s \<and> table s r = Some vars \<and> enc s = Some (length vars)) \<and>
    (\<forall>c \<in> set vars. isvar g' c)"
proof -
  from gv obtain s where s: "slheap g i = Some s" by (auto simp: get_vars_def do_simps)
  have sok: "sls_vars_ok g s" by (rule gen_okD(6) [OF ok s])
  show ?thesis
  proof (cases "table s r")
    case (Some ws)
    with gv s have "ws = vars" "g' = g" by (auto simp: get_vars_def)
    with Some s T1 [OF sok] ok show ?thesis by (auto intro: reached_refl)
  next
    case None
    with gv s obtain n g1 where n: "enc s = Some n" "getArrayNewVars n g = (vars, g1)"
      "g' = put_sls i (set_table ((table s)(r \<mapsto> vars)) s) g1"
      by (auto simp: get_vars_def do_simps split: prod.splits)
    from getArrayNewVars_grows [OF ok n(2)] have N: "gen_ok g1" "grows g g1" "\<forall>c \<in> set vars. isvar g1 c"
      "length vars = n" "slheap g1 = slheap g" by auto
    have "sls_vars_ok g1 s" by (rule sls_vars_ok_mono [OF sok grows_carry [OF N(2)]])
    then have so: "sls_vars_ok g1 (set_table ((table s)(r \<mapsto> vars)) s)" using T2 n(1) N(3,4) by simp
    have s1: "slheap g1 i = Some s" using s N(5) by simp
    from put_sls_reached [OF N(1) s1 so T3 [OF None]] have "reached g1 g'" by (simp add: n(3))
    with N(1,2) have "reached g g'" by (auto simp: reached_def intro: grows_trans)
    moreover have "isvar g' = isvar g1" by (simp add: n(3) put_sls_def)
    ultimately show ?thesis using N(3,4) n(1,3) T4 by simp
  qed
qed

lemma map_le_upd: "m k = None \<Longrightarrow> m \<subseteq>\<^sub>m m(k \<mapsto> v)"
  by (auto simp: map_le_def dom_def)

lemma getAddrVars_grows:
  assumes "getAddrVars i r g = Some (vars, g')" and "gen_ok g"
  shows "reached g g' \<and> (\<exists>s. slheap g' i = Some s \<and> addrvars s r = Some vars \<and> addrencodings s = Some (length vars)) \<and>
    (\<forall>c \<in> set vars. isvar g' c)"
  by (rule get_vars_grows [OF assms(1) [unfolded getAddrVars_def] assms(2)])
    (auto simp: sls_vars_ok_def sls_grows_def map_le_upd split: if_splits)

lemma getValVars_grows:
  assumes "getValVars i r g = Some (vars, g')" and "gen_ok g"
  shows "reached g g' \<and> (\<exists>s. slheap g' i = Some s \<and> valvars s r = Some vars \<and> valencodings s = Some (length vars)) \<and>
    (\<forall>c \<in> set vars. isvar g' c)"
  by (rule get_vars_grows [OF assms(1) [unfolded getValVars_def] assms(2)])
    (auto simp: sls_vars_ok_def sls_grows_def map_le_upd split: if_splits)

lemma getRMWRValVars_grows:
  assumes "getRMWRValVars i r g = Some (vars, g')" and "gen_ok g"
  shows "reached g g' \<and> (\<exists>s. slheap g' i = Some s \<and> valrmwrvars s r = Some vars \<and> valencodings s = Some (length vars)) \<and>
    (\<forall>c \<in> set vars. isvar g' c)"
  by (rule get_vars_grows [OF assms(1) [unfolded getRMWRValVars_def] assms(2)])
    (auto simp: sls_vars_ok_def sls_grows_def map_le_upd split: if_splits)

lemma genEncoding_ok:
  assumes "sls_vars_ok g s"
  shows "sls_vars_ok g (genEncoding s)" and "sls_grows s (genEncoding s)"
  using assms unfolding sls_vars_ok_def sls_grows_def genEncoding_def by fastforce+

lemma need_encoding_grows:
  assumes "need_encoding enc i g = Some g'" and "gen_ok g"
  shows "reached g g' \<and> varindex g' = varindex g"
proof -
  from assms(1) obtain s where s: "slheap g i = Some s" "g' = (if enc s = None then put_sls i (genEncoding s) g else g)"
    by (auto simp: need_encoding_def do_simps)
  from put_sls_reached [OF assms(2) s(1) genEncoding_ok [OF gen_okD(6) [OF assms(2) s(1)]]] s assms(2)
  show ?thesis by (simp add: reached_refl) (simp add: put_sls_def)
qed

lemma post_need_encoding [post_rules]:
  assumes "reached g0 g" and "\<And>g'. reached g0 g' \<Longrightarrow> carried g g' \<Longrightarrow> Q g'"
  shows "post (need_encoding enc i g) Q"
  by (rule post_step [OF _ assms]) (use need_encoding_grows in \<open>auto simp: post_def\<close>)

lemma vars_gives:
  assumes "\<And>vars g'. m = Some (vars, g') \<Longrightarrow> reached g g' \<and> R vars g' \<and> (\<forall>c \<in> set vars. isvar g' c)"
  shows "post m (\<lambda>(vs, g'). reached g g' \<and> vars_known vs g')"
  using assms by (auto simp: post_def vars_known_def isvar_def)

lemma getVars_gives:
  "gen_ok g \<Longrightarrow> post (getAddrVars i r g) (\<lambda>(vs, g'). reached g g' \<and> vars_known vs g')"
  "gen_ok g \<Longrightarrow> post (getValVars i r g) (\<lambda>(vs, g'). reached g g' \<and> vars_known vs g')"
  "gen_ok g \<Longrightarrow> post (getRMWRValVars i r g) (\<lambda>(vs, g'). reached g g' \<and> vars_known vs g')"
  by (rule vars_gives, erule getAddrVars_grows, assumption, rule vars_gives, erule getValVars_grows, assumption,
      rule vars_gives, erule getRMWRValVars_grows, assumption)

lemma read_vars_gives:
  assumes "gen_ok g"
  shows "post (if b then getRMWRValVars i r g else getValVars i r g) (\<lambda>(vs, g'). reached g g' \<and> vars_known vs g')"
  using getVars_gives [OF assms] by simp

lemmas post_getVars [post_rules] = post_gives [OF getVars_gives(1)] post_gives [OF getVars_gives(2)]
  post_gives [OF getVars_gives(3)] post_gives [OF read_vars_gives]

subsection \<open>Constraints from the tables\<close>

lemma known_gen_literals: "\<forall>c \<in> set vars. known g c \<Longrightarrow> \<forall>c \<in> set (gen_literals vars w). known g c"
  by (induction vars w rule: gen_literals.induct) auto

lemma known_lt_clause: "\<forall>c \<in> set vars. known g c \<Longrightarrow> \<forall>c \<in> set (lt_clause vars w). known g c"
  by (induction vars w rule: lt_clause.induct) auto

lemma known_lt_loop: "\<forall>c \<in> set vars. known g c \<Longrightarrow> \<forall>c \<in> set (lt_loop vars w). known g c"
proof (induction vars w rule: lt_loop.induct)
  case (1 vars v)
  then show ?case using known_lt_clause [OF 1(2)] by (subst lt_loop.simps) (auto simp: Let_def)
qed

lemma known_equiv_clauses:
  "\<forall>c \<in> set xs. known g c \<Longrightarrow> \<forall>c \<in> set ys. known g c \<Longrightarrow> \<forall>c \<in> set (equiv_clauses xs ys). known g c"
  by (induction xs ys rule: equiv_clauses.induct) auto

lemma known_generateConstraint [simp]: "vars_known vars g \<Longrightarrow> known g (generateConstraint vars w)"
  unfolding generateConstraint_def known_simps by (rule known_gen_literals) (blast dest: vars_known_def [THEN iffD1])

lemma known_generateLTConstraint [simp]: "vars_known vars g \<Longrightarrow> known g (generateLTConstraint vars w)"
  unfolding generateLTConstraint_def known_simps by (rule known_lt_loop) (blast dest: vars_known_def [THEN iffD1])

lemma known_generateEquivConstraints [simp]:
  "vars_known vars g \<Longrightarrow> vars_known ws g \<Longrightarrow> known g (generateEquivConstraints vars ws)"
proof -
  assume "vars_known vars g" "vars_known ws g"
  then have k: "\<forall>c \<in> set vars. known g c" "\<forall>c \<in> set ws. known g c" by (simp_all add: vars_known_def)
  have "known g (AND (equiv_clauses vars ws))" unfolding known_simps using k by (rule known_equiv_clauses)
  then show ?thesis by (simp add: generateEquivConstraints_def del: known_simps(7))
qed

lemma known_generateEquivConstraint [simp]: "known g c \<Longrightarrow> known g d \<Longrightarrow> known g (generateEquivConstraint c d)"
  by (simp add: generateEquivConstraint_def)

lemma vars_literals: "\<forall>c \<in> set vars. is_var c \<Longrightarrow> list_all is_literal vars"
  by (rule all_var_literal) (simp add: list_all_iff)

lemma vars_knownD:
  "vars_known vars g \<Longrightarrow> \<forall>c \<in> set vars. known g c" "vars_known vars g \<Longrightarrow> list_all is_literal vars"
  "vars_known vars g \<Longrightarrow> \<forall>c \<in> set vars. is_var c"
  by (simp_all add: vars_known_def vars_literals)

lemma vr_getValueEncoding_pok:
  assumes "vr_getValueEncoding s n vars v = Some c" and "vars_known vars g"
  shows "imp_free c \<and> known g c"
proof -
  have "list_all is_literal (take n vars)" "vars_known (take n vars) g"
    using vars_knownD [OF assms(2)] by (auto simp: list_all_iff vars_known_def dest: in_set_takeD)
  then show ?thesis using assms(1) generateConstraint_shape(1)
    by (auto simp: vr_getValueEncoding_def split: option.splits if_splits)
qed

definition opt_pok :: "constraint option \<Rightarrow> cgen \<Rightarrow> bool" where
  "opt_pok c g \<longleftrightarrow> (\<forall>d. c = Some d \<longrightarrow> imp_free d \<and> known g d)"

lemma vars_encoding_gives:
  assumes "\<And>g1. gen_ok g1 \<Longrightarrow> post (gv g1) (\<lambda>(vs, g'). reached g1 g' \<and> vars_known vs g')" and "gen_ok g"
  shows "post (do { g \<leftarrow> need_encoding enc i g; (vars, g) \<leftarrow> gv g; s \<leftarrow> slheap g i; n \<leftarrow> enc s;
      Some (vr_getValueEncoding (members s) n vars v, g) }) (\<lambda>(c, g'). reached g g' \<and> opt_pok c g')"
  by (rule post_bind, rule post_need_encoding [OF reached_refl [OF assms(2)]], rule post_bind,
      rule post_gives [OF assms(1)], assumption, assumption,
      rule post_bind, rule post_any, rule post_bind, rule post_any, rule post_Some)
    (auto simp: opt_pok_def dest: vr_getValueEncoding_pok)

lemma sls_getAddressEncoding_gives:
  "gen_ok g \<Longrightarrow> post (sls_getAddressEncoding i r v g) (\<lambda>(c, g'). reached g g' \<and> opt_pok c g')"
  unfolding sls_getAddressEncoding_def by (rule vars_encoding_gives [OF getVars_gives(1)])

lemma sls_getValueEncoding_gives:
  "gen_ok g \<Longrightarrow> post (sls_getValueEncoding i r v g) (\<lambda>(c, g'). reached g g' \<and> opt_pok c g')"
  unfolding sls_getValueEncoding_def by (rule vars_encoding_gives [OF getVars_gives(2)])

lemma sls_getRMWRValueEncoding_gives:
  "gen_ok g \<Longrightarrow> post (sls_getRMWRValueEncoding i r v g) (\<lambda>(c, g'). reached g g' \<and> opt_pok c g')"
  unfolding sls_getRMWRValueEncoding_def by (rule vars_encoding_gives [OF getVars_gives(3)])

lemmas post_sls_encodings [post_rules] =
  post_gives [OF sls_getAddressEncoding_gives] post_gives [OF sls_getValueEncoding_gives]
  post_gives [OF sls_getRMWRValueEncoding_gives]

lemma map_opt_mem: "map_opt f xs = Some ys \<Longrightarrow> y \<in> set ys \<Longrightarrow> \<exists>x \<in> set xs. f x = Some y"
  by (induction xs arbitrary: ys) (auto simp: do_simps)

lemma branch_vars_known: "gen_ok g \<Longrightarrow> branchtable g r = Some br \<Longrightarrow> vars_known (br_vars br) g"
  using gen_okD(7) by (auto simp: vars_known_def isvar_def)

lemma generateConstraint_pok: "vars_known vars g \<Longrightarrow> imp_free (generateConstraint vars w) \<and> known g (generateConstraint vars w)"
  using generateConstraint_shape(1) [OF vars_knownD(2)] by simp

lemma direction_pok:
  assumes "direction e b g = Some c" and "gen_ok g"
  shows "imp_free c \<and> known g c"
  using assms(1) generateConstraint_pok [OF branch_vars_known [OF assms(2)]]
  by (auto simp: direction_def getBranch_def do_simps)

lemma getExecutionConstraint_pok:
  assumes "getExecutionConstraint e r g = Some c" and "gen_ok g"
  shows "imp_free c \<and> known g c"
proof -
  from assms(1) obtain away own where a: "map_opt (\<lambda>nonlocal. do {
               b \<leftarrow> branch (rec_of e nonlocal);
               c \<leftarrow> direction e b g;
               Some (negate c) }) (execcond g r) = Some away"
    and o: "(case branch (rec_of e r) of None \<Rightarrow> Some [] | Some b \<Rightarrow> map_option (\<lambda>c. [c]) (direction e b g)) = Some own"
    and c: "c = (case away @ own of [] \<Rightarrow> TRUE | [c] \<Rightarrow> c | array \<Rightarrow> AND array)"
    by (auto simp: getExecutionConstraint_def do_simps)
  have "imp_free d \<and> known g d" if "d \<in> set away" for d
    using map_opt_mem [OF a that] direction_pok [OF _ assms(2)] by (auto simp: do_simps)
  moreover have "imp_free d \<and> known g d" if "d \<in> set own" for d
    using o that direction_pok [OF _ assms(2)] by (auto split: option.splits)
  ultimately have "\<forall>d \<in> set (away @ own). imp_free d \<and> known g d" by auto
  moreover define cs where "cs = away @ own"
  ultimately have "\<forall>d \<in> set cs. imp_free d \<and> known g d" by simp
  then show ?thesis unfolding c cs_def [symmetric] by (auto simp: list_all_iff split: list.split)
qed

lemma post_getExecutionConstraint [post_rules]:
  assumes "reached g0 g" and "\<And>c. getExecutionConstraint e r g = Some c \<Longrightarrow> imp_free c \<Longrightarrow> known g c \<Longrightarrow> Q c"
  shows "post (getExecutionConstraint e r g) Q"
  using assms getExecutionConstraint_pok [OF _ reachedD(1) [OF assms(1)]] by (auto simp: post_def)

text \<open>An order constraint is a constant or a literal.\<close>

lemma getOrderConstraint_pok:
  assumes "getOrderConstraint cfg e a b g = Some c" and "gen_ok g"
  shows "(c = TRUE \<or> c = FALSE \<or> is_literal c) \<and> imp_free c \<and> known g c"
proof (cases "same_thread e a b \<and> (\<not> TSO cfg \<or> rpt_get a b g = None)")
  case True
  with assms(1) show ?thesis by (auto simp: getOrderConstraint_def do_simps)
next
  case False
  with assms(1) obtain epr1 d where d: "rpt_get a b g = Some (epr1, d)" "c = (if epr1 \<noteq> a then negate d else d)"
    by (auto simp: getOrderConstraint_def do_simps)
  from d(1) have "\<exists>p. rpt g p = Some d" by (auto simp: rpt_get_def split: option.splits)
  then have "d = TRUE \<or> d = FALSE \<or> isvar g d" using gen_okD(5) [OF assms(2)] by blast
  then have "(d = TRUE \<or> d = FALSE \<or> is_literal d) \<and> imp_free d \<and> known g d" by (auto simp: isvar_cases)
  moreover have "negate d = TRUE \<or> negate d = FALSE \<or> is_literal (negate d)"
    using calculation by (cases d) auto
  ultimately show ?thesis by (auto simp: d(2))
qed

lemma post_getOrderConstraint [post_rules]:
  assumes "reached g0 g" and "\<And>c. getOrderConstraint cfg e a b g = Some c \<Longrightarrow> imp_free c \<Longrightarrow> known g c \<Longrightarrow> Q c"
  shows "post (getOrderConstraint cfg e a b g) Q"
  using assms getOrderConstraint_pok [OF _ reachedD(1) [OF assms(1)]] by (auto simp: post_def)

lemma getRetValueEncoding_gives:
  assumes "gen_ok g"
  shows "post (getRetValueEncoding e r v g) (\<lambda>(c, g'). reached g g' \<and> opt_pok c g')"
proof -
  have fun_vars: "vars_known vars g" if "functiontable g r = Some vars" for vars
    using gen_okD(8) [OF assms that] by (auto simp: vars_known_def isvar_def)
  have equals: "imp_free (er_getValueEncoding c w) \<and> known g (er_getValueEncoding c w)" if "equalstable g r = Some c" for c w
    using gen_okD(9) [OF assms that] by (auto simp: er_getValueEncoding_def isvar_cases)
  show ?thesis
    using sls_getValueEncoding_gives [OF assms] sls_getRMWRValueEncoding_gives [OF assms] fun_vars equals
      generateConstraint_pok reached_refl [OF assms]
    by (auto simp: getRetValueEncoding_def post_def do_simps opt_pok_def fr_encoding_def fr_getValueEncoding_def
        split: event_type.splits)
qed

lemma getMemValueEncoding_gives:
  assumes "gen_ok g"
  shows "post (getMemValueEncoding e r v g) (\<lambda>(c, g'). reached g g' \<and> opt_pok c g')"
  using sls_getValueEncoding_gives [OF assms] by (auto simp: getMemValueEncoding_def post_def do_simps)

lemma value_gives:
  assumes "post m (\<lambda>(c, g'). reached g g' \<and> opt_pok c g')"
  shows "post (do { (c, g) \<leftarrow> m; c \<leftarrow> c; Some (c, g) }) (\<lambda>(c, g'). reached g g' \<and> imp_free c \<and> known g' c)"
  using assms by (auto simp: post_def do_simps opt_pok_def)

lemma ret_value_gives: "gen_ok g \<Longrightarrow> post (ret_value e r v g) (\<lambda>(c, g'). reached g g' \<and> imp_free c \<and> known g' c)"
  unfolding ret_value_def by (rule value_gives [OF getRetValueEncoding_gives])

lemma mem_value_gives: "gen_ok g \<Longrightarrow> post (mem_value e r v g) (\<lambda>(c, g'). reached g g' \<and> imp_free c \<and> known g' c)"
  unfolding mem_value_def by (rule value_gives [OF getMemValueEncoding_gives])

lemmas post_values [post_rules] =
  post_gives [OF getRetValueEncoding_gives] post_gives [OF getMemValueEncoding_gives]
  post_gives [OF ret_value_gives] post_gives [OF mem_value_gives]

subsection \<open>Operations that only read the tables\<close>

lemma getMayReadFromSet_result:
  assumes "getMayReadFromSet e load g = Some (srs, g')"
  shows "g' = g\<lparr> cg_loadtable := (cg_loadtable g)(load \<mapsto> srs) \<rparr>"
    and "cg_loadtable g load = None \<or> cg_loadtable g load = Some srs"
  using assms by (auto simp: getMayReadFromSet_def getMayReadFromSetOpt_def do_simps fun_upd_idem
      split: if_splits option.splits)

lemma gen_ok_cong:
  assumes "gen_ok g" and "varindex g' = varindex g" "cg_vars g' = cg_vars g" "solver g' = solver g" "rpt g' = rpt g"
    "slheap g' = slheap g" "branchtable g' = branchtable g" "functiontable g' = functiontable g"
      "equalstable g' = equalstable g" "yieldtable g' = yieldtable g" "goalset g' = goalset g"
  shows "gen_ok g'"
proof -
  have "tables_ok g'" by (rule tables_ok_mono [OF gen_okD(3) [OF assms(1)] carry_varindex]) (simp_all add: assms(2-))
  with assms(1) show ?thesis by (simp add: gen_ok_def vars_ok_def stream_ok_def stream_of_def assms(2-4))
qed

lemma getMayReadFromSet_grows:
  assumes "getMayReadFromSet e load g = Some (srs, g')" and "gen_ok g"
  shows "reached g g'"
proof -
  note R = getMayReadFromSet_result [OF assms(1)]
  have "gen_ok g'" by (rule gen_ok_cong [OF assms(2)]) (simp_all add: R(1))
  moreover have "cg_loadtable g \<subseteq>\<^sub>m cg_loadtable g'" using R by (auto simp: map_le_def)
  then have "grows g g'" by (auto simp: grows_def R(1) option.rel_refl intro: exI [of _ "[]"])
  ultimately show ?thesis by (simp add: reached_def)
qed

lemma getMayReadFromSet_gives: "gen_ok g \<Longrightarrow> post (getMayReadFromSet e load g) (\<lambda>(srs, g'). reached g g' \<and> True)"
  using getMayReadFromSet_grows by (auto simp: post_def)

lemma getNum_gives:
  "gen_ok g \<Longrightarrow> post (getNumValVars i g) (\<lambda>(n, g'). reached g g' \<and> True)"
  "gen_ok g \<Longrightarrow> post (getNumAddrVars i g) (\<lambda>(n, g'). reached g g' \<and> True)"
  using need_encoding_grows by (auto simp: post_def getNumValVars_def getNumAddrVars_def do_simps)

lemmas post_reads [post_rules] = post_gives [OF getMayReadFromSet_gives] post_gives [OF getNum_gives(1)]
  post_gives [OF getNum_gives(2)]

subsection \<open>Goals\<close>

lemma addGoal_reached:
  assumes "reached g0 g" and "imp_free c" and "known g c"
  shows "reached g0 (addGoal r c g)" and "carried g (addGoal r c g)"
proof -
  let ?g = "addGoal r c g"
  have ok: "gen_ok g" by (rule reachedD(1) [OF assms(1)])
  have f: "isvar ?g = isvar g" "pok ?g = pok g" "vars_ok ?g = vars_ok g" "stream_ok ?g = stream_ok g"
    by (simp_all add: addGoal_def vars_ok_def stream_ok_def)
  have "sls_vars_ok ?g = sls_vars_ok g" by (simp add: sls_vars_ok_def f fun_eq_iff)
  moreover have "pok g c" using assms(2,3) by (simp add: pok_def)
  ultimately have "tables_ok ?g" using gen_okD(3) [OF ok] unfolding tables_ok_def f by (auto simp: addGoal_def)
  then have "gen_ok ?g" using ok f by (simp add: gen_ok_def)
  moreover have "grows g ?g" by (auto simp: grows_def addGoal_def option.rel_refl intro: exI [of _ "[]"])
  ultimately show "reached g0 ?g" using reached_step [OF assms(1)] by blast
  show "carried g ?g" by (rule grows_carried [OF \<open>grows g ?g\<close>])
qed

end
