(* ===== verification/GenPasses.thy ===== *)
theory GenPasses
  imports GenSteps
begin

section \<open>Every operation of the second pass (loadrf.cc, constgen.cc)\<close>

text \<open>
  One lemma per operation: it keeps \<open>gen_ok\<close> and grows the state. Then the same for the traversal,
  for the transitivity constraints and for the translation of the goals.
\<close>

lemma is_var_imp_free [simp]: "is_var c \<Longrightarrow> imp_free c"
  by (simp add: is_literal_imp_free is_var_literal)

lemma vars_known_AND [simp]:
  "vars_known vs g \<Longrightarrow> known g (fr_getNoValueEncoding vs)" "vars_known vs g \<Longrightarrow> imp_free (fr_getNoValueEncoding vs)"
  "vars_known (br_vars br) g \<Longrightarrow> known g (getNewBranch br)" "vars_known (br_vars br) g \<Longrightarrow> imp_free (getNewBranch br)"
  "vars_known (br_vars br) g \<Longrightarrow> known g (getAnyBranch br)"
  by (auto simp: vars_known_def fr_getNoValueEncoding_def getNewBranch_def getAnyBranch_def list_all_iff)

lemma post_functiontable [post_rules]:
  assumes "reached g0 g" and "\<And>vars. functiontable g r = Some vars \<Longrightarrow> vars_known vars g \<Longrightarrow> Q vars"
  shows "post (functiontable g r) Q"
  using assms(2) gen_okD(8) [OF reachedD(1) [OF assms(1)]] by (auto simp: post_def vars_known_def isvar_def)

lemma post_branchtable [post_rules]:
  assumes "reached g0 g" and "\<And>br. branchtable g r = Some br \<Longrightarrow> vars_known (br_vars br) g \<Longrightarrow> Q br"
  shows "post (branchtable g r) Q"
  using assms(2) branch_vars_known [OF reachedD(1) [OF assms(1)]] by (auto simp: post_def)

lemma post_yieldtable [post_rules]:
  assumes "reached g0 g" and "\<And>c. yieldtable g r = Some c \<Longrightarrow> is_var c \<Longrightarrow> known g c \<Longrightarrow> Q c"
  shows "post (yieldtable g r) Q"
  using assms(2) gen_okD(10) [OF reachedD(1) [OF assms(1)]] by (auto simp: post_def isvar_def)

lemma post_getBranch [post_rules]:
  assumes "vars_known (br_vars br) g" and "\<And>c. getBranch h br v = Some c \<Longrightarrow> imp_free c \<Longrightarrow> known g c \<Longrightarrow> Q c"
  shows "post (getBranch h br v) Q"
proof (rule postI)
  fix c assume c: "getBranch h br v = Some c"
  then obtain w where "c = generateConstraint (br_vars br) w" unfolding getBranch_def bind_eq_Some_conv Let_def by blast
  with generateConstraint_pok [OF assms(1)] c show "Q c" by (simp add: assms(2))
qed

lemma rf_order_pok:
  "rf_order cfg e a b g = Some c \<Longrightarrow> gen_ok g \<Longrightarrow> imp_free c \<and> known g c"
  using getOrderConstraint_pok by (auto simp: rf_order_def split: if_splits)

lemma post_rf_order [post_rules]:
  assumes "reached g0 g" and "\<And>c. rf_order cfg e a b g = Some c \<Longrightarrow> imp_free c \<Longrightarrow> known g c \<Longrightarrow> Q c"
  shows "post (rf_order cfg e a b g) Q"
  using assms rf_order_pok [OF _ reachedD(1) [OF assms(1)]] by (auto simp: post_def)

lemma rf_conflict_ok:
  assumes "gen_ok g" and "vars_known (rf_vars rf) g" and "vars_known (loadaddrvars rf) g"
  shows "post (rf_conflict cfg e load rf i store conflict g) (reached g)"
  unfolding rf_conflict_def Let_def
  using assms(2,3) reached_refl [OF assms(1)]
  by - (rule post_rules | rule post_struct | rule post_prod | rule post_any | assumption | simp)+

lemmas post_rf_conflict [post_rules] = post_step [OF rf_conflict_ok]

lemma rf_store_ok:
  assumes "gen_ok g" and "vars_known (rf_vars rf) g" and "vars_known (loadaddrvars rf) g" and "vars_known (loadvalvars rf) g"
  shows "post (rf_store cfg e load rf mrfSet p g) (reached g)"
  unfolding rf_store_def Let_def
  using assms(2-) reached_refl [OF assms(1)]
  by - (rule post_rules | rule post_struct | rule post_prod | rule post_any | assumption | simp)+

lemmas post_rf_store [post_rules] = post_step [OF rf_store_ok]

lemma rf_genConstraints_ok:
  assumes "gen_ok g" and "vars_known vars g"
  shows "post (rf_genConstraints cfg e load vars g) (reached g)"
  unfolding rf_genConstraints_def Let_def
  using assms(2-) reached_refl [OF assms(1)]
  by - (rule post_rules | rule post_struct | rule post_prod | rule post_any | assumption | simp)+

lemmas post_rf_genConstraints [post_rules] = post_step [OF rf_genConstraints_ok]

lemma processLoadRF_ok:
  assumes "gen_ok g"
  shows "post (processLoadRF cfg e load g) (reached g)"
proof -
  have "gen_ok g \<Longrightarrow> post (new_LoadRF e load g) (\<lambda>(vars, g'). reached g g' \<and> vars_known vars g')"
    unfolding new_LoadRF_def
    by (rule post_bind, rule post_rules, assumption, rule reached_refl, assumption)
      (auto simp: post_def reached_def vars_known_def isvar_def dest: getArrayNewVars_grows grows_trans)
  note new = post_gives [OF this]
  show ?thesis
    unfolding processLoadRF_def Let_def
    using reached_refl [OF assms(1)]
    by - (rule new post_rules | rule post_struct | rule post_prod | rule post_any | assumption | simp)+
qed

lemmas post_processLoadRF [post_rules] = post_step [OF processLoadRF_ok]

lemma processAddresses_ok:
  assumes "gen_ok g"
  shows "post (processAddresses e r g) (reached g)"
  unfolding processAddresses_def Let_def
  using reached_refl [OF assms(1)]
  by - (rule post_rules | rule post_struct | rule post_prod | rule post_any | assumption | simp add: opt_pok_def)+

lemmas post_processAddresses [post_rules] = post_step [OF processAddresses_ok]

lemma processLoad_ok:
  assumes "gen_ok g"
  shows "post (processLoad cfg e r g) (reached g)"
  unfolding processLoad_def Let_def
  using reached_refl [OF assms(1)]
  by - (rule post_rules | rule post_struct | rule post_prod | rule post_any | assumption | simp add: opt_pok_def)+

lemmas post_processLoad [post_rules] = post_step [OF processLoad_ok]

lemma processStore_ok:
  assumes "gen_ok g"
  shows "post (processStore e r g) (reached g)"
  unfolding processStore_def Let_def
  using reached_refl [OF assms(1)]
  by - (rule post_rules | rule post_struct | rule post_prod | rule post_any | assumption | simp add: opt_pok_def)+

lemmas post_processStore [post_rules] = post_step [OF processStore_ok]

lemma cas_compare_ok:
  assumes "gen_ok g" and "known g eq"
  shows "post (cas_compare e r sls eq g) (reached g)"
  unfolding cas_compare_def Let_def
  using reached_refl [OF assms(1)] assms(2)
  by - (rule post_rules | rule post_struct | rule post_prod | rule post_any | assumption | simp add: opt_pok_def)+

lemmas post_cas_compare [post_rules] = post_step [OF cas_compare_ok]

lemma cas_store_ok:
  assumes "gen_ok g" and "known g eq"
  shows "post (cas_store e r sls eq g) (reached g)"
  unfolding cas_store_def Let_def
  using reached_refl [OF assms(1)] assms(2)
  by - (rule post_rules | rule post_struct | rule post_prod | rule post_any | assumption | simp add: opt_pok_def)+

lemmas post_cas_store [post_rules] = post_step [OF cas_store_ok]

lemma processCAS_ok:
  assumes "gen_ok g"
  shows "post (processCAS cfg e r g) (reached g)"
  unfolding processCAS_def Let_def
  using reached_refl [OF assms(1)]
  by - (rule post_rules | rule post_struct | rule post_prod | rule post_any | assumption | simp add: opt_pok_def)+

lemmas post_processCAS [post_rules] = post_step [OF processCAS_ok]

lemma processEXC_ok:
  assumes "gen_ok g"
  shows "post (processEXC cfg e r g) (reached g)"
  unfolding processEXC_def Let_def
  using reached_refl [OF assms(1)]
  by - (rule post_rules | rule post_struct | rule post_prod | rule post_any | assumption | simp add: opt_pok_def)+

lemmas post_processEXC [post_rules] = post_step [OF processEXC_ok]

lemma post_addGoal [post_rules]:
  assumes "reached g0 g" and "known g c" and "imp_free c"
    and "\<And>g'. reached g0 g' \<Longrightarrow> carried g g' \<Longrightarrow> post (f g') Q"
  shows "post (Let (addGoal r c g) f) Q"
  using addGoal_reached [OF assms(1,3,2)] assms(4) by (simp add: Let_def)

lemma add_goal_reached: "reached g0 g \<Longrightarrow> known g c \<Longrightarrow> imp_free c \<Longrightarrow> reached g0 (addGoal r c g)"
  by (rule addGoal_reached)

lemma processAdd_ok:
  assumes "gen_ok g"
  shows "post (processAdd cfg e r g) (reached g)"
  unfolding processAdd_def Let_def [of "getNewVar _"]
  using reached_refl [OF assms(1)]
  by - (rule post_rules | rule post_struct | rule post_prod | rule post_any | assumption | simp add: opt_pok_def)+

lemmas post_processAdd [post_rules] = post_step [OF processAdd_ok]

lemma phi_input_ok:
  assumes "gen_ok g"
  shows "post (phi_input e r input guard g) (reached g)"
  unfolding phi_input_def Let_def
  using reached_refl [OF assms(1)] 
  by - (rule post_rules | rule post_struct | rule post_prod | rule post_any | assumption | simp add: opt_pok_def)+

lemmas post_phi_input [post_rules] = post_step [OF phi_input_ok]

lemma processLoopPhi_ok:
  assumes "gen_ok g"
  shows "post (processLoopPhi e r g) (reached g)"
  unfolding processLoopPhi_def Let_def
  using reached_refl [OF assms(1)] 
  by - (rule post_rules | rule post_struct | rule post_prod | rule post_any | assumption | simp add: opt_pok_def)+

lemmas post_processLoopPhi [post_rules] = post_step [OF processLoopPhi_ok]

lemma processPhi_ok:
  assumes "gen_ok g"
  shows "post (processPhi e r g) (reached g)"
  unfolding processPhi_def Let_def
  using reached_refl [OF assms(1)] 
  by - (rule post_rules | rule post_struct | rule post_prod | rule post_any | assumption | simp add: opt_pok_def)+

lemmas post_processPhi [post_rules] = post_step [OF processPhi_ok]

lemma input_constraints_gives:
  "gen_ok g \<Longrightarrow> post (input_constraints e goal i inputs g)
     (\<lambda>(cs, g'). reached g g' \<and> (\<forall>c \<in> set cs. imp_free c \<and> known g' c))"
proof (induction inputs arbitrary: i g)
  case Nil
  then show ?case by (simp add: post_def reached_refl)
next
  case (Cons input inputs)
  note IH = post_gives [OF Cons.IH]
  show ?case
    using reached_refl [OF Cons.prems] unfolding input_constraints.simps
    by - (rule IH post_rules | rule post_struct | rule post_prod | rule post_any | assumption | simp)+
qed

lemmas post_input_constraints [post_rules] = post_gives [OF input_constraints_gives]

lemma function_behavior_ok:
  assumes "gen_ok g"
  shows "post (function_behavior e r inputs goal g) (reached g)"
  unfolding function_behavior_def Let_def
  using reached_refl [OF assms(1)] 
  by - (rule post_rules | rule post_struct | rule post_prod | rule post_any | assumption | simp add: opt_pok_def)+

lemmas post_function_behavior [post_rules] = post_step [OF function_behavior_ok]

lemma processFunction_ok:
  assumes "gen_ok g"
  shows "post (processFunction e r g) (reached g)"
  unfolding processFunction_def Let_def
  using reached_refl [OF assms(1)]
  by - (rule post_rules | rule post_struct | rule post_prod | rule post_any | assumption |
      rule add_goal_reached | simp)+

lemmas post_processFunction [post_rules] = post_step [OF processFunction_ok]

lemma equal_bit_gives:
  assumes "gen_ok g" and "known g (fst p)" and "known g (snd p)"
  shows "post (equal_bit p g) (\<lambda>(v, g'). reached g g' \<and> is_var v \<and> known g' v)"
  unfolding equal_bit_def Let_def
  using reached_refl [OF assms(1)] assms(2,3)
  by - (rule post_rules | rule post_struct | rule post_prod | rule post_any | assumption | simp)+

lemma equal_bits_gives:
  "gen_ok g \<Longrightarrow> \<forall>p \<in> set ps. known g (fst p) \<and> known g (snd p) \<Longrightarrow>
    post (equal_bits ps g) (\<lambda>(vs, g'). reached g g' \<and> vars_known vs g')"
proof (induction ps arbitrary: g)
  case Nil
  then show ?case by (simp add: post_def reached_refl vars_known_def)
next
  case (Cons p ps)
  note bit = post_gives [OF equal_bit_gives] and IH = post_gives [OF Cons.IH]
  show ?case
    using reached_refl [OF Cons.prems(1)] Cons.prems(2) unfolding equal_bits.simps
    by - (rule bit IH | rule post_struct | rule post_prod | assumption | simp | simp add: vars_known_def)+
qed

lemmas post_equal_bits [post_rules] = post_gives [OF equal_bits_gives]

lemma zip_vars_known:
  "vars_known xs g \<Longrightarrow> vars_known ys g \<Longrightarrow> \<forall>p \<in> set (zip (take n xs) (take n ys)). known g (fst p) \<and> known g (snd p)"
proof -
  assume v: "vars_known xs g" "vars_known ys g"
  have "fst p \<in> set xs \<and> snd p \<in> set ys" if "p \<in> set (zip (take n xs) (take n ys))" for p
    using that by (metis in_set_takeD set_zip_leftD set_zip_rightD prod.collapse)
  then show ?thesis using vars_knownD(1) [OF v(1)] vars_knownD(1) [OF v(2)] by blast
qed

lemma vars_known_all: "vars_known vs g \<Longrightarrow> \<forall>c \<in> set vs. known g c"
  by (rule vars_knownD)

lemma equals_special_ok:
  assumes "gen_ok g" and "known g outputtrue"
  shows "post (equals_special e outputtrue sls in0 in1 g) (reached g)"
  unfolding equals_special_def read_vars_def Let_def
  using reached_refl [OF assms(1)] assms(2)
  by - (rule post_rules | rule post_struct | rule post_prod | rule post_any | assumption | rule zip_vars_known | simp add: vars_known_all)+

lemmas post_equals_special [post_rules] = post_step [OF equals_special_ok]

lemma equals_const_ok:
  assumes "gen_ok g" and "known g outputtrue"
  shows "post (equals_const e outputtrue input v g) (reached g)"
  unfolding equals_const_def Let_def
  using reached_refl [OF assms(1)] assms(2)
  by - (rule post_rules | rule post_struct | rule post_prod | rule post_any | assumption | simp add: opt_pok_def)+

lemmas post_equals_const [post_rules] = post_step [OF equals_const_ok]

lemma equals_pairs_ok:
  assumes "gen_ok g" and "known g outputtrue"
  shows "post (equals_pairs e r outputtrue in0 in1 g) (reached g)"
  unfolding equals_pairs_def Let_def
  using reached_refl [OF assms(1)] assms(2)
  by - (rule post_rules | rule post_struct | rule post_prod | rule post_any | assumption | simp add: opt_pok_def | simp split: if_split)+

lemmas post_equals_pairs [post_rules] = post_step [OF equals_pairs_ok]

lemma processEquals_ok:
  assumes "gen_ok g"
  shows "post (processEquals e r g) (reached g)"
  unfolding processEquals_def Let_def
  using reached_refl [OF assms(1)] 
  by - (rule post_rules | rule post_struct | rule post_prod | rule post_any | assumption | simp add: opt_pok_def)+

lemmas post_processEquals [post_rules] = post_step [OF processEquals_ok]

lemma processFence_ok:
  assumes "gen_ok g"
  shows "post (processFence e cfg r g) (reached g)"
  unfolding processFence_def Let_def
  using reached_refl [OF assms(1)] 
  by - (rule post_rules | rule post_struct | rule post_prod | rule post_any | assumption | simp add: opt_pok_def)+

lemmas post_processFence [post_rules] = post_step [OF processFence_ok]

lemma branch_value_ok:
  assumes "gen_ok g" and "vars_known (br_vars br) g"
  shows "post (branch_value e r br val_record branchval g) (reached g)"
  unfolding branch_value_def Let_def
  using reached_refl [OF assms(1)] assms(2)
  by - (rule post_rules | rule post_struct | rule post_prod | rule post_any | assumption | simp add: opt_pok_def)+

lemmas post_branch_value [post_rules] = post_step [OF branch_value_ok]

lemma addBranchGoal_reached:
  assumes "reached g0 g" and "imp_free c" and "known g c"
  shows "reached g0 (addBranchGoal r c g)" and "carried g (addBranchGoal r c g)"
proof -
  let ?g = "g\<lparr> has_untaken_branches := True \<rparr>"
  have "gen_ok ?g" by (rule gen_ok_cong [OF reachedD(1) [OF assms(1)]]) simp_all
  moreover have "grows g ?g" by (rule grows_simple [where ls = "[]"]) simp_all
  ultimately have "reached g0 ?g" using reached_step [OF assms(1)] by blast
  then show "reached g0 (addBranchGoal r c g)" unfolding addBranchGoal_def
    by (rule addGoal_reached(1)) (use assms(2,3) in simp_all)
  show "carried g (addBranchGoal r c g)" by (simp add: addBranchGoal_def addGoal_def vars_known_def)
qed

lemma processBranch_ok:
  assumes "gen_ok g"
  shows "post (processBranch e r g) (reached g)"
proof -
  have "post (Let (if b then addBranchGoal r c h else h) f) Q"
    if "reached g0 h" and "imp_free c" and "known h c" and "\<And>h'. reached g0 h' \<Longrightarrow> carried h h' \<Longrightarrow> post (f h') Q"
    for b c h g0 f and Q :: "cgen \<Rightarrow> bool"
    using that addBranchGoal_reached [OF that(1-3)] by (simp add: Let_def)
  note goal = this
  show ?thesis
    unfolding processBranch_def using reached_refl [OF assms]
    by - (rule goal post_rules | rule post_struct | rule post_prod | rule post_any | assumption | simp)+
qed

lemmas post_processBranch [post_rules] = post_step [OF processBranch_ok]

lemma post_op:
  "post x Q \<Longrightarrow> post y Q \<Longrightarrow> post z Q \<Longrightarrow> post (case aop of ADD \<Rightarrow> x | CAS \<Rightarrow> y | EXC \<Rightarrow> z) Q"
  by (cases aop) simp_all

lemma processRMW_ok:
  assumes "gen_ok g"
  shows "post (processRMW cfg e r g) (reached g)"
  unfolding processRMW_def Let_def
  using reached_refl [OF assms(1)] 
  by - (rule post_rules | rule post_struct | rule post_op | rule post_prod | rule post_any | assumption | simp add: opt_pok_def)+

lemmas post_processRMW [post_rules] = post_step [OF processRMW_ok]

lemma reached_updates:
  "reached g0 g \<Longrightarrow> reached g0 (yieldlist_update f g)" "reached g0 g \<Longrightarrow> reached g0 (workstack_update f g)"
  "reached g0 g \<Longrightarrow> reached g0 (goalvararray_update f' g)"
proof -
  assume r: "reached g0 g"
  note ok = reachedD(1) [OF r]
  show "reached g0 (yieldlist_update f g)"
    by (rule reached_step [OF r grows_simple [where ls = "[]"] gen_ok_cong [OF ok]]) simp_all
  show "reached g0 (workstack_update f g)"
    by (rule reached_step [OF r grows_simple [where ls = "[]"] gen_ok_cong [OF ok]]) simp_all
  show "reached g0 (goalvararray_update f' g)"
    by (rule reached_step [OF r grows_simple [where ls = "[]"] gen_ok_cong [OF ok]]) simp_all
qed

lemma yieldtable_reached:
  assumes "reached g0 g" and "is_var c" and "known g c"
  shows "reached g0 (g\<lparr> yieldtable := (yieldtable g)(r \<mapsto> c) \<rparr>)"
proof (rule reached_step [OF assms(1) grows_simple [where ls = "[]"]])
  let ?g = "g\<lparr> yieldtable := (yieldtable g)(r \<mapsto> c) \<rparr>"
  note ok = reachedD(1) [OF assms(1)]
  have f: "isvar ?g = isvar g" "pok ?g = pok g" "vars_ok ?g = vars_ok g" "stream_ok ?g = stream_ok g"
    by (simp_all add: vars_ok_def stream_ok_def)
  have "sls_vars_ok ?g = sls_vars_ok g" by (simp add: sls_vars_ok_def f fun_eq_iff)
  then have "tables_ok ?g" using gen_okD(3) [OF ok] assms(2,3) unfolding tables_ok_def f by (auto simp: isvar_def)
  then show "gen_ok ?g" using ok f by (simp add: gen_ok_def)
qed simp_all

lemma novel_branches_known:
  assumes "foldM (\<lambda>b cs. do {
         n \<leftarrow> novel_branch e r prevyield b;
         if n then do { br \<leftarrow> branchtable g b; Some (cs @ [getNewBranch br]) } else Some cs }) bs [] = Some novel"
    and "gen_ok g"
  shows "\<forall>c \<in> set novel. imp_free c \<and> known g c"
  using assms(1)
proof (rule foldM_invariant [where I = "\<lambda>cs. \<forall>c \<in> set cs. imp_free c \<and> known g c"])
  have new: "imp_free (getNewBranch br) \<and> known g (getNewBranch br)" if "branchtable g b = Some br" for b br
    using branch_vars_known [OF assms(2) that] by simp
  fix b cs cs'
  assume "\<forall>c \<in> set cs. imp_free c \<and> known g c" and "do {
         n \<leftarrow> novel_branch e r prevyield b;
         if n then do { br \<leftarrow> branchtable g b; Some (cs @ [getNewBranch br]) } else Some cs } = Some cs'"
  then show "\<forall>c \<in> set cs'. imp_free c \<and> known g c"
    using new by (auto simp: do_simps split: if_splits)
qed simp

lemma computeYieldCond_ok:
  assumes "gen_ok g"
  shows "post (computeYieldCond e r g) (reached g)"
proof (rule postI)
  fix g' assume run: "computeYieldCond e r g = Some g'"
  define h where "h = g\<lparr> yieldlist := yieldlist g @ [r] \<rparr>"
  have rh: "reached g h" using reached_updates(1) [OF reached_refl [OF assms]] by (simp add: h_def)
  note ok = reachedD(1) [OF rh]
  from run obtain prev novel old var h1 h2 where
    nov: "foldM (\<lambda>b cs. do {
         n \<leftarrow> novel_branch e r prev b;
         if n then do { br \<leftarrow> branchtable h b; Some (cs @ [getNewBranch br]) } else Some cs })
       (incompleteexploredbranch h) [] = Some novel"
    and old: "(case prev of None \<Rightarrow> Some [] | Some p \<Rightarrow> map_option (\<lambda>c. [c]) (yieldtable h p)) = Some old"
    and var: "getNewVar h = (var, h1)"
    and add: "addConstraint (IMPLIES var (if old @ novel = [] then FALSE else OR (old @ novel))) h1 = Some h2"
    and g': "g' = h2\<lparr> yieldtable := (yieldtable h2)(r \<mapsto> var) \<rparr>"
    unfolding computeYieldCond_def Let_def h_def [symmetric] do_simps option.inject by blast
  note N = getNewVar_grows [OF ok var]
  have r1: "reached g h1" by (rule reached_step [OF rh N(5,4)])
  have c1: "carried h h1" by (rule grows_carried [OF N(5)])
  have "\<forall>c \<in> set old. known h c" using old gen_okD(10) [OF ok] by (auto simp: isvar_def split: option.splits)
  moreover have "\<forall>c \<in> set novel. known h c" using novel_branches_known [OF nov ok] by blast
  ultimately have "known h1 (if old @ novel = [] then FALSE else OR (old @ novel))" using c1 by auto
  then have k: "known h1 (IMPLIES var (if old @ novel = [] then FALSE else OR (old @ novel)))"
    using N(3) by (simp add: isvar_def)
  note A = addConstraint_grows [OF N(4) add k]
  have "reached g h2" using reached_step [OF r1] A by blast
  moreover have "isvar h2 var" using N(3) grows_carry [of h1 h2] A by (simp add: carry_def)
  ultimately show "reached g g'" unfolding g' by (auto simp: isvar_def intro: yieldtable_reached)
qed

lemmas post_computeYieldCond [post_rules] = post_step [OF computeYieldCond_ok]

lemma processYield_ok:
  assumes "gen_ok g"
  shows "post (processYield cfg e r g) (reached g)"
  unfolding processYield_def Let_def
  using reached_refl [OF assms(1)] 
  by - (rule post_rules | rule post_struct | rule post_prod | rule post_any | assumption | simp add: opt_pok_def)+

lemmas post_processYield [post_rules] = post_step [OF processYield_ok]

lemma processRecord_ok:
  assumes "gen_ok g"
  shows "post (processRecord cfg e r g) (reached g)"
  using processFunction_ok [OF assms] processEquals_ok [OF assms] processLoad_ok [OF assms] processStore_ok [OF assms]
    processFence_ok [OF assms] processRMW_ok [OF assms] processYield_ok [OF assms] processBranch_ok [OF assms]
    reached_refl [OF assms]
  by (cases "event (rec_of e r)") (simp_all add: processRecord_def post_Some)

lemmas post_processRecord [post_rules] = post_step [OF processRecord_ok]

subsection \<open>Traversal of the second pass\<close>

interpretation second_walk: walk cfg e False gen_ok reached for cfg e
  by unfold_locales
    (auto simp: pass_def intro: reached_refl reached_trans reached_updates(2) dest: reachedD postD [OF processRecord_ok])

lemmas traverse_ok = second_walk.traverse_leads

end
