(* ===== verification/GenEncode.thy ===== *)
theory GenEncode
  imports GenPasses
begin

section \<open>From the empty generator to the encoding (constgen.cc)\<close>

text \<open>
  The first pass, the transitivity constraints and the goals: \<open>gen_ok\<close> holds of the state
  that \<open>encode\<close> leaves, with the groups of memory operations a partition and every pair of operations
  ordered in one orientation only.
\<close>

subsection \<open>Transitivity constraints\<close>

lemma genTransOrderConstraint_ok:
  assumes "gen_ok g"
  shows "post (genTransOrderConstraint cfg e a b c g) (reached g)"
  unfolding genTransOrderConstraint_def
  using reached_refl [OF assms]
  by - (rule post_rules | rule post_struct | rule post_prod | rule post_any | assumption | simp)+

lemmas post_genTransOrderConstraint [post_rules] = post_step [OF genTransOrderConstraint_ok]

lemma genTrans3_ok:
  assumes "gen_ok g"
  shows "post (genTrans3 cfg e t1 t2 t3 g) (reached g)"
  unfolding genTrans3_def
  using reached_refl [OF assms]
  by - (rule post_rules | rule post_struct | rule post_prod | rule post_any | assumption | simp)+

lemmas post_genTrans3 [post_rules] = post_step [OF genTrans3_ok]

lemma intra_ok:
  assumes "gen_ok g" and "known g c21"
  shows "post (intra_after cfg e a b c21 c g) (reached g)" and "post (intra_before cfg e a b c21 c g) (reached g)"
  unfolding intra_after_def intra_before_def
  using reached_refl [OF assms(1)] assms(2)
  by - (rule post_rules | rule post_struct | rule post_prod | rule post_any | assumption | simp)+

lemmas post_intra [post_rules] = post_step [OF intra_ok(1)] post_step [OF intra_ok(2)]

lemma genTransPair_ok:
  assumes "gen_ok g"
  shows "post (genTransPair cfg e t1 t2 p g) (reached g)"
  unfolding genTransPair_def Let_def
  using reached_refl [OF assms]
  by - (rule post_rules | rule post_struct | rule post_prod | rule post_any | assumption | simp)+

lemmas post_genTransPair [post_rules] = post_step [OF genTransPair_ok]

lemma genTrans2_ok:
  assumes "gen_ok g"
  shows "post (genTrans2 cfg e t1 t2 g) (reached g)"
  unfolding genTrans2_def
  using reached_refl [OF assms]
  by - (rule post_rules | rule post_struct | rule post_prod | rule post_any | assumption | simp)+

lemmas post_genTrans2 [post_rules] = post_step [OF genTrans2_ok]

lemma genTransOrderConstraints_ok:
  assumes "gen_ok g"
  shows "post (genTransOrderConstraints cfg e g) (reached g)"
  unfolding genTransOrderConstraints_def Let_def
  using reached_refl [OF assms]
  by - (rule post_rules | rule post_struct | rule post_prod | rule post_any | assumption | simp)+

lemma tso_loads_ok: "gen_ok g \<Longrightarrow> post (tso_loads cfg e tvec i ls ll loads g) (reached g)"
proof (induction loads arbitrary: ll g)
  case Nil
  then show ?case by (simp add: post_Some reached_refl)
next
  case (Cons l loads)
  note IH = post_step [OF Cons.IH]
  show ?case
    using reached_refl [OF Cons.prems] unfolding tso_loads.simps Let_def
    by - (rule IH post_rules | rule post_struct | rule post_prod | rule post_any | assumption | simp)+
qed

lemmas post_tso_loads [post_rules] = post_step [OF tso_loads_ok]

lemma tso_stores_ok: "gen_ok g \<Longrightarrow> post (tso_stores cfg e tvec ls stores g) (reached g)"
proof (induction stores arbitrary: ls g)
  case Nil
  then show ?case by (simp add: post_Some reached_refl)
next
  case (Cons l stores)
  note IH = post_step [OF Cons.IH]
  show ?case
    using reached_refl [OF Cons.prems] unfolding tso_stores.simps
    by - (rule IH post_rules | rule post_struct | rule post_prod | rule post_any | assumption | simp)+
qed

lemmas post_tso_stores [post_rules] = post_step [OF tso_stores_ok]

lemma genTSOTransOrderConstraints_ok:
  assumes "gen_ok g"
  shows "post (genTSOTransOrderConstraints cfg e g) (reached g)"
  unfolding genTSOTransOrderConstraints_def
  using reached_refl [OF assms]
  by - (rule post_rules | rule post_struct | rule post_prod | rule post_any | assumption | simp)+

subsection \<open>First pass\<close>

definition sls_fresh :: "slset \<Rightarrow> bool" where
  "sls_fresh s \<longleftrightarrow> addrencodings s = None \<and> valencodings s = None \<and> addrvars s = (\<lambda>_. None) \<and>
     valvars s = (\<lambda>_. None) \<and> valrmwrvars s = (\<lambda>_. None)"

definition rpt_one :: "cgen \<Rightarrow> bool" where
  "rpt_one g \<longleftrightarrow> (\<forall>a b. a \<noteq> b \<longrightarrow> rpt g (a, b) = None \<or> rpt g (b, a) = None)"

text \<open>The operations of a thread, at the index of the thread.\<close>

definition op_at :: "cgen \<Rightarrow> nat \<Rightarrow> nat \<Rightarrow> rid \<Rightarrow> bool" where
  "op_at g t i r \<longleftrightarrow> t < length (threadactions g) \<and> i < length (threadactions g ! t) \<and> threadactions g ! t ! i = r"

definition actions_ok :: "execution \<Rightarrow> cgen \<Rightarrow> bool" where
  "actions_ok e g \<longleftrightarrow> (\<forall>t i r. op_at g t i r \<longrightarrow> ep_tid (r_ep (rec_of e r)) = t)"

definition first_ok :: "execution \<Rightarrow> cgen \<Rightarrow> bool" where
  "first_ok e g \<longleftrightarrow> gen_ok g \<and> sl_inv e g \<and> (\<forall>i s. slheap g i = Some s \<longrightarrow> sls_fresh s) \<and> rpt_one g \<and>
     actions_ok e g"

lemma first_okD: "first_ok e g \<Longrightarrow> gen_ok g" "first_ok e g \<Longrightarrow> sl_inv e g" "first_ok e g \<Longrightarrow> rpt_one g"
  "first_ok e g \<Longrightarrow> slheap g i = Some s \<Longrightarrow> sls_fresh s" "first_ok e g \<Longrightarrow> actions_ok e g"
  by (simp_all add: first_ok_def)

lemma sl_inv_cong:
  "slheap g' = slheap g \<Longrightarrow> next_sls g' = next_sls g \<Longrightarrow> storeloadtable g' = storeloadtable g \<Longrightarrow> sl_inv e g' = sl_inv e g"
  by (simp add: sl_inv_def sl_part_def)

lemma first_ok_cong:
  assumes "first_ok e g" and "gen_ok g'"
    and "slheap g' = slheap g" "next_sls g' = next_sls g" "storeloadtable g' = storeloadtable g" "rpt g' = rpt g"
      "threadactions g' = threadactions g"
  shows "first_ok e g'"
  using assms by (simp add: first_ok_def sl_inv_cong [OF assms(3-5)] rpt_one_def actions_ok_def op_at_def)

lemma first_ok_update:
  assumes "first_ok e g"
  shows "first_ok e (execcondtable_update f1 g)" and "first_ok e (nonlocaltrans_update f2 g)"
    and "first_ok e (incompleteexploredbranch_update f3 g)" and "first_ok e (workstack_update f5 g)"
  by (rule first_ok_cong [OF assms gen_ok_cong [OF first_okD(1) [OF assms]]], simp_all)+

lemma getNewVar_fields: "getNewVar g = (v, g') \<Longrightarrow> \<exists>cv n. g' = g\<lparr> cg_vars := cv, varindex := n \<rparr>"
proof (cases "length (cg_vars g) < varindex g")
  case False
  assume "getNewVar g = (v, g')"
  with False have "g' = g\<lparr> cg_vars := cg_vars g, varindex := varindex g + 1 \<rparr>" by (simp add: getNewVar_def)
  then show ?thesis by blast
qed (auto simp: getNewVar_def Let_def)

lemma getArrayNewVars_fields:
  "getArrayNewVars n g = (vs, g') \<Longrightarrow> \<exists>cv n. g' = g\<lparr> cg_vars := cv, varindex := n \<rparr>"
proof (induction n arbitrary: g vs g')
  case 0
  then have "g' = g\<lparr> cg_vars := cg_vars g, varindex := varindex g \<rparr>" by simp
  then show ?case by blast
next
  case (Suc n)
  obtain v g1 where v: "getNewVar g = (v, g1)" by (cases "getNewVar g")
  obtain ws g2 where w: "getArrayNewVars n g1 = (ws, g2)" by (cases "getArrayNewVars n g1")
  from Suc.prems v w have "g' = g2" by simp
  with Suc.IH [OF w] getNewVar_fields [OF v] show ?case by (auto, blast)
qed

lemma first_ok_vars:
  assumes "first_ok e g"
  shows "getNewVar g = (v, g') \<Longrightarrow> first_ok e g'" and "getArrayNewVars n g = (vs, g') \<Longrightarrow> first_ok e g'"
proof -
  assume v: "getNewVar g = (v, g')"
  then show "first_ok e g'"
    using first_ok_cong [OF assms getNewVar_grows(4) [OF first_okD(1) [OF assms] v]] getNewVar_fields [OF v] by auto
next
  assume v: "getArrayNewVars n g = (vs, g')"
  then have "gen_ok g'" using getArrayNewVars_grows [OF first_okD(1) [OF assms] v] by blast
  then show "first_ok e g'" using first_ok_cong [OF assms] getArrayNewVars_fields [OF v] by auto
qed

text \<open>Filling a table with variables.\<close>

lemma table_update_ok:
  assumes "gen_ok g"
  shows "\<forall>c \<in> set (br_vars br). isvar g c \<Longrightarrow> length (br_vars br) \<le> 32 \<Longrightarrow>
      gen_ok (g\<lparr> branchtable := (branchtable g)(r \<mapsto> br) \<rparr>)"
    and "\<forall>c \<in> set vars. isvar g c \<Longrightarrow> gen_ok (g\<lparr> functiontable := (functiontable g)(r \<mapsto> vars) \<rparr>)"
    and "isvar g c \<Longrightarrow> gen_ok (g\<lparr> equalstable := (equalstable g)(r \<mapsto> c) \<rparr>)"
    and "c = TRUE \<or> c = FALSE \<or> isvar g c \<Longrightarrow> gen_ok (g\<lparr> rpt := (rpt g)(p \<mapsto> c) \<rparr>)"
proof -
  have t: "known (g\<lparr> branchtable := x1 \<rparr>) = known g" "known (g\<lparr> functiontable := x2 \<rparr>) = known g"
    "known (g\<lparr> equalstable := x3 \<rparr>) = known g" "known (g\<lparr> rpt := x4 \<rparr>) = known g" for x1 x2 x3 x4
    by (rule known_cong; simp)+
  have sl: "sls_vars_ok (g\<lparr> branchtable := x1 \<rparr>) = sls_vars_ok g" "sls_vars_ok (g\<lparr> functiontable := x2 \<rparr>) = sls_vars_ok g"
    "sls_vars_ok (g\<lparr> equalstable := x3 \<rparr>) = sls_vars_ok g" "sls_vars_ok (g\<lparr> rpt := x4 \<rparr>) = sls_vars_ok g" for x1 x2 x3 x4
    by (simp_all add: sls_vars_ok_def isvar_def t fun_eq_iff)
  note S = gen_ok_def vars_ok_def stream_ok_def tables_ok_def
  show "\<forall>c \<in> set (br_vars br). isvar g c \<Longrightarrow> length (br_vars br) \<le> 32 \<Longrightarrow>
      gen_ok (g\<lparr> branchtable := (branchtable g)(r \<mapsto> br) \<rparr>)"
    using assms unfolding S by (simp add: sl isvar_def pok_def t)
  show "\<forall>c \<in> set vars. isvar g c \<Longrightarrow> gen_ok (g\<lparr> functiontable := (functiontable g)(r \<mapsto> vars) \<rparr>)"
    using assms unfolding S by (simp add: sl isvar_def pok_def t)
  show "isvar g c \<Longrightarrow> gen_ok (g\<lparr> equalstable := (equalstable g)(r \<mapsto> c) \<rparr>)"
    using assms unfolding S by (simp add: sl isvar_def pok_def t)
  show "c = TRUE \<or> c = FALSE \<or> isvar g c \<Longrightarrow> gen_ok (g\<lparr> rpt := (rpt g)(p \<mapsto> c) \<rparr>)"
    using assms unfolding S by (simp add: sl isvar_def pok_def t)
qed

text \<open>Each operation of the first pass.\<close>

lemma recordExecCond_ok: "recordExecCond e r g = Some g' \<Longrightarrow> first_ok e g \<Longrightarrow> first_ok e g'"
  using first_ok_update(1) by (auto simp: recordExecCond_def do_simps split: if_splits)

lemma insertBranch_ok:
  assumes "first_ok e g"
  shows "first_ok e (insertBranch cfg e r g)"
proof -
  define h where "h = (if numValues (hp e) r < rec_len (rec_of e r) \<and> noexecyields cfg
               then g\<lparr> incompleteexploredbranch := oset_add r (incompleteexploredbranch g) \<rparr> else g)"
  define always where "always = isAlwaysExecuted e r h"
  define n where "n = numbits (of_nat (branch_codes (numValues (hp e) r) (rec_len (rec_of e r)) always) - 1)"
  obtain bits h1 where b: "getArrayNewVars n h = (bits, h1)" by (cases "getArrayNewVars n h")
  have h: "first_ok e h" using assms first_ok_update(3) by (simp add: h_def)
  note B = getArrayNewVars_grows [OF first_okD(1) [OF h] b]
  let ?br = "new_BranchRecord (hp e) r bits always"
  have "insertBranch cfg e r g = h1\<lparr> branchtable := (branchtable h1)(r \<mapsto> ?br) \<rparr>"
    using b by (simp add: insertBranch_def Let_def h_def always_def n_def)
  moreover have "gen_ok (h1\<lparr> branchtable := (branchtable h1)(r \<mapsto> ?br) \<rparr>)"
    by (rule table_update_ok(1)) (use B numbits_le in \<open>auto simp: new_BranchRecord_def n_def\<close>)
  ultimately show ?thesis using first_ok_cong [OF first_ok_vars(2) [OF h b]] by simp
qed

lemma insertFunction_ok:
  assumes "insertFunction e r g = Some g'" and "first_ok e g"
  shows "first_ok e g'"
proof -
  from assms(1) obtain n vars h where n: "getArrayNewVars n g = (vars, h)"
    "g' = h\<lparr> functiontable := (functiontable h)(r \<mapsto> vars) \<rparr>"
    by (auto simp: insertFunction_def do_simps Let_def split: prod.splits)
  have "gen_ok g'" unfolding n(2)
    by (rule table_update_ok(2)) (use getArrayNewVars_grows [OF first_okD(1) [OF assms(2)] n(1)] in auto)
  then show ?thesis using first_ok_cong [OF first_ok_vars(2) [OF assms(2) n(1)]] n(2) by simp
qed

lemma insertEquals_ok:
  assumes "first_ok e g"
  shows "first_ok e (insertEquals r g)"
proof -
  obtain v h where v: "getNewVar g = (v, h)" by (cases "getNewVar g")
  have "gen_ok (h\<lparr> equalstable := (equalstable h)(r \<mapsto> v) \<rparr>)"
    by (rule table_update_ok(3)) (use getNewVar_grows [OF first_okD(1) [OF assms] v] in auto)
  then show ?thesis using first_ok_cong [OF first_ok_vars(1) [OF assms v]] v by (simp add: insertEquals_def)
qed

lemma createOrderConstraint_ok:
  assumes "createOrderConstraint e a b g = Some g'" and "first_ok e g"
  shows "first_ok e g'"
proof (cases "rpt_get a b g = None")
  case False
  with assms show ?thesis by (simp add: createOrderConstraint_def)
next
  case True
  with assms(1) obtain isbefore after where
    "(case (if isbefore then (TRUE, g) else if after then (FALSE, g) else getNewVar g) of
       (c, h) \<Rightarrow> Some (h\<lparr> rpt := (rpt h)((a, b) \<mapsto> c) \<rparr>)) = Some g'"
    unfolding createOrderConstraint_def Let_def if_P [OF True] bind_eq_Some_conv by blast
  moreover obtain c h where ch: "(if isbefore then (TRUE, g) else if after then (FALSE, g) else getNewVar g) = (c, h)"
    by (rule prod.exhaust)
  ultimately have g': "g' = h\<lparr> rpt := (rpt h)((a, b) \<mapsto> c) \<rparr>" by simp
  have c: "(c = TRUE \<or> c = FALSE) \<and> h = g \<or> getNewVar g = (c, h)" using ch by (auto split: if_splits)
  have h: "first_ok e h" using c assms(2) first_ok_vars(1) [OF assms(2), of c h] by auto
  have ok: "c = TRUE \<or> c = FALSE \<or> isvar h c" using c getNewVar_grows(3) [OF first_okD(1) [OF assms(2)], of c h] by auto
  have rpt: "rpt h = rpt g" using c getNewVar_fields [of g c h] by auto
  have none: "rpt g (a, b) = None" "rpt g (b, a) = None" using True by (auto simp: rpt_get_def split: option.splits)
  have "gen_ok g'" unfolding g' by (rule table_update_ok(4) [OF first_okD(1) [OF h] ok])
  moreover have "rpt_one g'" using first_okD(3) [OF assms(2)] none by (auto simp: rpt_one_def g' rpt)
  moreover have "sl_inv e g' = sl_inv e h" by (rule sl_inv_cong) (simp_all add: g')
  moreover have "actions_ok e g' = actions_ok e h" by (simp add: actions_ok_def op_at_def g')
  ultimately show ?thesis using h by (simp add: first_ok_def g')
qed

lemma foldM_first_ok:
  assumes "foldM f xs g = Some g'" and "first_ok e g"
    and "\<And>x h h'. f x h = Some h' \<Longrightarrow> first_ok e h \<Longrightarrow> first_ok e h'"
  shows "first_ok e g'"
  by (rule foldM_invariant [where I = "first_ok e", OF assms(1,2)]) (use assms(3) in blast)

lemma tso_actions_ok: "tso_actions e load older g = Some g' \<Longrightarrow> first_ok e g \<Longrightarrow> first_ok e g'"
  by (induction e load older g rule: tso_actions.induct)
    (auto simp: do_simps dest: createOrderConstraint_ok split: if_splits)

lemma actions_ok_add:
  assumes "actions_ok e g" and "t = ep_tid (r_ep (rec_of e r))"
  shows "actions_ok e (g\<lparr> threadactions := (resize_to (t + 1) [] (threadactions g))
      [t := resize_to (t + 1) [] (threadactions g) ! t @ [r]] \<rparr>)"
proof -
  let ?as = "resize_to (t + 1) [] (threadactions g)"
  have old: "ep_tid (r_ep (rec_of e q)) = u" if "u < length ?as" "q \<in> set (?as ! u)" for u q
  proof (cases "u < length (threadactions g)")
    case True
    then have "q \<in> set (threadactions g ! u)" using that(2) by simp
    with True assms(1) show ?thesis unfolding actions_ok_def op_at_def by (metis in_set_conv_nth)
  next
    case False
    then show ?thesis using that by (simp add: nth_resize_to_new)
  qed
  have new: "ep_tid (r_ep (rec_of e q)) = u" if u: "u < length ?as" "q \<in> set (?as[t := ?as ! t @ [r]] ! u)" for u q
  proof (cases "u = t")
    case True
    then have "q \<in> set (?as ! t) \<or> q = r" using u by auto
    then show ?thesis using old [of t q] u(1) True assms(2) by blast
  next
    case False
    then show ?thesis using old u by simp
  qed
  show ?thesis unfolding actions_ok_def op_at_def
  proof (intro allI impI, elim conjE)
    fix u i q
    let ?g = "g\<lparr> threadactions := ?as[t := ?as ! t @ [r]] \<rparr>"
    assume "u < length (threadactions ?g)" "i < length (threadactions ?g ! u)" "threadactions ?g ! u ! i = q"
    then show "ep_tid (r_ep (rec_of e q)) = u" by (intro new) (auto simp del: length_resize_to)
  qed
qed

lemma insertAction_ok:
  assumes "insertAction cfg e r g = Some g'" and "first_ok e g"
  shows "first_ok e g'"
proof -
  define t where "t = ep_tid (r_ep (rec_of e r))"
  define g0 where "g0 = g\<lparr> threadactions := (resize_to (t + 1) [] (threadactions g))
      [t := resize_to (t + 1) [] (threadactions g) ! t @ [r]] \<rparr>"
  from assms(1) obtain rs h where h: "foldM (\<lambda>oldrec. createOrderConstraint e oldrec r) rs g0 = Some h"
    "(if TSO cfg then insertTSOAction e r h else Some h) = Some g'"
    unfolding insertAction_def Let_def bind_eq_Some_conv t_def [symmetric] g0_def [symmetric] by blast
  have "gen_ok g0" by (rule gen_ok_cong [OF first_okD(1) [OF assms(2)]]) (simp_all add: g0_def)
  moreover have "actions_ok e g0" unfolding g0_def by (rule actions_ok_add [OF first_okD(5) [OF assms(2)] t_def])
  moreover have "sl_inv e g0 = sl_inv e g" by (rule sl_inv_cong) (simp_all add: g0_def)
  ultimately have "first_ok e g0" using assms(2) by (simp add: first_ok_def rpt_one_def) (simp add: g0_def)
  then have "first_ok e h" by (rule foldM_first_ok [OF h(1)]) (rule createOrderConstraint_ok)
  then show ?thesis using h(2) tso_actions_ok
    by (auto simp: insertTSOAction_def do_simps split: if_splits)
qed

text \<open>Grouping changes the sets and their table only, and makes no variables for them.\<close>

definition regrouped :: "cgen \<Rightarrow> cgen \<Rightarrow> bool" where
  "regrouped g g' \<longleftrightarrow> (\<exists>h t n. g' = g\<lparr> slheap := h, storeloadtable := t, next_sls := n \<rparr>) \<and>
     ((\<forall>i s. slheap g i = Some s \<longrightarrow> sls_fresh s) \<longrightarrow> (\<forall>i s. slheap g' i = Some s \<longrightarrow> sls_fresh s))"

lemma regrouped_trans: "regrouped g1 g2 \<Longrightarrow> regrouped g2 g3 \<Longrightarrow> regrouped g1 g3"
proof -
  assume a: "regrouped g1 g2" "regrouped g2 g3"
  from a obtain h t n where g2: "g2 = g1\<lparr> slheap := h, storeloadtable := t, next_sls := n \<rparr>" unfolding regrouped_def by blast
  from a obtain h' t' n' where "g3 = g2\<lparr> slheap := h', storeloadtable := t', next_sls := n' \<rparr>" unfolding regrouped_def by blast
  with g2 have "g3 = g1\<lparr> slheap := h', storeloadtable := t', next_sls := n' \<rparr>" by simp
  then show ?thesis using a unfolding regrouped_def by blast
qed

lemma regrouped_refl: "regrouped g g"
proof -
  have "g = g\<lparr> slheap := slheap g, storeloadtable := storeloadtable g, next_sls := next_sls g \<rparr>" by simp
  then show ?thesis unfolding regrouped_def by blast
qed

lemma regroupedI:
  assumes "g' = g\<lparr> slheap := h, storeloadtable := t, next_sls := n \<rparr>"
    and "\<And>i s. \<forall>i s. slheap g i = Some s \<longrightarrow> sls_fresh s \<Longrightarrow> h i = Some s \<Longrightarrow> sls_fresh s"
  shows "regrouped g g'"
  unfolding regrouped_def using assms by auto

lemma sls_add_fresh: "sls_add e r s = Some s' \<Longrightarrow> sls_fresh s \<Longrightarrow> sls_fresh s'"
  by (auto simp: sls_add_def do_simps sls_fresh_def)

lemma move_member_regrouped: "move_member e to r g = Some g' \<Longrightarrow> regrouped g g'"
proof -
  assume "move_member e to r g = Some g'"
  then obtain t t' addrs where t: "slheap g to = Some t" "sls_add e r t = Some t'"
    "g' = (put_sls to t' g)\<lparr> storeloadtable := fold (\<lambda>a m. m(a \<mapsto> to)) addrs (storeloadtable g) \<rparr>"
    by (auto simp: move_member_def do_simps)
  then have g': "g' = g\<lparr> slheap := (slheap g)(to \<mapsto> t'), storeloadtable := fold (\<lambda>a m. m(a \<mapsto> to)) addrs (storeloadtable g),
      next_sls := next_sls g \<rparr>" by (simp add: put_sls_def)
  show ?thesis by (rule regroupedI [OF g']) (use t sls_add_fresh in \<open>auto split: if_splits\<close>)
qed

lemma foldM_regrouped: "foldM f xs g = Some g' \<Longrightarrow> (\<And>x h h'. f x h = Some h' \<Longrightarrow> regrouped h h') \<Longrightarrow> regrouped g g'"
  by (rule foldM_invariant [where I = "regrouped g"]) (auto intro: regrouped_refl regrouped_trans)

lemma mergeSets_regrouped:
  assumes "mergeSets e to from g = Some g'"
  shows "regrouped g g'"
proof -
  from assms obtain f :: slset and h where h: "foldM (move_member e to) (storeloadset f) g = Some h"
    "g' = h\<lparr> slheap := (slheap h)(from := None) \<rparr>" unfolding mergeSets_def bind_eq_Some_conv by auto
  have "regrouped g h" by (rule foldM_regrouped [OF h(1)]) (rule move_member_regrouped)
  moreover have g': "g' = h\<lparr> slheap := (slheap h)(from := None), storeloadtable := storeloadtable h, next_sls := next_sls h \<rparr>"
    by (simp add: h(2))
  have "regrouped h g'" by (rule regroupedI [OF g']) (auto split: if_splits)
  ultimately show ?thesis by (rule regrouped_trans)
qed

lemma group_address_regrouped: "group_address e i a g = Some g' \<Longrightarrow> regrouped g g'"
proof (cases "storeloadtable g a")
  case None
  assume "group_address e i a g = Some g'"
  with None have "g' = g\<lparr> slheap := slheap g, storeloadtable := (storeloadtable g)(a \<mapsto> i), next_sls := next_sls g \<rparr>"
    by (auto simp: group_address_def)
  then show ?thesis by (rule regroupedI) blast
next
  case (Some j)
  assume "group_address e i a g = Some g'"
  with Some show ?thesis
    by (auto simp: group_address_def intro: mergeSets_regrouped regrouped_refl split: if_splits)
qed

lemma groupMemoryOperations_regrouped:
  assumes "groupMemoryOperations e r g = Some g'"
  shows "regrouped g g'"
proof -
  from assms obtain a as where as: "getSet VC_ADDRINDEX (rec_of e r) = Some (a # as)"
    by (auto simp: groupMemoryOperations_def bind_eq_Some_conv elim: list_case_Some)
  define ig where "ig = (case storeloadtable g a of
              Some i \<Rightarrow> (i, g)
            | None \<Rightarrow> (next_sls g, (put_sls (next_sls g) new_StoreLoadSet g)\<lparr>
                        storeloadtable := (storeloadtable g)(a \<mapsto> next_sls g), next_sls := next_sls g + 1 \<rparr>))"
  obtain i g1 where ig: "ig = (i, g1)" by (cases ig)
  from assms as ig obtain s s' where s: "slheap g1 i = Some s" "sls_add e r s = Some s'"
    and rest: "foldM (group_address e i) as (put_sls i s' g1) = Some g'"
    by (auto simp: groupMemoryOperations_def ig_def [symmetric] Let_def do_simps)
  have "regrouped g g1"
  proof (cases "storeloadtable g a")
    case None
    with ig have "g1 = g\<lparr> slheap := (slheap g)(next_sls g \<mapsto> new_StoreLoadSet),
        storeloadtable := (storeloadtable g)(a \<mapsto> next_sls g), next_sls := next_sls g + 1 \<rparr>"
      by (auto simp: ig_def put_sls_def)
    then show ?thesis by (rule regroupedI) (auto simp: sls_fresh_def new_StoreLoadSet_def split: if_splits)
  next
    case Some
    with ig show ?thesis by (simp add: ig_def regrouped_refl)
  qed
  moreover have "regrouped g1 (put_sls i s' g1)"
  proof -
    have "put_sls i s' g1 = g1\<lparr> slheap := (slheap g1)(i \<mapsto> s'), storeloadtable := storeloadtable g1, next_sls := next_sls g1 \<rparr>"
      by (simp add: put_sls_def)
    then show ?thesis by (rule regroupedI) (use s sls_add_fresh in \<open>auto split: if_splits\<close>)
  qed
  moreover have "regrouped (put_sls i s' g1) g'" by (rule foldM_regrouped [OF rest]) (rule group_address_regrouped)
  ultimately show ?thesis by (blast intro: regrouped_trans)
qed

lemma groupMemoryOperations_ok:
  assumes "groupMemoryOperations e r g = Some g'" and "first_ok e g"
  shows "first_ok e g'"
proof -
  note R = groupMemoryOperations_regrouped [OF assms(1), unfolded regrouped_def]
  from R obtain h t n where g': "g' = g\<lparr> slheap := h, storeloadtable := t, next_sls := n \<rparr>" by blast
  have fresh: "\<forall>i s. slheap g' i = Some s \<longrightarrow> sls_fresh s" using R assms(2) by (simp add: first_ok_def)
  have k: "known g' = known g" by (rule known_cong) (simp add: g')
  have "sls_vars_ok g' s" if "sls_fresh s" for s using that by (simp add: sls_vars_ok_def sls_fresh_def)
  then have "tables_ok g'" using first_okD(1) [OF assms(2)] fresh
    by (simp add: gen_ok_def tables_ok_def isvar_def pok_def k) (simp add: g')
  moreover have "stream_of g' = stream_of g" by (simp add: g')
  moreover have "vars_ok g'" using first_okD(1) [OF assms(2)] by (simp add: gen_ok_def vars_ok_def g' del: upt_Suc)
  ultimately have "gen_ok g'" using first_okD(1) [OF assms(2)]
    by (simp add: gen_ok_def stream_ok_def) (simp add: g')
  moreover have "sl_inv e g'" by (rule group_partition(1) [OF assms(1) first_okD(2) [OF assms(2)]])
  moreover have "rpt_one g'" using first_okD(3) [OF assms(2)] by (simp add: rpt_one_def g')
  moreover have "actions_ok e g'" using first_okD(5) [OF assms(2)] by (simp add: actions_ok_def op_at_def g')
  ultimately show ?thesis using fresh by (simp add: first_ok_def)
qed

lemma visitRecord_ok:
  assumes "visitRecord cfg e r g = Some g'" and "first_ok e g"
  shows "first_ok e g'"
proof -
  have "first_ok e (insertNonLocal q h)" "first_ok e (insertLabel e q h)" if "first_ok e h" for q h
    using that first_ok_update(2) by (simp_all add: insertNonLocal_def insertLabel_def)
  then show ?thesis
    using assms recordExecCond_ok insertBranch_ok insertFunction_ok insertEquals_ok insertAction_ok groupMemoryOperations_ok
    by (auto simp: visitRecord_def Let_def do_simps split: if_splits)
qed

interpretation first_walk: walk cfg e True "first_ok e" "\<lambda>g. first_ok e" for cfg e
  by unfold_locales (auto simp: pass_def intro: visitRecord_ok first_ok_update(4))

lemmas traverse_first = first_walk.traverse_leads

text \<open>The generator after \<open>reset\<close>, or newly made, with a new solver.\<close>

definition start_ok :: "cgen \<Rightarrow> bool" where
  "start_ok g \<longleftrightarrow> cg_vars g = map VAR [1..<Suc (length (cg_vars g))] \<and> g = (cg_reset g)\<lparr> next_sls := next_sls g \<rparr>"

lemma start_ok_new: "start_ok new_ConstGen"
  by (simp add: start_ok_def new_ConstGen_def cg_reset_def resetstoreloadtable_def)

lemma start_ok_reset: "vars_ok g \<Longrightarrow> start_ok (cg_reset g)"
  by (simp add: start_ok_def cg_reset_def resetstoreloadtable_def vars_ok_def del: upt_Suc)

lemma start_first_ok:
  assumes "start_ok g"
  shows "first_ok e (g\<lparr> solver := Some new_IncrementalSolver \<rparr>)"
proof -
  have v: "cg_vars g = map VAR [1..<Suc (length (cg_vars g))]" and g: "g = (cg_reset g)\<lparr> next_sls := next_sls g \<rparr>"
    using assms by (simp_all only: start_ok_def)
  have f: "varindex g = 1" "rpt g = (\<lambda>_. None)" "slheap g = (\<lambda>_. None)" "branchtable g = (\<lambda>_. None)"
    "functiontable g = (\<lambda>_. None)" "equalstable g = (\<lambda>_. None)" "yieldtable g = (\<lambda>_. None)" "goalset g = []"
    "storeloadtable g = (\<lambda>_. None)" "threadactions g = []"
    by (subst g, simp add: cg_reset_def resetstoreloadtable_def)+
  let ?g = "g\<lparr> solver := Some new_IncrementalSolver \<rparr>"
  have "vars_ok ?g" using v by (simp add: vars_ok_def f del: upt_Suc)
  moreover have "stream_ok ?g" by (simp add: stream_ok_def stream_of_def stream_def) (simp add: new_IncrementalSolver_def)
  moreover have "tables_ok ?g" by (simp add: tables_ok_def f)
  moreover have "sl_inv e ?g" by (simp add: sl_inv_def sl_part_def f)
  moreover have "rpt_one ?g" by (simp add: rpt_one_def f)
  moreover have "actions_ok e ?g" by (simp add: actions_ok_def op_at_def f)
  ultimately show ?thesis by (simp add: first_ok_def gen_ok_def f)
qed

subsection \<open>Goals and encode\<close>

lemma translate_goals_gives:
  "gen_ok g \<Longrightarrow> \<forall>c \<in> set goals. known g c \<Longrightarrow> post (translate_goals goals g) (\<lambda>(vs, g'). reached g g' \<and> vars_known vs g')"
proof (induction goals arbitrary: g)
  case Nil
  then show ?case by (simp add: post_def reached_refl vars_known_def)
next
  case (Cons goal goals)
  note IH = post_gives [OF Cons.IH]
  have k: "vars_known (v # vs) h" if "is_var v" "known h v" "vars_known vs h" for v vs h
    using that by (simp add: vars_known_def)
  show ?case
    using reached_refl [OF Cons.prems(1)] Cons.prems(2) unfolding translate_goals.simps Let_def
    by - (rule IH post_rules | rule post_struct | rule post_prod | assumption | simp add: k)+
qed

lemma translateGoals_ok:
  assumes "gen_ok g"
  shows "post (translateGoals g) (reached g)"
proof (rule postI)
  fix g' assume "translateGoals g = Some g'"
  then obtain vs h where h: "translate_goals (goalset g) g = Some (vs, h)"
    "addConstraint (OR vs) (h\<lparr> goalvararray := Some (map Some vs) \<rparr>) = Some g'"
    by (auto simp: translateGoals_def do_simps)
  have "\<forall>c \<in> set (goalset g). known g c" using gen_okD(11) [OF assms] pok_known by blast
  from postD [OF translate_goals_gives [OF assms this] h(1)] have H: "reached g h" "vars_known vs h" by auto
  have r: "reached g (h\<lparr> goalvararray := Some (map Some vs) \<rparr>)"
    using reached_updates(3) [OF H(1), of "\<lambda>_. Some (map Some vs)"] by simp
  have "known (h\<lparr> goalvararray := Some (map Some vs) \<rparr>) (OR vs)" using vars_knownD(1) [OF H(2)] by simp
  from addConstraint_grows [OF reachedD(1) [OF r] h(2) this] reached_step [OF r] show "reached g g'" by blast
qed

end
