(* ===== verification/GenMeaning.thy ===== *)
theory GenMeaning
  imports GenEncode
begin

section \<open>What the generator's clauses say\<close>

text \<open>
  The clauses written for a constraint restrict the models by exactly its meaning; clauses written
  earlier go on to hold. With this: the goals of the encoding, and the order of the memory operations.
\<close>

subsection \<open>Models\<close>

lemma models_stream: "models \<sigma> g \<longleftrightarrow> solver g \<noteq> None \<and> stream_sat \<sigma> False (stream_of g)"
  by (auto simp: models_def stream_of_def)

lemma emits_models:
  assumes "emits g g' C" and "closed (stream_of g)"
  shows "models \<sigma> g' \<longleftrightarrow> models \<sigma> g \<and> C \<sigma>"
proof -
  from assms(1) obtain ls where ls: "solver g = None \<longleftrightarrow> solver g' = None" "stream_of g' = stream_of g @ ls"
    "\<forall>\<sigma>. stream_sat \<sigma> False ls \<longleftrightarrow> C \<sigma>"
    unfolding emits_def by (elim exE conjE) (rule that, assumption+)
  then show ?thesis using stream_sat_append [OF assms(2)] by (auto simp: models_stream)
qed

lemma reached_models:
  assumes "reached g g'" and "models \<sigma> g'" and "gen_ok g"
  shows "models \<sigma> g"
proof -
  from assms(1) obtain ls where "stream_of g' = stream_of g @ ls" "solver g = None \<longleftrightarrow> solver g' = None"
    by (auto simp: reached_def grows_def fixed_def)
  then show ?thesis using assms(2) stream_sat_append [OF gen_okD(4) [OF assms(3)]] by (auto simp: models_stream)
qed

lemma addClauses_emits:
  assumes "foldM addClause cs g = Some g'" and "\<forall>c \<in> set cs. c = TRUE \<or> c = FALSE \<or> is_clause c"
    and "\<forall>c \<in> set cs. 0 \<notin> cvars c"
  shows "emits g g' (\<lambda>\<sigma>. evals \<sigma> cs)"
  using assms
proof (induction cs arbitrary: g)
  case Nil
  then show ?case using emits_refl by simp
next
  case (Cons c cs)
  from Cons.prems(1) obtain h where h: "addClause c g = Some h" "foldM addClause cs h = Some g'"
    unfolding foldM.simps bind_eq_Some_conv by blast
  have "c \<noteq> FALSE" using h(1) by (auto simp: addClause_def)
  then have 1: "emits g h (\<lambda>\<sigma>. eval \<sigma> c)" using addClause_emits [OF h(1)] Cons.prems by simp
  have "emits h g' (\<lambda>\<sigma>. evals \<sigma> cs)" using Cons.IH [OF h(2)] Cons.prems by simp
  from emits_trans [OF 1 this] show ?case by simp
qed

lemma addConstraint_emits:
  assumes "addConstraint c g = Some g'" and "good c"
  shows "emits g g' (\<lambda>\<sigma>. eval \<sigma> c)"
proof -
  have g: "neg_ok c" "and_clean c" "0 \<notin> cvars c" using assms(2) by (auto simp: good_def)
  have "\<forall>d \<in> set (simplify c). d = TRUE \<or> d = FALSE \<or> is_clause d" using simplify_clauses by blast
  moreover have "\<forall>d \<in> set (simplify c). 0 \<notin> cvars d" using cvars_simplify g(3) by blast
  ultimately have "emits g g' (\<lambda>\<sigma>. evals \<sigma> (simplify c))"
    by (rule addClauses_emits [OF assms(1) [unfolded addConstraint_def]])
  then show ?thesis by (simp add: simplify_eval [OF g(1,2)])
qed

text \<open>The generator gives the solver exactly the constraint.\<close>

lemma addConstraint_models:
  assumes "addConstraint c g = Some g'" and "good c" and "gen_ok g"
  shows "models \<sigma> g' \<longleftrightarrow> models \<sigma> g \<and> eval \<sigma> c"
  by (rule emits_models [OF addConstraint_emits [OF assms(1,2)] gen_okD(4) [OF assms(3)]])

lemma known_0: "known g c \<Longrightarrow> 0 \<notin> cvars c"
  by (auto simp: known_def)

lemma good_OR_pok: "\<forall>c \<in> set cs. imp_free c \<and> known g c \<Longrightarrow> good (OR cs)"
  using known_0 by (intro good_OR) (auto simp: plain_ok_def)

lemma good_IMPLIES_pok:
  "imp_free l \<Longrightarrow> known g l \<Longrightarrow> imp_free r \<Longrightarrow> known g r \<Longrightarrow> good (IMPLIES l r)"
  using known_0 by (intro good_IMPLIES) (auto simp: plain_ok_def)

lemma models_cong:
  assumes "gen_ok g" and "\<And>v. v < varindex g \<Longrightarrow> \<sigma> v = \<tau> v"
  shows "models \<sigma> g = models \<tau> g"
proof -
  have "stream_sat \<sigma> b ls = stream_sat \<tau> b ls" if "\<forall>l \<in> set ls. nat \<bar>l\<bar> < varindex g" for b ls
    using that
  proof (induction ls arbitrary: b)
    case (Cons l ls)
    then have "\<sigma> (nat \<bar>l\<bar>) = \<tau> (nat \<bar>l\<bar>)" using assms(2) by simp
    with Cons show ?case by (cases "l > 0") auto
  qed simp
  then show ?thesis using gen_okD(2) [OF assms(1)] by (simp add: models_stream stream_ok_def)
qed

subsection \<open>Steps of loops\<close>

text \<open>What one step of a loop wrote holds of the models of the result.\<close>

lemma foldM_step:
  assumes "foldM f xs g = Some g'" and "gen_ok g" and "x \<in> set xs"
    and step: "\<And>x h. x \<in> set xs \<Longrightarrow> reached g h \<Longrightarrow> post (f x h) (reached h)"
  obtains h h' where "reached g h" "f x h = Some h'" "reached h' g'"
proof -
  obtain ys zs where xs: "xs = ys @ x # zs" using assms(3) by (meson split_list)
  from assms(1) obtain h h' where h: "foldM f ys g = Some h" "f x h = Some h'" "foldM f zs h' = Some g'"
    unfolding xs foldM_append foldM.simps bind_eq_Some_conv by blast
  have run: "reached k k'" if "foldM f us k = Some k'" "reached g k" "set us \<subseteq> set xs" for us k k'
    using that(1)
  proof (rule foldM_invariant [where I = "reached k"])
    show "reached k k" by (rule reached_refl [OF reachedD(1) [OF that(2)]])
    fix u m m' assume u: "u \<in> set us" "reached k m" "f u m = Some m'"
    then have "reached g m" using reached_trans [OF that(2)] by blast
    from postD [OF step [OF _ this] u(3)] u(1) that(3) have "reached m m'" by blast
    with u(2) show "reached k m'" by (rule reached_trans)
  qed
  have r: "reached g h" by (rule run [OF h(1) reached_refl [OF assms(2)]]) (auto simp: xs)
  have "reached h h'" using postD [OF step [OF assms(3) r] h(2)] .
  with r have "reached g h'" by (rule reached_trans)
  from run [OF h(3) this] have "reached h' g'" by (auto simp: xs)
  with r h(2) show thesis by (rule that)
qed

lemma reached_fixed: "reached g g' \<Longrightarrow> fixed g' = fixed g"
  by (simp add: reached_def grows_def)

lemma reached_rpt: "reached g g' \<Longrightarrow> rpt g' = rpt g" "reached g g' \<Longrightarrow> threadactions g' = threadactions g"
  by (auto dest: reached_fixed simp: fixed_def)

lemma order_fixed: "rpt h = rpt g \<Longrightarrow> getOrderConstraint cfg e a b h = getOrderConstraint cfg e a b g"
  by (simp only: getOrderConstraint_def rpt_get_def)

subsection \<open>The order of two operations\<close>

text \<open>The order that an assignment gives: \<open>a\<close> before \<open>b\<close>.\<close>

definition prec :: "config \<Rightarrow> execution \<Rightarrow> cgen \<Rightarrow> (nat \<Rightarrow> bool) \<Rightarrow> rid \<Rightarrow> rid \<Rightarrow> bool" where
  "prec cfg e g \<sigma> a b \<longleftrightarrow> (case getOrderConstraint cfg e a b g of None \<Rightarrow> False | Some c \<Rightarrow> eval \<sigma> c)"

lemma prec_fixed:
  assumes "rpt h = rpt g"
  shows "prec cfg e h = prec cfg e g"
  unfolding prec_def order_fixed [OF assms] ..

lemma precI: "getOrderConstraint cfg e a b g = Some c \<Longrightarrow> eval \<sigma> c \<longleftrightarrow> prec cfg e g \<sigma> a b"
  by (simp add: prec_def)

lemma rpt_get_flip:
  assumes "rpt_one g" and "a \<noteq> b"
  shows "rpt_get b a g = rpt_get a b g"
  using assms by (auto simp: rpt_one_def rpt_get_def split: option.splits) (metis option.distinct(1))+

lemma order_flip:
  assumes "rpt_one g" and "\<not> same_thread e a b"
  shows "getOrderConstraint cfg e b a g = map_option negate (getOrderConstraint cfg e a b g)"
proof -
  have ne: "a \<noteq> b" using assms(2) by (auto simp: same_thread_def)
  have nt: "\<not> same_thread e b a" using assms(2) by (simp add: same_thread_def)
  have "epr1 = a \<or> epr1 = b" if "rpt_get a b g = Some (epr1, c)" for epr1 c
    using that by (auto simp: rpt_get_def split: option.splits)
  then show ?thesis using ne
    by (cases "rpt_get a b g")
      (auto simp: getOrderConstraint_def assms(2) nt rpt_get_flip [OF assms(1) ne] negate_negate split: prod.splits)
qed

text \<open>Of two ordered operations of different threads exactly one comes first.\<close>

lemma prec_flip:
  assumes "rpt_one g" and "gen_ok g" and "\<not> same_thread e a b" and "getOrderConstraint cfg e a b g \<noteq> None"
  shows "prec cfg e g \<sigma> b a \<longleftrightarrow> \<not> prec cfg e g \<sigma> a b"
proof -
  obtain c where c: "getOrderConstraint cfg e a b g = Some c" using assms(4) by blast
  then have "imp_free c" using getOrderConstraint_pok [OF c assms(2)] by blast
  then show ?thesis by (simp add: prec_def order_flip [OF assms(1,3)] c eval_negate)
qed

lemma prec_same_thread:
  "\<not> TSO cfg \<Longrightarrow> same_thread e a b \<Longrightarrow> prec cfg e g \<sigma> a b \<longleftrightarrow> program_order e a b = Some True"
  by (cases "program_order e a b") (auto simp: prec_def getOrderConstraint_def)

end
