(* ===== verification/GenOrder.thy ===== *)
theory GenOrder
  imports GenMeaning
begin

section \<open>The order of memory operations is transitive (constgen.cc)\<close>

text \<open>
  \<open>genTransOrderConstraints\<close> writes clauses for triples of operations. Without TSO, every model of
  them orders the operations of all threads transitively.
\<close>

lemma addConstraint_OR:
  assumes "addConstraint (OR cs) g = Some g'" and "gen_ok g" and "models \<sigma> g'"
    and "\<forall>c \<in> set cs. imp_free c \<and> known g c"
  shows "\<exists>c \<in> set cs. eval \<sigma> c"
  using addConstraint_models [OF assms(1) good_OR_pok [OF assms(4)] assms(2)] assms(3) by simp

lemma addConstraint_OR_order:
  assumes "addConstraint (OR cs) g = Some g'" and "gen_ok g" and "models \<sigma> g'"
    and "\<forall>c \<in> set cs. \<exists>(a, b) \<in> P. getOrderConstraint cfg e a b g = Some c"
  shows "\<exists>(a, b) \<in> P. prec cfg e g \<sigma> a b"
proof -
  have "\<forall>c \<in> set cs. imp_free c \<and> known g c" using assms(4) getOrderConstraint_pok [OF _ assms(2)] by fast
  from addConstraint_OR [OF assms(1-3) this] obtain c where c: "c \<in> set cs" "eval \<sigma> c" by blast
  from assms(4) c(1) obtain a b where "(a, b) \<in> P" "getOrderConstraint cfg e a b g = Some c" by blast
  with precI [OF this(2)] c(2) show ?thesis by blast
qed

text \<open>A triple of operations of three threads.\<close>

lemma genTransOrderConstraint_holds:
  assumes "genTransOrderConstraint cfg e a b c g = Some g'" and "gen_ok g" and "models \<sigma> g'"
  shows "(prec cfg e g \<sigma> b a \<or> prec cfg e g \<sigma> c b \<or> prec cfg e g \<sigma> a c) \<and>
    (prec cfg e g \<sigma> a b \<or> prec cfg e g \<sigma> b c \<or> prec cfg e g \<sigma> c a)"
proof -
  from assms(1) obtain c21 c32 c13 h c12 c23 c31 where o: "getOrderConstraint cfg e b a g = Some c21"
    "getOrderConstraint cfg e c b g = Some c32" "getOrderConstraint cfg e a c g = Some c13"
    and h: "addConstraint (OR [c21, c32, c13]) g = Some h"
    and o': "getOrderConstraint cfg e a b h = Some c12" "getOrderConstraint cfg e b c h = Some c23"
    "getOrderConstraint cfg e c a h = Some c31" and g': "addConstraint (OR [c12, c23, c31]) h = Some g'"
    unfolding genTransOrderConstraint_def bind_eq_Some_conv by blast
  have "known g (OR [c21, c32, c13])" using o getOrderConstraint_pok [OF _ assms(2)] by auto
  then have r: "reached g h" and ok: "gen_ok h" using addConstraint_grows [OF assms(2) h] by (auto simp: reached_def)
  note fx = reached_rpt(1) [OF r]
  have "known h (OR [c12, c23, c31])" using o' getOrderConstraint_pok [OF _ ok] by auto
  then have m: "models \<sigma> h" using addConstraint_grows [OF ok g'] reached_models [OF _ assms(3) ok] by (auto simp: reached_def)
  have "\<exists>(x, y) \<in> {(b, a), (c, b), (a, c)}. prec cfg e g \<sigma> x y"
    by (rule addConstraint_OR_order [OF h assms(2) m]) (use o in auto)
  moreover have "\<exists>(x, y) \<in> {(a, b), (b, c), (c, a)}. prec cfg e h \<sigma> x y"
    by (rule addConstraint_OR_order [OF g' ok assms(3)]) (use o' in auto)
  ultimately show ?thesis by (simp add: prec_fixed [OF fx])
qed

lemma genTrans3_holds:
  assumes "genTrans3 cfg e v1 v2 v3 g = Some g'" and "gen_ok g" and "models \<sigma> g'"
    and "a \<in> set v1" and "b \<in> set v2" and "c \<in> set v3"
  shows "(prec cfg e g \<sigma> b a \<or> prec cfg e g \<sigma> c b \<or> prec cfg e g \<sigma> a c) \<and>
    (prec cfg e g \<sigma> a b \<or> prec cfg e g \<sigma> b c \<or> prec cfg e g \<sigma> c a)"
proof -
  have s3: "post (genTransOrderConstraint cfg e x y z h) (reached h)" if "gen_ok h" for x y z h
    by (rule genTransOrderConstraint_ok [OF that])
  have s2: "post (foldM (genTransOrderConstraint cfg e x y) zs h) (reached h)" if "gen_ok h" for x y zs h
    by (rule post_foldM [OF reached_refl [OF that]]) (use s3 reachedD(1) post_step [OF s3] in blast)+
  have s1: "post (foldM (\<lambda>y. foldM (genTransOrderConstraint cfg e x y) v3) ys h) (reached h)" if "gen_ok h" for x ys h
    by (rule post_foldM [OF reached_refl [OF that]]) (use s2 post_step [OF s2] in blast)+
  obtain h1 h1' where 1: "reached g h1" "foldM (\<lambda>y. foldM (genTransOrderConstraint cfg e a y) v3) v2 h1 = Some h1'"
    "reached h1' g'"
    by (rule foldM_step [OF assms(1) [unfolded genTrans3_def] assms(2,4)]) (use s1 reachedD(1) in blast)+
  note ok1 = reachedD(1) [OF 1(1)]
  obtain h2 h2' where 2: "reached h1 h2" "foldM (genTransOrderConstraint cfg e a b) v3 h2 = Some h2'" "reached h2' h1'"
    by (rule foldM_step [OF 1(2) ok1 assms(5)]) (use s2 reachedD(1) in blast)+
  note ok2 = reachedD(1) [OF 2(1)]
  obtain h3 h3' where 3: "reached h2 h3" "genTransOrderConstraint cfg e a b c h3 = Some h3'" "reached h3' h2'"
    by (rule foldM_step [OF 2(2) ok2 assms(6)]) (use s3 reachedD(1) in blast)+
  have "reached h3' g'" using 1(3) 2(3) 3(3) by (blast intro: reached_trans)
  moreover have "gen_ok h3'" using postD [OF s3 [OF reachedD(1) [OF 3(1)]] 3(2)] by (rule reachedD)
  ultimately have "models \<sigma> h3'" using reached_models assms(3) by blast
  moreover have "rpt h3 = rpt g" using reached_rpt(1) 1(1) 2(1) 3(1) by metis
  ultimately show ?thesis
    using genTransOrderConstraint_holds [OF 3(2) reachedD(1) [OF 3(1)]] prec_fixed by metis
qed

text \<open>A pair of operations of two threads with an operation before the one or after the other.\<close>

lemma intra_holds:
  assumes "\<not> TSO cfg" and "gen_ok g" and "models \<sigma> g'" and o: "getOrderConstraint cfg e b a g = Some c21"
  shows "intra_after cfg e a b c21 c g = Some g' \<Longrightarrow> prec cfg e g \<sigma> b a \<or> prec cfg e g \<sigma> a c"
    and "intra_before cfg e a b c21 c g = Some g' \<Longrightarrow> prec cfg e g \<sigma> b a \<or> prec cfg e g \<sigma> c b"
proof -
  assume "intra_after cfg e a b c21 c g = Some g'"
  with assms(1) obtain c13 where c: "getOrderConstraint cfg e a c g = Some c13" "addConstraint (OR [c21, c13]) g = Some g'"
    by (auto simp: intra_after_def bind_eq_Some_conv)
  have "\<exists>(x, y) \<in> {(b, a), (a, c)}. prec cfg e g \<sigma> x y"
    by (rule addConstraint_OR_order [OF c(2) assms(2,3)]) (use o c(1) in auto)
  then show "prec cfg e g \<sigma> b a \<or> prec cfg e g \<sigma> a c" by auto
next
  assume "intra_before cfg e a b c21 c g = Some g'"
  with assms(1) obtain c02 where c: "getOrderConstraint cfg e c b g = Some c02" "addConstraint (OR [c21, c02]) g = Some g'"
    by (auto simp: intra_before_def bind_eq_Some_conv)
  have "\<exists>(x, y) \<in> {(b, a), (c, b)}. prec cfg e g \<sigma> x y"
    by (rule addConstraint_OR_order [OF c(2) assms(2,3)]) (use o c(1) in auto)
  then show "prec cfg e g \<sigma> b a \<or> prec cfg e g \<sigma> c b" by auto
qed

lemma genTransPair_holds:
  assumes run: "genTransPair cfg e v1 v2 (i, j) g = Some g'" and "\<not> TSO cfg" and ok: "gen_ok g" and m: "models \<sigma> g'"
  shows "getOrderConstraint cfg e (v2 ! j) (v1 ! i) g \<noteq> None"
    and "j < k \<Longrightarrow> k < length v2 \<Longrightarrow> prec cfg e g \<sigma> (v2 ! j) (v1 ! i) \<or> prec cfg e g \<sigma> (v1 ! i) (v2 ! k)"
    and "k < i \<Longrightarrow> i < length v1 \<Longrightarrow> prec cfg e g \<sigma> (v2 ! j) (v1 ! i) \<or> prec cfg e g \<sigma> (v1 ! k) (v2 ! j)"
proof -
  let ?a = "v1 ! i" and ?b = "v2 ! j"
  from run obtain c21 where c21: "getOrderConstraint cfg e ?b ?a g = Some c21"
    and rest: "(if isTrue c21 then Some g else do {
       g \<leftarrow> foldM (intra_after cfg e ?a ?b c21) (drop (j + 1) v2) g;
       foldM (intra_before cfg e ?a ?b c21) (take i v1) g }) = Some g'"
    by (auto simp: genTransPair_def bind_eq_Some_conv Let_def)
  show "getOrderConstraint cfg e ?b ?a g \<noteq> None" using c21 by simp
  have T: "prec cfg e g \<sigma> ?b ?a" if "isTrue c21" using isTrue_eval [OF that] precI [OF c21] by blast
  have k21: "known h c21" if "reached g h" for h
    using getOrderConstraint_pok [OF c21 ok] reached_known [OF that] by blast
  have sa: "post (intra_after cfg e ?a ?b c21 x h) (reached h)" "post (intra_before cfg e ?a ?b c21 x h) (reached h)"
    if "reached g h" for x h using intra_ok [OF reachedD(1) [OF that] k21 [OF that]] by auto
  have c21h: "getOrderConstraint cfg e ?b ?a h = Some c21" if "reached g h" for h
    using c21 order_fixed [OF reached_rpt(1) [OF that]] by simp
  have R: "\<exists>h. foldM (intra_after cfg e ?a ?b c21) (drop (j + 1) v2) g = Some h \<and>
      foldM (intra_before cfg e ?a ?b c21) (take i v1) h = Some g' \<and> reached g h \<and> reached h g'" if f: "\<not> isTrue c21"
  proof -
    from f rest obtain h where h: "foldM (intra_after cfg e ?a ?b c21) (drop (j + 1) v2) g = Some h"
      "foldM (intra_before cfg e ?a ?b c21) (take i v1) h = Some g'" by (auto simp: bind_eq_Some_conv)
    have rh: "reached g h"
    proof (rule foldM_invariant [where I = "reached g", OF h(1) reached_refl [OF ok]])
      fix x k k' assume "reached g k" "intra_after cfg e ?a ?b c21 x k = Some k'"
      with postD [OF sa(1)] show "reached g k'" by (blast intro: reached_trans)
    qed
    have rg: "reached h g'"
    proof (rule foldM_invariant [where I = "reached h", OF h(2) reached_refl [OF reachedD(1) [OF rh]]])
      fix x k k' assume k: "reached h k" "intra_before cfg e ?a ?b c21 x k = Some k'"
      have "reached g k" using rh k(1) by (rule reached_trans)
      from postD [OF sa(2) [OF this] k(2)] k(1) show "reached h k'" by (blast intro: reached_trans)
    qed
    show ?thesis using h rh rg by blast
  qed
  show "prec cfg e g \<sigma> ?b ?a \<or> prec cfg e g \<sigma> ?a (v2 ! k)" if k: "j < k" "k < length v2"
  proof (cases "isTrue c21")
    case False
    from R [OF this] obtain h where h: "foldM (intra_after cfg e ?a ?b c21) (drop (j + 1) v2) g = Some h" "reached h g'"
      by blast
    have x: "v2 ! k \<in> set (drop (j + 1) v2)" using k by (auto simp: in_set_conv_nth intro!: exI [of _ "k - (j + 1)"])
    obtain l l' where l: "reached g l" "intra_after cfg e ?a ?b c21 (v2 ! k) l = Some l'" "reached l' h"
      by (rule foldM_step [OF h(1) ok x]) (use sa in blast)+
    have okl': "gen_ok l'" using postD [OF sa(1) [OF l(1)] l(2)] by (rule reachedD)
    have "models \<sigma> l'" by (rule reached_models [OF reached_trans [OF l(3) h(2)] m okl'])
    from intra_holds(1) [OF assms(2) reachedD(1) [OF l(1)] this c21h [OF l(1)] l(2)]
    show ?thesis by (simp add: prec_fixed [OF reached_rpt(1) [OF l(1)]])
  qed (use T in blast)
  show "prec cfg e g \<sigma> ?b ?a \<or> prec cfg e g \<sigma> (v1 ! k) ?b" if k: "k < i" "i < length v1"
  proof (cases "isTrue c21")
    case False
    from R [OF this] obtain h where h: "foldM (intra_before cfg e ?a ?b c21) (take i v1) h = Some g'" "reached g h"
      by blast
    have x: "v1 ! k \<in> set (take i v1)" using k by (auto simp: in_set_conv_nth intro!: exI [of _ k])
    have sb: "post (intra_before cfg e ?a ?b c21 x l) (reached l)" if "reached h l" for x l
      by (rule sa(2) [OF reached_trans [OF h(2) that]])
    obtain l l' where l: "reached h l" "intra_before cfg e ?a ?b c21 (v1 ! k) l = Some l'" "reached l' g'"
      by (rule foldM_step [OF h(1) reachedD(1) [OF h(2)] x]) (use sb in blast)+
    have gl: "reached g l" by (rule reached_trans [OF h(2) l(1)])
    have okl': "gen_ok l'" using postD [OF sb [OF l(1)] l(2)] by (rule reachedD)
    have "models \<sigma> l'" by (rule reached_models [OF l(3) m okl'])
    from intra_holds(2) [OF assms(2) reachedD(1) [OF gl] this c21h [OF gl] l(2)]
    show ?thesis by (simp add: prec_fixed [OF reached_rpt(1) [OF gl]])
  qed (use T in blast)
qed

lemma genTrans2_holds:
  assumes run: "genTrans2 cfg e v1 v2 g = Some g'" and "\<not> TSO cfg" and ok: "gen_ok g" and m: "models \<sigma> g'"
    and ij: "i < length v1" "j < length v2"
  shows "getOrderConstraint cfg e (v2 ! j) (v1 ! i) g \<noteq> None"
    and "j < k \<Longrightarrow> k < length v2 \<Longrightarrow> prec cfg e g \<sigma> (v2 ! j) (v1 ! i) \<or> prec cfg e g \<sigma> (v1 ! i) (v2 ! k)"
    and "k < i \<Longrightarrow> prec cfg e g \<sigma> (v2 ! j) (v1 ! i) \<or> prec cfg e g \<sigma> (v1 ! k) (v2 ! j)"
proof -
  have x: "(i, j) \<in> set (List.product [0..<length v1] [0..<length v2])" using ij by simp
  obtain h h' where h: "reached g h" "genTransPair cfg e v1 v2 (i, j) h = Some h'" "reached h' g'"
    by (rule foldM_step [OF run [unfolded genTrans2_def] ok x]) (use genTransPair_ok reachedD(1) in blast)+
  have "gen_ok h'" using postD [OF genTransPair_ok [OF reachedD(1) [OF h(1)]] h(2)] by (rule reachedD)
  then have "models \<sigma> h'" by (rule reached_models [OF h(3) m])
  note P = genTransPair_holds [OF h(2) assms(2) reachedD(1) [OF h(1)] this]
  note fx = reached_rpt(1) [OF h(1)]
  show "getOrderConstraint cfg e (v2 ! j) (v1 ! i) g \<noteq> None" using P(1) by (simp add: order_fixed [OF fx])
  show "j < k \<Longrightarrow> k < length v2 \<Longrightarrow> prec cfg e g \<sigma> (v2 ! j) (v1 ! i) \<or> prec cfg e g \<sigma> (v1 ! i) (v2 ! k)"
    using P(2) by (simp add: prec_fixed [OF fx])
  show "k < i \<Longrightarrow> prec cfg e g \<sigma> (v2 ! j) (v1 ! i) \<or> prec cfg e g \<sigma> (v1 ! k) (v2 ! j)"
    using P(3) ij by (simp add: prec_fixed [OF fx])
qed

subsection \<open>All operations\<close>

text \<open>The operations of a thread, in the order the first pass met them.\<close>

definition in_program_order :: "execution \<Rightarrow> cgen \<Rightarrow> bool" where
  "in_program_order e g \<longleftrightarrow> (\<forall>t i j a b. op_at g t i a \<longrightarrow> op_at g t j b \<longrightarrow> program_order e b a = Some True \<longrightarrow> j < i)"

lemma trans_pairs:
  assumes run: "genTransOrderConstraints cfg e g = Some g'" and "\<not> TSO cfg" and ok: "gen_ok g" and m: "models \<sigma> g'"
    and ab: "op_at g s i a" "op_at g t j b" and ne: "s \<noteq> t"
  shows "getOrderConstraint cfg e b a g \<noteq> None"
    and "op_at g t k c \<Longrightarrow> j < k \<Longrightarrow> prec cfg e g \<sigma> b a \<or> prec cfg e g \<sigma> a c"
    and "op_at g s k c \<Longrightarrow> k < i \<Longrightarrow> prec cfg e g \<sigma> b a \<or> prec cfg e g \<sigma> c b"
    and "op_at g u k c \<Longrightarrow> u < min s t \<Longrightarrow>
      (prec cfg e g \<sigma> b a \<or> prec cfg e g \<sigma> c b \<or> prec cfg e g \<sigma> a c) \<and>
      (prec cfg e g \<sigma> a b \<or> prec cfg e g \<sigma> b c \<or> prec cfg e g \<sigma> c a)"
proof -
  define ta where "ta = threadactions g"
  define body where "body = (\<lambda>t1 t2 g. do {
         let t1vec = threadactions g ! t1;
         let t2vec = threadactions g ! t2;
         g \<leftarrow> genTrans2 cfg e t1vec t2vec g;
         g \<leftarrow> genTrans2 cfg e t2vec t1vec g;
         foldM (\<lambda>t3 g. genTrans3 cfg e t1vec t2vec (threadactions g ! t3) g) [0..<t2] g })"
  have run': "foldM (\<lambda>t1. foldM (body t1) [0..<t1]) [0..<length ta] g = Some g'"
    using run by (simp add: genTransOrderConstraints_def body_def ta_def)
  have s1: "post (body x y h) (reached h)" if "gen_ok h" for x y h
    unfolding body_def Let_def using reached_refl [OF that]
    by - (rule post_rules | rule post_struct | rule post_prod | rule post_any | assumption | simp)+
  have s2: "post (foldM (body x) ys h) (reached h)" if "gen_ok h" for x ys h
    by (rule post_foldM [OF reached_refl [OF that]]) (use s1 post_step [OF s1] in blast)+
  define t1 where "t1 = max s t"
  define t2 where "t2 = min s t"
  have lt: "t2 < t1" "t1 < length ta" using ab ne by (auto simp: t1_def t2_def op_at_def ta_def)
  obtain h1 h1' where 1: "reached g h1" "foldM (body t1) [0..<t1] h1 = Some h1'" "reached h1' g'"
    by (rule foldM_step [OF run' ok, of t1]) (use lt s2 reachedD(1) in auto)
  obtain h2 h2' where 2: "reached h1 h2" "body t1 t2 h2 = Some h2'" "reached h2' h1'"
    by (rule foldM_step [OF 1(2) reachedD(1) [OF 1(1)], of t2]) (use lt s1 reachedD(1) in auto)
  have r2: "reached g h2" using 1(1) 2(1) by (rule reached_trans)
  note ok2 = reachedD(1) [OF r2]
  have ta2: "threadactions h2 = ta" using reached_rpt(2) [OF r2] by (simp add: ta_def)
  from 2(2) obtain h3 h4 where h3: "genTrans2 cfg e (ta ! t1) (ta ! t2) h2 = Some h3"
    and h4: "genTrans2 cfg e (ta ! t2) (ta ! t1) h3 = Some h4"
    and h5: "foldM (\<lambda>t3 g. genTrans3 cfg e (ta ! t1) (ta ! t2) (threadactions g ! t3) g) [0..<t2] h4 = Some h2'"
    by (auto simp: body_def bind_eq_Some_conv Let_def ta2)
  have r23: "reached h2 h3" by (rule postD [OF genTrans2_ok [OF ok2] h3])
  note ok3 = reachedD(1) [OF r23]
  have r34: "reached h3 h4" by (rule postD [OF genTrans2_ok [OF ok3] h4])
  note ok4 = reachedD(1) [OF r34]
  have st: "post (genTrans3 cfg e (ta ! t1) (ta ! t2) (threadactions k ! x) k) (reached k)" if "gen_ok k" for x k
    by (rule genTrans3_ok [OF that])
  have r45: "reached h4 h2'"
  proof (rule foldM_invariant [where I = "reached h4", OF h5 reached_refl [OF ok4]])
    fix x k k' assume k: "reached h4 k" "genTrans3 cfg e (ta ! t1) (ta ! t2) (threadactions k ! x) k = Some k'"
    from postD [OF st [OF reachedD(1) [OF k(1)]] k(2)] k(1) show "reached h4 k'" by (blast intro: reached_trans)
  qed
  have r2g: "reached h2' g'" using 2(3) 1(3) by (rule reached_trans)
  have m5: "models \<sigma> h2'" by (rule reached_models [OF r2g m reachedD(1) [OF r45]])
  have m4: "models \<sigma> h4" by (rule reached_models [OF r45 m5 ok4])
  have m3: "models \<sigma> h3" by (rule reached_models [OF r34 m4 ok3])
  have f2: "rpt h2 = rpt g" by (rule reached_rpt [OF r2])
  have f3: "rpt h3 = rpt g" using reached_rpt(1) [OF r23] f2 by simp
  have f4: "rpt h4 = rpt g" using reached_rpt(1) [OF r34] f3 by simp
  note P = genTrans2_holds [OF h3 assms(2) ok2 m3, unfolded order_fixed [OF f2] prec_fixed [OF f2]]
  note Q = genTrans2_holds [OF h4 assms(2) ok3 m4, unfolded order_fixed [OF f3] prec_fixed [OF f3]]
  have st_cases: "s = t1 \<and> t = t2 \<or> s = t2 \<and> t = t1" by (auto simp: t1_def t2_def)
  have at: "i < length (ta ! s)" "ta ! s ! i = a" "j < length (ta ! t)" "ta ! t ! j = b"
    using ab by (auto simp: op_at_def ta_def)
  show "getOrderConstraint cfg e b a g \<noteq> None" using st_cases P(1) [of i j] Q(1) [of i j] at by auto
  show "prec cfg e g \<sigma> b a \<or> prec cfg e g \<sigma> a c" if "op_at g t k c" "j < k"
    using st_cases P(2) [of i j k] Q(2) [of i j k] at that by (auto simp: op_at_def ta_def)
  show "prec cfg e g \<sigma> b a \<or> prec cfg e g \<sigma> c b" if "op_at g s k c" "k < i"
    using st_cases P(3) [of i j k] Q(3) [of i j k] at that by (auto simp: op_at_def ta_def)
  assume c: "op_at g u k c" "u < min s t"
  then have c': "c \<in> set (ta ! u)" "u \<in> set [0..<t2]" by (auto simp: op_at_def ta_def t2_def)
  obtain k1 k1' where k: "reached h4 k1" "genTrans3 cfg e (ta ! t1) (ta ! t2) (threadactions k1 ! u) k1 = Some k1'"
    "reached k1' h2'"
    by (rule foldM_step [OF h5 ok4 c'(2)]) (use st reachedD(1) in blast)+
  have tk: "threadactions k1 = ta"
    using reached_rpt(2) [OF k(1)] reached_rpt(2) [OF r34] reached_rpt(2) [OF r23] ta2 by simp
  have "gen_ok k1'" using postD [OF st [OF reachedD(1) [OF k(1)]] k(2)] by (rule reachedD)
  then have mk: "models \<sigma> k1'" by (rule reached_models [OF k(3) m5])
  have fk: "rpt k1 = rpt g" using reached_rpt(1) [OF k(1)] f4 by simp
  have "(prec cfg e g \<sigma> y x \<or> prec cfg e g \<sigma> c y \<or> prec cfg e g \<sigma> x c) \<and>
      (prec cfg e g \<sigma> x y \<or> prec cfg e g \<sigma> y c \<or> prec cfg e g \<sigma> c x)" if "x \<in> set (ta ! t1)" "y \<in> set (ta ! t2)" for x y
    using genTrans3_holds [OF k(2) reachedD(1) [OF k(1)] mk that(1,2)] c'(1) by (simp add: tk prec_fixed [OF fk])
  moreover have "a \<in> set (ta ! s)" "b \<in> set (ta ! t)" using at by auto
  ultimately show "(prec cfg e g \<sigma> b a \<or> prec cfg e g \<sigma> c b \<or> prec cfg e g \<sigma> a c) \<and>
      (prec cfg e g \<sigma> a b \<or> prec cfg e g \<sigma> b c \<or> prec cfg e g \<sigma> c a)"
    using st_cases by blast
qed

lemma program_order_trans:
  "program_order e a b = Some True \<Longrightarrow> program_order e b c = Some True \<Longrightarrow> program_order e a c = Some True"
  by (auto simp: program_order_def ep_compare_def intro: compare_trans)

text \<open>
  In a model of the clauses, an operation before another one that is before a third one is before
  the third one, unless the first and the third lie on different sides of a branch of one thread.
\<close>

theorem prec_transitive:
  assumes run: "genTransOrderConstraints cfg e g = Some g'" and nt: "\<not> TSO cfg" and ok: "gen_ok g" and m: "models \<sigma> g'"
    and one: "rpt_one g" and acts: "actions_ok e g" and po: "in_program_order e g"
    and a: "op_at g s i a" and b: "op_at g t j b" and c: "op_at g u k c"
    and comp: "s = u \<Longrightarrow> program_order e a c = Some True \<or> program_order e c a = Some True"
    and ab: "prec cfg e g \<sigma> a b" and bc: "prec cfg e g \<sigma> b c"
  shows "prec cfg e g \<sigma> a c"
proof -
  have tid: "ep_tid (r_ep (rec_of e x)) = p" if "op_at g p q x" for p q x using acts that unfolding actions_ok_def by blast
  have same: "same_thread e x y \<longleftrightarrow> p = p'" if "op_at g p q x" "op_at g p' q' y" for p q x p' q' y
    using tid [OF that(1)] tid [OF that(2)] by (simp add: same_thread_def)
  have flip: "prec cfg e g \<sigma> y x \<longleftrightarrow> \<not> prec cfg e g \<sigma> x y" if "op_at g p q x" "op_at g p' q' y" "p \<noteq> p'" for p q x p' q' y
  proof (rule prec_flip [OF one ok])
    show "\<not> same_thread e x y" using same [OF that(1,2)] that(3) by simp
    show "getOrderConstraint cfg e x y g \<noteq> None"
      using trans_pairs(1) [OF run nt ok m that(2,1)] that(3) by blast
  qed
  have thr: "prec cfg e g \<sigma> x y \<longleftrightarrow> program_order e x y = Some True" if "op_at g p q x" "op_at g p q' y" for p q x q' y
    using prec_same_thread [OF nt] same [OF that] by simp
  have idx: "q < q'" if "op_at g p q x" "op_at g p q' y" "program_order e x y = Some True" for p q x q' y
    using po that unfolding in_program_order_def by blast
  note T = trans_pairs [OF run nt ok m]
  consider "s = t" "t = u" | "s = t" "t \<noteq> u" | "s \<noteq> t" "t = u" | "s \<noteq> t" "s = u" | "s \<noteq> t" "t \<noteq> u" "s \<noteq> u" by blast
  then show ?thesis
  proof cases
    case 1
    then show ?thesis using ab bc thr program_order_trans a b c by metis
  next
    case 2
    from ab thr [OF a b [folded 2(1)]] have "program_order e a b = Some True" by simp
    from idx [OF a b [folded 2(1)] this] have "i < j" .
    from T(3) [OF b c 2(2) _ this] a 2(1) bc flip [OF b c 2(2)] show ?thesis by blast
  next
    case 3
    from bc thr [OF b c [folded 3(2)]] have "program_order e b c = Some True" by simp
    from idx [OF b c [folded 3(2)] this] have "j < k" .
    from T(2) [OF a b 3(1) _ this] c 3(2) ab flip [OF a b 3(1)] show ?thesis by blast
  next
    case 4
    have "\<not> program_order e c a = Some True"
    proof
      assume "program_order e c a = Some True"
      from idx [OF c a [unfolded 4(2)] this] have "k < i" .
      from T(3) [OF a b 4(1) _ this] c 4(2) have "prec cfg e g \<sigma> b a \<or> prec cfg e g \<sigma> c b" by blast
      moreover have "t \<noteq> u" using 4 by simp
      ultimately show False using ab bc flip [OF a b 4(1)] flip [OF b c] by blast
    qed
    with comp [OF 4(2)] thr [OF a c [folded 4(2)]] show ?thesis by blast
  next
    case 5
    note f = flip [OF a b 5(1)] flip [OF b c 5(2)] flip [OF a c 5(3)]
    have "u < min s t \<or> s < min t u \<or> t < min s u" using 5 by arith
    then consider "u < min s t" | "s < min t u" | "t < min s u" by blast
    then show ?thesis
    proof cases
      case 1
      from T(4) [OF a b 5(1) c 1] f ab bc show ?thesis by blast
    next
      case 2
      from T(4) [OF b c 5(2) a 2] f ab bc show ?thesis by blast
    next
      case 3
      from T(4) [OF a c 5(3) b 3] f ab bc show ?thesis by blast
    qed
  qed
qed

end
