(* ===== verification/GenResults.thy ===== *)
theory GenResults
  imports GenOrder
begin

section \<open>The encoding as a whole (constgen.cc)\<close>

text \<open>
  What a model of all clauses of \<open>encode\<close> is: it orders the operations of different threads totally
  and transitively, and it reaches a goal; and every model of the behaviours that reaches a goal is
  part of a model of all clauses, so the encoding loses no behaviour.
\<close>

subsection \<open>The steps of the encoding\<close>

lemma encode_behaviors_steps:
  assumes "encode_behaviors cfg e g = Some h" and "start_ok g"
  obtains h1 h2 where "first_ok e h1" "genTransOrderConstraints cfg e h1 = Some h2" "reached h1 h2" "reached h2 h"
proof -
  from assms(1) obtain h1 h2 h3 where h: "traverse cfg e True (g\<lparr> solver := Some new_IncrementalSolver \<rparr>) = Some h1"
    "genTransOrderConstraints cfg e h1 = Some h2"
    "(if TSO cfg then genTSOTransOrderConstraints cfg e h2 else Some h2) = Some h3"
    "traverse cfg e False h3 = Some h"
    unfolding encode_behaviors_def bind_eq_Some_conv by blast
  have f: "first_ok e h1" by (rule traverse_first [OF h(1) start_first_ok [OF assms(2)]])
  have r2: "reached h1 h2" by (rule postD [OF genTransOrderConstraints_ok [OF first_okD(1) [OF f]] h(2)])
  note ok2 = reachedD(1) [OF r2]
  have r3: "reached h2 h3"
    using h(3) postD [OF genTSOTransOrderConstraints_ok [OF ok2]] reached_refl [OF ok2] by (auto split: if_splits)
  from traverse_ok [OF h(4) reachedD(1) [OF r3]] r3 have "reached h2 h" by (blast intro: reached_trans)
  with f h(2) r2 show thesis by (rule that)
qed

lemma encode_steps:
  assumes "encode cfg e g = Some g'" and "start_ok g"
  obtains h1 h2 h where "first_ok e h1" "genTransOrderConstraints cfg e h1 = Some h2" "reached h1 h2" "reached h2 h"
    "encode_behaviors cfg e g = Some h" "translateGoals h = Some g'" "reached h g'"
proof -
  from assms(1) obtain h where h: "encode_behaviors cfg e g = Some h" "translateGoals h = Some g'"
    unfolding encode_def bind_eq_Some_conv by blast
  obtain h1 h2 where 1: "first_ok e h1" "genTransOrderConstraints cfg e h1 = Some h2" "reached h1 h2" "reached h2 h"
    by (rule encode_behaviors_steps [OF h(1) assms(2)])
  have "reached h g'" by (rule postD [OF translateGoals_ok [OF reachedD(1) [OF 1(4)]] h(2)])
  with 1 h show thesis by (rule that)
qed

lemma encode_gen_ok:
  assumes "encode cfg e g = Some g'" and "start_ok g"
  shows "gen_ok g'" and "rpt_one g'" and "actions_ok e g'"
proof -
  obtain h1 h2 h where h: "first_ok e h1" "genTransOrderConstraints cfg e h1 = Some h2" "reached h1 h2" "reached h2 h"
    "encode_behaviors cfg e g = Some h" "translateGoals h = Some g'" "reached h g'"
    by (rule encode_steps [OF assms])
  have r: "reached h1 g'" using h(3,4,7) by (blast intro: reached_trans)
  show "gen_ok g'" by (rule reachedD(1) [OF h(7)])
  show "rpt_one g'" using first_okD(3) [OF h(1)] by (simp add: rpt_one_def reached_rpt(1) [OF r])
  show "actions_ok e g'" using first_okD(5) [OF h(1)] by (simp add: actions_ok_def op_at_def reached_rpt(2) [OF r])
qed

subsection \<open>The order of the operations\<close>

lemma encode_ordered:
  assumes "encode cfg e g = Some g'" and "start_ok g" and "\<not> TSO cfg" and "models \<sigma> g'"
    and "op_at g' s i a" and "op_at g' t j b" and "s \<noteq> t"
  shows "prec cfg e g' \<sigma> b a \<longleftrightarrow> \<not> prec cfg e g' \<sigma> a b"
proof -
  obtain h1 h2 h where h: "first_ok e h1" "genTransOrderConstraints cfg e h1 = Some h2" "reached h1 h2" "reached h2 h"
    "encode_behaviors cfg e g = Some h" "translateGoals h = Some g'" "reached h g'"
    by (rule encode_steps [OF assms(1,2)])
  have r2: "reached h2 g'" using h(4,7) by (blast intro: reached_trans)
  have r: "reached h1 g'" using h(3) r2 by (rule reached_trans)
  note ok = first_okD(1) [OF h(1)]
  have m: "models \<sigma> h2" by (rule reached_models [OF r2 assms(4) reachedD(1) [OF h(3)]])
  have ops: "op_at h1 p q x \<longleftrightarrow> op_at g' p q x" for p q x by (simp add: op_at_def reached_rpt(2) [OF r])
  have "getOrderConstraint cfg e a b h1 \<noteq> None"
    by (rule trans_pairs(1) [OF h(2) assms(3) ok m]) (use assms(5-7) ops in blast)+
  then have o: "getOrderConstraint cfg e a b g' \<noteq> None" by (simp add: order_fixed [OF reached_rpt(1) [OF r]])
  have "\<not> same_thread e a b"
    using encode_gen_ok(3) [OF assms(1,2)] assms(5-7) unfolding actions_ok_def same_thread_def by metis
  from prec_flip [OF encode_gen_ok(2,1) [OF assms(1,2)] this o] show ?thesis .
qed

lemma encode_transitive:
  assumes "encode cfg e g = Some g'" and "start_ok g" and "\<not> TSO cfg" and "models \<sigma> g'"
    and po: "in_program_order e g'" and abc: "op_at g' s i a" "op_at g' t j b" "op_at g' u k c"
    and comp: "s = u \<Longrightarrow> program_order e a c = Some True \<or> program_order e c a = Some True"
    and "prec cfg e g' \<sigma> a b" and "prec cfg e g' \<sigma> b c"
  shows "prec cfg e g' \<sigma> a c"
proof -
  obtain h1 h2 h where h: "first_ok e h1" "genTransOrderConstraints cfg e h1 = Some h2" "reached h1 h2" "reached h2 h"
    "encode_behaviors cfg e g = Some h" "translateGoals h = Some g'" "reached h g'"
    by (rule encode_steps [OF assms(1,2)])
  have r2: "reached h2 g'" using h(4,7) by (blast intro: reached_trans)
  have r: "reached h1 g'" using h(3) r2 by (rule reached_trans)
  note f = first_okD [OF h(1)]
  have m: "models \<sigma> h2" by (rule reached_models [OF r2 assms(4) reachedD(1) [OF h(3)]])
  have ops: "op_at h1 p q x \<longleftrightarrow> op_at g' p q x" for p q x by (simp add: op_at_def reached_rpt(2) [OF r])
  have p: "prec cfg e g' = prec cfg e h1" by (rule prec_fixed [OF reached_rpt(1) [OF r]])
  have "in_program_order e h1" using po by (simp add: in_program_order_def ops)
  from prec_transitive [OF h(2) assms(3) f(1) m f(3,5) this, of s i a t j b u k c] abc comp assms(10,11)
  show ?thesis by (simp add: ops p)
qed

subsection \<open>Goals\<close>

text \<open>The variables of the goals are the next ones, in order; each implies its goal.\<close>

lemma translate_goals_models:
  assumes "translate_goals goals g = Some (vs, g')" and "gen_ok g" and "\<forall>c \<in> set goals. imp_free c \<and> known g c"
  shows "vs = map VAR [varindex g..<varindex g + length goals] \<and> varindex g' = varindex g + length goals \<and>
    (\<forall>\<sigma>. models \<sigma> g' \<longleftrightarrow> models \<sigma> g \<and> (\<forall>i < length goals. \<sigma> (varindex g + i) \<longrightarrow> eval \<sigma> (goals ! i)))"
  using assms
proof (induction goals arbitrary: g vs)
  case Nil
  then show ?case by simp
next
  case (Cons c cs)
  from Cons.prems(1) obtain v h h2 ws where v: "getNewVar g = (v, h)" and a: "addConstraint (OR [negate v, c]) h = Some h2"
    and w: "translate_goals cs h2 = Some (ws, g')" "vs = v # ws"
    by (auto simp: bind_eq_Some_conv Let_def split: prod.splits)
  note N = getNewVar_grows [OF Cons.prems(2) v]
  have kc: "imp_free c \<and> known h c" using Cons.prems(3) grows_carried [OF N(5)] by auto
  have good: "\<forall>d \<in> set [negate v, c]. imp_free d \<and> known h d" using kc N(3) by (auto simp: isvar_def N(1))
  have k: "known h (OR [negate v, c])" using good by simp
  note A = addConstraint_grows [OF N(4) a k]
  have cs: "\<forall>d \<in> set cs. imp_free d \<and> known h2 d"
    using Cons.prems(3) grows_carried [OF N(5)] grows_carried [of h h2] A by auto
  have ok2: "gen_ok h2" using A by blast
  note IH = Cons.IH [OF w(1) ok2 cs]
  have st: "stream_of h = stream_of g \<and> (solver h = None \<longleftrightarrow> solver g = None)"
  proof -
    from getNewVar_fields [OF v] obtain cv n where "h = g\<lparr> cg_vars := cv, varindex := n \<rparr>" by blast
    then show ?thesis by simp
  qed
  have m: "models \<sigma> h2 \<longleftrightarrow> models \<sigma> g \<and> (\<sigma> (varindex g) \<longrightarrow> eval \<sigma> c)" for \<sigma>
    using addConstraint_models [OF a good_OR_pok [OF good] N(4), of \<sigma>] st by (auto simp: N(1) models_stream)
  have n: "varindex h2 = varindex g + 1" using A N(2) by simp
  have all: "(\<forall>i < length (c # cs). \<sigma> (varindex g + i) \<longrightarrow> eval \<sigma> ((c # cs) ! i)) \<longleftrightarrow>
      (\<sigma> (varindex g) \<longrightarrow> eval \<sigma> c) \<and> (\<forall>i < length cs. \<sigma> (varindex g + 1 + i) \<longrightarrow> eval \<sigma> (cs ! i))" for \<sigma>
    by (simp add: All_less_Suc2)
  have "[varindex g..<varindex g + length (c # cs)] = varindex g # [varindex h2..<varindex h2 + length cs]"
    by (simp add: n upt_conv_Cons del: upt_Suc)
  then have vs: "vs = map VAR [varindex g..<varindex g + length (c # cs)]" using IH w(2) by (simp add: N(1) del: upt_Suc)
  have "varindex g' = varindex g + length (c # cs)" using IH A by (simp add: n)
  moreover have "models \<sigma> g' \<longleftrightarrow> models \<sigma> g \<and> (\<forall>i < length (c # cs). \<sigma> (varindex g + i) \<longrightarrow> eval \<sigma> ((c # cs) ! i))" for \<sigma>
  proof -
    have "models \<sigma> g' \<longleftrightarrow> models \<sigma> h2 \<and> (\<forall>i < length cs. \<sigma> (varindex h2 + i) \<longrightarrow> eval \<sigma> (cs ! i))"
      using IH by (elim conjE) (erule spec)
    then show ?thesis by (simp only: m n all conj_assoc)
  qed
  ultimately show ?case using vs by blast
qed

lemma addConstraint_goalset: "addConstraint c g = Some g' \<Longrightarrow> goalset g' = goalset g"
proof -
  have lit: "goalset k' = goalset k" if "foldM printConstraint ls k = Some k'" for ls k k'
    using printConstraints [OF that] by auto
  have "addClause d h = Some h' \<Longrightarrow> goalset h' = goalset h" for d h h'
    using lit by (auto simp: addClause_def do_simps split: if_splits)
  moreover assume "addConstraint c g = Some g'"
  ultimately show ?thesis unfolding addConstraint_def
    by - (rule foldM_invariant [where I = "\<lambda>h. goalset h = goalset g"], auto)
qed

lemma translate_goals_goalset: "translate_goals goals g = Some (vs, g') \<Longrightarrow> goalset g' = goalset g"
proof (induction goals arbitrary: g vs)
  case (Cons c cs)
  from Cons.prems obtain v h h2 ws where v: "getNewVar g = (v, h)" "addConstraint (OR [negate v, c]) h = Some h2"
    and w: "translate_goals cs h2 = Some (ws, g')"
    by (auto simp: bind_eq_Some_conv Let_def split: prod.splits)
  from getNewVar_fields [OF v(1)] have "goalset h = goalset g" by auto
  with addConstraint_goalset [OF v(2)] Cons.IH [OF w] show ?case by simp
qed simp

lemma goalset_pok: "gen_ok g \<Longrightarrow> \<forall>c \<in> set (goalset g). imp_free c \<and> known g c"
  using gen_okD(11) by (auto simp: pok_def)

lemma translateGoals_models:
  assumes "translateGoals g = Some g'" and "gen_ok g"
  shows "models \<sigma> g' \<longleftrightarrow> models \<sigma> g \<and>
      (\<forall>i < length (goalset g). \<sigma> (varindex g + i) \<longrightarrow> eval \<sigma> (goalset g ! i)) \<and>
      (\<exists>i < length (goalset g). \<sigma> (varindex g + i))"
    and "goalset g' = goalset g"
    and "goalvararray g' = Some (map (\<lambda>i. Some (VAR (varindex g + i))) [0..<length (goalset g)])"
    and "varindex g' = varindex g + length (goalset g)"
proof -
  from assms(1) obtain vs h where h: "translate_goals (goalset g) g = Some (vs, h)"
    "addConstraint (OR vs) (h\<lparr> goalvararray := Some (map Some vs) \<rparr>) = Some g'"
    by (auto simp: translateGoals_def do_simps)
  let ?h = "h\<lparr> goalvararray := Some (map Some vs) \<rparr>"
  note T = translate_goals_models [OF h(1) assms(2) goalset_pok [OF assms(2)]]
  have "\<forall>c \<in> set (goalset g). known g c" using goalset_pok [OF assms(2)] by blast
  from postD [OF translate_goals_gives [OF assms(2) this] h(1)] have H: "reached g h" "vars_known vs h" by auto
  have ok: "gen_ok ?h" by (rule gen_ok_cong [OF reachedD(1) [OF H(1)]]) simp_all
  have good: "\<forall>c \<in> set vs. imp_free c \<and> known ?h c" using H(2) by (auto simp: vars_known_def)
  have "models \<sigma> ?h = models \<sigma> h" by (simp add: models_stream)
  moreover have "eval \<sigma> (OR vs) \<longleftrightarrow> (\<exists>i < length (goalset g). \<sigma> (varindex g + i))"
  proof -
    have "eval \<sigma> (OR vs) \<longleftrightarrow> (\<exists>v \<in> {varindex g..<varindex g + length (goalset g)}. \<sigma> v)" using T by auto
    also have "\<dots> \<longleftrightarrow> (\<exists>i < length (goalset g). \<sigma> (varindex g + i))"
    proof
      assume "\<exists>v \<in> {varindex g..<varindex g + length (goalset g)}. \<sigma> v"
      then obtain v where "varindex g \<le> v" "v < varindex g + length (goalset g)" "\<sigma> v" by auto
      then show "\<exists>i < length (goalset g). \<sigma> (varindex g + i)" by (intro exI [of _ "v - varindex g"]) auto
    qed auto
    finally show ?thesis .
  qed
  ultimately show "models \<sigma> g' \<longleftrightarrow> models \<sigma> g \<and>
      (\<forall>i < length (goalset g). \<sigma> (varindex g + i) \<longrightarrow> eval \<sigma> (goalset g ! i)) \<and>
      (\<exists>i < length (goalset g). \<sigma> (varindex g + i))"
    using addConstraint_models [OF h(2) good_OR_pok [OF good] ok] T by simp
  have "known ?h (OR vs)" using good by simp
  note A = addConstraint_grows [OF ok h(2) this]
  show "varindex g' = varindex g + length (goalset g)" using A T by simp
  have e: "emits ?h g' (\<lambda>\<sigma>. eval \<sigma> (OR vs))" by (rule addConstraint_emits [OF h(2) good_OR_pok [OF good]])
  then obtain sv n where g': "g' = ?h\<lparr> solver := sv, numconstraints := n \<rparr>" unfolding emits_def by blast
  have "goalset h = goalset g" by (rule translate_goals_goalset [OF h(1)])
  then show "goalset g' = goalset g" by (simp add: g')
  show "goalvararray g' = Some (map (\<lambda>i. Some (VAR (varindex g + i))) [0..<length (goalset g)])"
    unfolding g' using T by simp (rule nth_equalityI, simp_all)
qed

text \<open>A model of the encoding reaches a goal.\<close>

lemma encode_reaches_goal:
  assumes "encode cfg e g = Some g'" and "start_ok g" and "models \<sigma> g'"
  shows "\<exists>c \<in> set (goalset g'). eval \<sigma> c"
proof -
  obtain h1 h2 h where h: "first_ok e h1" "genTransOrderConstraints cfg e h1 = Some h2" "reached h1 h2" "reached h2 h"
    "encode_behaviors cfg e g = Some h" "translateGoals h = Some g'" "reached h g'"
    by (rule encode_steps [OF assms(1,2)])
  note T = translateGoals_models [OF h(6) reachedD(1) [OF h(4)]]
  from T(1) [of \<sigma>] assms(3) obtain i where "i < length (goalset h)" "eval \<sigma> (goalset h ! i)" by blast
  then show ?thesis using T(2) by auto
qed

text \<open>A behaviour that reaches a goal is part of a model of the encoding.\<close>

lemma encode_keeps_behaviors:
  assumes "encode_behaviors cfg e g = Some h" and "encode cfg e g = Some g'" and "start_ok g"
    and "models \<sigma> h" and "c \<in> set (goalset h)" and "eval \<sigma> c"
  shows "\<exists>\<tau>. models \<tau> g' \<and> (\<forall>v < varindex h. \<tau> v = \<sigma> v)"
proof -
  obtain h1 h2 where h: "first_ok e h1" "genTransOrderConstraints cfg e h1 = Some h2" "reached h1 h2" "reached h2 h"
    by (rule encode_behaviors_steps [OF assms(1,3)])
  note ok = reachedD(1) [OF h(4)]
  have tg: "translateGoals h = Some g'" using assms(1,2) by (simp add: encode_def)
  define \<tau> where "\<tau> v = (if v < varindex h then \<sigma> v else eval \<sigma> (goalset h ! (v - varindex h)))" for v
  have same: "\<tau> v = \<sigma> v" if "v < varindex h" for v using that by (simp add: \<tau>_def)
  have ev: "eval \<tau> d = eval \<sigma> d" if "d \<in> set (goalset h)" for d
    using goalset_pok [OF ok] that same by (intro eval_cong) (auto simp: known_def)
  have "models \<tau> h" using models_cong [OF ok same] assms(4) by simp
  moreover have "\<forall>i < length (goalset h). \<tau> (varindex h + i) \<longrightarrow> eval \<tau> (goalset h ! i)"
    using ev by (simp add: \<tau>_def)
  moreover obtain i where "i < length (goalset h)" "goalset h ! i = c" using assms(5) by (auto simp: in_set_conv_nth)
  then have "\<exists>i < length (goalset h). \<tau> (varindex h + i)" using assms(6) by (auto simp: \<tau>_def)
  ultimately have "models \<tau> g'" using translateGoals_models(1) [OF tg ok] by blast
  then show ?thesis using same by blast
qed

end
