(* ===== verification/GenKept.thy ===== *)
theory GenKept
  imports GenResults
begin

section \<open>What the second pass leaves alone (constgen.cc)\<close>

text \<open>
  The operations of the second pass emit clauses, make variables and fill tables. A predicate that
  reads only the stack of pending records, the sets of stores a load may read from and the execution
  conditions is therefore kept by all of them, once the request for such a set keeps it. The locale
  has this for any such predicate; its instances are the stack itself and the correctness of the sets.
\<close>

named_theorems kept_rules "operations that keep the predicate"

lemma kept_skip: "(\<And>x. post (f x) Q) \<Longrightarrow> post (Option.bind m f) Q"
  by (auto simp: post_def do_simps)

locale kept =
  fixes e :: execution and J :: "cgen \<Rightarrow> bool"
  assumes cong: "workstack h = workstack g \<Longrightarrow> cg_loadtable h = cg_loadtable g \<Longrightarrow>
      execcondtable h = execcondtable g \<Longrightarrow> J g \<Longrightarrow> J h"
    and mayread: "J g \<Longrightarrow> getMayReadFromSet e load g = Some (srs, h) \<Longrightarrow> J h"
begin

lemma J_update [simp]:
  "J (slheap_update f1 g) = J g" "J (goalset_update f3 g) = J g" "J (rectoint_update f4 g) = J g"
  "J (has_untaken_branches_update f5 g) = J g" "J (solver_update f6 g) = J g" "J (yieldtable_update f7 g) = J g"
  "J (yieldlist_update f8 g) = J g" "J (goalvararray_update f10 g) = J g" "J (numconstraints_update f11 g) = J g"
  "J (cg_vars_update f12 g) = J g" "J (varindex_update f13 g) = J g"
  by (rule iffI; erule cong [rotated -1]; simp)+

lemma kept_bind:
  assumes "post m J" and "\<And>h. J h \<Longrightarrow> post (f h) Q"
  shows "post (Option.bind m f) Q"
  using assms by (auto simp: post_def do_simps)

lemma kept_bind2:
  assumes "post m (\<lambda>(x, h). J h)" and "\<And>x h. J h \<Longrightarrow> post (f x h) Q"
  shows "post (Option.bind m (\<lambda>(x, h). f x h)) Q"
  using assms by (fastforce simp: post_def do_simps)

lemma kept_foldM:
  assumes "J g" and "\<And>x h. J h \<Longrightarrow> post (f x h) J"
  shows "post (foldM f xs g) J"
  using foldM_invariant [where I = "\<lambda>h. J h" and f = f and xs = xs and s = g] assms
  by (auto simp: post_def)

lemma kept_vars:
  assumes "J g"
  shows "(\<And>x h. J h \<Longrightarrow> post (f1 x h) Q) \<Longrightarrow> post (case getNewVar g of (x, h) \<Rightarrow> f1 x h) Q"
    and "(\<And>x h. J h \<Longrightarrow> post (f2 x h) Q) \<Longrightarrow> post (case getArrayNewVars n g of (x, h) \<Rightarrow> f2 x h) Q"
proof -
  obtain v h where v: "getNewVar g = (v, h)" by (cases "getNewVar g")
  obtain vs k where vs: "getArrayNewVars n g = (vs, k)" by (cases "getArrayNewVars n g")
  have "J h" "J k"
    using assms getNewVar_fields [OF v] getArrayNewVars_fields [OF vs] by auto
  then show "(\<And>x h. J h \<Longrightarrow> post (f1 x h) Q) \<Longrightarrow> post (case getNewVar g of (x, h) \<Rightarrow> f1 x h) Q"
    "(\<And>x h. J h \<Longrightarrow> post (f2 x h) Q) \<Longrightarrow> post (case getArrayNewVars n g of (x, h) \<Rightarrow> f2 x h) Q"
    by (simp_all add: v vs)
qed

lemmas kept_struct = kept_bind2 kept_bind kept_vars kept_foldM kept_skip post_Some post_None post_if post_option
  post_list post_prod

lemma addClause_kept: "addClause c g = Some g' \<Longrightarrow> J g \<Longrightarrow> J g'"
  using printConstraints by (fastforce simp: addClause_def do_simps split: if_splits)

lemma addConstraint_kept [kept_rules]: "J g \<Longrightarrow> post (addConstraint c g) J"
  unfolding addConstraint_def by (rule kept_foldM) (auto simp: post_def dest: addClause_kept)

lemma put_sls_kept [simp]: "J (put_sls i s g) = J g"
  by (simp add: put_sls_def)

lemma get_vars_kept: "J g \<Longrightarrow> post (get_vars t u enc i r g) (\<lambda>(x, h). J h)"
  unfolding get_vars_def Let_def by (rule kept_struct | simp)+

lemma getVars_kept [kept_rules]:
  "J g \<Longrightarrow> post (getAddrVars i r g) (\<lambda>(x, h). J h)"
  "J g \<Longrightarrow> post (getValVars i r g) (\<lambda>(x, h). J h)"
  "J g \<Longrightarrow> post (getRMWRValVars i r g) (\<lambda>(x, h). J h)"
  by (simp_all add: getAddrVars_def getValVars_def getRMWRValVars_def get_vars_kept)

lemma need_encoding_kept [kept_rules]: "J g \<Longrightarrow> post (need_encoding enc i g) J"
  unfolding need_encoding_def by (rule kept_struct | simp)+

lemma sls_encoding_kept [kept_rules]:
  "J g \<Longrightarrow> post (getNumValVars i g) (\<lambda>(x, h). J h)"
  "J g \<Longrightarrow> post (getNumAddrVars i g) (\<lambda>(x, h). J h)"
  "J g \<Longrightarrow> post (sls_getAddressEncoding i r v g) (\<lambda>(x, h). J h)"
  "J g \<Longrightarrow> post (sls_getValueEncoding i r v g) (\<lambda>(x, h). J h)"
  "J g \<Longrightarrow> post (sls_getRMWRValueEncoding i r v g) (\<lambda>(x, h). J h)"
  unfolding getNumValVars_def getNumAddrVars_def sls_getAddressEncoding_def sls_getValueEncoding_def
    sls_getRMWRValueEncoding_def
  by (rule kept_rules kept_struct | assumption | simp)+

lemma value_kept [kept_rules]:
  assumes "J g"
  shows "post (getRetValueEncoding e r v g) (\<lambda>(x, h). J h)"
    and "post (getMemValueEncoding e r v g) (\<lambda>(x, h). J h)"
    and "post (ret_value e r v g) (\<lambda>(x, h). J h)"
    and "post (mem_value e r v g) (\<lambda>(x, h). J h)"
proof -
  show r: "post (getRetValueEncoding e r v g) (\<lambda>(x, h). J h)"
    using sls_encoding_kept(4,5) [OF assms, of _ r v] assms
    by (auto simp: getRetValueEncoding_def post_def do_simps split: event_type.splits)
  show m: "post (getMemValueEncoding e r v g) (\<lambda>(x, h). J h)"
    using sls_encoding_kept(4) [OF assms, of _ r v] by (auto simp: getMemValueEncoding_def post_def do_simps)
  show "post (ret_value e r v g) (\<lambda>(x, h). J h)" "post (mem_value e r v g) (\<lambda>(x, h). J h)"
    using r m by (auto simp: ret_value_def mem_value_def post_def do_simps)
qed

lemma mayread_kept [kept_rules]: "J g \<Longrightarrow> post (getMayReadFromSet e load g) (\<lambda>(x, h). J h)"
  by (auto simp: post_def dest: mayread)

lemma input_constraints_kept [kept_rules]:
  "J g \<Longrightarrow> post (input_constraints e goal i inputs g) (\<lambda>(x, h). J h)"
proof (induction inputs arbitrary: i g)
  case (Cons input inputs)
  show ?case unfolding input_constraints.simps
    using Cons.prems by - (rule Cons.IH kept_rules kept_struct | assumption | simp)+
qed (simp add: post_def)

lemma equal_bits_kept [kept_rules]:
  "J g \<Longrightarrow> post (equal_bits ps g) (\<lambda>(x, h). J h)"
proof (induction ps arbitrary: g)
  case (Cons p ps)
  show ?case unfolding equal_bits.simps equal_bit_def Let_def
    using Cons.prems by - (rule Cons.IH kept_rules kept_struct | assumption | simp)+
qed (simp add: post_def)

lemma addGoal_kept [simp]: "J (addGoal r c g) = J g" "J (addBranchGoal r c g) = J g"
  by (simp_all add: addGoal_def addBranchGoal_def Let_def)

lemma new_LoadRF_kept [kept_rules]: "J g \<Longrightarrow> post (new_LoadRF e load g) (\<lambda>(x, h). J h)"
proof -
  have "J g \<Longrightarrow> case getArrayNewVars n g of (x, h) \<Rightarrow> J h" for n g
    by (cases "getArrayNewVars n g") (auto dest: getArrayNewVars_fields)
  then show "J g \<Longrightarrow> ?thesis" unfolding new_LoadRF_def
    by - (rule kept_bind2, rule kept_rules, assumption, rule post_Some)
qed

lemma loads_kept [kept_rules]:
  "J g \<Longrightarrow> post (processLoadRF cfg e r g) J"
  "J g \<Longrightarrow> post (processAddresses e r g) J"
  unfolding processLoadRF_def rf_genConstraints_def rf_store_def rf_conflict_def processAddresses_def Let_def
  by (rule kept_rules kept_struct | assumption | simp)+

lemma memory_kept [kept_rules]:
  "J g \<Longrightarrow> post (processLoad cfg e r g) J"
  "J g \<Longrightarrow> post (processStore e r g) J"
  "J g \<Longrightarrow> post (processCAS cfg e r g) J"
  "J g \<Longrightarrow> post (processEXC cfg e r g) J"
  "J g \<Longrightarrow> post (processAdd cfg e r g) J"
  "J g \<Longrightarrow> post (processFence e cfg r g) J"
  unfolding processLoad_def processStore_def processCAS_def cas_compare_def cas_store_def processEXC_def
    processAdd_def processFence_def Let_def
  by (rule kept_rules kept_struct | assumption | simp)+

lemma functions_kept [kept_rules]:
  "J g \<Longrightarrow> post (processFunction e r g) J"
  "J g \<Longrightarrow> post (processEquals e r g) J"
  unfolding processFunction_def processLoopPhi_def processPhi_def phi_input_def function_behavior_def
    processEquals_def equals_special_def equals_const_def equals_pairs_def read_vars_def Let_def
  by (rule kept_rules kept_struct | assumption | simp)+

lemma control_kept [kept_rules]:
  "J g \<Longrightarrow> post (processBranch e r g) J"
  "J g \<Longrightarrow> post (processYield cfg e r g) J"
  unfolding processBranch_def branch_value_def processYield_def computeYieldCond_def Let_def
  by (rule kept_rules kept_struct | assumption | simp)+

lemma processRecord_kept: "J g \<Longrightarrow> post (processRecord cfg e r g) J"
proof -
  assume w: "J g"
  have "post (processRMW cfg e r g) J"
    using w unfolding processRMW_def by - (rule kept_rules kept_struct | assumption | auto split: atomicop.split intro: kept_rules)+
  with w show ?thesis unfolding processRecord_def
    by (auto split: event_type.split intro: kept_rules post_Some)
qed

lemma transitivity_kept [kept_rules]:
  "J g \<Longrightarrow> post (genTransOrderConstraint cfg e a b c g) J"
  "J g \<Longrightarrow> post (intra_after cfg e a b c21 c g) J" "J g \<Longrightarrow> post (intra_before cfg e a b c21 c g) J"
  unfolding genTransOrderConstraint_def intra_after_def intra_before_def
  by (rule kept_rules kept_struct | assumption | simp)+

lemma transitivities_kept:
  assumes "J g"
  shows "post (genTransOrderConstraints cfg e g) J"
proof -
  have p: "post (genTransPair cfg e v1 v2 p g) J" if "J g" for v1 v2 p g
    using that unfolding genTransPair_def Let_def by - (rule kept_rules kept_struct | assumption | simp)+
  show ?thesis using assms unfolding genTransOrderConstraints_def genTrans2_def genTrans3_def Let_def
    by - (rule p kept_rules kept_struct | assumption | simp)+
qed

lemma tso_loads_kept [kept_rules]: "J g \<Longrightarrow> post (tso_loads cfg e tvec i ls ll loads g) J"
proof (induction loads arbitrary: ll g)
  case (Cons l loads)
  show ?case unfolding tso_loads.simps Let_def
    using Cons.prems by - (rule Cons.IH kept_rules kept_struct | assumption | simp)+
qed (simp add: post_Some)

lemma tso_stores_kept [kept_rules]: "J g \<Longrightarrow> post (tso_stores cfg e tvec ls stores g) J"
proof (induction stores arbitrary: ls g)
  case (Cons l stores)
  show ?case unfolding tso_stores.simps
    using Cons.prems by - (rule Cons.IH kept_rules kept_struct | assumption | simp)+
qed (simp add: post_Some)

lemma genTSO_kept: "J g \<Longrightarrow> post (genTSOTransOrderConstraints cfg e g) J"
  unfolding genTSOTransOrderConstraints_def by (rule kept_rules kept_struct | assumption | simp)+

lemma translate_goals_kept: "J g \<Longrightarrow> post (translate_goals goals g) (\<lambda>(x, h). J h)"
proof (induction goals arbitrary: g)
  case (Cons c goals)
  show ?case unfolding translate_goals.simps Let_def
    using Cons.prems by - (rule Cons.IH kept_rules kept_struct | assumption | simp)+
qed (simp add: post_def)

lemma translateGoals_kept: "J g \<Longrightarrow> post (translateGoals g) J"
  unfolding translateGoals_def by (rule translate_goals_kept kept_rules kept_struct | assumption | simp)+

end

subsection \<open>The stack\<close>

interpretation stack: kept e "\<lambda>g. workstack g = w" for e w
  by unfold_locales (auto dest: getMayReadFromSet_result(1))

subsection \<open>The stores a load may read from\<close>

text \<open>What \<open>getMayReadFromSet\<close> computes when it has no set for the load yet.\<close>

definition may_read :: "execution \<Rightarrow> rid \<Rightarrow> cgen \<Rightarrow> rid list option" where
  "may_read e load g = do {
     addrs \<leftarrow> getSet VC_ADDRINDEX (rec_of e load);
     if length addrs = 1 then do {
       addr \<leftarrow> nth_opt addrs 0;
       rs \<leftarrow> storetable e addr;
       latest \<leftarrow> latest_store e load g rs;
       mayread_opt e load latest rs }
     else foldM (mayread_addr e load) addrs [] }"

definition loads_ok :: "execution \<Rightarrow> cgen \<Rightarrow> bool" where
  "loads_ok e g \<longleftrightarrow> (\<forall>load srs. cg_loadtable g load = Some srs \<longrightarrow> may_read e load g = Some srs)"

lemma may_read_fixed: "execcondtable h = execcondtable g \<Longrightarrow> may_read e load h = may_read e load g"
  by (simp only: may_read_def latest_store_def isAlwaysExecuted_def execcond_def)

interpretation loads: kept e "loads_ok e" for e
proof (unfold_locales, goal_cases)
  case (1 h g)
  then show ?case by (simp add: loads_ok_def may_read_fixed [OF 1(3)])
next
  case (2 g load srs h)
  have "cg_loadtable g load = None \<Longrightarrow> may_read e load g = Some srs"
    using 2(2) by (auto simp: getMayReadFromSet_def getMayReadFromSetOpt_def may_read_def do_simps split: if_splits)
  moreover have "may_read e l h = may_read e l g" for l
    by (rule may_read_fixed) (simp add: getMayReadFromSet_result(1) [OF 2(2)])
  ultimately show ?case
    using 2(1) getMayReadFromSet_result [OF 2(2)] by (auto simp: loads_ok_def)
qed

end
