(* ===== verification/GenTraverse.thy ===== *)
theory GenTraverse
  imports GenKept
begin

section \<open>What the passes do at every record (constgen.cc)\<close>

text \<open>
  The first pass puts every linked memory operation into the list of its thread and gives branches
  enough variables for their directions; the second pass writes the clauses of every linked record.
  Both are instances of \<open>traversal\<close>.
\<close>

subsection \<open>The first pass\<close>

text \<open>The variables of a branch have room for the codes of all its directions.\<close>

definition branch_sized :: "execution \<Rightarrow> rid \<Rightarrow> branch_record \<Rightarrow> bool" where
  "branch_sized e r br \<longleftrightarrow> br_branch br = r \<and>
     length (br_vars br) = numbits (of_nat (branch_codes (numValues (hp e) r) (rec_len (rec_of e r)) (br_alwaysexecuted br)) - 1)"

definition branches_sized :: "execution \<Rightarrow> cgen \<Rightarrow> bool" where
  "branches_sized e g \<longleftrightarrow> (\<forall>r br. branchtable g r = Some br \<longrightarrow> branch_sized e r br)"

text \<open>What one operation of the first pass leaves as it is.\<close>

definition unmoved :: "cgen \<Rightarrow> _" where
  "unmoved g = (workstack g, cg_loadtable g)"

definition untouched :: "cgen \<Rightarrow> _" where
  "untouched g = (unmoved g, branchtable g, threadactions g)"

lemma recordExecCond_untouched: "recordExecCond e r g = Some h \<Longrightarrow> untouched h = untouched g"
  by (auto simp: recordExecCond_def do_simps untouched_def unmoved_def split: if_splits)

lemma new_vars_untouched: "getNewVar g = (v, h) \<Longrightarrow> untouched h = untouched g"
    "getArrayNewVars n g = (vs, h) \<Longrightarrow> untouched h = untouched g"
  by (auto simp: untouched_def unmoved_def dest!: getNewVar_fields getArrayNewVars_fields)

lemma getArrayNewVars_length: "getArrayNewVars n g = (vs, h) \<Longrightarrow> length vs = n"
  by (induction n arbitrary: g vs h) (auto split: prod.splits)

lemma createOrderConstraint_untouched:
  assumes "createOrderConstraint e a b g = Some g'"
  shows "untouched g' = untouched g"
proof (cases "rpt_get a b g = None")
  case False
  with assms show ?thesis by (simp add: createOrderConstraint_def)
next
  case True
  with assms obtain isbefore after where
    "(case (if isbefore then (TRUE, g) else if after then (FALSE, g) else getNewVar g) of
       (c, h) \<Rightarrow> Some (h\<lparr> rpt := (rpt h)((a, b) \<mapsto> c) \<rparr>)) = Some g'"
    unfolding createOrderConstraint_def Let_def if_P [OF True] bind_eq_Some_conv by blast
  then show ?thesis using new_vars_untouched(1) [of g]
    by (auto simp: untouched_def unmoved_def split: if_splits prod.splits)
qed

lemma foldM_untouched:
  "foldM f xs g = Some h \<Longrightarrow> (\<And>x k k'. f x k = Some k' \<Longrightarrow> untouched k' = untouched k) \<Longrightarrow> untouched h = untouched g"
  by (rule foldM_invariant [where I = "\<lambda>k. untouched k = untouched g"]) auto

lemma tso_actions_untouched: "tso_actions e load older g = Some g' \<Longrightarrow> untouched g' = untouched g"
  by (induction e load older g rule: tso_actions.induct)
    (auto simp: do_simps dest: createOrderConstraint_untouched split: if_splits)

lemma groupMemoryOperations_untouched: "groupMemoryOperations e r g = Some h \<Longrightarrow> untouched h = untouched g"
  by (auto simp: untouched_def unmoved_def regrouped_def dest!: groupMemoryOperations_regrouped)

text \<open>The operations of the threads stay where they are, and a new one is the last of its thread.\<close>

lemma insertAction_keeps:
  assumes "insertAction cfg e r g = Some h"
  shows "unmoved h = unmoved g" and "branchtable h = branchtable g"
    and "op_at g t i q \<Longrightarrow> op_at h t i q" and "\<exists>t i. op_at h t i r"
proof -
  define u where "u = ep_tid (r_ep (rec_of e r))"
  let ?as = "resize_to (u + 1) [] (threadactions g)"
  define g0 where "g0 = g\<lparr> threadactions := ?as[u := ?as ! u @ [r]] \<rparr>"
  from assms obtain rs h1 where h: "foldM (\<lambda>oldrec. createOrderConstraint e oldrec r) rs g0 = Some h1"
    "(if TSO cfg then insertTSOAction e r h1 else Some h1) = Some h"
    unfolding insertAction_def Let_def bind_eq_Some_conv u_def [symmetric] g0_def [symmetric] by blast
  have "untouched h1 = untouched g0" by (rule foldM_untouched [OF h(1)]) (rule createOrderConstraint_untouched)
  moreover have "untouched h = untouched h1" using h(2) tso_actions_untouched
    by (auto simp: insertTSOAction_def do_simps split: if_splits)
  ultimately have f: "unmoved h = unmoved g" "branchtable h = branchtable g" "threadactions h = ?as[u := ?as ! u @ [r]]"
    by (auto simp: untouched_def unmoved_def g0_def)
  show "unmoved h = unmoved g" "branchtable h = branchtable g" by (rule f)+
  have len: "u < length ?as" "length (threadactions g) \<le> length ?as" by auto
  show "op_at g t i q \<Longrightarrow> op_at h t i q"
    using len by (cases "t = u") (auto simp: op_at_def f nth_append)
  have "op_at h u (length (?as ! u)) r" using len by (simp add: op_at_def f nth_append)
  then show "\<exists>t i. op_at h t i r" by blast
qed

lemma insertBranch_keeps:
  shows "unmoved (insertBranch cfg e r g) = unmoved g" and "threadactions (insertBranch cfg e r g) = threadactions g"
    and "branches_sized e g \<Longrightarrow> branches_sized e (insertBranch cfg e r g)"
proof -
  define h where "h = (if numValues (hp e) r < rec_len (rec_of e r) \<and> noexecyields cfg
               then g\<lparr> incompleteexploredbranch := oset_add r (incompleteexploredbranch g) \<rparr> else g)"
  define always where "always = isAlwaysExecuted e r h"
  define n where "n = numbits (of_nat (branch_codes (numValues (hp e) r) (rec_len (rec_of e r)) always) - 1)"
  obtain bits h1 where b: "getArrayNewVars n h = (bits, h1)" by (cases "getArrayNewVars n h")
  have I: "insertBranch cfg e r g = h1\<lparr> branchtable := (branchtable h1)(r \<mapsto> new_BranchRecord (hp e) r bits always) \<rparr>"
    using b by (simp add: insertBranch_def Let_def h_def always_def n_def)
  have u: "untouched h1 = untouched g" using new_vars_untouched(2) [OF b] by (simp add: h_def untouched_def unmoved_def)
  then show "unmoved (insertBranch cfg e r g) = unmoved g" "threadactions (insertBranch cfg e r g) = threadactions g"
    by (simp_all add: I untouched_def unmoved_def)
  have "length bits = n" using b by (rule getArrayNewVars_length)
  with u show "branches_sized e g \<Longrightarrow> branches_sized e (insertBranch cfg e r g)"
    by (simp add: I branches_sized_def branch_sized_def new_BranchRecord_def n_def untouched_def)
qed

definition is_memory :: "execution \<Rightarrow> rid \<Rightarrow> bool" where
  "is_memory e r \<longleftrightarrow> event (rec_of e r) = LOAD \<or> event (rec_of e r) = STORE \<or> event (rec_of e r) = RMW"

lemma visitRecord_keeps:
  assumes "visitRecord cfg e r g = Some h"
  shows "unmoved h = unmoved g" and "branches_sized e g \<Longrightarrow> branches_sized e h"
    and "op_at g t i q \<Longrightarrow> op_at h t i q" and "is_memory e r \<Longrightarrow> \<exists>t i. op_at h t i r"
proof -
  note ops = op_at_def branches_sized_def
  have u: "unmoved h = unmoved k \<and> (branches_sized e k \<longrightarrow> branches_sized e h) \<and> (op_at k t i q \<longrightarrow> op_at h t i q)"
    if "untouched h = untouched k" for h k using that by (simp add: ops untouched_def)
  have a: "unmoved h = unmoved k \<and> (branches_sized e k \<longrightarrow> branches_sized e h) \<and> (op_at k t i q \<longrightarrow> op_at h t i q)"
    if "insertAction cfg e r k = Some h" for h k
    using insertAction_keeps [OF that] by (simp add: branches_sized_def)
  have b: "unmoved (insertBranch cfg e r k) = unmoved k \<and> (branches_sized e k \<longrightarrow> branches_sized e (insertBranch cfg e r k)) \<and>
      (op_at k t i q \<longrightarrow> op_at (insertBranch cfg e r k) t i q)" for k
    using insertBranch_keeps(1,2) [of cfg e r k] insertBranch_keeps(3) [of e k cfg r] by (simp add: op_at_def)
  have eq: "untouched (insertEquals r k) = untouched k" for k
  proof -
    obtain v k' where v: "getNewVar k = (v, k')" by (cases "getNewVar k")
    from new_vars_untouched(1) [OF this] v show ?thesis by (simp add: insertEquals_def untouched_def unmoved_def)
  qed
  have fn: "untouched k' = untouched k" if "insertFunction e r k = Some k'" for k k'
  proof -
    from that obtain n vars m where n: "getArrayNewVars n k = (vars, m)" "k' = m\<lparr> functiontable := (functiontable m)(r \<mapsto> vars) \<rparr>"
      by (auto simp: insertFunction_def do_simps Let_def split: prod.splits)
    from new_vars_untouched(2) [OF n(1)] n(2) show ?thesis by (simp add: untouched_def unmoved_def)
  qed
  have nl: "untouched (insertNonLocal r k) = untouched k" "untouched (insertLabel e r k) = untouched k" for k
    by (simp_all add: insertNonLocal_def insertLabel_def untouched_def unmoved_def)
  have m: "(unmoved h = unmoved g \<and> (branches_sized e g \<longrightarrow> branches_sized e h) \<and> (op_at g t i q \<longrightarrow> op_at h t i q)) \<and>
      (\<exists>t i. op_at h t i r)" if "is_memory e r"
  proof -
    from assms that obtain g1 g2 where g: "recordExecCond e r g = Some g1" "insertAction cfg e r g1 = Some g2"
      "groupMemoryOperations e r g2 = Some h"
      by (auto simp: visitRecord_def is_memory_def do_simps split: if_splits)
    have x: "op_at g2 t i q \<longleftrightarrow> op_at h t i q" for t i q
      using groupMemoryOperations_untouched [OF g(3)] by (simp add: op_at_def untouched_def)
    show ?thesis using insertAction_keeps(4) [OF g(2)] x a [OF g(2)]
        u [OF recordExecCond_untouched [OF g(1)]] u [OF groupMemoryOperations_untouched [OF g(3)]] by auto
  qed
  have "unmoved h = unmoved g \<and> (branches_sized e g \<longrightarrow> branches_sized e h) \<and> (op_at g t i q \<longrightarrow> op_at h t i q)"
  proof (cases "is_memory e r")
    case False
    show ?thesis
      using assms False u [OF recordExecCond_untouched] u [OF eq] u [OF fn] u [OF nl(1)] u [OF nl(2)] a b
      by (auto simp: visitRecord_def Let_def is_memory_def do_simps split: if_splits)
  qed (use m in blast)
  then show "unmoved h = unmoved g" "branches_sized e g \<Longrightarrow> branches_sized e h" "op_at g t i q \<Longrightarrow> op_at h t i q" by blast+
  show "is_memory e r \<Longrightarrow> \<exists>t i. op_at h t i r" using m by blast
qed

definition first_state :: "execution \<Rightarrow> cgen \<Rightarrow> bool" where
  "first_state e g \<longleftrightarrow> first_ok e g \<and> cg_loadtable g = (\<lambda>_. None) \<and> branches_sized e g"

definition first_leads :: "execution \<Rightarrow> cgen \<Rightarrow> cgen \<Rightarrow> bool" where
  "first_leads e g h \<longleftrightarrow> first_state e h \<and> (\<forall>t i q. op_at g t i q \<longrightarrow> op_at h t i q)"

interpretation first: traversal cfg e True "first_state e" "first_leads e" for cfg e
proof (unfold_locales, goal_cases)
  case (4 g h w)
  then show ?case using first_ok_update(4)
    by (auto simp: first_leads_def first_state_def branches_sized_def op_at_def)
next
  case (5 g r h)
  then have v: "visitRecord cfg e r g = Some h" by (simp add: pass_def)
  from 5 visitRecord_ok [OF v] visitRecord_keeps [OF v] show ?case
    by (simp add: first_leads_def first_state_def unmoved_def)
next
  case (6 g r h)
  then have v: "visitRecord cfg e r g = Some h" by (simp add: pass_def)
  from visitRecord_keeps(1) [OF v] show ?case by (simp add: unmoved_def)
qed (auto simp: first_leads_def)

subsection \<open>The second pass\<close>

text \<open>It keeps the invariant of the generator and the sets of stores a load may read from.\<close>

definition loads_reached :: "execution \<Rightarrow> cgen \<Rightarrow> cgen \<Rightarrow> bool" where
  "loads_reached e g h \<longleftrightarrow> reached g h \<and> loads_ok e h"

interpretation second: traversal cfg e False "\<lambda>g. gen_ok g \<and> loads_ok e g" "loads_reached e" for cfg e
proof (unfold_locales, goal_cases)
  case (1 g)
  then show ?case by (simp add: loads_reached_def reached_refl)
next
  case (2 g h k)
  then show ?case by (auto simp: loads_reached_def intro: reached_trans)
next
  case (3 g h)
  then show ?case by (auto simp: loads_reached_def dest: reachedD)
next
  case (4 g h w)
  have "loads_ok e (h\<lparr> workstack := w \<rparr>)" using 4 may_read_fixed [of "h\<lparr> workstack := w \<rparr>" h e]
    by (simp add: loads_reached_def loads_ok_def)
  with 4 reached_updates(2) show ?case by (auto simp: loads_reached_def)
next
  case (5 g r h)
  then have p: "processRecord cfg e r g = Some h" by (simp add: pass_def)
  from 5 have g: "gen_ok g" "loads_ok e g" by simp_all
  from postD [OF processRecord_ok [OF g(1)] p] postD [OF loads.processRecord_kept [OF g(2)] p]
  show ?case by (simp add: loads_reached_def)
next
  case (6 g r h)
  then have p: "processRecord cfg e r g = Some h" by (simp add: pass_def)
  show ?case by (rule postD [OF stack.processRecord_kept [OF refl] p])
qed

subsection \<open>The encoding\<close>

lemma start_first_state:
  assumes "start_ok g"
  shows "first_state e (g\<lparr> solver := Some new_IncrementalSolver \<rparr>)"
proof -
  have g: "g = (cg_reset g)\<lparr> next_sls := next_sls g \<rparr>" using assms by (simp only: start_ok_def)
  have "cg_loadtable g = (\<lambda>_. None)" "branchtable g = (\<lambda>_. None)"
    by (subst g, simp add: cg_reset_def resetstoreloadtable_def)+
  then show ?thesis using start_first_ok [OF assms] by (simp add: first_state_def branches_sized_def)
qed

text \<open>The states between the steps of \<open>encode\<close>.\<close>

lemma encode_states:
  assumes "encode cfg e g = Some g'" and "start_ok g"
  obtains h1 h3 h4 where "first_state e h1" and "\<forall>r. linked cfg e r \<longrightarrow> is_memory e r \<longrightarrow> (\<exists>t i. op_at h1 t i r)"
    and "reached h1 h3" and "loads_ok e h3" and "traverse cfg e False h3 = Some h4" and "loads_reached e h3 h4"
    and "reached h4 g'" and "loads_ok e g'"
proof -
  from assms(1) obtain h4 where h4: "encode_behaviors cfg e g = Some h4" "translateGoals h4 = Some g'"
    by (auto simp: encode_def do_simps)
  from h4(1) obtain h1 h2 h3 where h: "traverse cfg e True (g\<lparr> solver := Some new_IncrementalSolver \<rparr>) = Some h1"
    "genTransOrderConstraints cfg e h1 = Some h2"
    "(if TSO cfg then genTSOTransOrderConstraints cfg e h2 else Some h2) = Some h3"
    "traverse cfg e False h3 = Some h4"
    unfolding encode_behaviors_def bind_eq_Some_conv by blast
  note start = start_first_state [OF assms(2), of e]
  have s1: "first_state e h1" using first.traverse_leads [OF h(1) start] by (simp add: first_leads_def)
  have ops: "\<exists>t i. op_at h1 t i r" if "linked cfg e r" "is_memory e r" for r
  proof -
    from first.traverse_covers [OF h(1) start that(1)] obtain k k' where
      k: "visitRecord cfg e r k = Some k'" "first_leads e k' h1" by (auto simp: pass_def)
    from visitRecord_keeps(4) [OF k(1) that(2)] k(2) show ?thesis unfolding first_leads_def by blast
  qed
  have ok1: "gen_ok h1" "loads_ok e h1" using s1 first_okD(1) by (auto simp: first_state_def loads_ok_def)
  have r2: "reached h1 h2" by (rule postD [OF genTransOrderConstraints_ok [OF ok1(1)] h(2)])
  have l2: "loads_ok e h2" by (rule postD [OF loads.transitivities_kept [OF ok1(2)] h(2)])
  have r3: "reached h2 h3" "loads_ok e h3"
    using h(3) postD [OF genTSOTransOrderConstraints_ok [OF reachedD(1) [OF r2]]] postD [OF loads.genTSO_kept [OF l2]]
      reached_refl [OF reachedD(1) [OF r2]] l2 by (auto split: if_splits)
  have l4: "loads_reached e h3 h4" by (rule second.traverse_leads [OF h(4)]) (use r3 reachedD(1) in blast)
  then have ok4: "gen_ok h4" "loads_ok e h4" by (auto simp: loads_reached_def dest: reachedD)
  have r5: "reached h4 g'" by (rule postD [OF translateGoals_ok [OF ok4(1)] h4(2)])
  have l5: "loads_ok e g'" by (rule postD [OF loads.translateGoals_kept [OF ok4(2)] h4(2)])
  show thesis by (rule that [OF s1 _ reached_trans [OF r2 r3(1)] r3(2) h(4) l4 r5 l5]) (use ops in blast)
qed

text \<open>Memory operations are in the lists of the threads, and branches have room for their directions.\<close>

lemma encode_first_pass:
  assumes "encode cfg e g = Some g'" and "start_ok g"
  shows "linked cfg e r \<Longrightarrow> is_memory e r \<Longrightarrow> \<exists>t i. op_at g' t i r" and "branches_sized e g'" and "loads_ok e g'"
proof -
  obtain h1 h3 h4 where h: "first_state e h1" "\<forall>r. linked cfg e r \<longrightarrow> is_memory e r \<longrightarrow> (\<exists>t i. op_at h1 t i r)"
    "reached h1 h3" "loads_ok e h3" "traverse cfg e False h3 = Some h4" "loads_reached e h3 h4" "reached h4 g'" "loads_ok e g'"
    by (rule encode_states [OF assms])
  have "reached h1 g'" using h(3,6,7) by (auto simp: loads_reached_def intro: reached_trans)
  then have f: "threadactions g' = threadactions h1" "branchtable g' = branchtable h1"
    using reached_fixed by (auto simp: fixed_def)
  show "linked cfg e r \<Longrightarrow> is_memory e r \<Longrightarrow> \<exists>t i. op_at g' t i r" using h(2) by (simp add: op_at_def f)
  show "branches_sized e g'" using h(1) by (simp add: first_state_def branches_sized_def f)
  show "loads_ok e g'" by (rule h(8))
qed

text \<open>The clauses of every record are among those of the encoding.\<close>

lemma encode_processed:
  assumes "encode cfg e g = Some g'" and "start_ok g" and "linked cfg e r"
  shows "\<exists>h h'. gen_ok h \<and> processRecord cfg e r h = Some h' \<and> reached h h' \<and> reached h' g'"
proof -
  obtain h1 h3 h4 where h: "first_state e h1" "\<forall>r. linked cfg e r \<longrightarrow> is_memory e r \<longrightarrow> (\<exists>t i. op_at h1 t i r)"
    "reached h1 h3" "loads_ok e h3" "traverse cfg e False h3 = Some h4" "loads_reached e h3 h4" "reached h4 g'" "loads_ok e g'"
    by (rule encode_states [OF assms(1,2)])
  from second.traverse_covers [OF h(5) _ assms(3)] reachedD(1) [OF h(3)] h(4) obtain k k' where
    k: "loads_reached e h3 k" "processRecord cfg e r k = Some k'" "loads_reached e k' h4" by (auto simp: pass_def)
  have ok: "gen_ok k" using k(1) by (auto simp: loads_reached_def dest: reachedD)
  have "reached k k'" by (rule postD [OF processRecord_ok [OF ok] k(2)])
  moreover have "reached k' g'" using k(3) h(7) by (auto simp: loads_reached_def intro: reached_trans)
  ultimately show ?thesis using ok k(2) by blast
qed

end
