(* ===== verification/GenLoads.thy ===== *)
theory GenLoads
  imports GenTraverse
begin

section \<open>What a load reads in a solution (loadrf.cc)\<close>

text \<open>
  The memory semantics of the encoding: in every model of its clauses, a load that executes reads
  an executed store of the stores it may read from, which precedes it and has its address, and no
  executed store of that address among the conflicting ones comes between the two.
\<close>

subsection \<open>The state of an operation in a solution\<close>

definition vars_of :: "(slset \<Rightarrow> rid \<Rightarrow> constraint list option) \<Rightarrow> cgen \<Rightarrow> nat \<Rightarrow> rid \<Rightarrow> constraint list option" where
  "vars_of table g i r = Option.bind (slheap g i) (\<lambda>s. table s r)"

definition bits_of :: "(slset \<Rightarrow> rid \<Rightarrow> constraint list option) \<Rightarrow> cgen \<Rightarrow> nat \<Rightarrow> (nat \<Rightarrow> bool) \<Rightarrow> rid \<Rightarrow> bool list option" where
  "bits_of table g i \<sigma> r = map_option (map (eval \<sigma>)) (vars_of table g i r)"

abbreviation address_bits :: "cgen \<Rightarrow> nat \<Rightarrow> (nat \<Rightarrow> bool) \<Rightarrow> rid \<Rightarrow> bool list option" where
  "address_bits \<equiv> bits_of addrvars"

abbreviation value_bits :: "cgen \<Rightarrow> nat \<Rightarrow> (nat \<Rightarrow> bool) \<Rightarrow> rid \<Rightarrow> bool list option" where
  "value_bits \<equiv> bits_of valvars"

text \<open>A read-modify-write has the value it reads apart from the value it writes.\<close>

definition read_table :: "execution \<Rightarrow> rid \<Rightarrow> slset \<Rightarrow> rid \<Rightarrow> constraint list option" where
  "read_table e r = (if event (rec_of e r) = RMW then valrmwrvars else valvars)"

definition read_bits :: "execution \<Rightarrow> cgen \<Rightarrow> nat \<Rightarrow> (nat \<Rightarrow> bool) \<Rightarrow> rid \<Rightarrow> bool list option" where
  "read_bits e g i \<sigma> r = bits_of (read_table e r) g i \<sigma> r"

definition executes :: "execution \<Rightarrow> cgen \<Rightarrow> (nat \<Rightarrow> bool) \<Rightarrow> rid \<Rightarrow> bool" where
  "executes e g \<sigma> r \<longleftrightarrow> (case getExecutionConstraint e r g of None \<Rightarrow> False | Some c \<Rightarrow> eval \<sigma> c)"

definition reads_from :: "config \<Rightarrow> execution \<Rightarrow> cgen \<Rightarrow> nat \<Rightarrow> (nat \<Rightarrow> bool) \<Rightarrow> rid \<Rightarrow> rid \<Rightarrow> bool" where
  "reads_from cfg e g i \<sigma> load store \<longleftrightarrow>
     (\<exists>bs. read_bits e g i \<sigma> load = Some bs \<and> value_bits g i \<sigma> store = Some bs) \<and>
     (\<exists>as. address_bits g i \<sigma> load = Some as \<and> address_bits g i \<sigma> store = Some as) \<and>
     executes e g \<sigma> store \<and> prec cfg e g \<sigma> store load"

definition overwrites :: "config \<Rightarrow> execution \<Rightarrow> cgen \<Rightarrow> nat \<Rightarrow> (nat \<Rightarrow> bool) \<Rightarrow> rid \<Rightarrow> rid \<Rightarrow> rid \<Rightarrow> bool" where
  "overwrites cfg e g i \<sigma> load store c \<longleftrightarrow>
     executes e g \<sigma> c \<and> prec cfg e g \<sigma> store c \<and> prec cfg e g \<sigma> c load \<and>
     address_bits g i \<sigma> c = address_bits g i \<sigma> load"

subsection \<open>Stability\<close>

lemma fixed_tables:
  assumes "fixed h = fixed g"
  shows "rpt h = rpt g" and "branchtable h = branchtable g" and "execcondtable h = execcondtable g"
    and "storeloadtable h = storeloadtable g"
  using assms by (simp_all add: fixed_def)

lemma execution_fixed:
  assumes "fixed h = fixed g"
  shows "getExecutionConstraint e r h = getExecutionConstraint e r g"
  unfolding getExecutionConstraint_def direction_def execcond_def fixed_tables [OF assms] ..

lemma executes_fixed:
  assumes "fixed h = fixed g"
  shows "executes e h = executes e g"
  by (intro ext) (simp only: executes_def execution_fixed [OF assms])

lemma subsumes_fixed:
  assumes "fixed h = fixed g"
  shows "subsumesExecutionConstraint cfg e q r h = subsumesExecutionConstraint cfg e q r g"
  unfolding subsumesExecutionConstraint_def execcond_def fixed_tables [OF assms]
    order_fixed [OF fixed_tables(1) [OF assms]] ..

lemma conflicts_fixed:
  assumes "fixed h = fixed g"
  shows "computeConflictSet cfg e store load srs h = computeConflictSet cfg e store load srs g"
  unfolding computeConflictSet_def redundant_def hides_def surely_ordered_def subsumes_fixed [OF assms]
    order_fixed [OF fixed_tables(1) [OF assms]] ..

lemma group_fixed:
  assumes "fixed h = fixed g"
  shows "getStoreLoadSet e r h = getStoreLoadSet e r g"
  unfolding getStoreLoadSet_def fixed_tables [OF assms] ..

lemma reached_stable:
  assumes "reached h g"
  shows "executes e h = executes e g" and "prec cfg e h = prec cfg e g"
    and "computeConflictSet cfg e store load srs h = computeConflictSet cfg e store load srs g"
    and "getStoreLoadSet e r h = getStoreLoadSet e r g"
    and "getOrderConstraint cfg e a b h = getOrderConstraint cfg e a b g"
    and "getExecutionConstraint e r h = getExecutionConstraint e r g"
proof -
  have f: "fixed h = fixed g" using reached_fixed [OF assms] by (rule sym)
  show "executes e h = executes e g" "prec cfg e h = prec cfg e g"
    "computeConflictSet cfg e store load srs h = computeConflictSet cfg e store load srs g"
    "getStoreLoadSet e r h = getStoreLoadSet e r g"
    "getOrderConstraint cfg e a b h = getOrderConstraint cfg e a b g"
    "getExecutionConstraint e r h = getExecutionConstraint e r g"
    by (rule executes_fixed [OF f] prec_fixed [OF fixed_tables(1) [OF f]] conflicts_fixed [OF f] group_fixed [OF f]
      order_fixed [OF fixed_tables(1) [OF f]] execution_fixed [OF f])+
qed

lemma vars_stable:
  assumes "reached h g"
  shows "vars_of addrvars h i r = Some vs \<Longrightarrow> vars_of addrvars g i r = Some vs"
    and "vars_of valvars h i r = Some vs \<Longrightarrow> vars_of valvars g i r = Some vs"
    and "vars_of (read_table e q) h i r = Some vs \<Longrightarrow> vars_of (read_table e q) g i r = Some vs"
proof -
  have rel: "rel_option sls_grows (slheap h i) (slheap g i)" using assms by (simp add: reached_def grows_def)
  have step: "vars_of table g i r = Some vs"
    if b: "vars_of table h i r = Some vs" and t: "\<And>s s'. sls_grows s s' \<Longrightarrow> table s \<subseteq>\<^sub>m table s'" for table
  proof -
    from b obtain s where s: "slheap h i = Some s" "table s r = Some vs" by (auto simp: vars_of_def do_simps)
    from rel s(1) obtain s' where s': "slheap g i = Some s'" "sls_grows s s'" by (auto simp: option_rel_Some1)
    from t [OF s'(2)] s(2) have "table s' r = Some vs" by (auto simp: map_le_def dom_def)
    with s' show ?thesis by (simp add: vars_of_def)
  qed
  note g = sls_grows_def [THEN iffD1]
  show "vars_of addrvars h i r = Some vs \<Longrightarrow> vars_of addrvars g i r = Some vs" by (erule step) (auto dest: g)
  show "vars_of valvars h i r = Some vs \<Longrightarrow> vars_of valvars g i r = Some vs" by (erule step) (auto dest: g)
  show "vars_of (read_table e q) h i r = Some vs \<Longrightarrow> vars_of (read_table e q) g i r = Some vs"
    by (erule step) (auto dest: g simp: read_table_def)
qed

lemma vars_length:
  assumes "gen_ok g"
  shows "vars_of addrvars g i r = Some v \<Longrightarrow> vars_of addrvars g i q = Some w \<Longrightarrow> length v = length w"
    and "vars_of (read_table e p) g i r = Some v \<Longrightarrow> vars_of valvars g i q = Some w \<Longrightarrow> length v = length w"
proof -
  have ok: "sls_vars_ok g s" if "slheap g i = Some s" for s by (rule gen_okD(6) [OF assms that])
  have a: "addrencodings s = Some (length v)" if "slheap g i = Some s" "addrvars s r = Some v" for s r v
    using ok [OF that(1)] that(2) unfolding sls_vars_ok_def by blast
  have b: "valencodings s = Some (length v)"
    if "slheap g i = Some s" "valvars s r = Some v \<or> valrmwrvars s r = Some v" for s r v
    using ok [OF that(1)] that(2) unfolding sls_vars_ok_def by blast
  show "vars_of addrvars g i r = Some v \<Longrightarrow> vars_of addrvars g i q = Some w \<Longrightarrow> length v = length w"
    using a [of _ r v] a [of _ q w] by (cases "slheap g i") (auto simp: vars_of_def)
  show "vars_of (read_table e p) g i r = Some v \<Longrightarrow> vars_of valvars g i q = Some w \<Longrightarrow> length v = length w"
    using b [of _ q w] b [of _ r v] by (cases "slheap g i") (auto simp: vars_of_def read_table_def split: if_splits)
qed

text \<open>The variables that a request returns are those of the operation from then on.\<close>

lemma getVars_table:
  assumes "gen_ok g"
  shows "getAddrVars i r g = Some (vs, h) \<Longrightarrow> reached g h \<and> vars_of addrvars h i r = Some vs \<and> vars_known vs h"
    and "getValVars i r g = Some (vs, h) \<Longrightarrow> reached g h \<and> vars_of valvars h i r = Some vs \<and> vars_known vs h"
    and "(if event (rec_of e r) = RMW then getRMWRValVars i r g else getValVars i r g) = Some (vs, h) \<Longrightarrow>
      reached g h \<and> vars_of (read_table e r) h i r = Some vs \<and> vars_known vs h"
  using getAddrVars_grows [OF _ assms, of i r vs h] getValVars_grows [OF _ assms, of i r vs h]
    getRMWRValVars_grows [OF _ assms, of i r vs h]
  by (auto simp: vars_of_def vars_known_def isvar_def read_table_def split: if_splits)

lemma mayread_stable: "reached h g \<Longrightarrow> cg_loadtable h load = Some srs \<Longrightarrow> cg_loadtable g load = Some srs"
  by (auto simp: reached_def grows_def map_le_def dom_def)

subsection \<open>Reading\<close>

lemma addConstraint_says:
  assumes "addConstraint (IMPLIES l r) h = Some h'" and "gen_ok h" and "imp_free l \<and> known h l" and "imp_free r \<and> known h r"
    and "reached h' g" and "models \<sigma> g"
  shows "reached h h'" and "eval \<sigma> l \<Longrightarrow> eval \<sigma> r"
proof -
  have "known h (IMPLIES l r)" using assms(3,4) by simp
  from addConstraint_grows [OF assms(2,1) this] show r: "reached h h'" by (simp add: reached_def)
  have "models \<sigma> h'" by (rule reached_models [OF assms(5,6) reachedD(1) [OF r]])
  moreover have "good (IMPLIES l r)" using assms(3,4) by (intro good_IMPLIES_pok [where g = h]) auto
  ultimately show "eval \<sigma> l \<Longrightarrow> eval \<sigma> r" using addConstraint_models [OF assms(1) _ assms(2)] by simp
qed

lemma rf_conflict_meaning:
  assumes run: "rf_conflict cfg e load rf k store c h = Some h'" and ok: "gen_ok h"
    and to: "reached h' g" "models \<sigma> g" "\<not> TSO cfg"
    and k: "vars_known (rf_vars rf) h" "eval \<sigma> (generateConstraint (rf_vars rf) (of_nat k))"
    and l: "vars_known (loadaddrvars rf) h" "vars_of addrvars h (rf_sls rf) load = Some (loadaddrvars rf)"
  shows "\<not> overwrites cfg e g (rf_sls rf) \<sigma> load store c"
proof
  assume o: "overwrites cfg e g (rf_sls rf) \<sigma> load store c"
  let ?i = "rf_sls rf"
  from run obtain vs h1 c1 where h1: "getAddrVars ?i c h = Some (vs, h1)" and c1: "getOrderConstraint cfg e store c h1 = Some c1"
    by (auto simp: rf_conflict_def do_simps)
  note V = getVars_table(1) [OF ok h1]
  have r: "reached h h'" by (rule postD [OF rf_conflict_ok [OF ok k(1) l(1)] run])
  have rg: "reached h g" by (rule reached_trans [OF r to(1)])
  have fx: "fixed h1 = fixed g" using reached_fixed [of h h1] reached_fixed [OF rg] V by simp
  have p: "prec cfg e g \<sigma> a b \<longleftrightarrow> eval \<sigma> d" if "getOrderConstraint cfg e a b h1 = Some d" for a b d
    using that order_fixed [OF fixed_tables(1) [OF fx]] by (simp add: prec_def)
  have e1: "eval \<sigma> c1" using p [OF c1] o by (simp add: overwrites_def)
  then have nf: "\<not> isFalse c1" by (cases c1) auto
  from run h1 c1 nf obtain c2 where c2: "getOrderConstraint cfg e c load h1 = Some c2"
    by (auto simp: rf_conflict_def do_simps rf_order_def to(3) split: if_splits)
  have e2: "eval \<sigma> c2" using p [OF c2] o by (simp add: overwrites_def)
  then have nf2: "\<not> isFalse c2" by (cases c2) auto
  from run h1 c1 c2 nf nf2 obtain ex where ex: "getExecutionConstraint e c h1 = Some ex"
    and a: "addConstraint (IMPLIES (AND [c1, c2, generateConstraint (rf_vars rf) (of_nat k), ex])
       (negate (generateEquivConstraints (loadaddrvars rf) vs))) h1 = Some h'"
    by (auto simp: rf_conflict_def do_simps rf_order_def to(3) Let_def)
  have ok1: "gen_ok h1" using V reachedD(1) by blast
  have kn: "vars_known (rf_vars rf) h1" "vars_known (loadaddrvars rf) h1" "vars_known vs h1"
    using k(1) l(1) V reached_known [of h h1] by auto
  have la: "vars_of addrvars h1 ?i load = Some (loadaddrvars rf)" using vars_stable(1) [OF _ l(2)] V by blast
  have len: "length (loadaddrvars rf) = length vs" using vars_length(1) [OF ok1 la] V by blast
  note lits = vars_knownD(2) [OF kn(2)] vars_knownD(2) [OF kn(3)]
  have m: "imp_free (AND [c1, c2, generateConstraint (rf_vars rf) (of_nat k), ex]) \<and>
      known h1 (AND [c1, c2, generateConstraint (rf_vars rf) (of_nat k), ex])"
    using getOrderConstraint_pok [OF c1 ok1] getOrderConstraint_pok [OF c2 ok1] generateConstraint_pok [OF kn(1)]
      getExecutionConstraint_pok [OF ex ok1] by simp
  have n: "imp_free (negate (generateEquivConstraints (loadaddrvars rf) vs)) \<and>
      known h1 (negate (generateEquivConstraints (loadaddrvars rf) vs))"
    using generateEquivConstraints_shape [OF len lits] kn by simp
  note A = addConstraint_says [OF a ok1 m n to(1,2)]
  have "eval \<sigma> ex" using o execution_fixed [OF fx] ex by (simp add: overwrites_def executes_def)
  with A(2) e1 e2 k(2) have "\<not> eval \<sigma> (generateEquivConstraints (loadaddrvars rf) vs)"
    using eval_negate [OF generateEquivConstraints_shape(1) [OF len lits]] by simp
  then have ne: "map (eval \<sigma>) (loadaddrvars rf) \<noteq> map (eval \<sigma>) vs"
    using generateEquivConstraints_eval [OF len lits] by simp
  have r1: "reached h1 g" by (rule reached_trans [OF A(1) to(1)])
  have "vars_of addrvars h1 ?i c = Some vs" using V by blast
  with ne o vars_stable(1) [OF r1 la] vars_stable(1) [OF r1 this] show False
    by (simp add: overwrites_def bits_of_def)
qed

text \<open>The conflicting stores: all that may be read, or what is left after pruning.\<close>

definition conflicts :: "config \<Rightarrow> execution \<Rightarrow> cgen \<Rightarrow> rid \<Rightarrow> rid \<Rightarrow> rid list \<Rightarrow> rid set" where
  "conflicts cfg e g load store mrf =
     (case computeConflictSet cfg e store load mrf g of None \<Rightarrow> {} | Some None \<Rightarrow> set mrf | Some (Some cs) \<Rightarrow> set cs)"

lemma rf_store_meaning:
  assumes run: "rf_store cfg e load rf mrf (k, store) h = Some h'" and ok: "gen_ok h"
    and to: "reached h' g" "models \<sigma> g" "\<not> TSO cfg"
    and k: "vars_known (rf_vars rf) h" "eval \<sigma> (generateConstraint (rf_vars rf) (of_nat k))"
    and a: "vars_known (loadaddrvars rf) h" "vars_of addrvars h (rf_sls rf) load = Some (loadaddrvars rf)"
    and v: "vars_known (loadvalvars rf) h" "vars_of (read_table e load) h (rf_sls rf) load = Some (loadvalvars rf)"
  shows "reads_from cfg e g (rf_sls rf) \<sigma> load store"
    and "c \<in> conflicts cfg e g load store mrf \<Longrightarrow> \<not> overwrites cfg e g (rf_sls rf) \<sigma> load store c"
    and "computeConflictSet cfg e store load mrf g \<noteq> None"
proof -
  let ?i = "rf_sls rf" and ?rf = "if rf_vars rf = [] then TRUE else generateConstraint (rf_vars rf) (of_nat k)"
  from run to(3) obtain sv h1 o1 ex sa h2 h3 cs where h1: "getValVars ?i store h = Some (sv, h1)"
    and o1: "getOrderConstraint cfg e store load h1 = Some o1" and ex: "getExecutionConstraint e store h1 = Some ex"
    and h2: "getAddrVars ?i store h1 = Some (sa, h2)"
    and h3: "addConstraint (IMPLIES ?rf (AND [o1, generateEquivConstraints (loadvalvars rf) sv, ex,
        generateEquivConstraints (loadaddrvars rf) sa])) h2 = Some h3"
    and cs: "computeConflictSet cfg e store load mrf h3 = Some cs"
    and loop: "foldM (rf_conflict cfg e load rf k store) (case cs of None \<Rightarrow> mrf | Some cs \<Rightarrow> cs) h3 = Some h'"
    by (auto simp: rf_store_def do_simps Let_def rf_order_def)
  note V = getVars_table(2) [OF ok h1]
  have ok1: "gen_ok h1" using V by (blast dest: reachedD)
  note S = getVars_table(1) [OF ok1 h2]
  have ok2: "gen_ok h2" using S by (blast dest: reachedD)
  have r2: "reached h h2" using V S by (blast intro: reached_trans)
  have kn: "vars_known (rf_vars rf) h2" "vars_known (loadaddrvars rf) h2" "vars_known (loadvalvars rf) h2"
    "vars_known sv h2" "vars_known sa h2"
    using k(1) a(1) v(1) V S reached_known [OF r2] reached_known [of h1 h2] by auto
  have tab: "vars_of addrvars h2 ?i load = Some (loadaddrvars rf)"
    "vars_of (read_table e load) h2 ?i load = Some (loadvalvars rf)"
    "vars_of valvars h2 ?i store = Some sv" "vars_of addrvars h2 ?i store = Some sa"
    using vars_stable(1) [OF r2 a(2)] vars_stable(3) [OF r2 v(2)] vars_stable(2) [of h1 h2] V S by auto
  have len: "length (loadvalvars rf) = length sv" "length (loadaddrvars rf) = length sa"
    using vars_length(2) [OF ok2 tab(2,3)] vars_length(1) [OF ok2 tab(1,4)] .
  note lits = vars_knownD(2) [OF kn(3)] vars_knownD(2) [OF kn(4)] vars_knownD(2) [OF kn(2)] vars_knownD(2) [OF kn(5)]
  have p: "imp_free ?rf \<and> known h2 ?rf" using generateConstraint_pok [OF kn(1)] by simp
  have r12: "reached h1 h2" using S by blast
  have o2: "getOrderConstraint cfg e store load h2 = Some o1" "getExecutionConstraint e store h2 = Some ex"
    using o1 ex reached_stable(5,6) [OF r12] by simp_all
  have q: "imp_free (AND [o1, generateEquivConstraints (loadvalvars rf) sv, ex, generateEquivConstraints (loadaddrvars rf) sa]) \<and>
     known h2 (AND [o1, generateEquivConstraints (loadvalvars rf) sv, ex, generateEquivConstraints (loadaddrvars rf) sa])"
    using getOrderConstraint_pok [OF o2(1) ok2] getExecutionConstraint_pok [OF o2(2) ok2] kn
      generateEquivConstraints_shape(1) [OF len(1) lits(1,2)] generateEquivConstraints_shape(1) [OF len(2) lits(3,4)]
    by simp
  have "known h2 (IMPLIES ?rf (AND [o1, generateEquivConstraints (loadvalvars rf) sv, ex,
        generateEquivConstraints (loadaddrvars rf) sa]))" using p q by simp
  from addConstraint_grows [OF ok2 h3 this] have r3: "reached h2 h3" by (simp add: reached_def)
  have kn3: "vars_known (rf_vars rf) h3" "vars_known (loadaddrvars rf) h3"
    using kn(1,2) reached_known [OF r3] by auto
  have step: "post (rf_conflict cfg e load rf k store c m) (reached m)" if "reached h3 m" for c m
    using rf_conflict_ok [OF reachedD(1) [OF that]] kn3 reached_known [OF that] by blast
  have r3': "reached h3 h'"
    by (rule foldM_invariant [where I = "reached h3", OF loop reached_refl [OF reachedD(1) [OF r3]]])
      (use step in \<open>blast dest: postD intro: reached_trans\<close>)
  have r3g: "reached h3 g" by (rule reached_trans [OF r3' to(1)])
  note A = addConstraint_says [OF h3 ok2 p q r3g to(2)]
  have "eval \<sigma> ?rf" using k(2) by simp
  from A(2) [OF this] have E: "eval \<sigma> o1" "eval \<sigma> ex" "eval \<sigma> (generateEquivConstraints (loadvalvars rf) sv)"
    "eval \<sigma> (generateEquivConstraints (loadaddrvars rf) sa)" by simp_all
  have bits: "map (eval \<sigma>) (loadvalvars rf) = map (eval \<sigma>) sv" "map (eval \<sigma>) (loadaddrvars rf) = map (eval \<sigma>) sa"
    using E(3) generateEquivConstraints_eval [OF len(1) lits(1,2)] E(4) generateEquivConstraints_eval [OF len(2) lits(3,4)]
    by simp_all
  have r2g: "reached h2 g" by (rule reached_trans [OF r3 r3g])
  have "executes e g \<sigma> store" "prec cfg e g \<sigma> store load"
    using E o2 reached_stable(5,6) [OF r2g] by (simp_all add: executes_def prec_def)
  moreover note vars_stable(3) [OF r2g tab(2)] vars_stable(2) [OF r2g tab(3)] vars_stable(1) [OF r2g tab(1)]
    vars_stable(1) [OF r2g tab(4)]
  ultimately show "reads_from cfg e g ?i \<sigma> load store" by (simp add: reads_from_def read_bits_def bits_of_def bits)
  have cg: "computeConflictSet cfg e store load mrf g = Some cs" using cs reached_stable(3) [OF r3g] by simp
  then show "computeConflictSet cfg e store load mrf g \<noteq> None" by simp
  assume c: "c \<in> conflicts cfg e g load store mrf"
  with cg have c': "c \<in> set (case cs of None \<Rightarrow> mrf | Some cs \<Rightarrow> cs)" by (auto simp: conflicts_def split: option.splits)
  obtain m m' where m: "reached h3 m" "rf_conflict cfg e load rf k store c m = Some m'" "reached m' h'"
    by (rule foldM_step [OF loop reachedD(1) [OF r3] c']) (use step in blast)
  have kn4: "vars_known (rf_vars rf) m" "vars_known (loadaddrvars rf) m"
    using kn3 reached_known [OF m(1)] by auto
  have "vars_of addrvars m ?i load = Some (loadaddrvars rf)"
    by (rule vars_stable(1) [OF m(1)]) (rule vars_stable(1) [OF r3 tab(1)])
  from rf_conflict_meaning [OF m(2) reachedD(1) [OF m(1)] reached_trans [OF m(3) to(1)] to(2,3) kn4(1) k(2) kn4(2) this]
  show "\<not> overwrites cfg e g ?i \<sigma> load store c" .
qed

lemma numbits_bound:
  assumes "unat x < 2 ^ n"
  shows "numbits x \<le> n"
proof (cases "x = 0")
  case False
  have "take_bit n (unat x) = unat x" using assms by (simp add: take_bit_nat_eq_self)
  then have "take_bit n x = x" by (metis unsigned_take_bit_eq unsigned_word_eqI)
  moreover have "bit x (31 - builtin_clz x)" by (rule builtin_clz_bounds(2) [OF False])
  ultimately have "31 - builtin_clz x < n" by (metis bit_take_bit_iff)
  then show ?thesis using False builtin_clz_bounds(1) [OF False] by (simp add: numbits_def)
qed simp

text \<open>The code of a load that executes is the position of the store it reads.\<close>

lemma processLoadRF_reads:
  assumes run: "processLoadRF cfg e load h = Some h'" and ok: "gen_ok h"
    and to: "reached h' g" "models \<sigma> g" "\<not> TSO cfg" and ex: "executes e g \<sigma> load"
    and mrf: "cg_loadtable g load = Some mrf" "mrf \<noteq> []" "length mrf < 2 ^ 31"
  shows "\<exists>i store. getStoreLoadSet e load g = Some i \<and> store \<in> set mrf \<and> reads_from cfg e g i \<sigma> load store \<and>
    computeConflictSet cfg e store load mrf g \<noteq> None \<and>
    (\<forall>c \<in> conflicts cfg e g load store mrf. \<not> overwrites cfg e g i \<sigma> load store c)"
proof -
  from run obtain vars h1 where new: "new_LoadRF e load h = Some (vars, h1)"
    and gen: "rf_genConstraints cfg e load vars h1 = Some h'" by (auto simp: processLoadRF_def do_simps)
  from new obtain srs h0 where h0: "getMayReadFromSet e load h = Some (srs, h0)"
    and vs: "getArrayNewVars (numbits (of_nat (length srs))) h0 = (vars, h1)" by (auto simp: new_LoadRF_def do_simps)
  have r0: "reached h h0" by (rule getMayReadFromSet_grows [OF h0 ok])
  note N = getArrayNewVars_grows [OF reachedD(1) [OF r0] vs]
  have r01: "reached h0 h1" using N by (simp add: reached_def)
  have ok1: "gen_ok h1" using N by simp
  have kv: "vars_known vars h1" using N by (simp add: vars_known_def isvar_def)
  have rh: "reached h1 h'" by (rule postD [OF rf_genConstraints_ok [OF ok1 kv] gen])
  have rg: "reached h1 g" by (rule reached_trans [OF rh to(1)])
  have "cg_loadtable h0 load = Some srs" using getMayReadFromSet_result(1) [OF h0] by simp
  from mayread_stable [OF r01 this] have t1: "cg_loadtable h1 load = Some srs" .
  from mayread_stable [OF rg this] mrf(1) have srs: "srs = mrf" by simp
  from gen obtain srs2 h2 i n1 h3 n2 h4 lv h5 la h6 h7 exc where
    h2: "getMayReadFromSet e load h1 = Some (srs2, h2)" and i: "getStoreLoadSet e load h2 = Some i"
    and h3: "getNumValVars i h2 = Some (n1, h3)" and h4: "getNumAddrVars i h3 = Some (n2, h4)"
    and h5: "(if event (rec_of e load) = RMW then getRMWRValVars i load h4 else getValVars i load h4) = Some (lv, h5)"
    and h6: "getAddrVars i load h5 = Some (la, h6)"
    and h7: "foldM (rf_store cfg e load \<lparr> rf_sls = i, rf_vars = vars, loadvalvars = lv, loadaddrvars = la \<rparr> srs2)
        (enumerate 0 srs2) h6 = Some h7"
    and exc: "getExecutionConstraint e load h7 = Some exc"
    and last: "addConstraint (IMPLIES exc (generateLTConstraint vars (of_nat (length srs2)))) h7 = Some h'"
    by (auto simp: rf_genConstraints_def do_simps Let_def)
  let ?rf = "\<lparr> rf_sls = i, rf_vars = vars, loadvalvars = lv, loadaddrvars = la \<rparr>"
  have srs2: "srs2 = mrf" using getMayReadFromSet_result(2) [OF h2] t1 srs by simp
  have r12: "reached h1 h2" by (rule getMayReadFromSet_grows [OF h2 ok1])
  have r23: "reached h2 h3" using postD [OF getNum_gives(1) [OF reachedD(1) [OF r12]] h3] by simp
  have r34: "reached h3 h4" using postD [OF getNum_gives(2) [OF reachedD(1) [OF r23]] h4] by simp
  note L = getVars_table(3) [OF reachedD(1) [OF r34] h5]
  have ok5: "gen_ok h5" using L by (blast dest: reachedD)
  note A = getVars_table(1) [OF ok5 h6]
  have r56: "reached h5 h6" using A by blast
  have r16: "reached h1 h6" using r12 r23 r34 L A by (blast intro: reached_trans)
  have ok6: "gen_ok h6" by (rule reachedD(1) [OF r16])
  have kn6: "vars_known vars h6" "vars_known lv h6" "vars_known la h6"
    using kv L A reached_known [OF r16] reached_known [OF r56] by auto
  have tab6: "vars_of (read_table e load) h6 i load = Some lv" "vars_of addrvars h6 i load = Some la"
    using vars_stable(3) [OF r56] L A by auto
  have step: "post (rf_store cfg e load ?rf srs2 p m) (reached m)" if "reached h6 m" for p m
    by (rule rf_store_ok [OF reachedD(1) [OF that]]) (use kn6 reached_known [OF that] in auto)
  have r67: "reached h6 h7"
    by (rule foldM_invariant [where I = "reached h6", OF h7 reached_refl [OF ok6]])
      (use step in \<open>blast dest: postD intro: reached_trans\<close>)
  have ok7: "gen_ok h7" by (rule reachedD(1) [OF r67])
  have kn7: "vars_known vars h7" using kn6(1) reached_known [OF r67] by blast
  have lt: "imp_free (generateLTConstraint vars w) \<and> known h7 (generateLTConstraint vars w)" for w
    using generateLTConstraint_shape(1) [OF vars_knownD(2) [OF kn7]] kn7 by simp
  note S = addConstraint_says [OF last ok7 getExecutionConstraint_pok [OF exc ok7] lt to(1,2)]
  have r7g: "reached h7 g" by (rule reached_trans [OF S(1) to(1)])
  have "eval \<sigma> exc" using ex exc reached_stable(6) [OF r7g] by (simp add: executes_def)
  from S(2) [OF this] have below: "eval \<sigma> (generateLTConstraint vars (of_nat (length mrf)))" by (simp add: srs2)
  let ?n = "of_nat (length mrf) :: uint32"
  have un: "unat ?n = length mrf" using mrf(3) by (simp add: unsigned_of_nat take_bit_nat_eq_self)
  have lv: "length vars = numbits ?n" using N by (simp add: srs)
  then have lv31: "length vars \<le> 31" using numbits_bound [of ?n 31] mrf(3) by (simp add: un)
  have fit: "length mrf < 2 ^ length vars" using unat_less_numbits [of ?n] by (simp add: lv un)
  have lits: "list_all is_literal vars" by (rule vars_knownD(2) [OF kv])
  have nz: "?n \<noteq> 0" using un mrf(2) by (metis length_0_conv unat_0)
  define k where "k = unat (spelled \<sigma> vars)"
  have "unat ?n \<le> 2 ^ length vars" using fit un by simp
  moreover have "length vars < 32" using lv31 by simp
  ultimately have "unat (spelled \<sigma> vars) < unat ?n" using generateLTConstraint_eval [OF lits _ nz] below by blast
  then have k: "k < length mrf" by (simp add: k_def un)
  have "spelled \<sigma> vars = of_nat k" by (simp add: k_def)
  moreover have "unat (of_nat k :: uint32) < 2 ^ length vars" using unat_spelled_less [of vars \<sigma>] lv31 by (simp add: k_def)
  moreover have "length vars \<le> 32" using lv31 by simp
  ultimately have code: "eval \<sigma> (generateConstraint vars (of_nat k))" using generateConstraint_eval [OF lits] by simp
  have mem: "(k, mrf ! k) \<in> set (enumerate 0 srs2)" using k by (simp add: srs2 in_set_enumerate_eq)
  obtain m m' where m: "reached h6 m" "rf_store cfg e load ?rf srs2 (k, mrf ! k) m = Some m'" "reached m' h7"
    by (rule foldM_step [OF h7 ok6 mem]) (use step in blast)
  have knm: "vars_known (rf_vars ?rf) m" "vars_known (loadaddrvars ?rf) m" "vars_known (loadvalvars ?rf) m"
    using kn6 reached_known [OF m(1)] by auto
  have tabm: "vars_of addrvars m (rf_sls ?rf) load = Some (loadaddrvars ?rf)"
    "vars_of (read_table e load) m (rf_sls ?rf) load = Some (loadvalvars ?rf)"
    using vars_stable(1) [OF m(1) tab6(2)] vars_stable(3) [OF m(1) tab6(1)] by simp_all
  have cm: "eval \<sigma> (generateConstraint (rf_vars ?rf) (of_nat k))" using code by simp
  note R = rf_store_meaning [OF m(2) reachedD(1) [OF m(1)] reached_trans [OF m(3) r7g] to(2,3) knm(1) cm knm(2) tabm(1)
      knm(3) tabm(2)]
  have "reached h2 g" using r23 r34 L r56 r67 r7g by (blast intro: reached_trans)
  then have "getStoreLoadSet e load g = Some i" using i reached_stable(4) [of h2 g e load] by simp
  then show ?thesis using R k by (intro exI [of _ i] exI [of _ "mrf ! k"]) (auto simp: srs2)
qed

subsection \<open>Every load of the execution\<close>

text \<open>The operations that read begin with the choice of a store.\<close>

lemma loadrf_first:
  assumes "gen_ok g" and "\<And>k. reached k k \<Longrightarrow> post (f k) (reached k)"
  shows "post (Option.bind (processLoadRF cfg e r g) f) (\<lambda>h. \<exists>k. processLoadRF cfg e r g = Some k \<and> reached k h)"
proof (rule postI)
  fix h assume "Option.bind (processLoadRF cfg e r g) f = Some h"
  then obtain k where k: "processLoadRF cfg e r g = Some k" "f k = Some h" by (auto simp: do_simps)
  have "gen_ok k" by (rule reachedD(1) [OF postD [OF processLoadRF_ok [OF assms(1)] k(1)]])
  from postD [OF assms(2) [OF reached_refl [OF this]] k(2)] k(1)
  show "\<exists>k. processLoadRF cfg e r g = Some k \<and> reached k h" by blast
qed

lemma reading_first:
  assumes "gen_ok g"
  shows "post (processLoad cfg e r g) (\<lambda>h. \<exists>k. processLoadRF cfg e r g = Some k \<and> reached k h)"
    and "post (processCAS cfg e r g) (\<lambda>h. \<exists>k. processLoadRF cfg e r g = Some k \<and> reached k h)"
    and "post (processEXC cfg e r g) (\<lambda>h. \<exists>k. processLoadRF cfg e r g = Some k \<and> reached k h)"
    and "post (processAdd cfg e r g) (\<lambda>h. \<exists>k. processLoadRF cfg e r g = Some k \<and> reached k h)"
proof -
  show "post (processLoad cfg e r g) (\<lambda>h. \<exists>k. processLoadRF cfg e r g = Some k \<and> reached k h)"
    unfolding processLoad_def by (rule loadrf_first [OF assms])
      (rule post_rules | rule post_struct | rule post_prod | rule post_any | assumption | simp add: opt_pok_def)+
  show "post (processCAS cfg e r g) (\<lambda>h. \<exists>k. processLoadRF cfg e r g = Some k \<and> reached k h)"
    unfolding processCAS_def Let_def by (rule loadrf_first [OF assms])
      (rule post_rules | rule post_struct | rule post_prod | rule post_any | assumption | simp add: opt_pok_def)+
  show "post (processEXC cfg e r g) (\<lambda>h. \<exists>k. processLoadRF cfg e r g = Some k \<and> reached k h)"
    unfolding processEXC_def by (rule loadrf_first [OF assms])
      (rule post_rules | rule post_struct | rule post_prod | rule post_any | assumption | simp add: opt_pok_def)+
  show "post (processAdd cfg e r g) (\<lambda>h. \<exists>k. processLoadRF cfg e r g = Some k \<and> reached k h)"
    unfolding processAdd_def Let_def [of "getNewVar _"] by (rule loadrf_first [OF assms])
      (rule post_rules | rule post_struct | rule post_prod | rule post_any | assumption | simp add: opt_pok_def)+
qed

lemma processRecord_reads:
  assumes "processRecord cfg e r g = Some h" and "gen_ok g" and "\<not> TSO cfg"
    and "event (rec_of e r) = LOAD \<or> event (rec_of e r) = RMW"
  shows "\<exists>k. processLoadRF cfg e r g = Some k \<and> reached k h"
proof (cases "event (rec_of e r) = LOAD")
  case True
  with assms(1) have "processLoad cfg e r g = Some h" by (simp add: processRecord_def)
  then show ?thesis by (rule postD [OF reading_first(1) [OF assms(2)]])
next
  case False
  with assms(1,4) have "processRMW cfg e r g = Some h" by (simp add: processRecord_def)
  then obtain aop where "(case aop of ADD \<Rightarrow> processAdd cfg e r g | CAS \<Rightarrow> processCAS cfg e r g
      | EXC \<Rightarrow> processEXC cfg e r g) = Some h" using assms(3) by (auto simp: processRMW_def do_simps)
  then show ?thesis
    using postD [OF reading_first(2) [OF assms(2)]] postD [OF reading_first(3) [OF assms(2)]]
      postD [OF reading_first(4) [OF assms(2)]] by (cases aop) auto
qed

lemma encode_load_reads:
  assumes "encode cfg e g = Some g'" and "start_ok g" and "\<not> TSO cfg" and "models \<sigma> g'"
    and "linked cfg e load" and "event (rec_of e load) = LOAD \<or> event (rec_of e load) = RMW"
    and "executes e g' \<sigma> load" and "cg_loadtable g' load = Some mrf" and "mrf \<noteq> []" and "length mrf < 2 ^ 31"
  shows "\<exists>i store. getStoreLoadSet e load g' = Some i \<and> store \<in> set mrf \<and> reads_from cfg e g' i \<sigma> load store \<and>
    computeConflictSet cfg e store load mrf g' \<noteq> None \<and>
    (\<forall>c \<in> conflicts cfg e g' load store mrf. \<not> overwrites cfg e g' i \<sigma> load store c)"
proof -
  from encode_processed [OF assms(1,2,5)] obtain h h' where
    h: "gen_ok h" "processRecord cfg e load h = Some h'" "reached h' g'" by blast
  from processRecord_reads [OF h(2,1) assms(3,6)] obtain k where k: "processLoadRF cfg e load h = Some k" "reached k h'" by blast
  show ?thesis by (rule processLoadRF_reads [OF k(1) h(1) reached_trans [OF k(2) h(3)] assms(4,3,7-10)])
qed

end
