(* ===== verification/GenGuards.thy ===== *)
theory GenGuards
  imports GenLoads
begin

section \<open>Which operations execute in a solution (constgen.cc, branchrecord.cc)\<close>

text \<open>
  The execution conditions of the encoding follow the nesting of the branches: an operation that
  executes lies in the chosen direction of every branch around it, and these branches execute. The
  theory derives what the test \<open>subsumesExecutionConstraint\<close> of the code is for: when it holds,
  execution of one operation implies that of the other, if every jump that the second is conditional
  on and that surely precedes the first is one the first is conditional on as well.
\<close>

subsection \<open>The branches around an operation\<close>

inductive encloses :: "execution \<Rightarrow> rid \<Rightarrow> vid \<Rightarrow> bool" for e r where
  encloses_own: "branch (rec_of e r) = Some b \<Longrightarrow> encloses e r b"
| encloses_outer: "encloses e r b \<Longrightarrow> branch (rec_of e (v_record (val_of e b))) = Some b' \<Longrightarrow> encloses e r b'"

text \<open>Two operations in different directions of a common branch.\<close>

definition apart :: "execution \<Rightarrow> rid \<Rightarrow> rid \<Rightarrow> bool" where
  "apart e x y \<longleftrightarrow> (\<exists>b b'. encloses e x b \<and> encloses e y b' \<and> v_record (val_of e b) = v_record (val_of e b') \<and> b \<noteq> b')"

text \<open>All branches around an operation are recorded.\<close>

definition branch_recorded :: "config \<Rightarrow> execution \<Rightarrow> rid \<Rightarrow> bool" where
  "branch_recorded cfg e p \<longleftrightarrow> linked cfg e p \<and> event (rec_of e p) = BRANCHDIR \<and>
     distinct (valuevector (rec_of e p)) \<and> length (valuevector (rec_of e p)) < 2 ^ 30"

definition guarded :: "config \<Rightarrow> execution \<Rightarrow> rid \<Rightarrow> bool" where
  "guarded cfg e r \<longleftrightarrow> (\<forall>b. encloses e r b \<longrightarrow> branch_recorded cfg e (v_record (val_of e b)))"

text \<open>The jumps an operation, or a branch around it, is conditional on.\<close>

definition skips :: "execution \<Rightarrow> cgen \<Rightarrow> rid \<Rightarrow> rid \<Rightarrow> bool" where
  "skips e g r q \<longleftrightarrow> q \<in> set (execcond g r) \<or> (\<exists>b. encloses e r b \<and> q \<in> set (execcond g (v_record (val_of e b))))"

subsection \<open>The parts of an execution condition\<close>

definition taken :: "execution \<Rightarrow> cgen \<Rightarrow> (nat \<Rightarrow> bool) \<Rightarrow> vid \<Rightarrow> bool" where
  "taken e g \<sigma> b \<longleftrightarrow> (\<exists>c. direction e b g = Some c \<and> eval \<sigma> c)"

definition jumps :: "execution \<Rightarrow> cgen \<Rightarrow> (nat \<Rightarrow> bool) \<Rightarrow> rid \<Rightarrow> bool" where
  "jumps e g \<sigma> q \<longleftrightarrow> \<not> (\<exists>b c. branch (rec_of e q) = Some b \<and> direction e b g = Some c \<and> \<not> eval \<sigma> c)"

lemma map_opt_defined: "(\<exists>ys. map_opt f xs = Some ys) \<longleftrightarrow> (\<forall>x \<in> set xs. f x \<noteq> None)"
  by (induction xs) (auto simp: do_simps)

lemma map_opt_all:
  assumes "map_opt f xs = Some ys" and "\<And>x y. x \<in> set xs \<Longrightarrow> f x = Some y \<Longrightarrow> P y \<longleftrightarrow> Q x"
  shows "(\<forall>y \<in> set ys. P y) \<longleftrightarrow> (\<forall>x \<in> set xs. Q x)"
  using assms
proof (induction xs arbitrary: ys)
  case (Cons x xs)
  from Cons.prems(1) obtain z zs where z: "f x = Some z" "map_opt f xs = Some zs" "ys = z # zs" by (auto simp: do_simps)
  have "(\<forall>y \<in> set zs. P y) \<longleftrightarrow> (\<forall>x \<in> set xs. Q x)" by (rule Cons.IH [OF z(2)]) (simp add: Cons.prems(2))
  moreover have "P z \<longleftrightarrow> Q x" by (rule Cons.prems(2) [OF _ z(1)]) simp
  ultimately show ?case by (simp add: z(3))
qed simp

lemma eval_conj: "eval \<sigma> (case cs of [] \<Rightarrow> TRUE | [c] \<Rightarrow> c | array \<Rightarrow> AND array) \<longleftrightarrow> (\<forall>c \<in> set cs. eval \<sigma> c)"
  by (auto split: list.split)

lemma executes_parts:
  assumes "gen_ok g"
  shows "executes e g \<sigma> r \<longleftrightarrow>
    (\<forall>q \<in> set (execcond g r). \<not> jumps e g \<sigma> q) \<and> (\<forall>b. branch (rec_of e r) = Some b \<longrightarrow> taken e g \<sigma> b)"
proof -
  let ?f = "\<lambda>q. do { b \<leftarrow> branch (rec_of e q); c \<leftarrow> direction e b g; Some (negate c) }"
  let ?own = "case branch (rec_of e r) of None \<Rightarrow> Some [] | Some b \<Rightarrow> map_option (\<lambda>c. [c]) (direction e b g)"
  have neg: "eval \<sigma> (negate c) \<longleftrightarrow> \<not> eval \<sigma> c" if "direction e b g = Some c" for b c
    using direction_pok [OF that assms] by (intro eval_negate) simp
  have f: "jumps e g \<sigma> q \<longleftrightarrow> \<not> (\<exists>c. ?f q = Some c \<and> eval \<sigma> c)" for q
    using neg by (auto simp: jumps_def do_simps)
  have own: "(\<forall>b. branch (rec_of e r) = Some b \<longrightarrow> taken e g \<sigma> b) \<longleftrightarrow> (\<exists>cs. ?own = Some cs \<and> (\<forall>c \<in> set cs. eval \<sigma> c))"
    by (auto simp: taken_def split: option.splits)
  have away: "(\<forall>q \<in> set (execcond g r). \<not> jumps e g \<sigma> q) \<longleftrightarrow>
      (\<exists>cs. map_opt ?f (execcond g r) = Some cs \<and> (\<forall>c \<in> set cs. eval \<sigma> c))"
  proof (cases "map_opt ?f (execcond g r)")
    case None
    then show ?thesis using map_opt_defined [of ?f "execcond g r"] f by fastforce
  next
    case (Some cs)
    have "(\<forall>c \<in> set cs. eval \<sigma> c) \<longleftrightarrow> (\<forall>q \<in> set (execcond g r). \<not> jumps e g \<sigma> q)"
      by (rule map_opt_all [OF Some]) (simp add: f)
    with Some show ?thesis by simp
  qed
  have "executes e g \<sigma> r \<longleftrightarrow> (\<exists>away own. map_opt ?f (execcond g r) = Some away \<and> ?own = Some own \<and>
      (\<forall>c \<in> set (away @ own). eval \<sigma> c))"
    unfolding executes_def getExecutionConstraint_def
    by (cases "map_opt ?f (execcond g r)"; cases ?own) (simp_all add: eval_conj)
  then show ?thesis unfolding away own by auto
qed

subsection \<open>The branches around an operation that executes\<close>

lemma branch_wf:
  assumes "gen_ok g" and "branches_sized e g" and "branchtable g p = Some br" and "branch_recorded cfg e p"
  shows "br_wf (hp e, br)"
proof -
  have b: "br_branch br = p"
    "length (br_vars br) = numbits (of_nat (branch_codes (numValues (hp e) p) (rec_len (rec_of e p)) (br_alwaysexecuted br)) - 1)"
    using assms(2,3) by (auto simp: branches_sized_def branch_sized_def)
  have v: "list_all is_var (br_vars br)"
    using gen_okD(7) [OF assms(1,3)] by (auto simp: list_all_iff isvar_def)
  have "branch_codes n m a \<le> n + 2" for n m a by (auto simp: branch_codes_def Let_def)
  from this [of "numValues (hp e) p" "rec_len (rec_of e p)" "br_alwaysexecuted br"] assms(4)
  have "branch_codes (numValues (hp e) p) (rec_len (rec_of e p)) (br_alwaysexecuted br) < 2 ^ 31"
    by (auto simp: branch_recorded_def numValues_def)
  with b v assms(4) show ?thesis by (simp add: br_wf_def branch_recorded_def Let_def)
qed

text \<open>The encoding as the lemmas below need it.\<close>

definition solved :: "config \<Rightarrow> execution \<Rightarrow> cgen \<Rightarrow> (nat \<Rightarrow> bool) \<Rightarrow> bool" where
  "solved cfg e g \<sigma> \<longleftrightarrow> \<not> TSO cfg \<and> models \<sigma> g \<and> (\<exists>g0. start_ok g0 \<and> encode cfg e g0 = Some g)"

lemma solvedD:
  assumes "solved cfg e g \<sigma>"
  shows "models \<sigma> g" and "gen_ok g" and "branches_sized e g" and "\<not> TSO cfg"
    and "linked cfg e r \<Longrightarrow> \<exists>h h'. gen_ok h \<and> processRecord cfg e r h = Some h' \<and> reached h h' \<and> reached h' g"
proof -
  from assms obtain g0 where g: "encode cfg e g0 = Some g" "start_ok g0" by (auto simp: solved_def)
  show "models \<sigma> g" "\<not> TSO cfg" using assms by (simp_all add: solved_def)
  show "branches_sized e g" by (rule encode_first_pass(2) [OF g])
  show "gen_ok g" using encode_states [OF g] reachedD(1) by metis
  show "linked cfg e r \<Longrightarrow> \<exists>h h'. gen_ok h \<and> processRecord cfg e r h = Some h' \<and> reached h h' \<and> reached h' g"
    by (rule encode_processed [OF g])
qed

text \<open>A branch with a chosen direction executes.\<close>

lemma taken_executes:
  assumes s: "solved cfg e g \<sigma>" and t: "taken e g \<sigma> b" and p: "p = v_record (val_of e b)" and rec: "branch_recorded cfg e p"
  shows "executes e g \<sigma> p"
proof (cases "isAlwaysExecuted e p g")
  case True
  then show ?thesis by (simp add: executes_def getExecutionConstraint_def isAlwaysExecuted_def)
next
  case False
  note S = solvedD [OF s]
  from S(5) [of p] rec obtain h h' where h: "gen_ok h" "processRecord cfg e p h = Some h'" "reached h h'" "reached h' g"
    by (auto simp: branch_recorded_def)
  have hg: "reached h g" by (rule reached_trans [OF h(3,4)])
  note fx = reached_fixed [OF hg]
  have f: "branchtable h = branchtable g" "execcondtable h = execcondtable g" using fx by (simp_all add: fixed_def)
  from h(2) rec have pb: "processBranch e p h = Some h'" by (simp add: processRecord_def branch_recorded_def)
  from t p obtain br c where br: "branchtable g p = Some br" "getBranch (hp e) br b = Some c" "eval \<sigma> c"
    by (auto simp: taken_def direction_def do_simps)
  define h1 where "h1 = (if numValues (hp e) p < rec_len (rec_of e p) then addBranchGoal p (getNewBranch br) h else h)"
  have fix1: "fixed h1 = fixed h" by (simp add: h1_def addBranchGoal_def addGoal_def fixed_def Let_def)
  have al: "\<not> isAlwaysExecuted e p h1"
    using False f fix1 by (simp add: isAlwaysExecuted_def execcond_def fixed_def)
  from pb obtain base h2 where base: "getExecutionConstraint e p h1 = Some base"
    and h2: "addConstraint (IMPLIES (getAnyBranch br) base) h1 = Some h2"
    and rest: "Option.bind (dep_src e p VC_BASEINDEX) (\<lambda>src. Option.bind src (\<lambda>val_record.
        foldM (branch_value e p br val_record) (valuevector (rec_of e p)) h2)) = Some h'"
    unfolding processBranch_def Let_def bind_eq_Some_conv using br(1) al
    by (auto simp: f h1_def [symmetric] do_simps)
  have kn: "vars_known (br_vars br) h" using gen_okD(7) [OF h(1)] br(1) f(1) by (auto simp: vars_known_def isvar_def)
  note lits = vars_knownD(2) [OF kn]
  have ng: "imp_free (getNewBranch br) \<and> known h (getNewBranch br)"
    using lits kn by (auto simp: getNewBranch_def list_all_iff vars_known_def is_literal_imp_free)
  have r1: "reached h h1"
    using addBranchGoal_reached(1) [OF reached_refl [OF h(1)]] ng reached_refl [OF h(1)] by (simp add: h1_def)
  note ok1 = reachedD(1) [OF r1]
  have any: "imp_free (getAnyBranch br) \<and> known h1 (getAnyBranch br)"
    using lits kn reached_known [OF r1] by (auto simp: getAnyBranch_def list_all_iff vars_known_def is_literal_imp_free)
  have pb: "imp_free base \<and> known h1 base" by (rule getExecutionConstraint_pok [OF base ok1])
  have "known h1 (IMPLIES (getAnyBranch br) base)" using any pb by simp
  from addConstraint_grows [OF ok1 h2 this] have r2: "reached h1 h2" by (simp add: reached_def)
  have kn2: "vars_known (br_vars br) h2" using kn reached_known [OF r1] reached_known [OF r2] by blast
  have "post (Option.bind (dep_src e p VC_BASEINDEX) (\<lambda>src. Option.bind src (\<lambda>val_record.
        foldM (branch_value e p br val_record) (valuevector (rec_of e p)) h2))) (reached h2)"
    using reached_refl [OF reachedD(1) [OF r2]] kn2
    by - (rule post_rules | rule post_struct | rule post_prod | rule post_any | assumption | simp)+
  from postD [OF this rest] have r3: "reached h2 h'" .
  have r2g: "reached h2 g" by (rule reached_trans [OF r3 h(4)])
  note A = addConstraint_says [OF h2 ok1 any pb r2g S(1)]
  have "eval \<sigma> (getAnyBranch br)" by (rule br_any [OF branch_wf [OF S(2,3) br(1) rec] br(2,3)])
  from A(2) [OF this] have "eval \<sigma> base" .
  moreover have "getExecutionConstraint e p g = Some base"
    using base reached_stable(6) [OF reached_trans [OF A(1) r2g]] by simp
  ultimately show ?thesis by (simp add: executes_def)
qed

lemma encloses_taken:
  assumes s: "solved cfg e g \<sigma>" and "executes e g \<sigma> r" and g: "guarded cfg e r" and "encloses e r b"
  shows "taken e g \<sigma> b \<and> executes e g \<sigma> (v_record (val_of e b))"
  using assms(4)
proof induction
  case (encloses_own b)
  from encloses_own assms(2) have "taken e g \<sigma> b" by (simp add: executes_parts [OF solvedD(2) [OF s]])
  with g encloses.encloses_own [OF encloses_own] show ?case by (auto simp: guarded_def intro: taken_executes [OF s])
next
  case (encloses_outer b b')
  then have "taken e g \<sigma> b'" by (simp add: executes_parts [OF solvedD(2) [OF s]])
  with g encloses.encloses_outer [OF encloses_outer(1,2)] show ?case by (auto simp: guarded_def intro: taken_executes [OF s])
qed

text \<open>Operations in different directions of a branch do not execute in one solution.\<close>

lemma taken_unique:
  assumes s: "solved cfg e g \<sigma>" and "taken e g \<sigma> b" and "taken e g \<sigma> b'"
    and p: "v_record (val_of e b) = p" "v_record (val_of e b') = p" and rec: "branch_recorded cfg e p"
  shows "b = b'"
proof -
  from assms(2,3) p obtain br c c' where br: "branchtable g p = Some br" "getBranch (hp e) br b = Some c" "eval \<sigma> c"
    "getBranch (hp e) br b' = Some c'" "eval \<sigma> c'" by (auto simp: taken_def direction_def do_simps)
  note wf = branch_wf [OF solvedD(2,3) [OF s] br(1) rec]
  from br_enc_eval [OF wf br(2), of \<sigma>] br_enc_eval [OF wf br(4), of \<sigma>] br(3,5) show ?thesis
    by (auto simp: getIndex_ptr_def split: if_splits intro: index_of_inj)
qed

lemma apart_not_both:
  assumes "solved cfg e g \<sigma>" and "executes e g \<sigma> x" and "executes e g \<sigma> y" and "guarded cfg e x" and "guarded cfg e y"
  shows "\<not> apart e x y"
proof
  assume "apart e x y"
  then obtain b b' where b: "encloses e x b" "encloses e y b'" "v_record (val_of e b) = v_record (val_of e b')" "b \<noteq> b'"
    by (auto simp: apart_def)
  from taken_unique [OF assms(1) _ _ b(3) refl] encloses_taken [OF assms(1,2,4) b(1)] encloses_taken [OF assms(1,3,5) b(2)]
    assms(5) b(2,4) show False by (auto simp: guarded_def)
qed

subsection \<open>Subsumption\<close>

lemma under_branch_encloses:
  assumes "under_branch e (branch (rec_of e r)) target = Some True"
  shows "encloses e r target"
proof -
  have "x = e \<longrightarrow> res \<longrightarrow> (\<forall>b. br = Some b \<longrightarrow> encloses e r b) \<longrightarrow> encloses e r t" if "under_branch x br t = Some res" for x br t res
  proof (rule under_branch.raw_induct [where P = "\<lambda>x br t res. x = e \<longrightarrow> res \<longrightarrow> (\<forall>b. br = Some b \<longrightarrow> encloses e r b) \<longrightarrow> encloses e r t", OF _ that], intro impI)
    fix f x br t res
    assume IH: "\<And>x br t res. f x br t = Some res \<Longrightarrow>
        x = e \<longrightarrow> res \<longrightarrow> (\<forall>b. br = Some b \<longrightarrow> encloses e r b) \<longrightarrow> encloses e r t"
      and run: "(case br of None \<Rightarrow> Some False
        | Some b \<Rightarrow> if b = t then Some True else f x (branch (rec_of x (v_record (val_of x b)))) t) = Some res"
      and x: "x = e" and res and enc: "\<forall>b. br = Some b \<longrightarrow> encloses e r b"
    from run \<open>res\<close> obtain b where b: "br = Some b" by (cases br) auto
    show "encloses e r t"
    proof (cases "b = t")
      case True
      with b enc show ?thesis by simp
    next
      case False
      with run b x have "f e (branch (rec_of e (v_record (val_of e b)))) t = Some res" by simp
      from IH [OF this] \<open>res\<close> enc b show ?thesis by (blast intro: encloses_outer)
    qed
  qed
  from this [OF assms] encloses_own [of e r] show ?thesis by blast
qed

lemma any_opt_False: "any_opt f xs = Some False \<Longrightarrow> x \<in> set xs \<Longrightarrow> f x = Some False"
  by (induction xs) (auto simp: do_simps split: if_splits)

text \<open>The code compares the jumps by their position alone; the third premise is what it relies on.\<close>

lemma subsumes_executes:
  assumes s: "solved cfg e g \<sigma>" and sub: "subsumesExecutionConstraint cfg e k c g = Some True"
    and j: "\<And>q. q \<in> set (execcond g k) \<Longrightarrow> getOrderConstraint cfg e q c g = Some TRUE \<Longrightarrow> skips e g c q"
    and ex: "executes e g \<sigma> c" and gd: "guarded cfg e c"
  shows "executes e g \<sigma> k"
proof -
  note ok = solvedD(2) [OF s]
  from sub have under: "(case branch (rec_of e k) of None \<Rightarrow> Some True
      | Some target \<Rightarrow> under_branch e (branch (rec_of e c)) target) = Some True"
    and any: "any_opt (\<lambda>q. do { x \<leftarrow> getOrderConstraint cfg e q c g; Some (\<not> isTrue x) }) (execcond g k) = Some False"
    unfolding subsumesExecutionConstraint_def bind_eq_Some_conv by (auto split: if_splits)
  have "taken e g \<sigma> b" if "branch (rec_of e k) = Some b" for b
    using under_branch_encloses [of e c b] under that encloses_taken [OF s ex gd] by simp
  moreover have "\<not> jumps e g \<sigma> q" if q: "q \<in> set (execcond g k)" for q
  proof -
    from any_opt_False [OF any q] obtain x where x: "getOrderConstraint cfg e q c g = Some x" "isTrue x"
      by (auto simp: do_simps)
    then have "x = TRUE" by (cases x) simp_all
    with j [OF q] x(1) have "skips e g c q" by simp
    then show ?thesis using ex encloses_taken [OF s ex gd] by (auto simp: skips_def executes_parts [OF ok])
  qed
  ultimately show ?thesis by (simp add: executes_parts [OF ok])
qed

end
