(* ===== verification/GenAddress.thy ===== *)
theory GenAddress
  imports GenGuards
begin

section \<open>Operations with one fixed address (constgen.cc, storeloadset.cc)\<close>

text \<open>
  An operation that was only ever seen at one address, which does not come from another record, has
  this address in every solution: two such operations have the same address bits.
\<close>

definition at_address :: "execution \<Rightarrow> uint64 \<Rightarrow> rid \<Rightarrow> bool" where
  "at_address e a r \<longleftrightarrow> getSet VC_ADDRINDEX (rec_of e r) = Some [a] \<and> getRevDependences e r VC_ADDRINDEX = None \<and>
     (\<exists>v vs. valuevector (rec_of e r) = v # vs \<and> v_addr (val_of e v) = a)"

subsection \<open>The last step of every memory operation\<close>

lemma addresses_last:
  "reached g k \<Longrightarrow> post (processAddresses e r k) (\<lambda>h. \<exists>k. reached g k \<and> processAddresses e r k = Some h)"
  by (auto simp: post_def)

lemma memory_addresses:
  assumes "gen_ok g"
  shows "post (processLoad cfg e r g) (\<lambda>h. \<exists>k. reached g k \<and> processAddresses e r k = Some h)"
    and "post (processStore e r g) (\<lambda>h. \<exists>k. reached g k \<and> processAddresses e r k = Some h)"
    and "post (processCAS cfg e r g) (\<lambda>h. \<exists>k. reached g k \<and> processAddresses e r k = Some h)"
    and "post (processEXC cfg e r g) (\<lambda>h. \<exists>k. reached g k \<and> processAddresses e r k = Some h)"
    and "post (processAdd cfg e r g) (\<lambda>h. \<exists>k. reached g k \<and> processAddresses e r k = Some h)"
proof -
  note R = reached_refl [OF assms]
  show "post (processLoad cfg e r g) (\<lambda>h. \<exists>k. reached g k \<and> processAddresses e r k = Some h)"
    unfolding processLoad_def using R
    by - (rule addresses_last post_rules | rule post_struct | rule post_prod | rule post_any | assumption | simp add: opt_pok_def)+
  show "post (processStore e r g) (\<lambda>h. \<exists>k. reached g k \<and> processAddresses e r k = Some h)"
    unfolding processStore_def using R
    by - (rule addresses_last post_rules | rule post_struct | rule post_prod | rule post_any | assumption | simp add: opt_pok_def)+
  show "post (processCAS cfg e r g) (\<lambda>h. \<exists>k. reached g k \<and> processAddresses e r k = Some h)"
    unfolding processCAS_def Let_def using R
    by - (rule addresses_last post_rules | rule post_struct | rule post_prod | rule post_any | assumption | simp add: opt_pok_def)+
  show "post (processEXC cfg e r g) (\<lambda>h. \<exists>k. reached g k \<and> processAddresses e r k = Some h)"
    unfolding processEXC_def using R
    by - (rule addresses_last post_rules | rule post_struct | rule post_prod | rule post_any | assumption | simp add: opt_pok_def)+
  show "post (processAdd cfg e r g) (\<lambda>h. \<exists>k. reached g k \<and> processAddresses e r k = Some h)"
    unfolding processAdd_def Let_def [of "getNewVar _"] using R
    by - (rule addresses_last post_rules | rule post_struct | rule post_prod | rule post_any | assumption | simp add: opt_pok_def)+
qed

lemma processRecord_addresses:
  assumes "processRecord cfg e r g = Some h" and "gen_ok g" and "\<not> TSO cfg" and "is_memory e r"
  shows "\<exists>k. reached g k \<and> processAddresses e r k = Some h"
proof -
  note M = memory_addresses [OF assms(2)]
  consider "event (rec_of e r) = LOAD" | "event (rec_of e r) = STORE" | "event (rec_of e r) = RMW"
    using assms(4) by (auto simp: is_memory_def)
  then show ?thesis
  proof cases
    case 1
    with assms(1) have "processLoad cfg e r g = Some h" by (simp add: processRecord_def)
    then show ?thesis by (rule postD [OF M(1)])
  next
    case 2
    with assms(1) have "processStore e r g = Some h" by (simp add: processRecord_def)
    then show ?thesis by (rule postD [OF M(2)])
  next
    case 3
    with assms(1) have "processRMW cfg e r g = Some h" by (simp add: processRecord_def)
    then obtain aop where "(case aop of ADD \<Rightarrow> processAdd cfg e r g | CAS \<Rightarrow> processCAS cfg e r g
        | EXC \<Rightarrow> processEXC cfg e r g) = Some h" using assms(3) by (auto simp: processRMW_def do_simps)
    then show ?thesis using postD [OF M(3)] postD [OF M(4)] postD [OF M(5)] by (cases aop) auto
  qed
qed

subsection \<open>The address bits\<close>

lemma generateConstraint_bits:
  "list_all is_literal vs \<Longrightarrow> eval \<sigma> (generateConstraint vs w) \<longleftrightarrow> (\<forall>m < length vs. eval \<sigma> (vs ! m) \<longleftrightarrow> bit w m)"
  by (simp add: generateConstraint_def gen_literals_eval)

text \<open>The bits spell the position of the address in the group.\<close>

lemma address_spelled:
  assumes run: "processAddresses e r k = Some h" and ok: "gen_ok k" and to: "reached h g" "models \<sigma> g"
    and at: "at_address e a r"
  shows "\<exists>i s vs j. storeloadtable g a = Some i \<and> slheap g i = Some s \<and> vars_of addrvars g i r = Some vs \<and>
    index_of a (addresses s) = Some j \<and> (\<forall>m < length vs. eval \<sigma> (vs ! m) \<longleftrightarrow> bit (of_nat j :: uint32) m)"
proof -
  from at obtain v vs where v: "getSet VC_ADDRINDEX (rec_of e r) = Some [a]" "dep_src e r VC_ADDRINDEX = Some None"
    "nth_opt (valuevector (rec_of e r)) 0 = Some v" "v_addr (val_of e v) = a"
    by (auto simp: at_address_def dep_src_def nth_opt_def)
  from run v obtain i enc k2 where i: "getStoreLoadSet e r k = Some i"
    and enc: "sls_getAddressEncoding i r a k = Some (Some enc, k2)" and h: "addConstraint enc k2 = Some h"
    by (auto simp: processAddresses_def do_simps)
  from enc obtain k1 vars s n where k1: "need_encoding addrencodings i k = Some k1"
    and vars: "getAddrVars i r k1 = Some (vars, k2)" and s: "slheap k2 i = Some s" "addrencodings s = Some n"
    and e: "vr_getValueEncoding (addresses s) n vars a = Some enc"
    by (auto simp: sls_getAddressEncoding_def do_simps)
  have r1: "reached k k1" using need_encoding_grows [OF k1 ok] by simp
  note V = getVars_table(1) [OF reachedD(1) [OF r1] vars]
  have r2: "reached k1 k2" using V by blast
  note ok2 = reachedD(1) [OF r2]
  have kn: "vars_known vars k2" using V by blast
  have len: "n = length vars"
  proof -
    have "addrvars s r = Some vars" using V s(1) by (simp add: vars_of_def)
    with gen_okD(6) [OF ok2 s(1)] have "addrencodings s = Some (length vars)" unfolding sls_vars_ok_def by blast
    with s(2) show ?thesis by simp
  qed
  note lits = vars_knownD(2) [OF kn]
  have pk: "imp_free enc \<and> known k2 enc" by (rule vr_getValueEncoding_pok [OF e kn])
  from addConstraint_grows [OF ok2 h] pk have r3: "reached k2 h" by (simp add: reached_def)
  obtain j where j: "index_of a (addresses s) = Some j"
    and enc': "enc = (if n = 0 then TRUE else generateConstraint (take n vars) (of_nat j))"
    using e by (auto simp: vr_getValueEncoding_def split: option.splits)
  have "models \<sigma> h" by (rule reached_models [OF to reachedD(1) [OF r3]])
  moreover have "good enc"
    using enc' generateConstraint_shape [OF lits] known_0 pk by (auto simp: good_def len imp_free_neg_ok)
  ultimately have ev: "eval \<sigma> enc" using addConstraint_models [OF h _ ok2] by simp
  have bits: "\<forall>m < length vars. eval \<sigma> (vars ! m) \<longleftrightarrow> bit (of_nat j :: uint32) m"
    using ev enc' generateConstraint_bits [OF lits] by (cases "n = 0") (simp_all add: len)
  have rg: "reached k2 g" by (rule reached_trans [OF r3 to(1)])
  have "rel_option sls_grows (slheap k2 i) (slheap g i)" using rg by (simp add: reached_def grows_def)
  with s(1) obtain s' where s': "slheap g i = Some s'" "addresses s' = addresses s"
    by (auto simp: option_rel_Some1 sls_grows_def)
  have "vars_of addrvars k2 i r = Some vars" using V by blast
  from vars_stable(1) [OF rg this] have "vars_of addrvars g i r = Some vars" .
  moreover have "storeloadtable g a = Some i"
  proof -
    have "storeloadtable k a = Some i" using i v(1) by (simp add: getStoreLoadSet_def)
    then show ?thesis using reached_fixed [OF reached_trans [OF r1 reached_trans [OF r2 rg]]] by (simp add: fixed_def)
  qed
  moreover have "index_of a (addresses s') = Some j" using s'(2) j by simp
  ultimately show ?thesis using s'(1) bits by blast
qed

text \<open>Two operations with the same fixed address have the same address bits.\<close>

lemma same_address_bits:
  assumes s: "solved cfg e g \<sigma>" and at: "at_address e a x" "at_address e a y"
    and l: "linked cfg e x" "linked cfg e y" and m: "is_memory e x" "is_memory e y"
    and i: "getStoreLoadSet e x g = Some i"
  shows "address_bits g i \<sigma> y = address_bits g i \<sigma> x"
proof -
  note S = solvedD [OF s]
  have A: "\<exists>i s vs j. storeloadtable g a = Some i \<and> slheap g i = Some s \<and> vars_of addrvars g i r = Some vs \<and>
      index_of a (addresses s) = Some j \<and> (\<forall>m < length vs. eval \<sigma> (vs ! m) \<longleftrightarrow> bit (of_nat j :: uint32) m)"
    if r: "at_address e a r" "linked cfg e r" "is_memory e r" for r
  proof -
    from S(5) [OF r(2)] obtain h h' where h: "gen_ok h" "processRecord cfg e r h = Some h'" "reached h' g" by blast
    from processRecord_addresses [OF h(2,1) S(4) r(3)] obtain k where k: "reached h k" "processAddresses e r k = Some h'" by blast
    from address_spelled [OF k(2) reachedD(1) [OF k(1)] h(3) S(1) r(1)] show ?thesis .
  qed
  have ia: "storeloadtable g a = Some i" using i at(1) by (simp add: getStoreLoadSet_def at_address_def)
  from A [OF at(1) l(1) m(1)] ia obtain s vs j where x: "slheap g i = Some s" "vars_of addrvars g i x = Some vs"
    "index_of a (addresses s) = Some j" "\<forall>m < length vs. eval \<sigma> (vs ! m) \<longleftrightarrow> bit (of_nat j :: uint32) m" by auto
  from A [OF at(2) l(2) m(2)] ia x(1,3) obtain ws where y: "vars_of addrvars g i y = Some ws"
    "\<forall>m < length ws. eval \<sigma> (ws ! m) \<longleftrightarrow> bit (of_nat j :: uint32) m" by auto
  have "length vs = length ws" by (rule vars_length(1) [OF S(2) x(2) y(1)])
  then have "map (eval \<sigma>) ws = map (eval \<sigma>) vs" using x(4) y(2) by (intro nth_equalityI) simp_all
  with x(2) y(1) show ?thesis by (simp add: bits_of_def)
qed

end
