(* ===== verification/GenLatest.thy ===== *)
theory GenLatest
  imports GenAddress
begin

section \<open>A load reads the latest store (constgen.cc, loadrf.cc)\<close>

text \<open>
  Theory \<open>GenLoads\<close> has what the clauses say about the stores that the code compares a load with.
  The code leaves out stores that it takes to be hidden: stores before one of the thread of the load
  that always executes, and, for one pair of a store and a load, stores that another store surely
  overwrites whenever they execute. The theory shows that nothing is lost by this at an address where
  all recorded stores have no other: the load reads the latest of all stores recorded for it.
\<close>

subsection \<open>The order of a solution\<close>

lemma prec_same:
  assumes "\<not> TSO cfg" and "same_thread e x y"
  shows "prec cfg e g \<sigma> x y \<longleftrightarrow> program_order e x y = Some True"
  using assms by (auto simp: prec_def getOrderConstraint_def do_simps split: option.splits)

lemma surely_prec: "surely_ordered cfg e g x y = Some True \<Longrightarrow> prec cfg e g \<sigma> x y"
  by (auto simp: surely_ordered_def prec_def elim: isTrue.elims)

lemma program_order_irrefl: "program_order e x y \<noteq> Some True \<or> program_order e y x \<noteq> Some True"
  using compare_flip [of "pairs (r_ep (rec_of e x))" "pairs (r_ep (rec_of e y))"]
  by (auto simp: program_order_def ep_compare_def)

lemma solved_op:
  assumes "solved cfg e g \<sigma>" and "linked cfg e r" and "is_memory e r"
  obtains i where "op_at g (ep_tid (r_ep (rec_of e r))) i r"
proof -
  from assms(1) obtain g0 where g: "encode cfg e g0 = Some g" "start_ok g0" by (auto simp: solved_def)
  from encode_first_pass(1) [OF g assms(2,3)] obtain t i where "op_at g t i r" by blast
  moreover from this have "t = ep_tid (r_ep (rec_of e r))" using encode_gen_ok(3) [OF g] by (simp add: actions_ok_def)
  ultimately show thesis using that by blast
qed

lemma prec_asym:
  assumes s: "solved cfg e g \<sigma>" and "linked cfg e x" "linked cfg e y" and "is_memory e x" "is_memory e y"
    and "prec cfg e g \<sigma> x y"
  shows "\<not> prec cfg e g \<sigma> y x"
proof (cases "same_thread e x y")
  case True
  then have "same_thread e y x" by (simp add: same_thread_def)
  with True assms(6) show ?thesis
    using prec_same [OF solvedD(4) [OF s]] program_order_irrefl [of e x y] by blast
next
  case False
  from s obtain g0 where g: "encode cfg e g0 = Some g" "start_ok g0" "\<not> TSO cfg" "models \<sigma> g" by (auto simp: solved_def)
  obtain i j where o: "op_at g (ep_tid (r_ep (rec_of e x))) i x" "op_at g (ep_tid (r_ep (rec_of e y))) j y"
    using solved_op [OF s] assms(2-5) by metis
  from encode_ordered [OF g o] False assms(6) show ?thesis by (simp add: same_thread_def)
qed

text \<open>
  Two operations of one thread are in program order or in different directions of a branch. An
  operation may use the address \<open>a\<close>; when it was seen at no other one, it has this address for good.
\<close>

definition related :: "execution \<Rightarrow> rid \<Rightarrow> rid \<Rightarrow> bool" where
  "related e x y \<longleftrightarrow> (same_thread e x y \<longrightarrow>
     program_order e x y = Some True \<or> program_order e y x = Some True \<or> apart e x y)"

definition seen_at :: "config \<Rightarrow> execution \<Rightarrow> uint64 \<Rightarrow> rid \<Rightarrow> bool" where
  "seen_at cfg e a r \<longleftrightarrow> linked cfg e r \<and> is_memory e r \<and> guarded cfg e r \<and>
     (\<exists>as. getSet VC_ADDRINDEX (rec_of e r) = Some as \<and> a \<in> set as \<and> (length as = 1 \<longrightarrow> at_address e a r))"

lemma seen_at_single:
  assumes "seen_at cfg e a r" and "getSet VC_ADDRINDEX (rec_of e r) = Some as" and "length as = 1"
  shows "at_address e a r"
  using assms by (simp add: seen_at_def)

lemma prec_trans:
  assumes s: "solved cfg e g \<sigma>" and po: "in_program_order e g"
    and l: "seen_at cfg e a x" "seen_at cfg e a y" "seen_at cfg e a z"
    and ex: "executes e g \<sigma> x" "executes e g \<sigma> z" and rel: "x \<noteq> z \<longrightarrow> related e x z"
    and p: "prec cfg e g \<sigma> x y" "prec cfg e g \<sigma> y z"
  shows "prec cfg e g \<sigma> x z" and "x \<noteq> z"
proof -
  have L: "linked cfg e x" "linked cfg e y" "linked cfg e z" "is_memory e x" "is_memory e y" "is_memory e z"
    "guarded cfg e x" "guarded cfg e z" using l by (simp_all add: seen_at_def)
  show ne: "x \<noteq> z" using prec_asym [OF s L(1,2,4,5) p(1)] p(2) by blast
  from s obtain g0 where g: "encode cfg e g0 = Some g" "start_ok g0" "\<not> TSO cfg" "models \<sigma> g" by (auto simp: solved_def)
  obtain i j k where o: "op_at g (ep_tid (r_ep (rec_of e x))) i x" "op_at g (ep_tid (r_ep (rec_of e y))) j y"
    "op_at g (ep_tid (r_ep (rec_of e z))) k z" using solved_op [OF s] L(1-6) by metis
  have "\<not> apart e x z" by (rule apart_not_both [OF s ex L(7,8)])
  with rel ne have "same_thread e x z \<Longrightarrow> program_order e x z = Some True \<or> program_order e z x = Some True"
    by (simp add: related_def)
  then show "prec cfg e g \<sigma> x z"
    using encode_transitive [OF g po o _ p] by (simp add: same_thread_def)
qed

subsection \<open>The record the theorem is about\<close>

text \<open>
  The load has one fixed address. All stores recorded for it are linked, and so are the branches around
  them; a store that was seen at this address only has it for good, others may have several addresses.
  Two operations of one thread are in program order or in different directions of a branch, and a jump
  that one store is conditional on and that surely precedes another is one the other is conditional on
  as well, itself or through a branch around it.
\<close>

definition recorded_at :: "config \<Rightarrow> execution \<Rightarrow> cgen \<Rightarrow> uint64 \<Rightarrow> rid \<Rightarrow> rid list \<Rightarrow> bool" where
  "recorded_at cfg e g a load rs \<longleftrightarrow> storetable e a = Some rs \<and> at_address e a load \<and>
     (\<forall>r \<in> insert load (set rs). seen_at cfg e a r) \<and>
     (\<forall>x \<in> insert load (set rs). \<forall>y \<in> insert load (set rs). x \<noteq> y \<longrightarrow> related e x y) \<and>
     (\<forall>k \<in> set rs. \<forall>c \<in> set rs. \<forall>q \<in> set (execcond g k). getOrderConstraint cfg e q c g = Some TRUE \<longrightarrow> skips e g c q)"

subsection \<open>Stores hidden by another one\<close>

lemma any_opt_True: "any_opt f xs = Some True \<Longrightarrow> \<exists>x \<in> set xs. f x = Some True"
  by (induction xs) (auto simp: do_simps split: if_splits)

lemma hidesD:
  assumes "hides cfg e g addr conflict a b k = Some True"
  shows "surely_ordered cfg e g a k = Some True" and "surely_ordered cfg e g k b = Some True"
    and "subsumesExecutionConstraint cfg e k conflict g = Some True"
    and "\<exists>as. getSet VC_ADDRINDEX (rec_of e k) = Some as \<and> length as = 1"
  using assms by (auto simp: hides_def do_simps split: if_splits)

lemma redundantD:
  assumes "redundant cfg e g addr store load conflict srs = Some True"
  shows "\<exists>k \<in> set srs. subsumesExecutionConstraint cfg e k conflict g = Some True \<and>
    (\<exists>as. getSet VC_ADDRINDEX (rec_of e k) = Some as \<and> length as = 1) \<and>
    (surely_ordered cfg e g store k = Some True \<and> surely_ordered cfg e g k conflict = Some True \<or>
     surely_ordered cfg e g conflict k = Some True \<and> surely_ordered cfg e g k load = Some True)"
proof -
  have "any_opt (hides cfg e g addr conflict store conflict) srs = Some True \<or>
      any_opt (hides cfg e g addr conflict conflict load) srs = Some True"
    using assms by (auto simp: redundant_def do_simps split: if_splits)
  then show ?thesis using any_opt_True hidesD by metis
qed

text \<open>What hides an overwriting store overwrites, too.\<close>

lemma hidden_by:
  assumes s: "solved cfg e g \<sigma>" and po: "in_program_order e g" and R: "recorded_at cfg e g a load rs"
    and ld: "executes e g \<sigma> load" "getStoreLoadSet e load g = Some i"
    and st: "store \<in> set rs" "executes e g \<sigma> store"
    and c: "c \<in> set rs" "overwrites cfg e g i \<sigma> load store c"
    and k: "k \<in> set rs" "executes e g \<sigma> k" "getSet VC_ADDRINDEX (rec_of e k) = Some as" "length as = 1"
    and ord: "prec cfg e g \<sigma> store k \<and> prec cfg e g \<sigma> k c \<or> prec cfg e g \<sigma> c k \<and> prec cfg e g \<sigma> k load"
  shows "overwrites cfg e g i \<sigma> load store k" and "k \<noteq> c"
proof -
  have L: "seen_at cfg e a r" if "r \<in> insert load (set rs)" for r
    using R that unfolding recorded_at_def by blast
  have rel: "x \<noteq> y \<longrightarrow> related e x y" if "x \<in> insert load (set rs)" "y \<in> insert load (set rs)" for x y
    using R that unfolding recorded_at_def by blast
  have o: "prec cfg e g \<sigma> store c" "prec cfg e g \<sigma> c load" "executes e g \<sigma> c"
    using c(2) by (simp_all add: overwrites_def)
  have mem: "load \<in> insert load (set rs)" "store \<in> insert load (set rs)" "c \<in> insert load (set rs)" "k \<in> insert load (set rs)"
    using st(1) c(1) k(1) by simp_all
  have "prec cfg e g \<sigma> store k \<and> prec cfg e g \<sigma> k load"
    using ord
  proof
    assume p: "prec cfg e g \<sigma> store k \<and> prec cfg e g \<sigma> k c"
    with prec_trans(1) [OF s po L [OF mem(4)] L [OF mem(3)] L [OF mem(1)] k(2) ld(1) rel [OF mem(4,1)] _ o(2)]
    show ?thesis by blast
  next
    assume p: "prec cfg e g \<sigma> c k \<and> prec cfg e g \<sigma> k load"
    with prec_trans(1) [OF s po L [OF mem(2)] L [OF mem(3)] L [OF mem(4)] st(2) k(2) rel [OF mem(2,4)] o(1)]
    show ?thesis by blast
  qed
  moreover have "address_bits g i \<sigma> k = address_bits g i \<sigma> load"
    by (rule same_address_bits [OF s _ seen_at_single [OF L [OF mem(4)] k(3,4)] _ _ _ _ ld(2)])
      (use R L [OF mem(1)] L [OF mem(4)] in \<open>simp_all add: recorded_at_def seen_at_def\<close>)
  ultimately show "overwrites cfg e g i \<sigma> load store k" using k(2) by (simp add: overwrites_def)
  show "k \<noteq> c"
    using ord prec_asym [OF s, of k k] L [OF mem(4)] by (auto simp: seen_at_def)
qed

text \<open>Pruning keeps an overwriting store as long as there is one.\<close>

lemma conflicts_complete:
  assumes s: "solved cfg e g \<sigma>" and po: "in_program_order e g" and R: "recorded_at cfg e g a load rs"
    and ld: "executes e g \<sigma> load" "getStoreLoadSet e load g = Some i"
    and st: "store \<in> set rs" "executes e g \<sigma> store"
    and mrf: "set mrf \<subseteq> set rs" and cs: "computeConflictSet cfg e store load mrf g \<noteq> None"
    and c: "c \<in> set mrf" "overwrites cfg e g i \<sigma> load store c"
  shows "\<exists>k \<in> conflicts cfg e g load store mrf. overwrites cfg e g i \<sigma> load store k"
proof -
  have gd: "guarded cfg e r" if "r \<in> set rs" for r using R that by (simp add: recorded_at_def seen_at_def)
  let ?I = "\<lambda>srs. set srs \<subseteq> set rs \<and> (\<exists>k \<in> set srs. overwrites cfg e g i \<sigma> load store k)"
  have step: "?I (remove1 x srs)" if I: "?I srs" and x: "redundant cfg e g addr store load x srs = Some True" "x \<in> set rs" for srs x addr
  proof (cases "overwrites cfg e g i \<sigma> load store x")
    case True
    from redundantD [OF x(1)] obtain k as where k: "k \<in> set srs" "subsumesExecutionConstraint cfg e k x g = Some True"
      "getSet VC_ADDRINDEX (rec_of e k) = Some as" "length as = 1"
      "surely_ordered cfg e g store k = Some True \<and> surely_ordered cfg e g k x = Some True \<or>
       surely_ordered cfg e g x k = Some True \<and> surely_ordered cfg e g k load = Some True" by blast
    have kr: "k \<in> set rs" using k(1) I by blast
    have "executes e g \<sigma> k"
    proof (rule subsumes_executes [OF s k(2)])
      show "skips e g x q" if "q \<in> set (execcond g k)" "getOrderConstraint cfg e q x g = Some TRUE" for q
        using R kr x(2) that unfolding recorded_at_def by blast
    qed (use True gd x(2) in \<open>simp_all add: overwrites_def\<close>)
    from hidden_by [OF s po R ld st x(2) True kr this k(3,4)] k(5) surely_prec
    have "overwrites cfg e g i \<sigma> load store k" "k \<noteq> x" by metis+
    moreover have "k \<in> set (remove1 x srs)" using k(1) calculation(2) by simp
    ultimately show ?thesis using I set_remove1_subset [of x srs] by blast
  next
    case False
    from I obtain k where k: "k \<in> set srs" "overwrites cfg e g i \<sigma> load store k" by blast
    with False have "k \<in> set (remove1 x srs)" by (metis in_set_remove1)
    with k(2) I set_remove1_subset [of x srs] show ?thesis by blast
  qed
  from cs obtain r where r: "computeConflictSet cfg e store load mrf g = Some r" by blast
  show ?thesis
  proof (cases r)
    case None
    then show ?thesis using c r by (auto simp: conflicts_def)
  next
    case (Some srs)
    with r obtain addr where "foldM (\<lambda>conflict srs. do {
          b \<leftarrow> redundant cfg e g addr store load conflict srs;
          Some (if b then remove1 conflict srs else srs) }) mrf mrf = Some srs"
      by (auto simp: computeConflictSet_def Let_def do_simps split: if_splits)
    then have "?I srs"
    proof (rule foldM_invariant [where I = ?I])
      show "?I mrf" using mrf c by blast
      fix x h h'
      assume x: "x \<in> set mrf" "?I h" "do { b \<leftarrow> redundant cfg e g addr store load x h; Some (if b then remove1 x h else h) } = Some h'"
      then obtain b where b: "redundant cfg e g addr store load x h = Some b" "h' = (if b then remove1 x h else h)"
        by (auto simp: do_simps)
      show "?I h'" using step [OF x(2), of addr x] b x(1,2) mrf by (cases b) auto
    qed
    with r Some show ?thesis by (auto simp: conflicts_def)
  qed
qed

subsection \<open>Stores before the last one of the thread\<close>

lemma latest_store_is:
  assumes "latest_store e load g rs = Some (Some l)"
  shows "l \<in> set rs \<and> same_thread e l load \<and> isAlwaysExecuted e l g \<and> program_order e l load = Some True \<and>
    (\<exists>as. getSet VC_ADDRINDEX (rec_of e l) = Some as \<and> length as = 1)"
proof -
  let ?I = "\<lambda>x. \<forall>l. x = Some l \<longrightarrow> l \<in> set rs \<and> same_thread e l load \<and> isAlwaysExecuted e l g \<and>
      program_order e l load = Some True \<and> (\<exists>as. getSet VC_ADDRINDEX (rec_of e l) = Some as \<and> length as = 1)"
  have "?I (Some l)"
    by (rule foldM_invariant [where I = ?I, OF assms [unfolded latest_store_def]])
      (auto simp: do_simps split: if_splits option.splits)
  then show ?thesis by simp
qed

lemma mayread_opt_is:
  assumes "mayread_opt e load latest rs = Some srs"
  shows "set srs \<subseteq> set rs" and "r \<in> set rs \<Longrightarrow> r \<notin> set srs \<Longrightarrow> same_thread e r load \<and>
    (program_order e r load = Some False \<or> (\<exists>l. latest = Some l \<and> program_order e r l = Some True))"
proof -
  let ?f = "\<lambda>store srs.
        if same_thread e store load then do {
          b \<leftarrow> program_order e store load;
          ok \<leftarrow> (if b then case latest of None \<Rightarrow> Some True | Some l \<Rightarrow> map_option Not (program_order e store l)
                 else Some False);
          Some (if ok then oset_add store srs else srs) }
        else Some (oset_add store srs)"
  have f: "(h' = oset_add x h \<or> h' = h \<and> same_thread e x load \<and>
      (program_order e x load = Some False \<or> (\<exists>l. latest = Some l \<and> program_order e x l = Some True)))"
    if "?f x h = Some h'" for x h h'
    using that by (auto simp: do_simps split: if_splits option.splits)
  have "set srs \<subseteq> set rs \<union> set acc \<and> set acc \<subseteq> set srs \<and> (\<forall>r \<in> set rs. r \<in> set srs \<or> same_thread e r load \<and>
      (program_order e r load = Some False \<or> (\<exists>l. latest = Some l \<and> program_order e r l = Some True)))"
    if "foldM ?f rs acc = Some srs" for rs acc srs
    using that
  proof (induction rs arbitrary: acc)
    case (Cons x rs)
    from Cons.prems obtain h where h: "?f x acc = Some h" "foldM ?f rs h = Some srs"
      unfolding foldM.simps bind_eq_Some_conv by blast
    from Cons.IH [OF h(2)] f [OF h(1)] show ?case by auto
  qed simp
  from this [OF assms [unfolded mayread_opt_def]]
  show "set srs \<subseteq> set rs" "r \<in> set rs \<Longrightarrow> r \<notin> set srs \<Longrightarrow> same_thread e r load \<and>
    (program_order e r load = Some False \<or> (\<exists>l. latest = Some l \<and> program_order e r l = Some True))" by auto
qed

lemma mayread_table:
  assumes "encode cfg e g = Some g'" and "start_ok g" and R: "recorded_at cfg e g' a load rs" and "cg_loadtable g' load = Some mrf"
  obtains latest where "latest_store e load g' rs = Some latest" and "mayread_opt e load latest rs = Some mrf"
proof -
  from encode_first_pass(3) [OF assms(1,2)] assms(4) have "may_read e load g' = Some mrf" by (simp add: loads_ok_def)
  moreover have "getSet VC_ADDRINDEX (rec_of e load) = Some [a]" "storetable e a = Some rs"
    using R by (simp_all add: recorded_at_def at_address_def)
  ultimately show thesis using that by (auto simp: may_read_def do_simps nth_opt_def)
qed

lemma mayread_complete:
  assumes s: "solved cfg e g \<sigma>" and po: "in_program_order e g" and R: "recorded_at cfg e g a load rs"
    and ld: "executes e g \<sigma> load" "getStoreLoadSet e load g = Some i" "cg_loadtable g load = Some mrf"
    and st: "store \<in> set rs" "executes e g \<sigma> store"
    and c: "c \<in> set rs" "overwrites cfg e g i \<sigma> load store c"
  shows "\<exists>k \<in> set mrf. overwrites cfg e g i \<sigma> load store k"
proof -
  have sc: "\<not> TSO cfg" by (rule solvedD(4) [OF s])
  from s obtain g0 where g: "encode cfg e g0 = Some g" "start_ok g0" by (auto simp: solved_def)
  obtain latest where latest: "latest_store e load g rs = Some latest" "mayread_opt e load latest rs = Some mrf"
    by (rule mayread_table [OF g R ld(3)])
  note M = mayread_opt_is [OF latest(2)]
  have o: "prec cfg e g \<sigma> c load" using c(2) by (simp add: overwrites_def)
  show "\<exists>k \<in> set mrf. overwrites cfg e g i \<sigma> load store k"
  proof (cases "c \<in> set mrf")
    case True
    with c(2) show ?thesis by blast
  next
    case False
    from M(2) [OF c(1) False] have m: "same_thread e c load"
      "program_order e c load = Some False \<or> (\<exists>l. latest = Some l \<and> program_order e c l = Some True)" by blast+
    with o prec_same [OF sc m(1)] obtain l where l: "latest = Some l" "program_order e c l = Some True" by auto
    from latest_store_is [of e load g rs l] latest(1) l(1) obtain as where l': "l \<in> set rs" "same_thread e l load"
      "isAlwaysExecuted e l g" "program_order e l load = Some True"
      "getSet VC_ADDRINDEX (rec_of e l) = Some as" "length as = 1" by auto
    have "executes e g \<sigma> l" using l'(3) by (simp add: executes_def getExecutionConstraint_def isAlwaysExecuted_def)
    moreover have "same_thread e c l" using m(1) l'(2) by (simp add: same_thread_def)
    ultimately have "overwrites cfg e g i \<sigma> load store l"
      using hidden_by(1) [OF s po R ld(1,2) st c l'(1) _ l'(5,6)] l(2) l'(4) prec_same [OF sc] l'(2) by blast
    moreover have "l \<in> set mrf"
    proof (rule ccontr)
      assume "l \<notin> set mrf"
      from M(2) [OF l'(1) this] l'(4) l(1) program_order_irrefl [of e l l] show False by auto
    qed
    ultimately show ?thesis by blast
  qed
qed

subsection \<open>The load\<close>

theorem load_reads_latest:
  assumes "encode cfg e g = Some g'" and "start_ok g" and "\<not> TSO cfg" and "models \<sigma> g'" and "in_program_order e g'"
    and R: "recorded_at cfg e g' a load rs" and "event (rec_of e load) = LOAD \<or> event (rec_of e load) = RMW"
    and ex: "executes e g' \<sigma> load" and t: "cg_loadtable g' load = Some mrf" "mrf \<noteq> []" "length mrf < 2 ^ 31"
  shows "\<exists>i store. getStoreLoadSet e load g' = Some i \<and> store \<in> set rs \<and> reads_from cfg e g' i \<sigma> load store \<and>
    (\<forall>c \<in> set rs. \<not> overwrites cfg e g' i \<sigma> load store c)"
proof -
  have s: "solved cfg e g' \<sigma>" using assms(1-4) by (auto simp: solved_def)
  have l: "linked cfg e load" using R by (simp add: recorded_at_def seen_at_def)
  from encode_load_reads [OF assms(1-4) l assms(7,8) t] obtain i store where
    i: "getStoreLoadSet e load g' = Some i" and st: "store \<in> set mrf" "reads_from cfg e g' i \<sigma> load store"
    and cs: "computeConflictSet cfg e store load mrf g' \<noteq> None"
    and no: "\<forall>c \<in> conflicts cfg e g' load store mrf. \<not> overwrites cfg e g' i \<sigma> load store c" by blast
  have stx: "executes e g' \<sigma> store" using st(2) by (simp add: reads_from_def)
  have mrf: "set mrf \<subseteq> set rs" using mayread_table [OF assms(1,2) R t(1)] mayread_opt_is(1) by metis
  then have st': "store \<in> set rs" using st(1) by blast
  have "\<not> overwrites cfg e g' i \<sigma> load store c" if c: "c \<in> set rs" for c
  proof
    assume "overwrites cfg e g' i \<sigma> load store c"
    from mayread_complete [OF s assms(5) R ex i t(1) st' stx c this] obtain k where
      k: "k \<in> set mrf" "overwrites cfg e g' i \<sigma> load store k" by blast
    from conflicts_complete [OF s assms(5) R ex i st' stx mrf cs k] no show False by blast
  qed
  with i st(2) st' show ?thesis by blast
qed

end
