(* ===== verification/ModelCheck.thy ===== *)
theory ModelCheck
  imports Planning ExecInv
begin

section \<open>The main loop of the checker (model.cc)\<close>

text \<open>
  \<open>MC::check\<close> runs the program, plans the next schedule from what the run recorded, resets the
  execution and rolls the snapshotted memory back to the state before the first run, until the
  planner is finished. The program under test, with the scheduler that switches between its threads
  until all are done, is the parameter \<open>program\<close>. The state of the checker is the planner, which
  holds the execution, the generator and the scheduler.
\<close>

type_synonym test_program = "execution \<Rightarrow> mcscheduler \<Rightarrow> (execution \<times> mcscheduler) option"

text \<open>\<open>run_execution\<close> up to the switch to the first thread.\<close>

definition run_start :: "execution \<Rightarrow> execution option" where
  "run_start e = do {
     let (tid, e) = get_next_tid e;
     e \<leftarrow> add_thread (new_Thread tid None None) e;
     swap_threads (Some tid) e }"

definition run_execution :: "test_program \<Rightarrow> planner \<Rightarrow> planner option" where
  "run_execution program p = do {
     e \<leftarrow> run_start (pl_exec p);
     (e, s) \<leftarrow> program e (pl_sched p);
     g \<leftarrow> foldM achievedGoal (achieved e) (pl_cgen p);
     Some (p\<lparr> pl_exec := e\<lparr> achieved := [] \<rparr>, pl_sched := s, pl_cgen := g \<rparr>) }"

text \<open>
  What the rollback restores: the memory of the program and the fields of the execution that are
  allocated in it (\<open>SnapVector\<close>, the thread counter, \<open>memtable\<close>).
\<close>

definition restore_snapshot :: "execution \<Rightarrow> execution \<Rightarrow> execution" where
  "restore_snapshot e0 e =
     e\<lparr> mem := mem e0, EPList := EPList e0, ThreadList := ThreadList e0, storebuffer := storebuffer e0,
        ExecPointList := ExecPointList e0, CurrBranchList := CurrBranchList e0, memtable := memtable e0,
        next_thread_id := next_thread_id e0 \<rparr>"

definition check_once :: "config \<Rightarrow> sat_process \<Rightarrow> assignment \<Rightarrow> test_program \<Rightarrow> execution \<Rightarrow> planner \<Rightarrow> planner option" where
  "check_once cfg sat oob program e0 p = do {
     p \<leftarrow> run_execution program p;
     p \<leftarrow> plan cfg sat oob p;
     Some (p\<lparr> pl_exec := restore_snapshot e0 (exec_reset (pl_exec p)) \<rparr>) }"

partial_function (option) check_loop ::
  "config \<Rightarrow> sat_process \<Rightarrow> assignment \<Rightarrow> test_program \<Rightarrow> execution \<Rightarrow> planner \<Rightarrow> planner option" where
  [code]: "check_loop cfg sat oob program e0 p = do {
     p \<leftarrow> check_once cfg sat oob program e0 p;
     if finished p then Some p else check_loop cfg sat oob program e0 p }"

definition check :: "config \<Rightarrow> sat_process \<Rightarrow> assignment \<Rightarrow> test_program \<Rightarrow> memory \<Rightarrow> planner option" where
  "check cfg sat oob program m =
     (let e0 = new_MCExecution m in check_loop cfg sat oob program e0 (new_Planner e0))"

subsection \<open>Planning keeps the invariant of the record\<close>

text \<open>Propagating values touches only value sets, address tables and the set of changes.\<close>

lemma core_add_value: "add_value r i v e = Some (b, e') \<Longrightarrow> core e' = core e"
  by (auto simp: add_value_def do_simps dest!: core_addToSet)

lemmas core_plan_dests = core_add_value core_addChange core_evalGoal

lemma core_registerLoadValue: "registerLoadValue r v i e = Some e' \<Longrightarrow> core e' = core e"
  by (auto simp: registerLoadValue_def Let_def do_simps split: if_splits dest!: core_plan_dests)

lemma core_doRMWRFChange: "doRMWRFChange r v e = Some e' \<Longrightarrow> core e' = core e"
  by (auto simp: doRMWRFChange_def do_simps split: if_splits dest!: core_plan_dests)

lemma core_doRMWBaseChange: "doRMWBaseChange r v e = Some e' \<Longrightarrow> core e' = core e"
  by (auto simp: doRMWBaseChange_def do_simps split: if_splits option.splits atomicop.splits dest!: core_plan_dests)

lemma core_rmw_reads: "rmw_reads r v e = Some e' \<Longrightarrow> core e' = core e"
  by (auto simp: rmw_reads_def do_simps split: if_splits dest!: core_plan_dests core_doRMWRFChange)

lemma core_doRMWNewAddrChange:
  assumes "doRMWNewAddrChange r v e = Some e'"
  shows "core e' = core e"
proof -
  obtain e1 stores where 1: "addChange r v VC_ADDRINDEX (addStoreTable v r (addLoadTable v r e)) = Some e1" and
    2: "foldM (\<lambda>store e. if compatibleStoreLoad store r then do {
           vs \<leftarrow> getStoreSet (rec_of e store);
           foldM (rmw_reads r) vs e } else Some e) stores e1 = Some e'"
    using assms unfolding doRMWNewAddrChange_def bind_eq_Some_conv by blast
  have "core e' = core e1"
    by (rule core_foldM [OF 2]) (auto simp: do_simps split: if_splits dest!: core_foldM [OF _ core_rmw_reads])
  with core_addChange [OF 1] show ?thesis by simp
qed

lemma core_registerRMWValue: "registerRMWValue r v i e = Some e' \<Longrightarrow> core e' = core e"
  by (auto simp: registerRMWValue_def doRMWOldValChange_def Let_def do_simps split: if_splits
      dest!: core_plan_dests core_doRMWNewAddrChange core_doRMWRFChange core_doRMWBaseChange)

lemma core_registerStoreValue: "registerStoreValue r v i e = Some e' \<Longrightarrow> core e' = core e"
  by (auto simp: registerStoreValue_def Let_def do_simps split: if_splits dest!: core_plan_dests)

lemma core_registerFunctionValue: "registerFunctionValue r v i e = Some e' \<Longrightarrow> core e' = core e"
proof -
  have goals: "foldM (\<lambda>goal e. do { w \<leftarrow> nth_opt (valarray goal) i; if w = v then evalGoal r goal e else Some e }) gs e1
      = Some e2 \<Longrightarrow> core e2 = core e1" for gs e1 e2
    by (erule core_foldM) (auto simp: do_simps split: if_splits dest!: core_evalGoal)
  show "registerFunctionValue r v i e = Some e' \<Longrightarrow> core e' = core e"
    by (auto simp: registerFunctionValue_def do_simps split: if_splits dest!: core_plan_dests goals)
qed

lemma core_registerValue: "registerValue r v i e = Some e' \<Longrightarrow> core e' = core e"
  by (auto simp: registerValue_def registerBranchValue_def registerEqualsValue_def split: event_type.splits
      dest!: core_add_value core_registerLoadValue core_registerRMWValue core_registerStoreValue core_registerFunctionValue)

lemma core_pass_values: "pass_values st ld e = Some e' \<Longrightarrow> core e' = core e"
  by (auto simp: pass_values_def do_simps split: if_splits dest!: core_foldM [OF _ core_registerValue])

lemma core_processChange: "processChange c e = Some e' \<Longrightarrow> core e' = core e"
proof -
  have loads: "foldM (\<lambda>load e. if compatibleStoreLoad r load then registerValue load v VC_RFINDEX e else Some e) rs e1
      = Some e2 \<Longrightarrow> core e2 = core e1" for r v rs e1 e2
    by (erule core_foldM) (simp split: if_splits, blast dest: core_registerValue)
  have store: "processNewStoreValue c e = Some e' \<Longrightarrow> core e' = core e"
    by (auto simp: processNewStoreValue_def do_simps elim!: core_foldM split: option.splits dest!: loads)
  have return: "processNewReturnValue c e = Some e' \<Longrightarrow> core e' = core e"
    unfolding processNewReturnValue_def
    by (cases "eprecorddep e (ch_record c)") (simp_all, erule core_foldM, blast dest: core_registerValue)
  have loads: "processNewLoadAddress c e = Some e' \<Longrightarrow> core e' = core e"
    unfolding processNewLoadAddress_def
    by (cases "storetable e (ch_val c)") (simp_all, erule core_foldM, blast dest: core_pass_values)
  have stores: "processNewStoreAddress c e = Some e' \<Longrightarrow> core e' = core e"
    unfolding processNewStoreAddress_def
    by (cases "loadtable e (ch_val c)") (simp_all, erule core_foldM, blast dest: core_pass_values)
  show "processChange c e = Some e' \<Longrightarrow> core e' = core e"
    unfolding processChange_def Let_def by (auto split: if_splits dest: store return loads stores)
qed

lemma change_step_core: "change_step p = Some p' \<Longrightarrow> core (pl_exec p') = core (pl_exec p)"
  by (auto simp: change_step_def Let_def do_simps split: list.splits if_splits dest!: core_processChange)

lemma changes_loop_core:
  assumes "changes_loop p = Some p'"
  shows "core (pl_exec p') = core (pl_exec p) \<and> changes (pl_exec p') = []"
  by (rule changes_loop.raw_induct [OF _ assms])
    (auto simp: do_simps split: if_splits dest: change_step_core)

lemma clear_newbehavior_core [simp]: "core (clear_newbehavior e) = core e"
  by (simp add: clear_newbehavior_def)

lemma schedule_exec: "schedule cfg sol p = Some p' \<Longrightarrow> pl_exec p' = pl_exec p \<and> finished p' = finished p"
  by (auto simp: schedule_def do_simps split: option.splits)

lemma processChanges_core:
  "processChanges p = Some p' \<Longrightarrow> core (pl_exec p') = core (pl_exec p) \<and> changes (pl_exec p') = [] \<and> completedset p' = []"
  by (auto simp: processChanges_def do_simps dest: changes_loop_core)

lemma plan_core: "plan cfg sat oob p = Some p' \<Longrightarrow> core (pl_exec p') = core (pl_exec p)"
  by (auto simp: plan_def Let_def do_simps split: if_splits dest!: schedule_exec processChanges_core)

subsection \<open>The result of the checker\<close>

text \<open>The program works on the execution only through the operations of the interface.\<close>

definition program_ok :: "config \<Rightarrow> test_program \<Rightarrow> bool" where
  "program_ok cfg program \<longleftrightarrow> (\<forall>e s e' s'. program e s = Some (e', s') \<longrightarrow> (exec_step cfg)\<^sup>*\<^sup>* e e')"

lemma steps_inv: "(exec_step cfg)\<^sup>*\<^sup>* e e' \<Longrightarrow> exec_inv e \<Longrightarrow> exec_inv e'"
  by (induction rule: rtranclp_induct) (auto intro: step_inv)

lemma run_start_steps: "run_start e = Some e' \<Longrightarrow> (exec_step cfg)\<^sup>*\<^sup>* e e'"
proof -
  assume "run_start e = Some e'"
  then obtain tid e1 e2 where 1: "get_next_tid e = (tid, e1)" and 2: "add_thread (new_Thread tid None None) e1 = Some e2"
    and 3: "set_current_thread (Some tid) e2 = Some e'"
    by (auto simp: run_start_def swap_threads_def Let_def do_simps split: prod.splits)
  from step_add_thread [OF 1 2] step_switch [OF 3] show ?thesis
    by (meson r_into_rtranclp rtranclp.rtrancl_into_rtrancl)
qed

lemma run_execution_inv:
  assumes "run_execution program p = Some p'" and "program_ok cfg program" and "exec_inv (pl_exec p)"
  shows "exec_inv (pl_exec p')" and "finished p' = finished p"
proof -
  from assms(1) obtain e s e1 where 1: "run_start (pl_exec p) = Some e" "program e (pl_sched p) = Some (e1, s)"
    and 2: "pl_exec p' = e1\<lparr> achieved := [] \<rparr>" "finished p' = finished p"
    by (auto simp: run_execution_def do_simps)
  from 1(2) assms(2) have "(exec_step cfg)\<^sup>*\<^sup>* e e1" by (auto simp: program_ok_def)
  with steps_inv [OF run_start_steps [OF 1(1)] assms(3)] have "exec_inv e1" using steps_inv by blast
  then show "exec_inv (pl_exec p')" by (rule exec_inv_core_intro) (simp add: 2(1))
  show "finished p' = finished p" by (rule 2(2))
qed

lemma restore_core [simp]: "core (restore_snapshot e0 e) = core e" "core (exec_reset e) = core e"
  by (simp_all add: restore_snapshot_def exec_reset_def core_def)

lemma check_once_inv:
  assumes "check_once cfg sat oob program e0 p = Some p'" and "program_ok cfg program" and "exec_inv (pl_exec p)"
  shows "exec_inv (pl_exec p')"
proof -
  from assms(1) obtain p1 p2 where 1: "run_execution program p = Some p1" "plan cfg sat oob p1 = Some p2"
    and 2: "p' = p2\<lparr> pl_exec := restore_snapshot e0 (exec_reset (pl_exec p2)) \<rparr>"
    by (auto simp: check_once_def do_simps)
  from run_execution_inv(1) [OF 1(1) assms(2,3)] plan_core [OF 1(2)] show ?thesis
    by (auto simp: 2 elim!: exec_inv_core_intro)
qed

lemma check_loop_inv:
  assumes "check_loop cfg sat oob program e0 p = Some p'" and "program_ok cfg program" and "exec_inv (pl_exec p)"
  shows "exec_inv (pl_exec p') \<and> finished p'"
proof -
  let ?P = "\<lambda>cfg (sat :: sat_process) (oob :: assignment) program (e0 :: execution) p p'.
      program_ok cfg program \<longrightarrow> exec_inv (pl_exec p) \<longrightarrow> exec_inv (pl_exec p') \<and> finished p'"
  have "?P cfg sat oob program e0 p p'"
  proof (rule check_loop.raw_induct [where P = ?P, OF _ assms(1)], intro impI)
    fix f cfg sat oob program e0 p p'
    assume IH: "\<And>cfg sat oob program e0 p p'. f cfg sat oob program e0 p = Some p' \<Longrightarrow> ?P cfg sat oob program e0 p p'"
      and run: "do { p \<leftarrow> check_once cfg sat oob program e0 p;
          if finished p then Some p else f cfg sat oob program e0 p } = Some p'"
      and ok: "program_ok cfg program" "exec_inv (pl_exec p)"
    from run obtain p1 where p1: "check_once cfg sat oob program e0 p = Some p1"
      "(if finished p1 then Some p1 else f cfg sat oob program e0 p1) = Some p'"
      unfolding bind_eq_Some_conv by blast
    have "exec_inv (pl_exec p1)" by (rule check_once_inv [OF p1(1) ok])
    with p1(2) IH ok(1) show "exec_inv (pl_exec p') \<and> finished p'" by (auto split: if_splits)
  qed
  with assms(2,3) show ?thesis by simp
qed

theorem check_result:
  assumes "check cfg sat oob program m = Some p" and "program_ok cfg program"
  shows "finished p" and "exec_inv (pl_exec p)"
  using check_loop_inv [OF assms(1) [unfolded check_def Let_def] assms(2)] exec_inv_init
  by (simp_all add: new_Planner_def)

subsection \<open>An example\<close>

text \<open>A program of one thread that stores 7 at address 16.\<close>

definition one_store :: "config \<Rightarrow> test_program" where
  "one_store cfg e s = do {
     e \<leftarrow> threadStart None e;
     e \<leftarrow> exec_store cfg 16 7 8 (storeMCID 0 0 0 e);
     e \<leftarrow> threadFinish e;
     e \<leftarrow> set_current_thread None e;
     Some (e, s) }"

lemma one_store_ok: "program_ok cfg (one_store cfg)"
  unfolding program_ok_def
proof (intro allI impI)
  fix e s e' s'
  assume "one_store cfg e s = Some (e', s')"
  then obtain e1 e2 e3 where "threadStart None e = Some e1" "exec_store cfg 16 7 8 (storeMCID 0 0 0 e1) = Some e2"
    "threadFinish e2 = Some e3" "set_current_thread None e3 = Some e'"
    by (auto simp: one_store_def do_simps)
  then have "exec_step cfg e e1" "exec_step cfg e1 (storeMCID 0 0 0 e1)" "exec_step cfg (storeMCID 0 0 0 e1) e2"
    "exec_step cfg e2 e3" "exec_step cfg e3 e'"
    by (blast intro: exec_step.intros)+
  then show "(exec_step cfg)\<^sup>*\<^sup>* e e'" by (meson converse_rtranclp_into_rtranclp rtranclp.rtrancl_refl)
qed

definition plain :: config where
  "plain = \<lparr> TSO = False, noexecyields = False, only_branches = False \<rparr>"

text \<open>The checker runs it once: there is nothing to explore.\<close>

lemma one_store_checked: "map_option finished (check plain (\<lambda>_. []) (\<lambda>_. False) (one_store plain) (\<lambda>_. 0)) = Some True"
  by code_simp

end
