(* ===== verification/GenSample.thy ===== *)
theory GenSample
  imports GenLatest ModelCheck
begin

section \<open>A recorded execution with an unexplored branch\<close>

text \<open>
  A record at which the theorems about the encoding are instantiated: a thread stores 0, starts a
  second thread that stores 2 to the same address, and branches on what it loads from there; only
  the direction for 0 was seen. The encoding has one goal, the other direction.
\<close>

definition sample_point :: "nat \<Rightarrow> uint32 \<Rightarrow> exec_point" where
  "sample_point t n = new_exec_point 4 t \<lparr> pairs := [(EP_COUNTER, n)] \<rparr>"

definition sample_record ::
  "event_type \<Rightarrow> nat \<Rightarrow> uint32 \<Rightarrow> nat \<Rightarrow> vid list \<Rightarrow> uint64 list list \<Rightarrow> rid option \<Rightarrow> eprecord" where
  "sample_record ev t n len vs sets nxt =
     (new_EPRecord ev (sample_point t n) None 0 (length sets - VC_BASEINDEX) len False)
       \<lparr> valuevector := vs, setarray := sets, nextRecord := nxt \<rparr>"

definition sample_exec :: execution where
  "sample_exec = (let e = new_MCExecution (\<lambda>_. 0) in
     e\<lparr> hp := \<lparr>
          recs = (\<lambda>r. [sample_record STORE 0 0 8 [0] [[64], [], [0]] (Some 1),
                  (sample_record THREADCREATE 0 1 8 [] [] (Some 2))\<lparr> childRecord := Some 4 \<rparr>,
                  sample_record LOAD 0 2 8 [1] [[64], [0, 2]] (Some 3),
                  sample_record BRANCHDIR 0 3 2 [2] [[], [], [0, 2]] None,
                  sample_record STORE 1 0 8 [3] [[64], [], [2]] None] ! r),
          vals = (\<lambda>v. [new_EPValue (sample_point 0 0) 0 64 0 8, new_EPValue (sample_point 0 2) 2 64 0 8,
                  new_EPValue (sample_point 0 3) 3 0 0 8, new_EPValue (sample_point 1 0) 4 64 2 8] ! v),
          goalsets = (\<lambda>_. []) \<rparr>,
        ThreadList := [new_Thread 0 None None, new_Thread 1 (Some 0) (Some 1)],
        EPList := [None, Some 0], storetable := [64 \<mapsto> [0, 4]],
        revrecorddep := [(3, VC_BASEINDEX) \<mapsto> [2]] \<rparr>)"

text \<open>In the solution the second thread stores first, so the load reads 2.\<close>

definition sample_solution :: "nat \<Rightarrow> bool" where
  "sample_solution v = (v \<in> {1, 4, 6, 7, 8})"

definition sample_view ::
  "cgen \<Rightarrow> rid list list \<times> constraint option list \<times> constraint list \<times> rid list option list \<times> int list option" where
  "sample_view g = (threadactions g, map (rpt g) [(0, 4), (2, 4), (4, 0), (4, 2)], goalset g,
     [cg_loadtable g 2, execcondtable g 2, execcondtable g 0, execcondtable g 4], map_option stream (solver g))"

lemma sample_encoded:
  "map_option sample_view (encode plain sample_exec new_ConstGen) =
     Some ([[0, 2], [4]], [Some TRUE, Some (VAR 2), None, None], [AND [VAR 1]], [Some [0, 4], None, None, None],
       Some [-3, 0, 4, 5, -6, 3, 0, 4, 5, 6, -3, 0, 2, 4, 5, 0, -2, -4, 5, 0,
         -4, 5, -6, 7, 0, -4, 5, 6, -7, 0, -5, 0, -1, 6, 0, 7, 0, -8, 1, 0, 8, 0])"
  by code_simp

text \<open>What the properties of the encoding ask of the record.\<close>

lemma sample_records:
  "same_thread sample_exec 0 2" "\<not> same_thread sample_exec 4 2" "\<not> same_thread sample_exec 0 4"
  "program_order sample_exec 0 2 = Some True" "event (rec_of sample_exec 2) = LOAD" "branch (rec_of sample_exec 2) = None"
  by code_simp+

text \<open>The load and the store of the second thread are linked to the first record.\<close>

lemma sample_linked: "linked plain sample_exec 0" "linked plain sample_exec 2" "linked plain sample_exec 4"
proof -
  have f: "getEPRecord MCID_FIRST sample_exec = Some 0"
    and n: "map (\<lambda>r. (event (rec_of sample_exec r), nextRecord (rec_of sample_exec r))) [0, 1] =
      [(STORE, Some 1), (THREADCREATE, Some 2)]"
    and c: "childRecord (rec_of sample_exec 1) = Some 4" by code_simp+
  show 0: "linked plain sample_exec 0" by (rule linked_first [OF f])
  have 1: "linked plain sample_exec 1" by (rule linked_next [OF 0]) (use n in simp_all)
  show "linked plain sample_exec 2" by (rule linked_next [OF 1]) (use n in simp_all)
  show "linked plain sample_exec 4" by (rule linked_child [OF 1 c])
qed

text \<open>Everything recorded at address 64: both stores have no other, and nothing is in a branch.\<close>

lemma sample_recorded:
  assumes "execcondtable g 0 = None" and "execcondtable g 4 = None"
  shows "recorded_at plain sample_exec g 64 2 [0, 4]"
proof -
  have t: "storetable sample_exec 64 = Some [0, 4]"
    and r: "map (\<lambda>r. (getSet VC_ADDRINDEX (rec_of sample_exec r), getRevDependences sample_exec r VC_ADDRINDEX,
        map (\<lambda>v. v_addr (val_of sample_exec v)) (valuevector (rec_of sample_exec r)),
        branch (rec_of sample_exec r), event (rec_of sample_exec r))) [0, 2, 4] =
      [(Some [64], None, [64], None, STORE), (Some [64], None, [64], None, LOAD), (Some [64], None, [64], None, STORE)]"
    by code_simp+
  have at: "at_address sample_exec 64 x" if "x \<in> {0, 2, 4}" for x
    using r that by (auto simp: at_address_def map_eq_Cons_conv)
  have free: "\<not> encloses sample_exec x b" if "branch (rec_of sample_exec x) = None" for x b
  proof
    assume "encloses sample_exec x b"
    then show False by induction (use that in simp_all)
  qed
  have "seen_at plain sample_exec 64 x" if "x \<in> {0, 2, 4}" for x
    using that r sample_linked at free by (auto simp: seen_at_def guarded_def is_memory_def)
  moreover have "related sample_exec x y" if "x \<in> {0, 2, 4}" "y \<in> {0, 2, 4}" "x \<noteq> y" for x y
    using that sample_records(1-4) by (auto simp: related_def same_thread_def)
  moreover have "execcond g k = []" if "k \<in> {0, 4}" for k using that assms by (auto simp: execcond_def)
  ultimately show ?thesis using t at by (auto simp: recorded_at_def)
qed

lemma sample_gen:
  obtains g where "encode plain sample_exec new_ConstGen = Some g" "models sample_solution g"
    "op_at g 0 0 0" "op_at g 0 1 2" "op_at g 1 0 4" "in_program_order sample_exec g" "goalset g = [AND [VAR 1]]" "cg_loadtable g 2 = Some [0, 4]"
    "rpt g (0, 4) = Some TRUE" "rpt g (2, 4) = Some (VAR 2)" "rpt g (4, 2) = None" "execcondtable g 2 = None"
    "recorded_at plain sample_exec g 64 2 [0, 4]"
proof -
  from sample_encoded obtain g where g: "encode plain sample_exec new_ConstGen = Some g"
    "threadactions g = [[0, 2], [4]]" "goalset g = [AND [VAR 1]]"
    "rpt g (0, 4) = Some TRUE" "rpt g (2, 4) = Some (VAR 2)" "rpt g (4, 2) = None"
    "cg_loadtable g 2 = Some [0, 4]" "execcondtable g 2 = None" "execcondtable g 0 = None" "execcondtable g 4 = None"
    "map_option stream (solver g) = Some [-3, 0, 4, 5, -6, 3, 0, 4, 5, 6, -3, 0, 2, 4, 5, 0, -2, -4, 5, 0,
         -4, 5, -6, 7, 0, -4, 5, 6, -7, 0, -5, 0, -1, 6, 0, 7, 0, -8, 1, 0, 8, 0]"
    by (auto simp: sample_view_def)
  have m: "models sample_solution g" using g(11) by (auto simp: models_def sample_solution_def)
  have ops: "op_at g t i a \<longleftrightarrow> (t, i, a) \<in> {(0, 0, 0), (0, 1, 2), (1, 0, 4)}" for t i a
    by (auto simp: op_at_def g(2) less_Suc_eq numeral_2_eq_2)
  have po: "map (program_order sample_exec 0) [0] = [Some False]" "map (program_order sample_exec 2) [0, 2] = [Some False, Some False]"
    "map (program_order sample_exec 4) [4] = [Some False]" by code_simp+
  have "in_program_order sample_exec g" using po by (auto simp: in_program_order_def ops)
  with g m sample_recorded [OF g(9,10)] show thesis by (intro that) (simp_all add: ops)
qed

lemma sample_grouped: "\<exists>g. groupMemoryOperations sample_exec 0 new_ConstGen = Some g"
proof (cases "groupMemoryOperations sample_exec 0 new_ConstGen")
  case None
  have "map_option next_sls (groupMemoryOperations sample_exec 0 new_ConstGen) = Some 1" by code_simp
  with None show ?thesis by simp
next
  case (Some g)
  then show ?thesis by (rule exI)
qed

end
