(* ===== verification/GenSolve.thy ===== *)
theory GenSolve
  imports GenSample
begin

section \<open>What the answer of the solver means for the exploration (constgen.cc, inc_solver.cc)\<close>

text \<open>
  \<open>process\<close> hands the clauses to the solver process and acts on its answer. With a process that
  answers rightly, an end of the exploration means that no behaviour reaches a goal, and a solution
  that is handed to the schedule builder is a behaviour that reaches one.
\<close>

subsection \<open>Solver processes that answer rightly\<close>

text \<open>A request: the clauses, a 0, the variables to freeze and the command to run.\<close>

definition request :: "int list \<Rightarrow> int list \<Rightarrow> int list" where
  "request cls vs = cls @ [0] @ concat (map (\<lambda>v. [IS_FREEZE, v]) vs) @ [IS_RUNSOLVER]"

definition answer_code :: "sat_process \<Rightarrow> int list \<Rightarrow> int32 option" where
  "answer_code sat ws =
     (if length (concat (sat ws)) < 4 then None else Some (int_of_bytes (take 4 (concat (sat ws)))))"

definition unsat_right :: "sat_process \<Rightarrow> bool" where
  "unsat_right sat \<longleftrightarrow> (\<forall>cls vs \<sigma>. closed cls \<longrightarrow> answer_code sat (request cls vs) = Some IS_UNSAT \<longrightarrow>
     \<not> stream_sat \<sigma> False cls)"

text \<open>The answer lists the values of the variables from 1 on; those left out do not matter.\<close>

definition answers :: "byte list \<Rightarrow> (nat \<Rightarrow> bool) \<Rightarrow> bool" where
  "answers bs \<sigma> \<longleftrightarrow> (\<forall>v. 1 \<le> v \<and> v \<le> length (ints_of_bytes bs) \<longrightarrow> \<sigma> v = (ints_of_bytes bs ! (v - 1) \<noteq> 0))"

definition sat_right :: "sat_process \<Rightarrow> bool" where
  "sat_right sat \<longleftrightarrow> (\<forall>cls vs. closed cls \<longrightarrow> answer_code sat (request cls vs) = Some IS_SAT \<longrightarrow>
     (\<exists>nv n bs rest. drop 4 (concat (sat (request cls vs))) = nv @ bs @ rest \<and> length nv = 4 \<and>
        sint (int_of_bytes nv) = int n \<and> 0 < n \<and> length bs = 4 * n \<and>
        (\<forall>\<sigma>. answers bs \<sigma> \<longrightarrow> stream_sat \<sigma> False cls)))"

subsection \<open>The request\<close>

lemma from_solver_literal [simp]: "from_solver (addClauseLiteral l s) = from_solver s"
  by (simp add: addClauseLiteral_def flushBuffer_def Let_def)

lemma freeze_goals_stream:
  assumes "freeze_goals (map Some cs) s = Some s'" and "solver_inv s"
  shows "\<exists>vs. stream s' = stream s @ concat (map (\<lambda>v. [IS_FREEZE, v]) vs) \<and> from_solver s' = from_solver s \<and> solver_inv s'"
  using assms unfolding freeze_goals_def
proof (induction cs arbitrary: s)
  case Nil
  then show ?case by (auto intro: exI [of _ "[]"])
next
  case (Cons c cs)
  from Cons.prems(1) obtain v where v: "getVar c = Some v"
    "foldM (\<lambda>c s. do { var \<leftarrow> c; v \<leftarrow> getVar var; Some (freeze (int v) s) }) (map Some cs) (freeze (int v) s) = Some s'"
    by (auto simp: do_simps)
  from Cons.IH [OF v(2) solver_inv_ops(2) [OF Cons.prems(2)]] obtain vs where
    "stream s' = stream (freeze (int v) s) @ concat (map (\<lambda>v. [IS_FREEZE, v]) vs)"
    "from_solver s' = from_solver (freeze (int v) s)" "solver_inv s'" by blast
  then have "stream s' = stream s @ concat (map (\<lambda>v. [IS_FREEZE, v]) (int v # vs)) \<and> from_solver s' = from_solver s \<and>
      solver_inv s'"
    by (simp add: freeze_def)
  then show ?case by blast
qed

text \<open>What is read of the answer.\<close>

lemma solve_answer:
  assumes "solve sat s = Some (result, s')" and "from_solver s = []" and "solver_inv s"
  shows "answer_code sat (stream s @ [IS_RUNSOLVER]) = Some result"
    and "result = IS_SAT \<Longrightarrow> drop 4 (concat (sat (stream s @ [IS_RUNSOLVER]))) = nv @ bs @ rest \<Longrightarrow> length nv = 4 \<Longrightarrow>
      sint (int_of_bytes nv) = int n \<Longrightarrow> 0 < n \<Longrightarrow> length bs = 4 * n \<Longrightarrow> solution s' = Some (0 # ints_of_bytes bs)"
proof -
  let ?ws = "stream s @ [IS_RUNSOLVER]"
  define t where "t = (startSolve s)\<lparr> from_solver := sat ?ws \<rparr>"
  have "from_solver (startSolve s) = []" using assms(2) by (simp add: startSolve_def flushBuffer_def)
  then have run: "getSolution t = Some (result, s')"
    using assms(1) by (simp add: solve_def Let_def startSolve_written(2) t_def)
  have inv: "solver_inv t" using solver_inv_ops(3) [OF assms(3)] by (simp add: t_def solver_inv_def)
  from run obtain b r where l: "read_loop 4 (from_solver t) = Some (b, r)" and res: "int_of_bytes b = result"
    by (auto simp: getSolution_def readIntSolver_def readSolver_def do_simps Let_def split: if_splits)
  note R = read_loop_concat [OF l]
  have b: "b = take 4 (concat (sat ?ws))" using R by (simp add: t_def)
  have four: "length b = 4" using R by blast
  then have "\<not> length (concat (sat ?ws)) < 4" using b by auto
  with b res show "answer_code sat ?ws = Some result" by (simp add: answer_code_def)
  assume sat: "result = IS_SAT" and d: "drop 4 (concat (sat ?ws)) = nv @ bs @ rest" and nv: "length nv = 4"
    "sint (int_of_bytes nv) = int n" "0 < n" "length bs = 4 * n"
  have "concat (from_solver t) = b @ nv @ bs @ rest" unfolding b d [symmetric] by (simp add: t_def)
  from getSolution_sat [OF inv _ four nv this] res sat obtain s2 where
    "getSolution t = Some (IS_SAT, s2)" "solution s2 = Some (0 # ints_of_bytes bs)" by blast
  with run show "solution s' = Some (0 # ints_of_bytes bs)" by simp
qed

subsection \<open>The outcome of process\<close>

lemma process_solved:
  assumes p: "process cfg sat oob e g = Some (fin, sol, g')" and g1: "encode cfg e g = Some g1" and "start_ok g"
    and "goalset g1 \<noteq> []" and "\<not> only_branches cfg"
  obtains s1 vs s3 result s4 where "solver g1 = Some s1" "closed (stream s1)"
    "stream s3 @ [IS_RUNSOLVER] = request (stream s1) vs" "solver_inv s3" "from_solver s3 = []"
    "solve sat s3 = Some (result, s4)" "fin \<longleftrightarrow> result = IS_UNSAT"
    "\<not> fin \<longrightarrow> result = IS_SAT \<and> sol = Some (\<lambda>i. case getValue i s4 of Some b \<Rightarrow> b | None \<Rightarrow> oob i)"
proof -
  obtain h where h: "translateGoals h = Some g1" "gen_ok h"
    by (rule encode_steps [OF g1 assms(3)]) (blast dest: reachedD)
  define cs where "cs = map (\<lambda>i. VAR (varindex h + i)) [0..<length (goalset h)]"
  have arr: "goalvararray g1 = Some (map Some cs)" unfolding translateGoals_models(3) [OF h] by (simp add: cs_def)
  from p g1 assms(4,5) obtain g2 ga s2 s3 r g3 where g2: "finish_clauses g1 = Some g2" "solver g2 = Some s2"
    "goalvararray g2 = Some ga" "freeze_goals ga s2 = Some s3"
    and run: "runSolver sat oob (g2\<lparr> solver := Some s3 \<rparr>) = Some (r, g3)"
    and out: "(case r of None \<Rightarrow> Some (True, None, g3\<lparr> solver := None \<rparr>)
       | Some \<sigma> \<Rightarrow> do { arr \<leftarrow> clear_goals \<sigma> ga; Some (False, Some \<sigma>, g3\<lparr> goalvararray := Some arr \<rparr>) })
      = Some (fin, sol, g')"
    by (auto simp: process_def do_simps)
  from g2(1,2) obtain s1 where s1: "solver g1 = Some s1" "g2 = g1\<lparr> solver := Some (finishedClauses s1) \<rparr>" "s2 = finishedClauses s1"
    by (auto simp: finish_clauses_def)
  have ok: "gen_ok g1" by (rule encode_gen_ok(1) [OF g1 assms(3)])
  have st: "closed (stream s1)" "solver_inv s1" "from_solver s1 = []"
    using gen_okD(2,4) [OF ok] by (simp_all add: stream_of_def s1 stream_ok_def)
  have "freeze_goals (map Some cs) s2 = Some s3" using g2(3,4) arr by (simp add: s1(2))
  from freeze_goals_stream [OF this] solver_inv_ops(1) [OF st(2)] obtain vs where
    vs: "stream s3 = stream s2 @ concat (map (\<lambda>v. [IS_FREEZE, v]) vs)" "from_solver s3 = from_solver s2" "solver_inv s3"
    by (auto simp: s1(3))
  from run obtain result s4 where solve: "solve sat s3 = Some (result, s4)"
    and r: "result = IS_UNSAT \<Longrightarrow> r = None"
      "result \<noteq> IS_UNSAT \<Longrightarrow> result = IS_SAT \<and> r = Some (\<lambda>i. case getValue i s4 of Some b \<Rightarrow> b | None \<Rightarrow> oob i)"
    by (auto simp: runSolver_def do_simps Let_def split: if_splits)
  show thesis
  proof (rule that [OF s1(1) st(1) _ vs(3) _ solve])
    show "stream s3 @ [IS_RUNSOLVER] = request (stream s1) vs" by (simp add: vs(1) s1(3) request_def)
    show "from_solver s3 = []" by (simp add: vs(2) s1(3) st(3) finishedClauses_def)
    show "fin \<longleftrightarrow> result = IS_UNSAT" "\<not> fin \<longrightarrow> result = IS_SAT \<and> sol = Some (\<lambda>i. case getValue i s4 of Some b \<Rightarrow> b | None \<Rightarrow> oob i)"
      using out r by (cases "result = IS_UNSAT"; auto simp: do_simps)+
  qed
qed

text \<open>The end of the exploration: no behaviour of the program reaches a goal.\<close>

lemma process_complete:
  assumes p: "process cfg sat oob e g = Some (True, sol, g')" and "start_ok g" and "\<not> only_branches cfg"
    and right: "unsat_right sat" and h: "encode_behaviors cfg e g = Some h" and "models \<sigma> h" and "c \<in> set (goalset h)"
  shows "\<not> eval \<sigma> c"
proof
  assume "eval \<sigma> c"
  from p obtain g1 where g1: "encode cfg e g = Some g1" by (auto simp: process_def do_simps)
  from encode_keeps_behaviors [OF h g1 assms(2,6,7) \<open>eval \<sigma> c\<close>] obtain \<tau> where t: "models \<tau> g1" by blast
  have "goalset g1 \<noteq> []"
  proof
    assume "goalset g1 = []"
    with encode_reaches_goal [OF g1 assms(2) t] show False by simp
  qed
  obtain s1 vs s3 result s4 where
    s: "solver g1 = Some s1" "closed (stream s1)" "stream s3 @ [IS_RUNSOLVER] = request (stream s1) vs"
      "solver_inv s3" "from_solver s3 = []" "solve sat s3 = Some (result, s4)" "True \<longleftrightarrow> result = IS_UNSAT"
    by (rule process_solved [OF p g1 assms(2) \<open>goalset g1 \<noteq> []\<close> assms(3)])
  from solve_answer(1) [OF s(6,5,4)] have "answer_code sat (request (stream s1) vs) = Some IS_UNSAT" using s(3,7) by simp
  with right s(2) have "\<not> stream_sat \<tau> False (stream s1)" unfolding unsat_right_def by blast
  with t s(1) show False by (simp add: models_def)
qed

text \<open>A solution is a behaviour that reaches a goal.\<close>

lemma process_sound:
  assumes p: "process cfg sat oob e g = Some (False, sol, g')" and "start_ok g" and "\<not> only_branches cfg"
    and right: "sat_right sat" and h: "encode_behaviors cfg e g = Some h"
  shows "\<exists>\<sigma> c. sol = Some \<sigma> \<and> models \<sigma> h \<and> c \<in> set (goalset h) \<and> eval \<sigma> c"
proof -
  from p obtain g1 where g1: "encode cfg e g = Some g1" and ne: "goalset g1 \<noteq> []"
    by (auto simp: process_def do_simps split: if_splits)
  obtain s1 vs s3 result s4 where
    s: "solver g1 = Some s1" "closed (stream s1)" "stream s3 @ [IS_RUNSOLVER] = request (stream s1) vs"
      "solver_inv s3" "from_solver s3 = []" "solve sat s3 = Some (result, s4)"
      "False \<longleftrightarrow> result = IS_UNSAT"
    and out: "\<not> False \<longrightarrow> result = IS_SAT \<and> sol = Some (\<lambda>i. case getValue i s4 of Some b \<Rightarrow> b | None \<Rightarrow> oob i)"
    by (rule process_solved [OF p g1 assms(2) ne assms(3)])
  then have res: "result = IS_SAT" and sol: "sol = Some (\<lambda>i. case getValue i s4 of Some b \<Rightarrow> b | None \<Rightarrow> oob i)" by (simp_all only: simp_thms)
  from solve_answer(1) [OF s(6,5,4)] have "answer_code sat (request (stream s1) vs) = Some IS_SAT" by (simp only: s(3) res)
  from right [unfolded sat_right_def, THEN spec, THEN spec, THEN mp, THEN mp, OF s(2) this]
  obtain nv n bs rest where a: "drop 4 (concat (sat (request (stream s1) vs))) = nv @ bs @ rest"
    "length nv = 4" "sint (int_of_bytes nv) = int n" "0 < n" "length bs = 4 * n"
    and mod: "\<forall>\<sigma>. answers bs \<sigma> \<longrightarrow> stream_sat \<sigma> False (stream s1)" by (elim exE conjE)
  have d: "drop 4 (concat (sat (stream s3 @ [IS_RUNSOLVER]))) = nv @ bs @ rest" using a(1) by (simp add: s(3))
  have "solution s4 = Some (0 # ints_of_bytes bs)"
    by (rule solve_answer(2) [OF s(6,5,4) res d a(2-5)])
  then have val: "getValue v s4 = Some (ints_of_bytes bs ! (v - 1) \<noteq> 0)" if "1 \<le> v" "v \<le> length (ints_of_bytes bs)" for v
    using that by (cases v) (auto simp: getValue_def nth_opt_def)
  define \<sigma> where "\<sigma> i = (case getValue i s4 of Some b \<Rightarrow> b | None \<Rightarrow> oob i)" for i
  have "answers bs \<sigma>" using val by (simp add: answers_def \<sigma>_def)
  then have "stream_sat \<sigma> False (stream s1)" using mod by blast
  then have m: "models \<sigma> g1" by (simp add: models_def s(1))
  obtain k where k: "translateGoals k = Some g1" "reached k g1" "gen_ok k" "encode_behaviors cfg e g = Some k"
    by (rule encode_steps [OF g1 assms(2)]) (blast dest: reachedD)
  have hk: "k = h" using k(4) h by simp
  have "models \<sigma> h" using reached_models [OF k(2) m k(3)] by (simp add: hk)
  moreover obtain c where "c \<in> set (goalset g1)" "eval \<sigma> c" using encode_reaches_goal [OF g1 assms(2) m] by blast
  moreover have "goalset g1 = goalset h" using translateGoals_models(2) [OF k(1,3)] by (simp add: hk)
  moreover have "sol = Some \<sigma>" by (simp add: sol \<sigma>_def fun_eq_iff)
  ultimately show ?thesis by auto
qed

subsection \<open>Two explorations\<close>

text \<open>A solver process that answers one request, and nothing to any other.\<close>

definition answering :: "int list \<Rightarrow> byte list \<Rightarrow> sat_process" where
  "answering req bs ws = (if ws = req then [bs] else [])"

lemma answering_code:
  "answer_code (answering req bs) ws = Some x \<Longrightarrow> ws = req \<and> concat (answering req bs ws) = bs"
  by (simp add: answer_code_def answering_def split: if_splits)

lemma request_inject:
  assumes "request cls vs = S @ [0, IS_FREEZE, v, IS_RUNSOLVER]" and "S \<noteq> []" and "last S = 0" and "v \<noteq> 0"
  shows "cls = S"
proof (cases vs rule: rev_cases)
  case Nil
  with assms(1,4) show ?thesis by (simp add: request_def)
next
  case (snoc us u)
  have "cls @ [0] @ concat (map (\<lambda>v. [IS_FREEZE, v]) us) @ [IS_FREEZE, u, IS_RUNSOLVER] = S @ [0, IS_FREEZE, v, IS_RUNSOLVER]"
    using assms(1) by (simp add: request_def snoc)
  then have 1: "cls @ [0] @ concat (map (\<lambda>v. [IS_FREEZE, v]) us) = S @ [0]" by simp
  show ?thesis
  proof (cases us rule: rev_cases)
    case Nil
    with 1 show ?thesis by simp
  next
    case (snoc ws w)
    with 1 have "(cls @ [0] @ concat (map (\<lambda>v. [IS_FREEZE, v]) ws)) @ [IS_FREEZE, w] = S @ [0]" by simp
    then have "(cls @ [0] @ concat (map (\<lambda>v. [IS_FREEZE, v]) ws)) @ [IS_FREEZE] = S"
      by (metis append.assoc append_Cons append_Nil butlast_snoc)
    with assms(3) show ?thesis by (metis IS_FREEZE_def last_snoc zero_neq_numeral)
  qed
qed

text \<open>One thread that branches on what it loads: the other direction cannot be reached.\<close>

definition closed_exec :: execution where
  "closed_exec = (let e = new_MCExecution (\<lambda>_. 0) in
     e\<lparr> hp := \<lparr>
          recs = (\<lambda>r. [sample_record STORE 0 0 8 [0] [[64], [], [0]] (Some 1),
                  sample_record LOAD 0 1 8 [1] [[64], [0]] (Some 2),
                  sample_record BRANCHDIR 0 2 2 [2] [[], [], [0]] None] ! r),
          vals = (\<lambda>v. [new_EPValue (sample_point 0 0) 0 64 0 8, new_EPValue (sample_point 0 1) 1 64 0 8,
                  new_EPValue (sample_point 0 2) 2 0 0 8] ! v),
          goalsets = (\<lambda>_. []) \<rparr>,
        ThreadList := [new_Thread 0 None None], EPList := [None, Some 0],
        storetable := [64 \<mapsto> [0]], revrecorddep := [(2, VC_BASEINDEX) \<mapsto> [1]] \<rparr>)"

definition closed_solver :: sat_process where
  "closed_solver = answering [-2, 0, -1, 0, -3, 1, 0, 3, 0, 0, 3, 3, 4] [0, 0, 0, 0]"

lemma closed_solver_right: "unsat_right closed_solver"
  unfolding unsat_right_def
proof (intro allI impI)
  let ?S = "[-2, 0, -1, 0, -3, 1, 0, 3, 0] :: int list"
  fix cls vs \<sigma> assume "answer_code closed_solver (request cls vs) = Some IS_UNSAT"
  from answering_code [OF this [unfolded closed_solver_def]]
  have "request cls vs = ?S @ [0, IS_FREEZE, 3, IS_RUNSOLVER]" by (simp add: IS_FREEZE_def IS_RUNSOLVER_def)
  then have "cls = ?S" by (rule request_inject) simp_all
  then show "\<not> stream_sat \<sigma> False cls" by auto
qed

lemma closed_explored:
  "map_option (\<lambda>(fin, sol, g). (fin, sol = None)) (process plain closed_solver (\<lambda>_. False) closed_exec new_ConstGen)
    = Some (True, True)"
  by code_simp

text \<open>The two threads of \<open>sample_exec\<close>, with the solution in which the second one stores first.\<close>

definition sample_clauses :: "int list" where
  "sample_clauses = [-3, 0, 4, 5, -6, 3, 0, 4, 5, 6, -3, 0, 2, 4, 5, 0, -2, -4, 5, 0,
     -4, 5, -6, 7, 0, -4, 5, 6, -7, 0, -5, 0, -1, 6, 0, 7, 0, -8, 1, 0, 8, 0]"

definition sample_values :: "byte list" where
  "sample_values = concat (map (\<lambda>b. [b, 0, 0, 0]) [1, 0, 0, 1, 0, 1, 1, 1])"

definition sample_solver :: sat_process where
  "sample_solver = answering (sample_clauses @ [0, 3, 8, 4]) ([1, 0, 0, 0] @ [8, 0, 0, 0] @ sample_values)"

lemma sample_solver_right: "sat_right sample_solver"
  unfolding sat_right_def
proof (intro allI impI)
  fix cls vs assume "answer_code sample_solver (request cls vs) = Some IS_SAT"
  from answering_code [OF this [unfolded sample_solver_def]]
  have r: "request cls vs = sample_clauses @ [0, IS_FREEZE, 8, IS_RUNSOLVER]"
    and a: "concat (sample_solver (request cls vs)) = [1, 0, 0, 0] @ [8, 0, 0, 0] @ sample_values"
    by (auto simp: IS_FREEZE_def IS_RUNSOLVER_def sample_solver_def answering_def)
  from r have c: "cls = sample_clauses" by (rule request_inject) (simp_all add: sample_clauses_def)
  have v: "ints_of_bytes sample_values = [1, 0, 0, 1, 0, 1, 1, 1]" "sint (int_of_bytes [8, 0, 0, 0]) = 8"
    "length sample_values = 32" by code_simp+
  have "stream_sat \<sigma> False sample_clauses" if "answers sample_values \<sigma>" for \<sigma>
  proof -
    have "\<sigma> k = ([1, 0, 0, 1, 0, 1, 1, 1 :: int32] ! (k - 1) \<noteq> 0)" if "1 \<le> k" "k \<le> 8" for k
      using \<open>answers sample_values \<sigma>\<close> that by (simp add: answers_def v)
    from this [of 1] this [of 2] this [of 3] this [of 4] this [of 5] this [of 6] this [of 7] this [of 8]
    show ?thesis by (simp add: sample_clauses_def)
  qed
  then show "\<exists>nv n bs rest. drop 4 (concat (sample_solver (request cls vs))) = nv @ bs @ rest \<and> length nv = 4 \<and>
      sint (int_of_bytes nv) = int n \<and> 0 < n \<and> length bs = 4 * n \<and> (\<forall>\<sigma>. answers bs \<sigma> \<longrightarrow> stream_sat \<sigma> False cls)"
    unfolding c by (intro exI [of _ "[8, 0, 0, 0]"] exI [of _ 8] exI [of _ sample_values] exI [of _ "[]"])
      (simp add: a [unfolded c] v)
qed

lemma sample_explored:
  "map_option (\<lambda>(fin, sol, g). (fin, sol = None)) (process plain sample_solver (\<lambda>_. False) sample_exec new_ConstGen)
    = Some (False, False)"
  by code_simp

end
