(* ===== verification/GenPruned.thy ===== *)
theory GenPruned
  imports GenSample
begin

section \<open>A store that is pruned although it overwrites\<close>

text \<open>
  \<open>computeConflictSet\<close> leaves out a store when another one hides it, which asks that the other one
  executes whenever it does. \<open>subsumesExecutionConstraint\<close> answers that the store 4 below executes
  whenever the store 7 does: the jump 3 that skips 4 comes before 7, and it is not asked whether it
  also skips 7, which stands after the label 5 of the jump. In the solution here the jump is taken;
  4 is skipped, 7 executes and nothing keeps the load 8 from reading the store 0 that 7 overwrites.

  The record has the operations of
  \<open>x = 0; r = x; do { if (r == 0) break; x = 5 } while (0); if (r == 0) x = 3; r = x\<close>, without the
  records of the loop, which play no part. The records 0 to 8 are the store, the load, the branch, the
  jump of the \<open>break\<close>, the store of 5, the label after the loop, the second branch, the store of 3 and
  the last load.
\<close>

definition branch_point :: "uint32 \<Rightarrow> exec_point" where
  "branch_point n = new_exec_point 8 0 \<lparr> pairs := [(EP_COUNTER, n), (EP_BRANCH, 0), (EP_COUNTER, 0)] \<rparr>"

definition goto_exec :: execution where
  "goto_exec = (let e = new_MCExecution (\<lambda>_. 0) in
     e\<lparr> hp := \<lparr>
          recs = (\<lambda>r. [sample_record STORE 0 0 8 [0] [[64], [], [0]] (Some 1),
                  sample_record LOAD 0 1 8 [1] [[64], [0]] (Some 2),
                  sample_record BRANCHDIR 0 2 2 [2] [[], [], [0]] (Some 4),
                  (sample_record NONLOCALTRANS 0 0 8 [] [] (Some 5))\<lparr> r_ep := branch_point 2, branch := Some 2 \<rparr>,
                  sample_record STORE 0 3 8 [3] [[64], [], [5]] (Some 5),
                  sample_record LABEL 0 4 8 [] [] (Some 6),
                  sample_record BRANCHDIR 0 5 2 [4] [[], [], [0]] (Some 8),
                  (sample_record STORE 0 0 8 [5] [[64], [], [3]] None)\<lparr> r_ep := branch_point 5, branch := Some 4 \<rparr>,
                  sample_record LOAD 0 6 8 [6] [[64], [0, 3, 5]] None] ! r),
          vals = (\<lambda>v. [new_EPValue (sample_point 0 0) 0 64 0 8, new_EPValue (sample_point 0 1) 1 64 0 8,
                  (new_EPValue (sample_point 0 2) 2 0 0 8)\<lparr> firstrecord := Some 3 \<rparr>,
                  new_EPValue (sample_point 0 3) 4 64 5 8,
                  (new_EPValue (sample_point 0 5) 6 0 0 8)\<lparr> firstrecord := Some 7 \<rparr>,
                  new_EPValue (branch_point 5) 7 64 3 8, new_EPValue (sample_point 0 6) 8 64 0 8] ! v),
          goalsets = (\<lambda>_. []) \<rparr>,
        ThreadList := [new_Thread 0 None None], EPList := [None, Some 0], storetable := [64 \<mapsto> [0, 4, 7]],
        revrecorddep := [(2, VC_BASEINDEX) \<mapsto> [1], (6, VC_BASEINDEX) \<mapsto> [1]] \<rparr>)"

definition goto_solution :: "nat \<Rightarrow> bool" where
  "goto_solution v = (v \<in> {8, 11})"

definition goto_view :: "cgen \<Rightarrow> bool list \<times> bool list option list \<times> rid list option option \<times> bool option" where
  "goto_view g =
     (let e = goto_exec; \<sigma> = goto_solution in
      ([stream_sat \<sigma> False (stream_of g), executes e g \<sigma> 4, executes e g \<sigma> 7, executes e g \<sigma> 0,
        prec plain e g \<sigma> 0 8, prec plain e g \<sigma> 0 7, prec plain e g \<sigma> 7 8, solver g = None],
       [read_bits e g 0 \<sigma> 8, value_bits g 0 \<sigma> 0, address_bits g 0 \<sigma> 8, address_bits g 0 \<sigma> 0, address_bits g 0 \<sigma> 7],
       computeConflictSet plain e 0 8 [0, 4, 7] g, subsumesExecutionConstraint plain e 4 7 g))"

lemma goto_encoded:
  "map_option goto_view (encode_behaviors plain goto_exec new_ConstGen) =
     Some ([True, False, True, True, True, True, True, False],
       [Some [False, False], Some [False, False], Some [], Some [], Some []], Some (Some [0, 4]), Some True)"
  by code_simp

theorem pruned_store_overwrites:
  "\<exists>h. encode_behaviors plain goto_exec new_ConstGen = Some h \<and> models goto_solution h \<and>
     subsumesExecutionConstraint plain goto_exec 4 7 h = Some True \<and>
     executes goto_exec h goto_solution 7 \<and> \<not> executes goto_exec h goto_solution 4 \<and>
     reads_from plain goto_exec h 0 goto_solution 8 0 \<and> overwrites plain goto_exec h 0 goto_solution 8 0 7"
proof -
  from goto_encoded obtain h where h: "encode_behaviors plain goto_exec new_ConstGen = Some h"
    and v: "goto_view h = ([True, False, True, True, True, True, True, False],
       [Some [False, False], Some [False, False], Some [], Some [], Some []], Some (Some [0, 4]), Some True)"
    by auto
  then have "models goto_solution h" by (auto simp: goto_view_def Let_def models_def stream_of_def split: option.splits)
  with h v show ?thesis by (simp add: goto_view_def Let_def reads_from_def overwrites_def)
qed

end
