(* ===== verification/SchedTrace.thy ===== *)
theory SchedTrace
  imports Scheduling
begin

section \<open>What a schedule enforces\<close>

text \<open>
  The trace of a run of \<open>buildSchedule\<close> is the sequence of memory operations it takes, each with
  the operations that were pending, one for each thread of the builder. The theory shows
  which wait pairs the trace leaves in the scheduler and what \<open>check_thread\<close> makes of them: an
  operation starts only when the thread of every earlier operation of the trace has finished, is
  further on, or has taken another direction of a branch around it. The compilation for sequential consistency (not TSO) is meant throughout.
\<close>

subsection \<open>The trace\<close>

type_synonym sched_step = "rid option list \<times> rid"

definition point :: "execution \<Rightarrow> rid \<Rightarrow> exec_point" where
  "point e r = r_ep (rec_of e r)"

text \<open>The threads (positions in the vectors of the builder) that perform the operation of a step.\<close>

definition takers :: "sched_step \<Rightarrow> nat list" where
  "takers x = filter (\<lambda>i. fst x ! i = Some (snd x)) [0..<length (fst x)]"

partial_function (option) sb_trace :: "config \<Rightarrow> execution \<Rightarrow> cgen \<Rightarrow> assignment \<Rightarrow> sched_builder
    \<Rightarrow> mcscheduler \<Rightarrow> sched_step list option" where
  [code]: "sb_trace cfg e g \<sigma> b s = do {
     (b, s) \<leftarrow> sb_advance cfg e g \<sigma> 0 b s;
     earliest \<leftarrow> sb_earliest cfg e g \<sigma> b;
     case earliest of
       None \<Rightarrow> Some []
     | Some r \<Rightarrow> do {
         (b', s) \<leftarrow> foldM (sb_take cfg e g r) [0..<length (sb_threads b)] (b, s);
         tr \<leftarrow> sb_trace cfg e g \<sigma> b' s;
         Some ((sb_threads b, r) # tr) } }"

definition schedule_trace :: "config \<Rightarrow> execution \<Rightarrow> cgen \<Rightarrow> assignment \<Rightarrow> mcscheduler \<Rightarrow> sched_step list option" where
  "schedule_trace cfg e g \<sigma> s = do {
     first \<leftarrow> getEPRecord MCID_FIRST e;
     sb_trace cfg e g \<sigma> (sb_new_thread (Some first)
       \<lparr> sb_threads = [], lastoperation = [], sb_stores = [], storelastoperation = [] \<rparr>) s }"

text \<open>The last operation of the thread at position \<open>i\<close> in a trace.\<close>

definition last_of :: "sched_step list \<Rightarrow> nat \<Rightarrow> rid option" where
  "last_of tr i = map_option snd (find (\<lambda>x. i \<in> set (takers x)) (rev tr))"

text \<open>The waits that a step adds after the steps \<open>past\<close>, and those of a whole trace for the thread \<open>t\<close>.\<close>

definition width :: "sched_step list \<Rightarrow> nat" where
  "width tr = Suc (foldr max (concat (map takers tr)) 0)"

definition step_waits :: "execution \<Rightarrow> sched_step list \<Rightarrow> sched_step \<Rightarrow> wait_pair list" where
  "step_waits e past x = map (\<lambda>l. (point e (snd x), point e l))
     (List.map_filter (\<lambda>i. if i \<in> set (takers x) then None else last_of past i) [0..<width past])"

fun trace_waits :: "execution \<Rightarrow> nat \<Rightarrow> sched_step list \<Rightarrow> sched_step list \<Rightarrow> wait_pair list" where
  "trace_waits e t past [] = []"
| "trace_waits e t past (x # xs) =
     (if ep_tid (point e (snd x)) = t then step_waits e past x else []) @ trace_waits e t (past @ [x]) xs"

definition waits :: "mcscheduler \<Rightarrow> nat \<Rightarrow> wait_pair list" where
  "waits s t = (if t < length (waitset s) then waitset s ! t else [])"

definition lst :: "sched_builder \<Rightarrow> nat \<Rightarrow> rid option" where
  "lst b i = (if i < length (lastoperation b) then lastoperation b ! i else None)"

definition sb_ok :: "sched_builder \<Rightarrow> bool" where
  "sb_ok b \<longleftrightarrow> length (lastoperation b) = length (sb_threads b)"

lemma last_of_Nil [simp]: "last_of [] i = None"
  by (simp add: last_of_def)

lemma last_of_snoc [simp]: "last_of (tr @ [x]) i = (if i \<in> set (takers x) then Some (snd x) else last_of tr i)"
  by (simp add: last_of_def)

lemma foldr_max: "(x :: nat) \<in> set xs \<Longrightarrow> x \<le> foldr max xs m"
  by (induction xs) auto

lemma last_of_width: "width tr \<le> i \<Longrightarrow> last_of tr i = None"
proof -
  assume w: "width tr \<le> i"
  have "i \<notin> set (takers x)" if "x \<in> set tr" for x
    using w foldr_max [of i "concat (map takers tr)" 0] that by (auto simp: width_def)
  then show ?thesis by (auto simp: last_of_def find_None_iff)
qed

lemma map_filter_cong': "(\<And>x. x \<in> set xs \<Longrightarrow> f x = g x) \<Longrightarrow> List.map_filter f xs = List.map_filter g xs"
  by (induction xs) (auto simp: map_filter_simps split: option.split)

lemma map_filter_append: "List.map_filter f (xs @ ys) = List.map_filter f xs @ List.map_filter f ys"
  by (simp add: List.map_filter_def)

lemma map_filter_upt:
  assumes "\<And>i. m \<le> i \<Longrightarrow> f i = None" and "m \<le> n"
  shows "List.map_filter f [0..<n] = List.map_filter f [0..<m]"
proof -
  have "[0..<n] = [0..<m] @ [m..<n]" using assms(2) upt_add_eq_append [of 0 m "n - m"] by simp
  moreover have "List.map_filter f [m..<n] = List.map_filter (\<lambda>_. None) [m..<n]"
    using assms(1) by (intro map_filter_cong') auto
  moreover have "List.map_filter (\<lambda>_. None) xs = []" for xs :: "nat list" by (induction xs) (simp_all add: map_filter_simps)
  ultimately show ?thesis by (simp add: map_filter_append)
qed

subsection \<open>Moving on to the next operations\<close>

lemma sb_processRecord_lst:
  assumes "sb_processRecord cfg e g \<sigma> r b = Some (n, b')" and "sb_ok b"
  shows "sb_ok b' \<and> (\<forall>i. lst b' i = lst b i) \<and> length (sb_threads b) \<le> length (sb_threads b') \<and>
    (\<forall>i < length (sb_threads b). sb_threads b' ! i = sb_threads b ! i)"
proof -
  have new: "sb_ok (sb_new_thread x b) \<and> (\<forall>i. lst (sb_new_thread x b) i = lst b i) \<and>
      length (sb_threads b) \<le> length (sb_threads (sb_new_thread x b)) \<and>
      (\<forall>i < length (sb_threads b). sb_threads (sb_new_thread x b) ! i = sb_threads b ! i)" for x
    using assms(2) by (auto simp: sb_ok_def lst_def sb_new_thread_def nth_append)
  show ?thesis
    using assms new by (auto simp: sb_processRecord_def Let_def do_simps split: if_splits option.splits)
qed

lemma sb_buffer_SC:
  assumes "\<not> TSO cfg" and "index < length (sb_threads b)"
  shows "sb_buffer cfg e g index n b s = Some (n, b, s)"
  using assms by (cases n) (simp_all add: sb_buffer_def)

text \<open>Moving on does not touch the scheduler nor the last operations.\<close>

lemma sb_advance_step:
  assumes "\<not> TSO cfg"
  shows "sb_advance cfg e g \<sigma> index b s =
     (if length (sb_threads b) \<le> index then Some (b, s)
      else case sb_threads b ! index of
             None \<Rightarrow> sb_advance cfg e g \<sigma> (index + 1) b s
           | Some r \<Rightarrow> do {
               (n, b) \<leftarrow> sb_processRecord cfg e g \<sigma> r b;
               if n \<noteq> Some r
               then sb_advance cfg e g \<sigma> index (b\<lparr> sb_threads := (sb_threads b)[index := n] \<rparr>) s
               else sb_advance cfg e g \<sigma> (index + 1) b s })"
proof -
  have "sb_buffer cfg e g index n b s = Some (n, b, s)" for n b s
    using assms by (cases n) (simp_all add: sb_buffer_def)
  then show ?thesis by (subst sb_advance.simps) (simp cong: option.case_cong)
qed

lemma sb_advance_ok:
  assumes "sb_advance cfg e g \<sigma> index b s = Some r" and "\<not> TSO cfg" and "sb_ok b"
  shows "sb_ok (fst r) \<and> (\<forall>i. lst (fst r) i = lst b i) \<and> snd r = s"
proof -
  let ?Q = "\<lambda>b s r. sb_ok b \<longrightarrow> sb_ok (fst r) \<and> (\<forall>i. lst (fst r) i = lst b i) \<and> snd r = s"
  let ?P = "\<lambda>cfg e g \<sigma> index b s r. \<not> TSO cfg \<longrightarrow> ?Q b s r"
  have "?P cfg e g \<sigma> index b s r"
  proof (rule sb_advance.raw_induct [where P = ?P, OF _ assms(1)], rule impI)
    fix adv cfg e g \<sigma> index b s r
    assume IH: "\<And>cfg e g \<sigma> index b s r. adv cfg e g \<sigma> index b s = Some r \<Longrightarrow> ?P cfg e g \<sigma> index b s r"
      and run: "(if length (sb_threads b) \<le> index then Some (b, s)
        else case sb_threads b ! index of
             None \<Rightarrow> adv cfg e g \<sigma> (index + 1) b s
           | Some r \<Rightarrow> do {
               (nextr, b) \<leftarrow> sb_processRecord cfg e g \<sigma> r b;
               (nextr, b, s) \<leftarrow> sb_buffer cfg e g index nextr b s;
               if nextr \<noteq> Some r
               then adv cfg e g \<sigma> index (b\<lparr> sb_threads := (sb_threads b)[index := nextr] \<rparr>) s
               else adv cfg e g \<sigma> (index + 1) b s }) = Some r"
      and sc: "\<not> TSO cfg"
    have buf: "sb_buffer cfg e g index n b s = Some (n, b, s)" for n b s
      using sc by (cases n) (simp_all add: sb_buffer_def)
    show "?Q b s r"
    proof (cases "length (sb_threads b) \<le> index \<or> sb_threads b ! index = None")
      case True
      then show ?thesis using run IH sc by (auto split: if_splits)
    next
      case False
      then obtain q where q: "sb_threads b ! index = Some q" "\<not> length (sb_threads b) \<le> index" by auto
      with run obtain n b1 where b1: "sb_processRecord cfg e g \<sigma> q b = Some (n, b1)"
        "(if n \<noteq> Some q then adv cfg e g \<sigma> index (b1\<lparr> sb_threads := (sb_threads b1)[index := n] \<rparr>) s
          else adv cfg e g \<sigma> (index + 1) b1 s) = Some r"
        by (auto simp: do_simps buf)
      have upd: "sb_ok (b1\<lparr> sb_threads := (sb_threads b1)[index := n] \<rparr>) = sb_ok b1"
        "lst (b1\<lparr> sb_threads := (sb_threads b1)[index := n] \<rparr>) i = lst b1 i" for i
        by (simp_all add: sb_ok_def lst_def)
      have Q1: "?Q b1 s r"
      proof (cases "n = Some q")
        case True
        with b1(2) IH [of cfg e g \<sigma> "index + 1" b1 s r] sc show ?thesis by simp
      next
        case False
        with b1(2) IH [of cfg e g \<sigma> index "b1\<lparr> sb_threads := (sb_threads b1)[index := n] \<rparr>" s r] sc
        show ?thesis by (simp add: upd)
      qed
      show ?thesis using sb_processRecord_lst [OF b1(1)] Q1 by auto
    qed
  qed
  then show ?thesis using assms by blast
qed

subsection \<open>The waits of a step\<close>

lemma waits_addWaitPair:
  assumes "\<not> TSO cfg"
  shows "waits (addWaitPair cfg e r l s) t = waits s t @ (if ep_tid (point e r) = t then [(point e r, point e l)] else [])"
  using assms by (auto simp: addWaitPair_def Let_def waits_def point_def nth_list_update nth_resize_to_new)

lemma waits_wait_for:
  assumes "\<not> TSO cfg"
  shows "waits (wait_for cfg e r lo s) t = waits s t @
    (case lo of Some l \<Rightarrow> if ep_tid (point e r) = t then [(point e r, point e l)] else [] | None \<Rightarrow> [])"
  by (cases lo) (simp_all add: wait_for_def waits_addWaitPair [OF assms])

lemma sb_take_SC:
  assumes "\<not> TSO cfg"
  shows "sb_take cfg e g r i (b, s) =
     (if sb_threads b ! i = Some r then
        map_option (\<lambda>n. (b\<lparr> sb_threads := (sb_threads b)[i := n], lastoperation := (lastoperation b)[i := Some r] \<rparr>, s))
          (sb_getNextRecord e g r)
      else Some (b, wait_for cfg e r (lastoperation b ! i) s))"
  using assms by (cases "sb_getNextRecord e g r") (simp_all add: sb_take_def)

lemma sb_take_all:
  assumes "foldM (sb_take cfg e g r) is (b, s) = Some (b', s')" and "\<not> TSO cfg" and "sb_ok b"
    and "distinct is" and "\<forall>i \<in> set is. i < length (sb_threads b)"
  shows "sb_ok b' \<and> length (sb_threads b') = length (sb_threads b) \<and>
    (\<forall>i. lst b' i = (if i \<in> set is \<and> sb_threads b ! i = Some r then Some r else lst b i)) \<and>
    (\<forall>i. i \<in> set is \<and> sb_threads b ! i = Some r \<or> sb_threads b' ! i = sb_threads b ! i) \<and>
    (\<forall>t. waits s' t = waits s t @ (if ep_tid (point e r) = t
       then map (\<lambda>l. (point e r, point e l)) (List.map_filter (\<lambda>i. if sb_threads b ! i = Some r then None else lst b i) is)
       else []))"
  using assms(1,3-5)
proof (induction "is" arbitrary: b s)
  case Nil
  then show ?case by (simp add: map_filter_simps)
next
  case (Cons i "is")
  from Cons.prems(1) obtain b1 s1 where s1: "sb_take cfg e g r i (b, s) = Some (b1, s1)"
    "foldM (sb_take cfg e g r) is (b1, s1) = Some (b', s')" by (auto simp: do_simps)
  show ?case
  proof (cases "sb_threads b ! i = Some r")
    case True
    with s1(1) obtain n where b1: "b1 = b\<lparr> sb_threads := (sb_threads b)[i := n], lastoperation := (lastoperation b)[i := Some r] \<rparr>"
      "s1 = s" by (auto simp: sb_take_SC [OF assms(2)])
    have "sb_ok b1" "length (sb_threads b1) = length (sb_threads b)" using Cons.prems(2) by (simp_all add: b1 sb_ok_def)
    moreover have l: "lst b1 j = (if j = i then Some r else lst b j)" for j
      using Cons.prems(2,4) by (simp add: b1 lst_def sb_ok_def nth_list_update)
    moreover have t: "j \<noteq> i \<Longrightarrow> sb_threads b1 ! j = sb_threads b ! j" for j by (simp add: b1)
    moreover have "List.map_filter (\<lambda>i. if sb_threads b1 ! i = Some r then None else lst b1 i) is =
        List.map_filter (\<lambda>i. if sb_threads b ! i = Some r then None else lst b i) is"
      using Cons.prems(3) l t by (intro map_filter_cong') auto
    moreover have "i \<notin> set is" using Cons.prems(3) by simp
    moreover have "\<forall>j \<in> set is. j < length (sb_threads b)" using Cons.prems(4) by simp
    moreover note IH = Cons.IH [OF s1(2)] Cons.prems(3)
    ultimately have c: "sb_ok b' \<and> length (sb_threads b') = length (sb_threads b)"
      "\<forall>j. lst b' j = (if j \<in> set is \<and> sb_threads b1 ! j = Some r then Some r else lst b1 j)"
      "\<forall>j. j \<in> set is \<and> sb_threads b1 ! j = Some r \<or> sb_threads b' ! j = sb_threads b1 ! j"
      "\<forall>t. waits s' t = waits s t @ (if ep_tid (point e r) = t
         then map (\<lambda>l. (point e r, point e l)) (List.map_filter (\<lambda>i. if sb_threads b ! i = Some r then None else lst b i) is)
         else [])"
      by (simp_all add: b1(2))
    have "j \<in> set (i # is) \<and> sb_threads b ! j = Some r \<or> sb_threads b' ! j = sb_threads b ! j" for j
      using c(3) [rule_format, of j] True t [of j] by (cases "j = i") auto
    moreover have "lst b' j = (if j \<in> set (i # is) \<and> sb_threads b ! j = Some r then Some r else lst b j)" for j
      using c(2) [rule_format, of j] True t [of j] l [of j] by (cases "j = i") auto
    ultimately show ?thesis using c(1,4) True by (auto simp: map_filter_simps)
  next
    case False
    with s1(1) have b1: "b1 = b" "s1 = wait_for cfg e r (lastoperation b ! i) s" by (auto simp: sb_take_SC [OF assms(2)])
    have "lst b i = lastoperation b ! i" using Cons.prems(2,4) by (simp add: lst_def sb_ok_def)
    then show ?thesis using Cons.IH [OF s1(2) [unfolded b1]] Cons.prems False
      by (auto simp: map_filter_simps waits_wait_for [OF assms(2)] split: option.splits)
  qed
qed

text \<open>After one step, the last operations are those of the trace extended by the step.\<close>

lemma takers_mem: "i \<in> set (takers x) \<longleftrightarrow> i < length (fst x) \<and> fst x ! i = Some (snd x)"
  by (auto simp: takers_def)

lemma step_ok:
  assumes "foldM (sb_take cfg e g r) [0..<length (sb_threads b)] (b, s) = Some (b', s')" and "\<not> TSO cfg" and "sb_ok b"
    and "\<forall>i. lst b i = last_of past i"
  shows "sb_ok b' \<and> (\<forall>i. lst b' i = last_of (past @ [(sb_threads b, r)]) i) \<and>
    (\<forall>t. waits s' t = waits s t @ (if ep_tid (point e r) = t then step_waits e past (sb_threads b, r) else []))"
proof -
  let ?n = "length (sb_threads b)"
  let ?f = "\<lambda>i. if i \<in> set (takers (sb_threads b, r)) then None else last_of past i"
  have T: "sb_ok b' \<and> length (sb_threads b') = length (sb_threads b) \<and>
    (\<forall>i. lst b' i = (if i \<in> set [0..<?n] \<and> sb_threads b ! i = Some r then Some r else lst b i)) \<and>
    (\<forall>i. i \<in> set [0..<?n] \<and> sb_threads b ! i = Some r \<or> sb_threads b' ! i = sb_threads b ! i) \<and>
    (\<forall>t. waits s' t = waits s t @ (if ep_tid (point e r) = t
       then map (\<lambda>l. (point e r, point e l)) (List.map_filter (\<lambda>i. if sb_threads b ! i = Some r then None else lst b i) [0..<?n])
       else []))"
    by (rule sb_take_all [OF assms(1-3)]) auto
  have "List.map_filter (\<lambda>i. if sb_threads b ! i = Some r then None else lst b i) [0..<?n] = List.map_filter ?f [0..<?n]"
    using assms(4) by (intro map_filter_cong') (auto simp: takers_mem)
  also have "\<dots> = List.map_filter ?f [0..<width past]"
  proof -
    have n: "?f i = None" if "?n \<le> i" for i
      using assms(3,4) that by (auto simp: lst_def sb_ok_def) (metis leD)
    have w: "?f i = None" if "width past \<le> i" for i using last_of_width [OF that] by simp
    show ?thesis
      using map_filter_upt [of ?n ?f "width past", OF n] map_filter_upt [of "width past" ?f ?n, OF w]
      by (cases "?n \<le> width past") auto
  qed
  finally show ?thesis using T assms(4) by (simp add: step_waits_def takers_mem)
qed

text \<open>A schedule that is built has a trace, and its waits are those of the trace.\<close>

lemma sb_loop_waits:
  assumes "sb_loop cfg e g \<sigma> b s = Some s'" and "\<not> TSO cfg" and "sb_ok b" and "\<forall>i. lst b i = last_of past i"
  shows "\<exists>tr. sb_trace cfg e g \<sigma> b s = Some tr \<and> (\<forall>t. waits s' t = waits s t @ trace_waits e t past tr)"
proof -
  let ?P = "\<lambda>cfg e g \<sigma> b s s'. \<forall>past. \<not> TSO cfg \<longrightarrow> sb_ok b \<longrightarrow> (\<forall>i. lst b i = last_of past i) \<longrightarrow>
    (\<exists>tr. sb_trace cfg e g \<sigma> b s = Some tr \<and> (\<forall>t. waits s' t = waits s t @ trace_waits e t past tr))"
  have "?P cfg e g \<sigma> b s s'"
  proof (rule sb_loop.raw_induct [where P = ?P, OF _ assms(1)], intro allI impI)
    fix loop cfg e g \<sigma> b s s' past
    assume IH: "\<And>cfg e g \<sigma> b s s'. loop cfg e g \<sigma> b s = Some s' \<Longrightarrow> ?P cfg e g \<sigma> b s s'"
      and run: "do {
        (b, s) \<leftarrow> sb_advance cfg e g \<sigma> 0 b s;
        earliest \<leftarrow> sb_earliest cfg e g \<sigma> b;
        case earliest of
          None \<Rightarrow> Some s
        | Some r \<Rightarrow> do {
            (b, s) \<leftarrow> foldM (sb_take cfg e g r) [0..<length (sb_threads b)] (b, s);
            loop cfg e g \<sigma> b s } } = Some s'"
      and sc: "\<not> TSO cfg" and ok: "sb_ok b" and l: "\<forall>i. lst b i = last_of past i"
    from run obtain b1 s1 en where b1: "sb_advance cfg e g \<sigma> 0 b s = Some (b1, s1)" "sb_earliest cfg e g \<sigma> b1 = Some en"
      by (auto simp: do_simps)
    from sb_advance_ok [OF b1(1) sc ok] l have ok1: "sb_ok b1" "\<forall>i. lst b1 i = last_of past i" and s1: "s1 = s" by simp_all
    show "\<exists>tr. sb_trace cfg e g \<sigma> b s = Some tr \<and> (\<forall>t. waits s' t = waits s t @ trace_waits e t past tr)"
    proof (cases en)
      case None
      with run b1 s1 have "s' = s" by simp
      moreover have "sb_trace cfg e g \<sigma> b s = Some []" using b1 None by (subst sb_trace.simps) simp
      ultimately show ?thesis by simp
    next
      case (Some r)
      with run b1 s1 obtain b2 s2 where b2: "foldM (sb_take cfg e g r) [0..<length (sb_threads b1)] (b1, s) = Some (b2, s2)"
        "loop cfg e g \<sigma> b2 s2 = Some s'" by (auto simp: do_simps)
      note st = step_ok [OF b2(1) sc ok1]
      from IH [OF b2(2), rule_format, OF sc conjunct1 [OF st]] st obtain tr where
        tr: "sb_trace cfg e g \<sigma> b2 s2 = Some tr" "\<forall>t. waits s' t = waits s2 t @ trace_waits e t (past @ [(sb_threads b1, r)]) tr"
        by blast
      have "sb_trace cfg e g \<sigma> b s = Some ((sb_threads b1, r) # tr)"
        using b1 s1 Some b2(1) tr(1) by (subst sb_trace.simps) simp
      with tr(2) st show ?thesis by simp
    qed
  qed
  then show ?thesis using assms by blast
qed

theorem schedule_waits:
  assumes "buildSchedule cfg e g \<sigma> s = Some s'" and "\<not> TSO cfg"
  shows "\<exists>tr. schedule_trace cfg e g \<sigma> s = Some tr \<and> (\<forall>t. waits s' t = waits s t @ trace_waits e t [] tr)"
proof -
  from assms(1) obtain first where f: "getEPRecord MCID_FIRST e = Some first"
    "sb_loop cfg e g \<sigma> (sb_new_thread (Some first)
       \<lparr> sb_threads = [], lastoperation = [], sb_stores = [], storelastoperation = [] \<rparr>) s = Some s'"
    by (auto simp: buildSchedule_def do_simps)
  from sb_loop_waits [OF f(2) assms(2), of "[]"] f(1) show ?thesis
    by (auto simp: schedule_trace_def sb_ok_def lst_def sb_new_thread_def nth_Cons')
qed

subsection \<open>What the scheduler makes of the waits\<close>

lemma trace_waits_append: "trace_waits e t past (xs @ ys) = trace_waits e t past xs @ trace_waits e t (past @ xs) ys"
  by (induction xs arbitrary: past) simp_all

lemma trace_waits_stop:
  "(p, w) \<in> set (trace_waits e t past xs) \<Longrightarrow> \<exists>x \<in> set xs. ep_tid (point e (snd x)) = t \<and> p = point e (snd x)"
  by (induction xs arbitrary: past) (auto simp: step_waits_def split: if_splits)

text \<open>The last operation before step \<open>k\<close> of a thread with an operation at step \<open>j\<close> is not before it.\<close>

lemma last_of_take:
  assumes "j < k" and "k \<le> length tr" and "i \<in> set (takers (tr ! j))"
  shows "\<exists>m. j \<le> m \<and> m < k \<and> i \<in> set (takers (tr ! m)) \<and> last_of (take k tr) i = Some (snd (tr ! m))"
  using assms
proof (induction k)
  case 0
  then show ?case by simp
next
  case (Suc k)
  have t: "take (Suc k) tr = take k tr @ [tr ! k]" using Suc.prems(2) by (simp add: take_Suc_conv_app_nth)
  show ?case
  proof (cases "i \<in> set (takers (tr ! k))")
    case True
    then show ?thesis using Suc.prems(1) by (intro exI [of _ k]) (simp add: t)
  next
    case False
    then have "j < k" using Suc.prems(1,3) by (cases "j = k") auto
    from Suc.IH [OF this _ Suc.prems(3)] Suc.prems(2) False show ?thesis by (auto simp: t less_Suc_eq)
  qed
qed

text \<open>
  The loop of \<open>checkSet\<close>: it goes past the pairs whose stop is the current point and whose wait is
  over, and answers "wait" at the first one that is not over.
\<close>

lemma check_pairs_result:
  assumes "check_pairs cfg e current wps i = Some (b, j)"
  shows "i \<le> j \<and> j \<le> i + length wps \<and>
    (\<forall>k < j - i. ep_compare (fst (wps ! k)) current = Some CR_EQUALS \<and> wait_over cfg e (snd (wps ! k)) = Some True) \<and>
    (b \<longrightarrow> j = i + length wps \<or> ep_compare (fst (wps ! (j - i))) current \<noteq> Some CR_EQUALS) \<and>
    (\<not> b \<longrightarrow> j < i + length wps \<and> ep_compare (fst (wps ! (j - i))) current = Some CR_EQUALS \<and>
      wait_over cfg e (snd (wps ! (j - i))) = Some False)"
  using assms
proof (induction wps arbitrary: i)
  case Nil
  then show ?case by simp
next
  case (Cons sw wps)
  obtain st w where sw: "sw = (st, w)" by (cases sw)
  from Cons.prems obtain c where c: "ep_compare st current = Some c"
    "(if c = CR_EQUALS then do {
       over \<leftarrow> wait_over cfg e w;
       if over then check_pairs cfg e current wps (i + 1) else Some (False, i) }
     else Some (True, i)) = Some (b, j)" by (auto simp: sw do_simps)
  show ?case
  proof (cases "c = CR_EQUALS \<and> wait_over cfg e w = Some True")
    case True
    with c(2) have "check_pairs cfg e current wps (i + 1) = Some (b, j)" by simp
    from Cons.IH [OF this] have IH: "i + 1 \<le> j" "j \<le> i + 1 + length wps"
      "\<forall>k < j - (i + 1). ep_compare (fst (wps ! k)) current = Some CR_EQUALS \<and> wait_over cfg e (snd (wps ! k)) = Some True"
      "b \<longrightarrow> j = i + 1 + length wps \<or> ep_compare (fst (wps ! (j - (i + 1)))) current \<noteq> Some CR_EQUALS"
      "\<not> b \<longrightarrow> j < i + 1 + length wps \<and> ep_compare (fst (wps ! (j - (i + 1)))) current = Some CR_EQUALS \<and>
        wait_over cfg e (snd (wps ! (j - (i + 1)))) = Some False" by blast+
    have n: "(sw # wps) ! (j - i) = wps ! (j - (i + 1))" using IH(1) by (simp add: nth_Cons')
    have "ep_compare (fst ((sw # wps) ! k)) current = Some CR_EQUALS \<and> wait_over cfg e (snd ((sw # wps) ! k)) = Some True"
      if "k < j - i" for k
      using IH(3) [rule_format, of "k - 1"] that True c(1) by (cases k) (auto simp: sw)
    then show ?thesis using IH(1,2,4,5) unfolding n by auto
  next
    case False
    then show ?thesis using c by (auto simp: sw split: if_splits bind_splits)
  qed
qed

text \<open>
  What it means that a thread need not be waited for, written out on the counters of the points: it has
  finished, or its current point is further on than \<open>w\<close> (a later counter value at the same depth, or inside
  the branch, loop or call at \<open>w\<close>), or it has taken another direction of an enclosing branch, so that it does
  not come to \<open>w\<close> any more.
\<close>

definition beyond :: "exec_point \<Rightarrow> exec_point \<Rightarrow> bool" where
  "beyond p w \<longleftrightarrow> (\<exists>ds. ds \<noteq> [] \<and> pairs p = pairs w @ ds) \<or>
     (\<exists>cs t x y ps qs. pairs p = cs @ (t, x) # ps \<and> pairs w = cs @ (t, y) # qs \<and> t \<noteq> EP_BRANCH \<and> y < x)"

definition elsewhere :: "exec_point \<Rightarrow> exec_point \<Rightarrow> bool" where
  "elsewhere p w \<longleftrightarrow>
     (\<exists>cs x y ps qs. pairs p = cs @ (EP_BRANCH, x) # ps \<and> pairs w = cs @ (EP_BRANCH, y) # qs \<and> x \<noteq> y)"

definition past_point :: "execution \<Rightarrow> exec_point \<Rightarrow> bool" where
  "past_point e w \<longleftrightarrow> (\<exists>th. nth_opt (ThreadList e) (ep_tid w) = Some th \<and> is_complete th) \<or>
     (\<exists>p. nth_opt (ExecPointList e) (ep_tid w) = Some p \<and> (beyond p w \<or> elsewhere p w))"

lemma compare_common:
  "compare_pairs ps qs = Some c \<Longrightarrow> c = CR_BEFORE \<or> c = CR_INCOMPARABLE \<Longrightarrow>
     (\<exists>ds. c = CR_BEFORE \<and> ds \<noteq> [] \<and> ps = qs @ ds) \<or>
     (\<exists>cs t x y us vs. ps = cs @ (t, x) # us \<and> qs = cs @ (t, y) # vs \<and>
       (if c = CR_BEFORE then t \<noteq> EP_BRANCH \<and> y < x else t = EP_BRANCH \<and> x \<noteq> y))"
proof (induction ps qs rule: compare_pairs.induct)
  case (4 t v ps u w qs)
  show ?case
  proof (cases "t = u \<and> v = w")
    case True
    with 4 show ?thesis by (simp, metis append_Cons)
  next
    case False
    with 4(2,3) have "t = u" "v \<noteq> w" "if c = CR_BEFORE then t \<noteq> EP_BRANCH \<and> w < v else t = EP_BRANCH"
      by (auto split: if_splits)
    then show ?thesis by (intro disjI2 exI [of _ "[]"]) auto
  qed
qed auto

lemma wait_over_past:
  assumes "wait_over cfg e w = Some True" and "\<not> TSO cfg"
  shows "past_point e w"
proof -
  from assms(1) obtain p c where p: "nth_opt (ExecPointList e) (ep_tid w) = Some p" "compare_pairs (pairs p) (pairs w) = Some c"
    and over: "\<not> passed c \<longrightarrow> map_option is_complete (nth_opt (ThreadList e) (ep_tid w)) = Some True"
    unfolding wait_over_def Let_def ep_compare_def bind_eq_Some_conv if_not_P [OF assms(2)] by (auto split: if_splits)
  show ?thesis
  proof (cases "passed c")
    case True
    then have "c = CR_BEFORE \<or> c = CR_INCOMPARABLE" by (simp add: passed_def)
    from compare_common [OF p(2) this] have "beyond p w \<or> elsewhere p w"
      unfolding beyond_def elsewhere_def by (cases "c = CR_BEFORE") (simp_all, metis+)
    with p(1) show ?thesis by (auto simp: past_point_def)
  next
    case False
    with over show ?thesis by (auto simp: past_point_def)
  qed
qed

text \<open>No two operations of a thread in the trace are at the same point.\<close>

definition points_differ :: "execution \<Rightarrow> sched_step list \<Rightarrow> bool" where
  "points_differ e tr \<longleftrightarrow> (\<forall>j < length tr. \<forall>k < j. ep_tid (point e (snd (tr ! k))) = ep_tid (point e (snd (tr ! j))) \<longrightarrow>
     pairs (point e (snd (tr ! k))) \<noteq> pairs (point e (snd (tr ! j))))"

text \<open>
  At the point of the operation of step \<open>k\<close>, with the waits of the earlier steps behind it, a thread is
  let go only when all other threads are past what they have to do before; and then the waits of this
  step are behind it, too.
\<close>

lemma check_thread_waits:
  assumes sc: "\<not> TSO cfg" and w: "waits s t = trace_waits e t [] tr" and d: "points_differ e tr" and k: "k < length tr"
    and t: "ep_tid (point e (snd (tr ! k))) = t"
    and i0: "t < length (waitset s)" "t < length (waitsetindex s)"
      "waitsetindex s ! t = length (trace_waits e t [] (take k tr))"
    and run: "\<not> newbehavior e1" "ExecPointList e1 ! t = point e (snd (tr ! k))"
    and chk: "check_thread cfg e1 t s = Some (True, s')"
  shows "(\<forall>j < k. \<forall>i \<in> set (takers (tr ! j)). i \<notin> set (takers (tr ! k)) \<longrightarrow>
      (\<exists>m. j \<le> m \<and> m < k \<and> i \<in> set (takers (tr ! m)) \<and> past_point e1 (point e (snd (tr ! m))))) \<and>
    waitsetindex s' ! t = length (trace_waits e t [] (take (Suc k) tr))"
proof -
  let ?p = "point e (snd (tr ! k))"
  let ?A = "trace_waits e t [] (take k tr)" and ?B = "step_waits e (take k tr) (tr ! k)"
    and ?C = "trace_waits e t (take (Suc k) tr) (drop (Suc k) tr)"
  have tk: "take (Suc k) tr = take k tr @ [tr ! k]" using k by (simp add: take_Suc_conv_app_nth)
  have S: "trace_waits e t [] (take (Suc k) tr) = ?A @ ?B" by (simp add: tk trace_waits_append t)
  have all: "waitset s ! t = ?A @ ?B @ ?C"
    using trace_waits_append [of e t "[]" "take (Suc k) tr" "drop (Suc k) tr"] w i0(1) by (simp add: waits_def S)
  from chk run i0 obtain j where j: "check_pairs cfg e1 ?p (?B @ ?C) (length ?A) = Some (True, j)"
    "waitsetindex s' = (waitsetindex s)[t := j]"
    by (auto simp: check_thread_def checkSet_def do_simps all)
  note R = check_pairs_result [OF j(1)]
  have B: "st = ?p" if "(st, l) \<in> set ?B" for st l using that by (auto simp: step_waits_def)
  have C: "pairs st \<noteq> pairs ?p" if "(st, l) \<in> set ?C" for st l
  proof -
    from trace_waits_stop [OF that] obtain x where x: "x \<in> set (drop (Suc k) tr)" "ep_tid (point e (snd x)) = t"
      "st = point e (snd x)" by blast
    from x(1) obtain n where n: "n < length (drop (Suc k) tr)" "drop (Suc k) tr ! n = x" by (meson in_set_conv_nth)
    then have "Suc k + n < length tr" "x = tr ! (Suc k + n)" using k by simp_all
    with d [unfolded points_differ_def, rule_format, of "Suc k + n" k] x(2,3) t show ?thesis by simp
  qed
  have ge: "length ?B \<le> j - length ?A"
  proof (rule ccontr)
    assume n: "\<not> length ?B \<le> j - length ?A"
    then have "(?B @ ?C) ! (j - length ?A) \<in> set ?B" by (simp add: nth_append)
    then have "fst ((?B @ ?C) ! (j - length ?A)) = ?p" using B by (metis prod.collapse)
    then have "ep_compare (fst ((?B @ ?C) ! (j - length ?A))) ?p = Some CR_EQUALS" by (simp add: ep_compare_def)
    with R n show False by auto
  qed
  have le: "j - length ?A \<le> length ?B"
  proof (rule ccontr)
    assume n: "\<not> j - length ?A \<le> length ?B"
    with R have e: "ep_compare (fst ((?B @ ?C) ! length ?B)) ?p = Some CR_EQUALS" and c: "0 < length ?C" by auto
    from c have "?C ! 0 \<in> set ?C" by (simp only: nth_mem)
    with C e show False by (metis compare_equals_iff ep_compare_def nth_append_length_plus add_0_right prod.collapse)
  qed
  have "j = length ?A + length ?B" using R ge le by linarith
  then have idx: "waitsetindex s' ! t = length (trace_waits e t [] (take (Suc k) tr))"
    using j(2) i0(2) by (simp add: S)
  have "\<exists>m. j' \<le> m \<and> m < k \<and> i \<in> set (takers (tr ! m)) \<and> past_point e1 (point e (snd (tr ! m)))"
    if "j' < k" "i \<in> set (takers (tr ! j'))" "i \<notin> set (takers (tr ! k))" for j' i
  proof -
    from last_of_take [OF that(1) _ that(2)] k obtain m where m: "j' \<le> m" "m < k" "i \<in> set (takers (tr ! m))"
      "last_of (take k tr) i = Some (snd (tr ! m))" by auto
    have "i < width (take k tr)" using last_of_width [of "take k tr" i] m(4) by fastforce
    then have "(?p, point e (snd (tr ! m))) \<in> set ?B"
      using that(3) m(4) by (auto simp: step_waits_def List.map_filter_def image_iff intro!: bexI [of _ i])
    then obtain n where n: "n < length ?B" "?B ! n = (?p, point e (snd (tr ! m)))" by (auto simp: in_set_conv_nth)
    with R ge have "wait_over cfg e1 (snd ((?B @ ?C) ! n)) = Some True" by auto
    with n m wait_over_past [OF _ sc] show ?thesis by (auto simp: nth_append)
  qed
  with idx show ?thesis by blast
qed

end
