(* ===== verification/SchedOrder.thy ===== *)
theory SchedOrder
  imports SchedTrace GenResults
begin

section \<open>A schedule follows the solution\<close>

text \<open>
  The steps of the trace of \<open>buildSchedule\<close> fit together: what a thread has pending stays pending
  until it is taken, and what is taken is the first of all that is pending, in the order of the
  solution. With the order of the encoding, which is total and transitive, each operation comes
  before everything that the threads running at that time do later.
\<close>

subsection \<open>Pending operations\<close>

text \<open>The builder stays at the record \<open>q\<close>.\<close>

definition settled :: "config \<Rightarrow> execution \<Rightarrow> cgen \<Rightarrow> assignment \<Rightarrow> rid option \<Rightarrow> bool" where
  "settled cfg e g \<sigma> q \<longleftrightarrow>
     (\<forall>r b n b'. q = Some r \<longrightarrow> sb_processRecord cfg e g \<sigma> r b = Some (n, b') \<longrightarrow> n = Some r)"

lemma next_of_record:
  assumes "sb_processRecord cfg e g \<sigma> r b = Some (n, b')" and "sb_processRecord cfg e g \<sigma> r c = Some (m, c')"
  shows "m = n"
  using assms by (auto simp: sb_processRecord_def Let_def do_simps split: if_splits option.splits)

lemma settledI: "sb_processRecord cfg e g \<sigma> r b = Some (Some r, b') \<Longrightarrow> settled cfg e g \<sigma> (Some r)"
  using next_of_record by (auto simp: settled_def)

lemma settled_None: "settled cfg e g \<sigma> None"
  by (simp add: settled_def)

text \<open>Moving on leaves the settled threads alone and settles the others.\<close>

definition advanced :: "config \<Rightarrow> execution \<Rightarrow> cgen \<Rightarrow> assignment \<Rightarrow> nat \<Rightarrow> rid option list \<Rightarrow> rid option list \<Rightarrow> bool" where
  "advanced cfg e g \<sigma> index ths ths' \<longleftrightarrow> length ths \<le> length ths' \<and>
     (\<forall>i < length ths. i < index \<or> settled cfg e g \<sigma> (ths ! i) \<longrightarrow> ths' ! i = ths ! i) \<and>
     (\<forall>i < length ths'. index \<le> i \<longrightarrow> settled cfg e g \<sigma> (ths' ! i))"

lemma sb_processRecord_threads:
  assumes "sb_processRecord cfg e g \<sigma> r b = Some (n, b')"
  shows "length (sb_threads b) \<le> length (sb_threads b')"
    and "\<forall>i < length (sb_threads b). sb_threads b' ! i = sb_threads b ! i"
proof -
  have "length (sb_threads b) \<le> length (sb_threads (sb_new_thread x b)) \<and>
      (\<forall>i < length (sb_threads b). sb_threads (sb_new_thread x b) ! i = sb_threads b ! i)" for x
    by (auto simp: sb_new_thread_def nth_append)
  then have "length (sb_threads b) \<le> length (sb_threads b') \<and>
      (\<forall>i < length (sb_threads b). sb_threads b' ! i = sb_threads b ! i)"
    using assms by (auto simp: sb_processRecord_def Let_def do_simps split: if_splits option.splits)
  then show "length (sb_threads b) \<le> length (sb_threads b')"
    and "\<forall>i < length (sb_threads b). sb_threads b' ! i = sb_threads b ! i" by simp_all
qed

lemma advanced_settled:
  assumes "advanced cfg e g \<sigma> (index + 1) ths ths'" and "index < length ths" and "settled cfg e g \<sigma> (ths ! index)"
  shows "advanced cfg e g \<sigma> index ths ths'"
proof -
  have "ths' ! index = ths ! index" using assms(1,2) by (auto simp: advanced_def)
  then have "settled cfg e g \<sigma> (ths' ! i)" if "i < length ths'" "index \<le> i" for i
    using assms that by (cases "i = index") (auto simp: advanced_def)
  then show ?thesis using assms(1) by (auto simp: advanced_def)
qed

lemma advanced_moved:
  assumes "advanced cfg e g \<sigma> index (ths[index := n]) ths'" and "\<not> settled cfg e g \<sigma> (ths ! index)"
  shows "advanced cfg e g \<sigma> index ths ths'"
proof -
  have "ths' ! i = ths ! i" if "i < length ths" "i < index \<or> settled cfg e g \<sigma> (ths ! i)" for i
  proof -
    have "i \<noteq> index" using that(2) assms(2) by auto
    with assms(1) that show ?thesis by (auto simp: advanced_def)
  qed
  then show ?thesis using assms(1) by (auto simp: advanced_def)
qed

lemma advanced_more:
  assumes "length ths \<le> length ths1" and "\<forall>i < length ths. ths1 ! i = ths ! i" and "advanced cfg e g \<sigma> index ths1 ths'"
  shows "advanced cfg e g \<sigma> index ths ths'"
  using assms by (auto simp: advanced_def)

lemma sb_advance_threads:
  assumes "sb_advance cfg e g \<sigma> index b s = Some r" and "\<not> TSO cfg"
  shows "advanced cfg e g \<sigma> index (sb_threads b) (sb_threads (fst r))"
proof -
  let ?P = "\<lambda>cfg e g \<sigma> index b s r. \<not> TSO cfg \<longrightarrow> advanced cfg e g \<sigma> index (sb_threads b) (sb_threads (fst r))"
  have "?P cfg e g \<sigma> index b s r"
  proof (rule sb_advance.raw_induct [where P = ?P, OF _ assms(1)], rule impI)
    fix adv cfg e g \<sigma> index b s r
    assume IH: "\<And>cfg e g \<sigma> index b s r. adv cfg e g \<sigma> index b s = Some r \<Longrightarrow> ?P cfg e g \<sigma> index b s r"
      and run: "(if length (sb_threads b) \<le> index then Some (b, s)
        else case sb_threads b ! index of
             None \<Rightarrow> adv cfg e g \<sigma> (index + 1) b s
           | Some r \<Rightarrow> do {
               (nextr, b) \<leftarrow> sb_processRecord cfg e g \<sigma> r b;
               (nextr, b, s) \<leftarrow> sb_buffer cfg e g index nextr b s;
               if nextr \<noteq> Some r
               then adv cfg e g \<sigma> index (b\<lparr> sb_threads := (sb_threads b)[index := nextr] \<rparr>) s
               else adv cfg e g \<sigma> (index + 1) b s }) = Some r"
      and sc: "\<not> TSO cfg"
    have buf: "sb_buffer cfg e g index n b s = Some (n, b, s)" for n b s
      using sc by (cases n) (simp_all add: sb_buffer_def)
    let ?A = "advanced cfg e g \<sigma>" and ?r = "sb_threads (fst r)"
    show "?A index (sb_threads b) ?r"
    proof (cases "length (sb_threads b) \<le> index")
      case True
      with run have "r = (b, s)" by simp
      with True show ?thesis by (simp add: advanced_def)
    next
      case False
      then have lt: "index < length (sb_threads b)" by simp
      show ?thesis
      proof (cases "sb_threads b ! index")
        case None
        with run lt IH [of cfg e g \<sigma> "index + 1" b s r] sc have "?A (index + 1) (sb_threads b) ?r" by simp
        then show ?thesis by (rule advanced_settled) (simp_all add: lt None settled_None)
      next
        case (Some q)
        with run lt obtain n b1 where b1: "sb_processRecord cfg e g \<sigma> q b = Some (n, b1)"
          "(if n \<noteq> Some q then adv cfg e g \<sigma> index (b1\<lparr> sb_threads := (sb_threads b1)[index := n] \<rparr>) s
            else adv cfg e g \<sigma> (index + 1) b1 s) = Some r"
          by (auto simp: do_simps buf)
        note new = sb_processRecord_threads [OF b1(1)]
        show ?thesis
        proof (cases "n = Some q")
          case True
          with b1(2) IH [of cfg e g \<sigma> "index + 1" b1 s r] sc have "?A (index + 1) (sb_threads b1) ?r" by simp
          then have "?A index (sb_threads b1) ?r"
            by (rule advanced_settled) (use True b1(1) new lt Some settledI in auto)
          then show ?thesis by (rule advanced_more [OF new])
        next
          case False
          with b1(2) IH [of cfg e g \<sigma> index "b1\<lparr> sb_threads := (sb_threads b1)[index := n] \<rparr>" s r] sc
          have "?A index ((sb_threads b1)[index := n]) ?r" by simp
          then have "?A index (sb_threads b1) ?r"
            by (rule advanced_moved) (use False b1(1) new lt Some in \<open>auto simp: settled_def\<close>)
          then show ?thesis by (rule advanced_more [OF new])
        qed
      qed
    qed
  qed
  then show ?thesis using assms(2) by blast
qed

subsection \<open>The steps of a trace\<close>

text \<open>The choice of \<open>sb_earliest\<close> depends on the pending operations only.\<close>

definition pick :: "config \<Rightarrow> execution \<Rightarrow> cgen \<Rightarrow> assignment \<Rightarrow> rid option list \<Rightarrow> rid option option" where
  "pick cfg e g \<sigma> ths = foldM (earlier cfg e g \<sigma>) ths None"

lemma foldM_map: "foldM f (map h xs) s = foldM (\<lambda>x. f (h x)) xs s"
  by (induction xs arbitrary: s) (auto cong: Option.bind_cong)

lemma sb_earliest_pick: "\<not> TSO cfg \<Longrightarrow> sb_earliest cfg e g \<sigma> b = pick cfg e g \<sigma> (sb_threads b)"
  using foldM_map [of "earlier cfg e g \<sigma>" "nth (sb_threads b)" "[0..<length (sb_threads b)]" None]
  by (simp add: sb_earliest_def pick_def map_nth)

lemma earlier_Some: "earlier cfg e g \<sigma> p acc = Some res \<Longrightarrow> res = acc \<or> (res = p \<and> p \<noteq> None)"
  by (auto simp: earlier_def split: option.splits if_splits)

lemma earlier_not_None: "earlier cfg e g \<sigma> p acc = Some None \<Longrightarrow> p = None \<and> acc = None"
  by (auto simp: earlier_def split: option.splits if_splits)

lemma foldM_earlier_None: "foldM (earlier cfg e g \<sigma>) ths acc = Some None \<Longrightarrow> acc = None \<and> (\<forall>p \<in> set ths. p = None)"
proof (induction ths arbitrary: acc)
  case Nil
  then show ?case by simp
next
  case (Cons p ths)
  from Cons.prems obtain res where "earlier cfg e g \<sigma> p acc = Some res" "foldM (earlier cfg e g \<sigma>) ths res = Some None"
    by (auto simp: do_simps)
  with Cons.IH [OF this(2)] show ?case by (auto dest: earlier_not_None)
qed

lemma foldM_earlier_mem:
  "foldM (earlier cfg e g \<sigma>) ths acc = Some res \<Longrightarrow> res = acc \<or> res \<in> set ths \<and> res \<noteq> None"
proof (induction ths arbitrary: acc)
  case Nil
  then show ?case by simp
next
  case (Cons p ths)
  from Cons.prems obtain r1 where "earlier cfg e g \<sigma> p acc = Some r1" "foldM (earlier cfg e g \<sigma>) ths r1 = Some res"
    by (auto simp: do_simps)
  with Cons.IH [OF this(2)] show ?case by (auto dest: earlier_Some)
qed

text \<open>In a total and transitive order, what is picked is the first.\<close>

lemma foldM_earlier_min:
  assumes "foldM (earlier cfg e g \<sigma>) ths acc = Some (Some r)"
    and C: "\<And>q. Some q \<in> insert acc (set ths) \<Longrightarrow> q \<in> C"
    and ord: "\<And>p q b. p \<in> C \<Longrightarrow> q \<in> C \<Longrightarrow> p \<noteq> q \<Longrightarrow> getOrder cfg e p q \<sigma> g = Some b \<Longrightarrow> b = R p q"
    and tot: "\<And>p q. p \<in> C \<Longrightarrow> q \<in> C \<Longrightarrow> p \<noteq> q \<Longrightarrow> R p q \<or> R q p"
    and tr: "\<And>p q w. p \<in> C \<Longrightarrow> q \<in> C \<Longrightarrow> w \<in> C \<Longrightarrow> p \<noteq> w \<Longrightarrow> R p q \<Longrightarrow> R q w \<Longrightarrow> R p w"
  shows "\<forall>q. Some q \<in> insert acc (set ths) \<longrightarrow> q = r \<or> R r q"
  using assms(1) C
proof (induction ths arbitrary: acc)
  case Nil
  then show ?case by simp
next
  case (Cons p ths)
  from Cons.prems(1) obtain r1 where r1: "earlier cfg e g \<sigma> p acc = Some r1" "foldM (earlier cfg e g \<sigma>) ths r1 = Some (Some r)"
    by (auto simp: do_simps)
  have c1: "q \<in> C" if "Some q \<in> insert r1 (set ths)" for q
    using that earlier_Some [OF r1(1)] Cons.prems(2) by auto
  have IH: "q = r \<or> R r q" if "Some q \<in> insert r1 (set ths)" for q using Cons.IH [OF r1(2) c1] that by blast
  have rC: "r \<in> C" using foldM_earlier_mem [OF r1(2)] c1 by auto
  have ex: "\<exists>w. r1 = Some w \<and> (q = w \<or> R w q)" if q: "Some q \<in> {p, acc}" for q
  proof (cases "p = None \<or> acc = None \<or> p = acc")
    case True
    then show ?thesis using q r1(1) by (auto simp: earlier_def split: option.splits if_splits)
  next
    case False
    then obtain p' a where pa: "p = Some p'" "acc = Some a" "p' \<noteq> a" by auto
    then obtain b where b: "getOrder cfg e p' a \<sigma> g = Some b" "r1 = (if b then Some p' else Some a)"
      using r1(1) by (auto simp: earlier_def)
    have "p' \<in> C" "a \<in> C" using Cons.prems(2) pa by auto
    with ord [OF this pa(3) b(1)] tot [OF this pa(3)] b(2) pa q show ?thesis by auto
  qed
  show ?case
  proof (intro allI impI)
    fix q assume q: "Some q \<in> insert acc (set (p # ths))"
    show "q = r \<or> R r q"
    proof (cases "Some q \<in> set ths")
      case True
      then show ?thesis using IH by simp
    next
      case False
      with q ex [of q] obtain w where w: "r1 = Some w" "q = w \<or> R w q" by auto
      have "q \<in> C" "w \<in> C" using Cons.prems(2) q c1 w(1) by auto
      with IH [of w] w tr [OF rC \<open>w \<in> C\<close> \<open>q \<in> C\<close>] show ?thesis by auto
    qed
  qed
qed

text \<open>
  What a thread had pending at a step is pending at the next one, unless it was taken; at the end
  nothing is pending.
\<close>

definition still_pending :: "nat \<Rightarrow> rid option \<Rightarrow> sched_step list \<Rightarrow> bool" where
  "still_pending i q rest \<longleftrightarrow>
     (case rest of [] \<Rightarrow> q = None | y # _ \<Rightarrow> i < length (fst y) \<and> fst y ! i = q)"

fun chain :: "sched_step list \<Rightarrow> bool" where
  "chain [] = True"
| "chain (x # rest) = ((\<forall>i < length (fst x). i \<notin> set (takers x) \<longrightarrow> still_pending i (fst x ! i) rest) \<and>
     (\<forall>i < length (fst x). rest \<noteq> [] \<longrightarrow> i < length (fst (hd rest))) \<and> chain rest)"

lemma sb_trace_chain:
  assumes "sb_trace cfg e g \<sigma> b s = Some tr" and "\<not> TSO cfg" and "sb_ok b"
  shows "chain tr \<and> (\<forall>x \<in> set tr. pick cfg e g \<sigma> (fst x) = Some (Some (snd x))) \<and>
    (\<forall>i < length (sb_threads b). settled cfg e g \<sigma> (sb_threads b ! i) \<longrightarrow> still_pending i (sb_threads b ! i) tr) \<and>
    (\<forall>i < length (sb_threads b). tr \<noteq> [] \<longrightarrow> i < length (fst (hd tr)))"
proof -
  let ?Q = "\<lambda>cfg e g \<sigma> b tr. chain tr \<and> (\<forall>x \<in> set tr. pick cfg e g \<sigma> (fst x) = Some (Some (snd x))) \<and>
    (\<forall>i < length (sb_threads b). settled cfg e g \<sigma> (sb_threads b ! i) \<longrightarrow> still_pending i (sb_threads b ! i) tr) \<and>
    (\<forall>i < length (sb_threads b). tr \<noteq> [] \<longrightarrow> i < length (fst (hd tr)))"
  let ?P = "\<lambda>cfg e g \<sigma> b s tr. \<not> TSO cfg \<longrightarrow> sb_ok b \<longrightarrow> ?Q cfg e g \<sigma> b tr"
  have "?P cfg e g \<sigma> b s tr"
  proof (rule sb_trace.raw_induct [where P = ?P, OF _ assms(1)], intro impI)
    fix loop cfg e g \<sigma> b s tr
    assume IH: "\<And>cfg e g \<sigma> b s tr. loop cfg e g \<sigma> b s = Some tr \<Longrightarrow> ?P cfg e g \<sigma> b s tr"
      and run: "do {
        (b, s) \<leftarrow> sb_advance cfg e g \<sigma> 0 b s;
        earliest \<leftarrow> sb_earliest cfg e g \<sigma> b;
        case earliest of
          None \<Rightarrow> Some []
        | Some r \<Rightarrow> do {
            (b', s) \<leftarrow> foldM (sb_take cfg e g r) [0..<length (sb_threads b)] (b, s);
            tr \<leftarrow> loop cfg e g \<sigma> b' s;
            Some ((sb_threads b, r) # tr) } } = Some tr"
      and sc: "\<not> TSO cfg" and ok: "sb_ok b"
    from run obtain b1 s1 en where b1: "sb_advance cfg e g \<sigma> 0 b s = Some (b1, s1)" "sb_earliest cfg e g \<sigma> b1 = Some en"
      by (auto simp: do_simps)
    have ok1: "sb_ok b1" using sb_advance_ok [OF b1(1) sc ok] by simp
    from sb_advance_threads [OF b1(1) sc] have adv: "length (sb_threads b) \<le> length (sb_threads b1)"
      "\<And>i. i < length (sb_threads b) \<Longrightarrow> settled cfg e g \<sigma> (sb_threads b ! i) \<Longrightarrow> sb_threads b1 ! i = sb_threads b ! i"
      "\<And>i. i < length (sb_threads b1) \<Longrightarrow> settled cfg e g \<sigma> (sb_threads b1 ! i)"
      by (auto simp: advanced_def)
    have pk: "pick cfg e g \<sigma> (sb_threads b1) = Some en" using b1(2) by (simp add: sb_earliest_pick [OF sc])
    show "?Q cfg e g \<sigma> b tr"
    proof (cases en)
      case None
      with run b1 have "tr = []" by simp
      moreover have "sb_threads b1 ! i = None" if "i < length (sb_threads b1)" for i
        using foldM_earlier_None [OF pk [unfolded None pick_def]] that by simp
      moreover have "sb_threads b ! i = None" if "i < length (sb_threads b)" "settled cfg e g \<sigma> (sb_threads b ! i)" for i
        using adv(2) [OF that] adv(1) that(1) calculation(2) [of i] by simp
      ultimately show ?thesis by (simp add: still_pending_def)
    next
      case (Some r)
      with run b1 obtain b2 s2 tr2 where b2: "foldM (sb_take cfg e g r) [0..<length (sb_threads b1)] (b1, s1) = Some (b2, s2)"
        "loop cfg e g \<sigma> b2 s2 = Some tr2" "tr = (sb_threads b1, r) # tr2" by (auto simp: do_simps)
      have T: "sb_ok b2 \<and> length (sb_threads b2) = length (sb_threads b1) \<and>
        (\<forall>i. lst b2 i = (if i \<in> set [0..<length (sb_threads b1)] \<and> sb_threads b1 ! i = Some r then Some r else lst b1 i)) \<and>
        (\<forall>i. i \<in> set [0..<length (sb_threads b1)] \<and> sb_threads b1 ! i = Some r \<or> sb_threads b2 ! i = sb_threads b1 ! i) \<and>
        (\<forall>t. waits s2 t = waits s1 t @ (if ep_tid (point e r) = t
           then map (\<lambda>l. (point e r, point e l))
             (List.map_filter (\<lambda>i. if sb_threads b1 ! i = Some r then None else lst b1 i) [0..<length (sb_threads b1)])
           else []))"
        by (rule sb_take_all [OF b2(1) sc ok1]) auto
      have IH': "?Q cfg e g \<sigma> b2 tr2" using IH [OF b2(2)] sc T by blast
      have same: "sb_threads b2 ! i = sb_threads b1 ! i"
        if "i < length (sb_threads b1)" "i \<notin> set (takers (sb_threads b1, r))" for i
        using T that by (auto simp: takers_mem)
      have "still_pending i (sb_threads b1 ! i) tr2"
        if "i < length (sb_threads b1)" "i \<notin> set (takers (sb_threads b1, r))" for i
        using IH' T adv(3) [OF that(1)] same [OF that] that(1) by metis
      then have "chain tr" using IH' T by (simp add: b2(3))
      moreover have "\<forall>x \<in> set tr. pick cfg e g \<sigma> (fst x) = Some (Some (snd x))" using IH' pk Some by (simp add: b2(3))
      ultimately show ?thesis using adv(1,2) by (auto simp: b2(3) still_pending_def)
    qed
  qed
  then show ?thesis using assms(2,3) by blast
qed

lemma schedule_chain:
  assumes "schedule_trace cfg e g \<sigma> s = Some tr" and "\<not> TSO cfg"
  shows "chain tr" and "x \<in> set tr \<Longrightarrow> pick cfg e g \<sigma> (fst x) = Some (Some (snd x))"
proof -
  from assms(1) obtain first where f: "sb_trace cfg e g \<sigma> (sb_new_thread (Some first)
       \<lparr> sb_threads = [], lastoperation = [], sb_stores = [], storelastoperation = [] \<rparr>) s = Some tr"
    by (auto simp: schedule_trace_def do_simps)
  have "sb_ok (sb_new_thread (Some first)
       \<lparr> sb_threads = [], lastoperation = [], sb_stores = [], storelastoperation = [] \<rparr>)"
    by (simp add: sb_ok_def sb_new_thread_def)
  from sb_trace_chain [OF f assms(2) this]
  show "chain tr" and "x \<in> set tr \<Longrightarrow> pick cfg e g \<sigma> (fst x) = Some (Some (snd x))" by blast+
qed

text \<open>What is pending is taken later, and is pending until then.\<close>

lemma pending_taken:
  assumes "chain tr" and "j < length tr" and "i < length (fst (tr ! j))" and "fst (tr ! j) ! i = Some q"
  shows "\<exists>m. j \<le> m \<and> m < length tr \<and> i \<in> set (takers (tr ! m)) \<and> snd (tr ! m) = q \<and>
    (\<forall>n. j \<le> n \<longrightarrow> n < m \<longrightarrow> i \<notin> set (takers (tr ! n)))"
  using assms
proof (induction tr arbitrary: j)
  case Nil
  then show ?case by simp
next
  case (Cons x rest)
  show ?case
  proof (cases j)
    case (Suc j')
    with Cons.IH [of j'] Cons.prems obtain m where "j' \<le> m" "m < length rest" "i \<in> set (takers (rest ! m))" "snd (rest ! m) = q"
      "\<forall>n. j' \<le> n \<longrightarrow> n < m \<longrightarrow> i \<notin> set (takers (rest ! n))" by auto
    then show ?thesis using Suc by (intro exI [of _ "Suc m"]) (auto simp: nth_Cons' split: nat.splits)
  next
    case 0
    show ?thesis
    proof (cases "i \<in> set (takers x)")
      case True
      with Cons.prems 0 show ?thesis by (intro exI [of _ 0]) (auto simp: takers_mem)
    next
      case False
      with Cons.prems 0 have p: "still_pending i (Some q) rest" by auto
      then obtain y ys where y: "rest = y # ys" "i < length (fst y)" "fst y ! i = Some q"
        by (auto simp: still_pending_def split: list.splits)
      with Cons.IH [of 0] Cons.prems obtain m where "m < length rest" "i \<in> set (takers (rest ! m))" "snd (rest ! m) = q"
        "\<forall>n. n < m \<longrightarrow> i \<notin> set (takers (rest ! n))" by auto
      then show ?thesis using 0 False by (intro exI [of _ "Suc m"]) (auto simp: nth_Cons' split: nat.splits)
    qed
  qed
qed

text \<open>A thread with nothing pending takes nothing later.\<close>

lemma ended_stays:
  assumes "chain tr" and "j < length tr" and "i < length (fst (tr ! j))" and "fst (tr ! j) ! i = None"
    and "j \<le> k" and "k < length tr"
  shows "i \<notin> set (takers (tr ! k))"
  using assms
proof (induction tr arbitrary: j k)
  case Nil
  then show ?case by simp
next
  case (Cons x rest)
  show ?case
  proof (cases j)
    case (Suc j')
    with Cons.prems obtain k' where "k = Suc k'" by (cases k) auto
    with Cons.IH [of j' k'] Cons.prems Suc show ?thesis by auto
  next
    case 0
    have x: "i \<notin> set (takers x)" using Cons.prems 0 by (auto simp: takers_mem)
    show ?thesis
    proof (cases k)
      case (Suc k')
      with Cons.prems obtain y ys where y: "rest = y # ys" by (cases rest) auto
      have "still_pending i None rest" using Cons.prems(1,3,4) 0 x by auto
      then have "i < length (fst (rest ! 0))" "fst (rest ! 0) ! i = None" by (simp_all add: y still_pending_def)
      with Cons.IH [of 0 k'] Cons.prems Suc y show ?thesis by auto
    qed (use x in simp)
  qed
qed

subsection \<open>The schedule and the order of the solution\<close>

lemma getOrder_prec:
  assumes "getOrder cfg e p q \<sigma> g = Some b" and "\<not> same_thread e p q" and "gen_ok g"
  shows "b = prec cfg e g \<sigma> p q"
proof -
  from assms(1,2) obtain r c where c: "rpt_get p q g = Some (r, c)"
    "do { order \<leftarrow> (case c of TRUE \<Rightarrow> Some True | FALSE \<Rightarrow> Some False | _ \<Rightarrow> map_option \<sigma> (getVar c));
       Some (if r = p then order else \<not> order) } = Some b"
    by (auto simp: getOrder_def do_simps)
  from c(1) obtain x where x: "rpt g x = Some c" by (auto simp: rpt_get_def split: option.splits)
  have "c = TRUE \<or> c = FALSE \<or> (\<exists>v. c = VAR v)"
    using gen_okD(5) [OF assms(3) x] by (cases c) (auto simp: isvar_def)
  then show ?thesis using c assms(2) by (auto simp: prec_def getOrderConstraint_def)
qed

text \<open>
  The operations of the trace are operations of the encoding, the positions of the builder are
  different threads, and a thread takes its operations in program order.
\<close>

definition trace_ok :: "execution \<Rightarrow> cgen \<Rightarrow> sched_step list \<Rightarrow> bool" where
  "trace_ok e g tr \<longleftrightarrow>
     (\<forall>x \<in> set tr. \<exists>p. op_at g (ep_tid (point e (snd x))) p (snd x)) \<and>
     (\<forall>j < length tr. \<forall>k < j. set (takers (tr ! k)) \<inter> set (takers (tr ! j)) \<noteq> {} \<longrightarrow>
        program_order e (snd (tr ! k)) (snd (tr ! j)) = Some True) \<and>
     (\<forall>x \<in> set tr. \<forall>y \<in> set tr. \<forall>i \<in> set (takers x). \<forall>i' \<in> set (takers y).
        ep_tid (point e (snd x)) = ep_tid (point e (snd y)) \<longleftrightarrow> i = i')"

lemma trace_okD:
  assumes "trace_ok e g tr"
  shows "x \<in> set tr \<Longrightarrow> \<exists>p. op_at g (ep_tid (point e (snd x))) p (snd x)"
    and "j < length tr \<Longrightarrow> k < j \<Longrightarrow> i \<in> set (takers (tr ! k)) \<Longrightarrow> i \<in> set (takers (tr ! j)) \<Longrightarrow>
      program_order e (snd (tr ! k)) (snd (tr ! j)) = Some True"
    and "x \<in> set tr \<Longrightarrow> y \<in> set tr \<Longrightarrow> i \<in> set (takers x) \<Longrightarrow> i' \<in> set (takers y) \<Longrightarrow>
      ep_tid (point e (snd x)) = ep_tid (point e (snd y)) \<longleftrightarrow> i = i'"
  using assms unfolding trace_ok_def by blast+

lemma picked_first:
  assumes "encode cfg e g = Some g'" and "start_ok g" and "\<not> TSO cfg" and "models \<sigma> g'" and "in_program_order e g'"
    and tr: "schedule_trace cfg e g' \<sigma> s = Some tr" and ok: "trace_ok e g' tr"
    and j: "j < length tr" and i: "i < length (fst (tr ! j))" "fst (tr ! j) ! i = Some q"
  shows "q = snd (tr ! j) \<or> prec cfg e g' \<sigma> (snd (tr ! j)) q"
proof -
  define C where "C = {q. Some q \<in> set (fst (tr ! j))}"
  note ch = schedule_chain [OF tr assms(3)]
  have mem: "\<exists>i m. i < length (fst (tr ! j)) \<and> fst (tr ! j) ! i = Some q \<and> m < length tr \<and> i \<in> set (takers (tr ! m)) \<and>
      snd (tr ! m) = q" if "q \<in> C" for q
  proof -
    from that obtain i where i: "i < length (fst (tr ! j))" "fst (tr ! j) ! i = Some q" by (auto simp: C_def in_set_conv_nth)
    from pending_taken [OF ch(1) j i] i show ?thesis by blast
  qed
  have op: "\<exists>p. op_at g' (ep_tid (point e q)) p q" if "q \<in> C" for q
    using mem [OF that] trace_okD(1) [OF ok] by (metis nth_mem)
  have diff: "ep_tid (point e p) \<noteq> ep_tid (point e q)" if "p \<in> C" "q \<in> C" "p \<noteq> q" for p q
  proof
    assume t: "ep_tid (point e p) = ep_tid (point e q)"
    from mem [OF that(1)] obtain i m where p: "fst (tr ! j) ! i = Some p" "m < length tr" "i \<in> set (takers (tr ! m))" "snd (tr ! m) = p"
      by blast
    from mem [OF that(2)] obtain i' n where q: "fst (tr ! j) ! i' = Some q" "n < length tr" "i' \<in> set (takers (tr ! n))" "snd (tr ! n) = q"
      by blast
    from trace_okD(3) [OF ok nth_mem [OF p(2)] nth_mem [OF q(2)] p(3) q(3)] t p q have "i = i'" by simp
    with p(1) q(1) that(3) show False by simp
  qed
  have "foldM (earlier cfg e g' \<sigma>) (fst (tr ! j)) None = Some (Some (snd (tr ! j)))"
    using ch(2) [OF nth_mem [OF j]] by (simp add: pick_def)
  then have "\<forall>q. Some q \<in> insert None (set (fst (tr ! j))) \<longrightarrow> q = snd (tr ! j) \<or> prec cfg e g' \<sigma> (snd (tr ! j)) q"
  proof (rule foldM_earlier_min [where C = C])
    show "q \<in> C" if "Some q \<in> insert None (set (fst (tr ! j)))" for q using that by (simp add: C_def)
    show "b = prec cfg e g' \<sigma> p q" if "p \<in> C" "q \<in> C" "p \<noteq> q" "getOrder cfg e p q \<sigma> g' = Some b" for p q b
      using getOrder_prec [OF that(4)] diff [OF that(1-3)] encode_gen_ok(1) [OF assms(1,2)]
      by (simp add: same_thread_def point_def)
    show "prec cfg e g' \<sigma> p q \<or> prec cfg e g' \<sigma> q p" if "p \<in> C" "q \<in> C" "p \<noteq> q" for p q
      using encode_ordered [OF assms(1-4)] op [OF that(1)] op [OF that(2)] diff [OF that] by blast
    show "prec cfg e g' \<sigma> p w" if "p \<in> C" "q \<in> C" "w \<in> C" "p \<noteq> w" "prec cfg e g' \<sigma> p q" "prec cfg e g' \<sigma> q w" for p q w
    proof -
      note t = that
      obtain x y z where "op_at g' (ep_tid (point e p)) x p" "op_at g' (ep_tid (point e q)) y q" "op_at g' (ep_tid (point e w)) z w"
        using op [OF t(1)] op [OF t(2)] op [OF t(3)] by blast
      from encode_transitive [OF assms(1-5) this _ t(5,6)] diff [OF t(1,3,4)] show ?thesis by blast
    qed
  qed
  moreover have "Some q \<in> set (fst (tr ! j))" using i by (metis nth_mem)
  ultimately show ?thesis by blast
qed

lemma schedule_follows:
  assumes "encode cfg e g = Some g'" and "start_ok g" and "\<not> TSO cfg" and "models \<sigma> g'" and "in_program_order e g'"
    and tr: "schedule_trace cfg e g' \<sigma> s = Some tr" and ok: "trace_ok e g' tr"
    and jk: "j < k" "k < length tr" and i: "i \<in> set (takers (tr ! k))" "i < length (fst (tr ! j))"
  shows "prec cfg e g' \<sigma> (snd (tr ! j)) (snd (tr ! k))"
proof -
  note ch = schedule_chain [OF tr assms(3)]
  have j: "j < length tr" using jk by simp
  have mem: "tr ! j \<in> set tr" "tr ! k \<in> set tr" using jk by simp_all
  have po: "prec cfg e g' \<sigma> (snd (tr ! m)) (snd (tr ! k))" and st: "same_thread e (snd (tr ! m)) (snd (tr ! k))"
    if "m < k" "i \<in> set (takers (tr ! m))" for m
  proof -
    have m: "tr ! m \<in> set tr" using that(1) jk(2) by simp
    show st: "same_thread e (snd (tr ! m)) (snd (tr ! k))"
      using trace_okD(3) [OF ok m mem(2) that(2) i(1)] by (simp add: same_thread_def point_def)
    show "prec cfg e g' \<sigma> (snd (tr ! m)) (snd (tr ! k))"
      using trace_okD(2) [OF ok jk(2) that i(1)] prec_same_thread [OF assms(3) st] by simp
  qed
  show ?thesis
  proof (cases "fst (tr ! j) ! i")
    case None
    from ended_stays [OF ch(1) j i(2) None _ jk(2)] jk(1) i(1) show ?thesis by simp
  next
    case (Some q)
    from pending_taken [OF ch(1) j i(2) Some] obtain m where m: "j \<le> m" "m < length tr" "i \<in> set (takers (tr ! m))"
      "snd (tr ! m) = q" "\<forall>n. j \<le> n \<longrightarrow> n < m \<longrightarrow> i \<notin> set (takers (tr ! n))" by blast
    have mk: "m \<le> k" using m(5) [rule_format, of k] jk(1) i(1) by force
    from picked_first [OF assms(1-5) tr ok j i(2) Some]
    show ?thesis
    proof
      assume q: "q = snd (tr ! j)"
      then have "i \<in> set (takers (tr ! j))" using Some i(2) by (simp add: takers_mem)
      with po jk(1) show ?thesis by blast
    next
      assume q: "prec cfg e g' \<sigma> (snd (tr ! j)) q"
      show ?thesis
      proof (cases "m = k \<or> i \<in> set (takers (tr ! j))")
        case True
        then show ?thesis using q m(4) po jk(1) by blast
      next
        case False
        with mk have m': "m < k" by simp
        note S = po [OF m' m(3)] st [OF m' m(3)]
        have "Some (snd (tr ! j)) \<in> set (fst (tr ! j))"
          using foldM_earlier_mem [OF ch(2) [OF mem(1), unfolded pick_def]] by simp
        then obtain i0 where i0: "i0 \<in> set (takers (tr ! j))" by (metis takers_mem in_set_conv_nth)
        have ne: "ep_tid (point e (snd (tr ! j))) \<noteq> ep_tid (point e (snd (tr ! k)))"
          using trace_okD(3) [OF ok mem i0 i(1)] False i0 by auto
        obtain x y z where "op_at g' (ep_tid (point e (snd (tr ! j)))) x (snd (tr ! j))"
          "op_at g' (ep_tid (point e (snd (tr ! m)))) y (snd (tr ! m))"
          "op_at g' (ep_tid (point e (snd (tr ! k)))) z (snd (tr ! k))"
          using trace_okD(1) [OF ok mem(1)] trace_okD(1) [OF ok mem(2)] trace_okD(1) [OF ok nth_mem [OF m(2)]] by blast
        from encode_transitive [OF assms(1-5) this _ _ S(1)] ne q m(4) show ?thesis by blast
      qed
    qed
  qed
qed

end
