(* ===== verification/SchedSample.thy ===== *)
theory SchedSample
  imports SchedOrder GenSample
begin

section \<open>The schedule of the sample execution\<close>

text \<open>
  The schedule built from the solution of theory \<open>GenSample\<close>: the store of the second thread comes
  between the store and the load of the first. At run time the first thread has come to its load and
  the second has passed its store.
\<close>

definition sample_trace :: "sched_step list" where
  "sample_trace = [([Some 0], 0), ([Some 2, Some 4], 4), ([Some 2, None], 2)]"

definition sample_scheduler :: mcscheduler where
  "sample_scheduler = \<lparr> waitset = [[(point sample_exec 2, point sample_exec 4)], [(point sample_exec 4, point sample_exec 0)]],
     waitsetindex = [0, 0, 0, 0], storeset = [], storesetindex = [0, 0, 0, 0] \<rparr>"

definition sample_running :: execution where
  "sample_running = sample_exec\<lparr> ExecPointList := [sample_point 0 2, sample_point 1 1] \<rparr>"

lemma sample_scheduled:
  "map_option (\<lambda>g. (schedule_trace plain sample_exec g sample_solution new_MCScheduler,
      buildSchedule plain sample_exec g sample_solution new_MCScheduler)) (encode plain sample_exec new_ConstGen) =
    Some (Some sample_trace, Some sample_scheduler)"
  by code_simp

lemma sample_check: "check_thread plain sample_running 0 sample_scheduler = Some (True, sample_scheduler\<lparr> waitsetindex := [1, 0, 0, 0] \<rparr>)"
  by code_simp

lemma sample_schedule:
  assumes "encode plain sample_exec new_ConstGen = Some g"
  shows "schedule_trace plain sample_exec g sample_solution new_MCScheduler = Some sample_trace"
    and "buildSchedule plain sample_exec g sample_solution new_MCScheduler = Some sample_scheduler"
  using sample_scheduled by (simp_all add: assms)

lemma sample_trace_facts:
  "points_differ sample_exec sample_trace" "waits new_MCScheduler 0 = []" "length sample_trace = 3" "snd (sample_trace ! 2) = 2"
  "snd (sample_trace ! 1) = 4" "ep_tid (point sample_exec 2) = 0" "0 < length (waitset sample_scheduler)"
  "0 < length (waitsetindex sample_scheduler)"
  "waitsetindex sample_scheduler ! 0 = length (trace_waits sample_exec 0 [] (take 2 sample_trace))"
  "\<not> newbehavior sample_running" "ExecPointList sample_running ! 0 = point sample_exec 2"
  "takers (sample_trace ! 1) = [1]" "takers (sample_trace ! 2) = [0]" "length (fst (sample_trace ! 1)) = 2"
  by code_simp+

lemma sample_trace_ok:
  assumes "op_at g 0 0 0" "op_at g 0 1 2" "op_at g 1 0 4"
  shows "trace_ok sample_exec g sample_trace"
proof -
  have t: "map (\<lambda>r. ep_tid (point sample_exec r)) [0, 2, 4] = [0, 0, 1]" by code_simp
  have p: "program_order sample_exec 0 2 = Some True" by code_simp
  have s: "map takers sample_trace = [[0], [1], [0]]" "map snd sample_trace = [0, 4, 2]" by code_simp+
  have "\<exists>p. op_at g (ep_tid (point sample_exec (snd x))) p (snd x)" if "x \<in> set sample_trace" for x
    using that assms t by (auto simp: sample_trace_def)
  moreover have "program_order sample_exec (snd (sample_trace ! k)) (snd (sample_trace ! j)) = Some True"
    if "j < length sample_trace" "k < j" "set (takers (sample_trace ! k)) \<inter> set (takers (sample_trace ! j)) \<noteq> {}" for j k
  proof -
    have "k = 0 \<and> j = 1 \<or> k = 0 \<and> j = 2 \<or> k = 1 \<and> j = 2" using that(1,2) by (auto simp: sample_trace_facts(3))
    then show ?thesis using that(3) p s by (auto simp: sample_trace_def)
  qed
  moreover have "ep_tid (point sample_exec (snd x)) = ep_tid (point sample_exec (snd y)) \<longleftrightarrow> i = i'"
    if "x \<in> set sample_trace" "y \<in> set sample_trace" "i \<in> set (takers x)" "i' \<in> set (takers y)" for x y i i'
    using that t s by (auto simp: sample_trace_def)
  ultimately show ?thesis unfolding trace_ok_def by blast
qed

end
