(* ===== verification/Startup.thy ===== *)
theory Startup
  imports ModelCheck
begin

section \<open>Options and program output (main.cc, common.cc)\<close>

text \<open>
  \<open>main\<close> hands the command line to \<open>parse_options\<close> and starts the checker. The output of the program
  under test goes into a pipe, from which \<open>print_program_output\<close> copies it to the real output and
  \<open>clear_program_output\<close> drops it. The results of \<open>getopt_long\<close>, \<open>read\<close> and \<open>write\<close> are arguments, in
  the order in which the calls return them; \<open>None\<close> is a run that exits, or needs more results than
  there are.
\<close>

subsection \<open>Options\<close>

record model_params =
  p_verbose :: int
  p_noexecyields :: bool
  p_branches :: bool
  p_argc :: int
  p_argv :: "string list"

text \<open>\<open>DBG_ENABLED\<close> is 0 in the configured build. The arguments are set by \<open>parse_options\<close>.\<close>

definition param_defaults :: "model_params \<Rightarrow> model_params" where
  "param_defaults ps = ps\<lparr> p_branches := False, p_noexecyields := False, p_verbose := 0 \<rparr>"

fun digits_value :: "int \<Rightarrow> string \<Rightarrow> int" where
  "digits_value n [] = n"
| "digits_value n (c # cs) =
     (if 48 \<le> (of_char c :: nat) \<and> (of_char c :: nat) \<le> 57
      then digits_value (10 * n + (of_char c - 48)) cs else n)"

definition is_space :: "char \<Rightarrow> bool" where
  "is_space c = ((of_char c :: nat) \<in> {9, 10, 11, 12, 13, 32})"

definition atoi :: "string \<Rightarrow> int" where
  "atoi s =
     (case dropWhile is_space s of
        [] \<Rightarrow> 0
      | c # cs \<Rightarrow> if c = CHR ''-'' then - digits_value 0 cs
                  else if c = CHR ''+'' then digits_value 0 cs else digits_value 0 (c # cs))"

text \<open>
  The loop over the options \<open>getopt_long\<close> delivers, each with its argument. The usage message ends
  the run, and so does an unknown option.
\<close>

fun parse_loop :: "(char \<times> string option) list \<Rightarrow> model_params \<Rightarrow> model_params option" where
  "parse_loop [] ps = Some ps"
| "parse_loop ((opt, optarg) # opts) ps =
     (if opt = CHR ''h'' then None
      else if opt = CHR ''b'' then parse_loop opts (ps\<lparr> p_branches := True \<rparr>)
      else if opt = CHR ''Y'' then parse_loop opts (ps\<lparr> p_noexecyields := True \<rparr>)
      else if opt = CHR ''v''
      then parse_loop opts (ps\<lparr> p_verbose := (case optarg of Some s \<Rightarrow> atoi s | None \<Rightarrow> 1) \<rparr>)
      else None)"

text \<open>
  \<open>argv\<close> is the array as \<open>getopt_long\<close> leaves it, with the options first, and \<open>optind\<close> the index of
  the first argument that is no option.
\<close>

definition parse_options :: "(char \<times> string option) list \<Rightarrow> nat \<Rightarrow> string list \<Rightarrow> model_params \<Rightarrow> model_params option" where
  "parse_options opts optind argv ps = do {
     ps \<leftarrow> parse_loop opts ps;
     Some (ps\<lparr> p_argc := int (length argv) - (int optind - 1),
               p_argv := (drop (optind - 1) argv)[0 := argv ! 0] \<rparr>) }"

text \<open>What the checker takes from the options; the memory model is chosen when it is compiled.\<close>

definition config_of :: "bool \<Rightarrow> model_params \<Rightarrow> config" where
  "config_of tso ps = \<lparr> TSO = tso, noexecyields = p_noexecyields ps, only_branches = p_branches ps \<rparr>"

definition main_params :: "(char \<times> string option) list \<Rightarrow> nat \<Rightarrow> string list \<Rightarrow> model_params option" where
  "main_params opts optind argv =
     parse_options opts optind argv
       (param_defaults \<lparr> p_verbose = 0, p_noexecyields = False, p_branches = False, p_argc = 0, p_argv = [] \<rparr>)"

text \<open>The run of the checker that \<open>main\<close> starts.\<close>

definition model_main ::
  "bool \<Rightarrow> (char \<times> string option) list \<Rightarrow> nat \<Rightarrow> string list \<Rightarrow> sat_process \<Rightarrow> assignment \<Rightarrow>
    (string list \<Rightarrow> test_program) \<Rightarrow> memory \<Rightarrow> planner option" where
  "model_main tso opts optind argv sat oob program m = do {
     ps \<leftarrow> main_params opts optind argv;
     check (config_of tso ps) sat oob (program (p_argv ps)) m }"

text \<open>The order of the options does not matter, but for the last level of \<open>-v\<close>.\<close>

lemma parse_loop_result:
  "parse_loop opts ps =
     (if \<exists>c \<in> fst ` set opts. c \<notin> {CHR ''b'', CHR ''Y'', CHR ''v''} then None
      else Some (ps\<lparr> p_branches := p_branches ps \<or> CHR ''b'' \<in> fst ` set opts,
                     p_noexecyields := p_noexecyields ps \<or> CHR ''Y'' \<in> fst ` set opts,
                     p_verbose := (case filter (\<lambda>x. fst x = CHR ''v'') (rev opts) of
                        [] \<Rightarrow> p_verbose ps
                      | x # _ \<Rightarrow> (case snd x of Some s \<Rightarrow> atoi s | None \<Rightarrow> 1)) \<rparr>))"
proof (induction opts arbitrary: ps)
  case Nil
  then show ?case by simp
next
  case (Cons x opts)
  obtain c a where x: "x = (c, a)" by (cases x)
  show ?case
    by (cases "filter (\<lambda>x. fst x = CHR ''v'') (rev opts)") (auto simp: x Cons.IH)
qed

text \<open>
  The program under test sees its own name and the arguments after the options, and their number.
\<close>

lemma program_arguments:
  assumes "parse_options opts optind argv ps = Some ps'" and "1 \<le> optind" and "optind \<le> length argv"
  shows "p_argv ps' = argv ! 0 # drop optind argv" and "p_argc ps' = int (length (p_argv ps'))"
proof -
  from assms have "drop (optind - 1) argv = argv ! (optind - 1) # drop optind argv"
    using Cons_nth_drop_Suc [of "optind - 1" argv] by simp
  with assms(1) show a: "p_argv ps' = argv ! 0 # drop optind argv" by (auto simp: parse_options_def do_simps)
  show "p_argc ps' = int (length (p_argv ps'))" unfolding a using assms by (auto simp: parse_options_def do_simps)
qed

subsection \<open>Program output\<close>

type_synonym bytes = "8 word list"

text \<open>The result of a non-blocking \<open>read\<close>: bytes (none at the end), nothing yet, or a failure.\<close>

datatype read_result = Read bytes | Again | ReadFailed

fun read_to_buf :: "read_result \<Rightarrow> bytes option" where
  "read_to_buf (Read bs) = Some bs"
| "read_to_buf Again = Some []"
| "read_to_buf ReadFailed = None"

fun clear_program_output :: "read_result list \<Rightarrow> read_result list option" where
  "clear_program_output [] = None"
| "clear_program_output (r # rs) = do {
     bs \<leftarrow> read_to_buf r;
     if bs = [] then Some rs else clear_program_output rs }"

text \<open>
  The inner loop of \<open>print_program_output\<close>: \<open>ret\<close> bytes are left, and every \<open>write\<close> starts at the
  beginning of the buffer. A result is the number of bytes written, at most \<open>ret\<close>, or a failure.
\<close>

fun write_loop :: "bytes \<Rightarrow> nat \<Rightarrow> nat option list \<Rightarrow> (bytes \<times> nat option list) option" where
  "write_loop buf ret ws =
     (if ret = 0 then Some ([], ws)
      else case ws of
             [] \<Rightarrow> None
           | None # _ \<Rightarrow> None
           | Some res # ws \<Rightarrow> do {
               (out, ws) \<leftarrow> write_loop buf (ret - res) ws;
               Some (take (min res ret) buf @ out, ws) })"

declare write_loop.simps [simp del]

fun print_loop :: "read_result list \<Rightarrow> nat option list \<Rightarrow> bytes option" where
  "print_loop [] ws = None"
| "print_loop (r # rs) ws = do {
     bs \<leftarrow> read_to_buf r;
     if bs = [] then Some []
     else do {
       (out, ws) \<leftarrow> write_loop bs (length bs) ws;
       rest \<leftarrow> print_loop rs ws;
       Some (out @ rest) } }"

definition print_program_output :: "(string \<Rightarrow> bytes) \<Rightarrow> read_result list \<Rightarrow> nat option list \<Rightarrow> bytes option" where
  "print_program_output encode_text rs ws =
     map_option (\<lambda>out. encode_text ''---- BEGIN PROGRAM OUTPUT ----\<newline>'' @ out @ encode_text ''---- END PROGRAM OUTPUT   ----\<newline>'')
       (print_loop rs ws)"

text \<open>When every \<open>write\<close> takes all it is given, the output is what was read, unchanged.\<close>

lemma write_loop_full: "bs \<noteq> [] \<Longrightarrow> write_loop bs (length bs) (Some (length bs) # ws) = Some (bs, ws)"
  by (subst write_loop.simps) (simp add: write_loop.simps)

lemma print_loop_full:
  assumes "\<forall>bs \<in> set chunks. bs \<noteq> []" and "read_to_buf r = Some []"
  shows "print_loop (map Read chunks @ r # rs) (map (Some \<circ> length) chunks) = Some (concat chunks)"
  using assms by (induction chunks) (auto simp: write_loop_full)

lemma output_forwarded:
  assumes "\<forall>bs \<in> set chunks. bs \<noteq> []" and "read_to_buf r = Some []"
  shows "print_program_output encode_text (map Read chunks @ r # rs) (map (Some \<circ> length) chunks) =
    Some (encode_text ''---- BEGIN PROGRAM OUTPUT ----\<newline>'' @ concat chunks @ encode_text ''---- END PROGRAM OUTPUT   ----\<newline>'')"
  using print_loop_full [OF assms] by (simp add: print_program_output_def)

text \<open>After a short \<open>write\<close> the beginning of the buffer is written again and its end is lost.\<close>

lemma short_write_repeats: "print_loop [Read [1, 2], Again] [Some 1, Some 1] = Some [1, 1]"
  by code_simp

end
