(* ===== verification/Segments.thy ===== *)
theory Segments
  imports Allocators
begin

section \<open>The segments of the globals (snapshot-interface.cc)\<close>

text \<open>
  \<open>SnapshotGlobalSegments\<close> reads \<open>/proc/self/maps\<close> line by line and registers, as regions of the
  snapshots, the writable segments whose file name contains the name of the binary. The theory has
  the line buffer, the \<open>sscanf\<close> format of a line and the loop. The file is a list of characters; a
  value that \<open>sscanf\<close> does not set stays what it was, and \<open>None\<close> is a use of one that never was.
\<close>

subsection \<open>Scanning\<close>

definition code :: "char \<Rightarrow> nat" where
  "code c = of_char c"

definition space :: "char \<Rightarrow> bool" where
  "space c = (code c \<in> {9, 10, 11, 12, 13, 32})"

definition hex_digit :: "char \<Rightarrow> nat option" where
  "hex_digit c =
     (let n = code c in
      if 48 \<le> n \<and> n \<le> 57 then Some (n - 48)
      else if 97 \<le> n \<and> n \<le> 102 then Some (n - 87)
      else if 65 \<le> n \<and> n \<le> 70 then Some (n - 55)
      else None)"

fun scan_digits :: "nat \<Rightarrow> string \<Rightarrow> nat \<times> string" where
  "scan_digits n [] = (n, [])"
| "scan_digits n (c # cs) = (case hex_digit c of None \<Rightarrow> (n, c # cs) | Some d \<Rightarrow> scan_digits (16 * n + d) cs)"

text \<open>Space, an optional \<open>0x\<close> and at least one digit; \<open>%p\<close> and \<open>%x\<close>, for numbers without a sign.\<close>

definition scan_hex :: "string \<Rightarrow> (nat \<times> string) option" where
  "scan_hex s =
     (let t = dropWhile space s;
          u = (if take 2 t = ''0x'' \<or> take 2 t = ''0X'' then drop 2 t else t) in
      case u of
        [] \<Rightarrow> None
      | c # _ \<Rightarrow> if hex_digit c = None then None else Some (scan_digits 0 u))"

definition scan_nat :: "string \<Rightarrow> string option" where
  "scan_nat s =
     (let t = dropWhile space s; digit = (\<lambda>c. 48 \<le> code c \<and> code c \<le> 57) in
      if t = [] \<or> \<not> digit (hd t) then None else Some (dropWhile digit t))"

fun scan_char :: "string \<Rightarrow> (char \<times> string) option" where
  "scan_char [] = None"
| "scan_char (c # cs) = Some (c, cs)"

definition scan_literal :: "char \<Rightarrow> string \<Rightarrow> string option" where
  "scan_literal c s = (if s \<noteq> [] \<and> hd s = c then Some (tl s) else None)"

text \<open>\<open>%200s\<close>: space, a line break included, is skipped.\<close>

definition scan_name :: "string \<Rightarrow> string option" where
  "scan_name s =
     (let t = takeWhile (\<lambda>c. \<not> space c) (dropWhile space s) in if t = [] then None else Some (take 200 t))"

record segment =
  seg_begin :: nat
  seg_end :: nat
  seg_w :: char
  seg_name :: string

text \<open>
  The format \<open>%p-%p %c%c%c%c %*x %*x:%*x %*u %200s\<close>. Without the last items the name stays empty.
\<close>

definition scan_region_name :: "string \<Rightarrow> string" where
  "scan_region_name s =
     (case do {
        (_, s) \<leftarrow> scan_char s;
        (_, s) \<leftarrow> scan_hex s;
        (_, s) \<leftarrow> scan_hex s;
        s \<leftarrow> scan_literal CHR '':'' s;
        (_, s) \<leftarrow> scan_hex s;
        s \<leftarrow> scan_nat s;
        scan_name s } of
      None \<Rightarrow> [] | Some name \<Rightarrow> name)"

definition scan_line :: "string \<Rightarrow> segment option" where
  "scan_line s = do {
     (b, s) \<leftarrow> scan_hex s;
     s \<leftarrow> scan_literal CHR ''-'' s;
     (e, s) \<leftarrow> scan_hex s;
     (_, s) \<leftarrow> scan_char (dropWhile space s);
     (w, s) \<leftarrow> scan_char s;
     Some \<lparr> seg_begin = b, seg_end = e, seg_w = w,
            seg_name = (case scan_char s of None \<Rightarrow> [] | Some (_, s) \<Rightarrow> scan_region_name s) \<rparr> }"

subsection \<open>The loop over the lines\<close>

text \<open>Up to \<open>n\<close> characters, to the line break or the end of the file, which is \<open>True\<close>.\<close>

fun read_line :: "nat \<Rightarrow> string \<Rightarrow> string \<times> bool \<times> string" where
  "read_line 0 inp = ([], False, inp)"
| "read_line (Suc n) [] = ([], True, [])"
| "read_line (Suc n) (c # inp) =
     (if code c = 10 then ([c], False, inp)
      else (let (line, eof, rest) = read_line n inp in (c # line, eof, rest)))"

fun contains :: "string \<Rightarrow> string \<Rightarrow> bool" where
  "contains [] needle = (needle = [])"
| "contains (c # s) needle = (take (length needle) (c # s) = needle \<or> contains s needle)"

text \<open>What one pass of the loop registers: the base and the number of pages.\<close>

definition line_regions :: "string \<Rightarrow> string \<Rightarrow> (nat \<times> nat) list option" where
  "line_regions binary_name buf = do {
     g \<leftarrow> scan_line (takeWhile (\<lambda>c. code c \<noteq> 0) buf);
     let len = unat ((of_nat (seg_end g) - of_nat (seg_begin g)) div PAGESIZE) in
     Some (if seg_w g = CHR ''w'' \<and> contains (seg_name g) binary_name \<and> len \<noteq> 0
           then [(seg_begin g, len)] else []) }"

text \<open>
  The buffer, of \<open>n\<close> characters, is not cleared between the lines; \<open>buf\<close> is what it holds, and what
  follows it in memory up to a 0. After the end of the file is met, the buffer is scanned once more.
\<close>

lemma read_line_shorter: "read_line n inp = (line, False, rest) \<Longrightarrow> 0 < n \<Longrightarrow> length rest < length inp"
proof (induction n inp arbitrary: line rest rule: read_line.induct)
  case (3 n c inp)
  show ?case
  proof (cases "code c = 10 \<or> n = 0")
    case True
    then show ?thesis using 3 by (auto split: prod.splits if_splits)
  next
    case False
    with 3 have "length rest < length inp" by (auto split: prod.splits)
    then show ?thesis by simp
  qed
qed auto

function global_segments :: "nat \<Rightarrow> string \<Rightarrow> string \<Rightarrow> string \<Rightarrow> (nat \<times> nat) list option" where
  "global_segments n binary_name buf inp =
     (case read_line n inp of (line, eof, rest) \<Rightarrow>
        let buf = line @ drop (length line) buf in do {
          rs \<leftarrow> line_regions binary_name buf;
          if eof then Some rs
          else if n = 0 then None
          else do { rs' \<leftarrow> global_segments n binary_name buf rest; Some (rs @ rs') } })"
  by pat_completeness auto
termination by (relation "measure (\<lambda>(n, _, _, inp). length inp)") (auto dest!: read_line_shorter [OF sym])

declare global_segments.simps [simp del]

definition BUFSIZE :: nat where "BUFSIZE = 9000"

definition SnapshotGlobalSegments :: "string \<Rightarrow> string \<Rightarrow> string \<Rightarrow> (nat \<times> nat) list option" where
  "SnapshotGlobalSegments binary_name buf inp = global_segments BUFSIZE binary_name buf inp"

subsection \<open>Lines of the kernel\<close>

definition hexes :: "string \<Rightarrow> bool" where
  "hexes ds \<longleftrightarrow> ds \<noteq> [] \<and> (\<forall>c \<in> set ds. hex_digit c \<noteq> None)"

definition hex_value :: "string \<Rightarrow> nat" where
  "hex_value ds = fst (scan_digits 0 ds)"

definition digit_text :: "string \<Rightarrow> bool" where
  "digit_text ds \<longleftrightarrow> ds \<noteq> [] \<and> (\<forall>c \<in> set ds. 48 \<le> code c \<and> code c \<le> 57)"

definition name_text :: "string \<Rightarrow> bool" where
  "name_text name \<longleftrightarrow> name \<noteq> [] \<and> (\<forall>c \<in> set name. \<not> space c)"

lemma hex_digit_space: "hex_digit c \<noteq> None \<Longrightarrow> \<not> space c"
  by (auto simp: hex_digit_def space_def Let_def split: if_splits)

lemma scan_digits_append:
  assumes "\<forall>c \<in> set ds. hex_digit c \<noteq> None" and "rest = [] \<or> hex_digit (hd rest) = None"
  shows "scan_digits n (ds @ rest) = (fst (scan_digits n ds), rest)"
  using assms
proof (induction ds arbitrary: n)
  case Nil
  then show ?case by (cases rest) auto
next
  case (Cons d ds)
  then show ?case by (auto split: option.splits)
qed

lemma scan_hex_digits:
  assumes "hexes ds" and "hex_digit c = None" and "c \<notin> {CHR ''x'', CHR ''X''}" and "\<forall>x \<in> set ws. space x"
  shows "scan_hex (ws @ ds @ c # rest) = Some (hex_value ds, c # rest)"
proof -
  obtain d ds' where d: "ds = d # ds'" "hex_digit d \<noteq> None" using assms(1) by (cases ds) (auto simp: hexes_def)
  have ns: "\<not> space d" by (rule hex_digit_space [OF d(2)])
  have t: "dropWhile space (ws @ ds @ c # rest) = ds @ c # rest" using assms(4) ns by (simp add: d(1) dropWhile_append1 dropWhile_append2)
  have hx: "hex_digit CHR ''x'' = None" "hex_digit CHR ''X'' = None" by code_simp+
  have nx: "take 2 (ds @ c # rest) \<noteq> ''0x''" "take 2 (ds @ c # rest) \<noteq> ''0X''"
    using assms(1,3) hx by (auto simp: d(1) hexes_def take_Cons' split: if_splits; cases ds'; auto)+
  have "scan_digits 0 (ds @ c # rest) = (hex_value ds, c # rest)"
    using scan_digits_append [of ds "c # rest" 0] assms(1,2) by (simp add: hexes_def hex_value_def)
  then show ?thesis using nx d(2) unfolding scan_hex_def t Let_def by (auto simp: d(1))
qed

text \<open>
  A line of the file: the range, the four access characters, offset, device, inode, padding and name.
\<close>

record map_line =
  m_begin :: string
  m_end :: string
  m_access :: "char \<times> char \<times> char \<times> char"
  m_offset :: string
  m_device :: "string \<times> string"
  m_inode :: string
  m_pad :: string
  m_name :: string

definition line_text :: "map_line \<Rightarrow> string" where
  "line_text m = (case m_access m of (r, w, x, p) \<Rightarrow>
     m_begin m @ ''-'' @ m_end m @ '' '' @ [r, w, x, p] @ '' '' @ m_offset m @ '' '' @ fst (m_device m) @ '':'' @
     snd (m_device m) @ '' '' @ m_inode m @ m_pad m @ m_name m @ [CHR 0x0A])"

definition line_ok :: "map_line \<Rightarrow> bool" where
  "line_ok m \<longleftrightarrow> hexes (m_begin m) \<and> hexes (m_end m) \<and> \<not> space (fst (m_access m)) \<and> hexes (m_offset m) \<and>
     hexes (fst (m_device m)) \<and> hexes (snd (m_device m)) \<and> digit_text (m_inode m) \<and>
     m_pad m \<noteq> [] \<and> (\<forall>c \<in> set (m_pad m). c = CHR '' '') \<and> name_text (m_name m)"

lemma codes: "code CHR ''-'' = 45" "code CHR '' '' = 32" "code CHR '':'' = 58" "code CHR 0x0A = 10"
  by (simp_all add: code_def)

lemma separators:
  "hex_digit CHR ''-'' = None" "hex_digit CHR '' '' = None" "hex_digit CHR '':'' = None"
  by code_simp+

lemma spaces: "space CHR '' ''" "space CHR 0x0A"
  unfolding space_def codes by simp_all

lemma scan_name_text:
  assumes "name_text name" and "\<forall>c \<in> set pad. c = CHR '' ''"
  shows "scan_name (pad @ name @ CHR 0x0A # rest) = Some (take 200 name)"
proof -
  have d: "dropWhile space (pad @ name @ CHR 0x0A # rest) = name @ CHR 0x0A # rest"
  proof -
    have "\<forall>c \<in> set pad. space c" using assms(2) spaces(1) by metis
    then show ?thesis using assms(1) by (cases name) (auto simp: name_text_def dropWhile_append2)
  qed
  have "takeWhile (\<lambda>c. \<not> space c) (name @ CHR 0x0A # rest) = name"
    using assms(1) spaces(2) by (auto simp: name_text_def takeWhile_append2)
  then show ?thesis using assms(1) unfolding scan_name_def d by (simp add: name_text_def Let_def)
qed

lemma scan_nat_digits:
  assumes "digit_text ds" and "pad \<noteq> []" and "\<forall>c \<in> set pad. c = CHR '' ''"
  shows "scan_nat (CHR '' '' # ds @ pad @ rest) = Some (pad @ rest)"
proof -
  obtain d ds' where d: "ds = d # ds'" "48 \<le> code d" "code d \<le> 57" using assms(1) by (cases ds) (auto simp: digit_text_def)
  obtain pad' where q: "pad = CHR '' '' # pad'" using assms(2,3) by (cases pad) auto
  have "\<not> space d" using d by (auto simp: space_def)
  then have t: "dropWhile space (CHR '' '' # ds @ pad @ rest) = ds @ pad @ rest" using spaces(1) by (simp add: d(1))
  have "dropWhile (\<lambda>c. 48 \<le> code c \<and> code c \<le> 57) (ds @ pad @ rest) = pad @ rest"
    using assms(1) codes(2) by (auto simp: digit_text_def q dropWhile_append2)
  then show ?thesis using d unfolding scan_nat_def t Let_def by simp
qed

lemma scan_line_text:
  assumes "line_ok m"
  shows "scan_line (line_text m @ rest) = Some \<lparr> seg_begin = hex_value (m_begin m), seg_end = hex_value (m_end m),
    seg_w = fst (snd (m_access m)), seg_name = take 200 (m_name m) \<rparr>"
proof -
  obtain r w x q where acc: "m_access m = (r, w, x, q)" by (cases "m_access m")
  from assms have m: "hexes (m_begin m)" "hexes (m_end m)" "\<not> space r" "hexes (m_offset m)" "hexes (fst (m_device m))"
    "hexes (snd (m_device m))" "digit_text (m_inode m)" "m_pad m \<noteq> []" "\<forall>c \<in> set (m_pad m). c = CHR '' ''" "name_text (m_name m)"
    by (auto simp: line_ok_def acc)
  have h1: "scan_hex (ds @ c # us) = Some (hex_value ds, c # us)" if "hexes ds" "c \<in> {CHR ''-'', CHR '' '', CHR '':''}" for ds c us
    using scan_hex_digits [of ds c "[]" us] that separators by auto
  have h2: "scan_hex (CHR '' '' # ds @ c # us) = Some (hex_value ds, c # us)" if "hexes ds" "c \<in> {CHR ''-'', CHR '' '', CHR '':''}" for ds c us
    using scan_hex_digits [of ds c "[CHR '' '']" us] that separators spaces by auto
  note hx = h1 h2
  have "scan_region_name (q # CHR '' '' # m_offset m @ CHR '' '' # fst (m_device m) @ CHR '':'' #
      snd (m_device m) @ CHR '' '' # m_inode m @ m_pad m @ m_name m @ CHR 0x0A # rest) = take 200 (m_name m)"
    by (simp add: scan_region_name_def hx(2) [OF m(4)] hx(2) [OF m(5)] hx(1) [OF m(6)] separators scan_literal_def
        scan_nat_digits [OF m(7-9)] scan_name_text [OF m(10,9)])
  then show ?thesis
    by (simp add: line_text_def acc scan_line_def hx(1) [OF m(1)] hx(1) [OF m(2)] separators spaces scan_literal_def m(3))
qed

subsection \<open>What is registered\<close>

lemma code_newline: "code c = 10 \<longleftrightarrow> c = CHR 0x0A"
proof
  assume "code c = 10"
  then have "code c = code CHR 0x0A" by (simp only: codes)
  then show "c = CHR 0x0A" unfolding code_def by (rule of_char_eq_iff [THEN iffD1])
qed (simp add: codes)

lemma read_line_newline:
  assumes "\<forall>c \<in> set cs. c \<noteq> CHR 0x0A" and "length cs < n"
  shows "read_line n (cs @ CHR 0x0A # rest) = (cs @ [CHR 0x0A], False, rest)"
  using assms
proof (induction cs arbitrary: n)
  case Nil
  then show ?case by (cases n) (simp_all add: codes)
next
  case (Cons c cs)
  then show ?case by (cases n) (auto simp: code_newline)
qed

text \<open>A line that ends with a line break, fits into the buffer and gives \<open>r\<close> whatever comes after it.\<close>

definition full_line :: "nat \<Rightarrow> string \<Rightarrow> string \<Rightarrow> (nat \<times> nat) list \<Rightarrow> bool" where
  "full_line n binary_name line r \<longleftrightarrow> (\<exists>cs. line = cs @ [CHR 0x0A] \<and> (\<forall>c \<in> set cs. c \<noteq> CHR 0x0A) \<and> length cs < n) \<and>
     (\<forall>rest. line_regions binary_name (line @ rest) = Some r)"

text \<open>The regions of all lines are registered in order, and those of the last line once more.\<close>

lemma global_segments_lines:
  assumes "list_all2 (full_line n binary_name) lines rs" and "lines \<noteq> []"
  shows "global_segments n binary_name buf (concat lines) = Some (concat rs @ last rs)"
  using assms
proof (induction lines rs arbitrary: buf rule: list_all2_induct)
  case Nil
  then show ?case by simp
next
  case (Cons line lines r rs)
  from Cons.hyps(1) obtain cs where cs: "line = cs @ [CHR 0x0A]" "\<forall>c \<in> set cs. c \<noteq> CHR 0x0A" "length cs < n"
    and r: "\<And>rest. line_regions binary_name (line @ rest) = Some r" by (auto simp: full_line_def)
  have rd: "read_line n (line @ rest) = (line, False, rest)" for rest using read_line_newline [OF cs(2,3)] by (simp add: cs(1))
  have step: "global_segments n binary_name buf (line @ rest) =
      map_option (\<lambda>rs'. r @ rs') (global_segments n binary_name (line @ drop (length line) buf) rest)" for rest
    using cs(3) by (subst global_segments.simps)
      (cases "global_segments n binary_name (line @ drop (length line) buf) rest"; simp add: rd r Let_def)
  show ?case
  proof (cases lines)
    case Nil
    then have e: "rs = []" using Cons.hyps(2) by simp
    have "read_line n [] = ([], True, [])" using cs(3) by (cases n) simp_all
    then have "global_segments n binary_name (line @ drop (length line) buf) [] = Some r"
      by (subst global_segments.simps) (simp add: r)
    with step [of "[]"] Nil e show ?thesis by simp
  next
    case (Cons l ls)
    then have "rs \<noteq> []" using Cons.hyps(2) by auto
    then show ?thesis using step [of "concat lines"] Cons.IH Cons by simp
  qed
qed

lemma line_text_full:
  assumes "line_ok m" and "\<forall>c \<in> set (butlast (line_text m)). c \<noteq> CHR 0x0A \<and> code c \<noteq> 0" and "length (line_text m) \<le> n"
    and "contains (take 200 (m_name m)) binary_name" and "fst (snd (m_access m)) = CHR ''w''"
    and "hex_value (m_begin m) + 4096 \<le> hex_value (m_end m)" and "hex_value (m_end m) < 2 ^ 64"
  shows "full_line n binary_name (line_text m) [(hex_value (m_begin m), (hex_value (m_end m) - hex_value (m_begin m)) div 4096)]"
proof -
  let ?l = "line_text m" and ?b = "hex_value (m_begin m)" and ?e = "hex_value (m_end m)"
  have l: "?l = butlast ?l @ [CHR 0x0A]"
    by (cases "m_access m") (simp add: line_text_def butlast_append)
  have "line_regions binary_name (?l @ rest) = Some [(?b, (?e - ?b) div 4096)]" for rest
  proof -
    have "\<forall>c \<in> set ?l. code c \<noteq> 0" using assms(2) codes(4) by (subst l) auto
    then have t: "takeWhile (\<lambda>c. code c \<noteq> 0) (?l @ rest) = ?l @ takeWhile (\<lambda>c. code c \<noteq> 0) rest"
      by (simp add: takeWhile_append2)
    have "of_nat ?e - of_nat ?b = (of_nat (?e - ?b) :: uint64)" using assms(6) by (simp add: of_nat_diff)
    moreover have "unat (of_nat (?e - ?b) :: uint64) = ?e - ?b" using assms(7) by (simp add: unat_of_nat)
    ultimately have n: "unat ((of_nat ?e - of_nat ?b :: uint64) div PAGESIZE) = (?e - ?b) div 4096"
      by (simp add: PAGESIZE_def unat_div_distrib)
    have "(?e - ?b) div 4096 \<noteq> 0" using assms(6) by (simp add: div_eq_0_iff)
    then show ?thesis using assms(4,5) unfolding line_regions_def t scan_line_text [OF assms(1)] by (simp add: n)
  qed
  moreover have "length (butlast ?l) < n" using assms(3) l by (metis length_append_singleton less_eq_Suc_le)
  ultimately show ?thesis unfolding full_line_def using l assms(2) by blast
qed

text \<open>
  A mapping without a file, whose line is shorter than the one before: the name is taken from what the
  buffer still holds of the older line.
\<close>

lemma stale_name:
  "map_option seg_name (scan_line (''1-3 rw-p 0 0:0 0 '' @ [CHR 0x0A] @ ''b'' @ [CHR 0x0A])) = Some ''b''"
  by code_simp

end
