(* ===== verification/Spec2Isabelle.thy ===== *)
theory Spec2Isabelle
  imports StoreLoad Interface Allocators ForkSnapshots HashSets GenSolve GenPruned SchedSample Startup Segments
begin

section \<open>A verification development for SATCheck\<close>

text \<open>
  SATCheck is a stateless model checker for concurrent C programs under sequential consistency (or
  TSO, a compile-time option). It runs an instrumented program once, records every operation as an
  event record with the values it may produce, turns the record of all runs so far into a SAT
  problem whose solutions are new executions, and runs the schedule of the solution; it ends when no
  solution shows a behaviour not seen before.

  How the parts interact. \<open>MC::check\<close> (\<open>model.cc\<close>) repeats: run the program, let the planner look at
  what was recorded, roll memory back. While the program runs, the functions of \<open>libinterface.cc\<close>
  call \<open>MCExecution\<close> (\<open>mcexecution.cc\<close>), which keeps an execution point per thread
  (\<open>execpoint.cc\<close>), finds or makes the record and the value of the current step (\<open>eprecord.cc\<close>,
  \<open>epvalue.cc\<close>), and asks the scheduler (\<open>mcschedule.cc\<close>) to follow the planned order. The planner
  (\<open>planner.cc\<close>) propagates new values through the records until nothing changes and then calls the
  constraint generator (\<open>constgen.cc\<close>, \<open>loadrf.cc\<close>, \<open>storeloadset.cc\<close>, the \<open>*record.cc\<close> encodings,
  \<open>constraint.cc\<close>), which writes clauses to the solver process (\<open>inc_solver.cc\<close>) and gets back a
  solution, from which \<open>schedulebuilder.cc\<close> builds the schedule of the next run.

  The theories, in the order of their imports. Names of definitions are those of the code, with a
  prefix where two classes use the same name.

  \<^item> \<open>SC_Prelude\<close>: machine types, the loop \<open>foldM\<close>, lists as insertion-ordered sets.
  \<^item> \<open>McUtil\<close> (\<open>mcutil.h\<close>): masks, rotations and bit counts on words of 32 and 64 bits.
  \<^item> \<open>HashTables\<close>, \<open>HashSets\<close> (\<open>hashtable.h\<close>, \<open>hashset.h\<close>): the open-addressing table with freed
    slots and resizing, and the set with its linked list and iterators. The other theories use a map
    where the code has a \<open>HashTable\<close> and an insertion-ordered list where it has a \<open>HashSet\<close>; the
    theorems here are the refinement that allows it, with its limit: \<open>put\<close> after \<open>remove\<close> can store a
    key twice (lemma \<open>put_after_remove_duplicates\<close>).
  \<^item> \<open>Constraints\<close>, \<open>ConstraintGens\<close> (\<open>constraint.cc\<close>): formulas, their meaning under an assignment
    (\<open>eval\<close>), \<open>negate\<close>, \<open>simplify\<close>, the DIMACS printer, and the generators of comparisons.
  \<^item> \<open>ExecPoints\<close> (\<open>execpoint.cc\<close>): the stack of counters that names a step, its hash and order.
  \<^item> \<open>Records\<close> (\<open>eprecord.cc\<close>, \<open>epvalue.cc\<close>, \<open>cgoal.cc\<close>, \<open>change.cc\<close>): records, values, goals and
    changes, in a heap of objects by number (\<open>rid\<close>, \<open>vid\<close>).
  \<^item> \<open>Encodings\<close> (\<open>valuerecord.cc\<close>, \<open>functionrecord.cc\<close>, \<open>equalsrecord.cc\<close>, \<open>branchrecord.cc\<close>): how
    a value or a branch direction becomes a number spelled by variables, and back.
  \<^item> \<open>Solver\<close> (\<open>inc_solver.cc\<close>): the buffer of clauses, the protocol and the reading of the answer.
  \<^item> \<open>Memory\<close>, \<open>Execution\<close>, \<open>ExecControl\<close> (\<open>mcexecution.cc\<close>, \<open>threads.cc\<close>): simulated memory, loads,
    stores and read-modify-writes, store buffers, branches, functions, loops and threads;
    \<open>ExecInv\<close>: these operations as a step relation, reachability and the invariant of the record;
    \<open>StoreLoad\<close>: what a load of a thread returns after its own store, with and without store buffers;
    \<open>Interface\<close> (\<open>libinterface.cc\<close>): the calls of the instrumented program.
  \<^item> \<open>ConstGen\<close>, \<open>StoreLoadSets\<close>, \<open>LoadRF\<close>, \<open>Processing\<close>, \<open>Generation\<close>, \<open>GenRun\<close> (\<open>constgen.cc\<close>,
    \<open>storeloadset.cc\<close>, \<open>loadrf.cc\<close>): the generator, from its tables to the run of the solver.
  \<^item> \<open>Traversal\<close>: the records that the links of the recorded execution lead to (\<open>linked\<close>), and the
    interface of a pass over them: what a pass keeps at every record, and that it meets every linked one.
    \<open>Emission\<close>: what the emitted clauses mean. \<open>GenInv\<close>, \<open>GenSteps\<close>, \<open>GenPasses\<close>, \<open>GenEncode\<close>: the
    invariant of the generator (known variables, tables, clauses already written) and that every
    operation of both passes keeps it. \<open>GenMeaning\<close>, \<open>GenOrder\<close>, \<open>GenResults\<close>: the order a model of
    the clauses stands for, that it is total and transitive between threads, and what the goals add.
  \<^item> \<open>GenKept\<close>, \<open>GenTraverse\<close>: what the second pass leaves alone, and both passes as instances of the
    interface: the first lists every linked memory operation, the second writes the clauses of every
    linked record. \<open>GenLoads\<close>: what the clauses of a load say about the stores it is compared with.
    \<open>GenGuards\<close>: the branches around an operation that executes, and when the execution of one
    operation implies that of another. \<open>GenAddress\<close>: operations with a fixed address. \<open>GenLatest\<close>:
    a load reads the latest of all stores recorded for its address, so leaving out hidden stores loses
    nothing. \<open>GenSample\<close> is the recorded execution of the witnesses. \<open>GenSolve\<close>: with a solver that
    answers rightly, what its answer means for the exploration. \<open>GenPruned\<close>: a record with a jump for
    which leaving out stores (\<open>computeConflictSet\<close>) gives solutions that read an overwritten value.
  \<^item> \<open>Scheduling\<close> (\<open>mcschedule.cc\<close>, \<open>schedulebuilder.cc\<close>): building a schedule from a solution and
    making the threads wait for it.
    \<open>SchedTrace\<close>: the sequence of the scheduler's answers, and that a thread runs a step only when the threads
    of the earlier steps have finished, are further on or have taken another branch direction; \<open>SchedOrder\<close>: the schedule follows the order of the solution;
    \<open>SchedSample\<close> is the schedule of the witnesses.
  \<^item> \<open>Planning\<close> (\<open>planner.cc\<close>), \<open>ModelCheck\<close> (\<open>model.cc\<close>): the propagation of values, the planning
    of the next run and the loop of the checker.
  \<^item> \<open>Snapshots\<close> (\<open>snapshot.cc\<close>, \<open>snapshot-interface.cc\<close>): page protection, saving and rolling back.
    \<open>ForkSnapshots\<close>: the variant that forks, and an interface both variants implement, so that they
    agree. \<open>Segments\<close>: which segments of the process are saved, read from \<open>/proc/self/maps\<close>.
  \<^item> \<open>Allocators\<close> (\<open>mymemory.cc\<close>): the early and the user allocator, the choice of the heap for a
    request, and the layout of the heaps inside the saved regions.
  \<^item> \<open>Startup\<close> (\<open>main.cc\<close>, \<open>common.cc\<close>): options, what the program under test gets of the command
    line, and the forwarding of its output.

  Conventions. A function returns \<open>None\<close> where the code has no defined result: a failed \<open>ASSERT\<close>
  (they are compiled out by default, and the code then goes on with a state it does not expect), a
  use of a null pointer, an array read out of range, or a loop that does not end. Loops over
  containers are \<open>foldM\<close>; loops with no evident bound (the traversal, the change loop, the loop of
  the checker, the search of the enclosing branches) are \<open>partial_function (option)\<close>, so \<open>None\<close>
  there includes running forever, and no theorem takes a result for granted: each assumes it or
  proves that it exists. The probing loops of the hash table take as fuel the number of slots, which
  is enough because a probe that has met every slot repeats itself. Integers have the width of the
  code where it matters: values and addresses are 64-bit words, encodings 32-bit words. The solver
  process is a function from what was written to it to the pieces of bytes it sends back, the program
  under test is a function on the execution and the schedule, and what is read past the end of the
  solution array is a function of the index; these are arguments of \<open>process\<close> and \<open>check\<close>.

  Not modelled. Printing, statistics and freeing have no effect on the values computed. Starting
  processes, redirecting output, setting up signal handlers and switching stacks (\<open>context.cc\<close>) are
  operating system calls; \<open>libthreads.cc\<close> forwards to operations of \<open>ExecControl\<close>. \<open>malloc.c\<close> is the
  vendored allocator, and the functions of \<open>mymemory.cc\<close> that call it or the C library are left out.
  \<open>stl-model.h\<close> instantiates containers of the standard library. \<open>clang/\<close> is a source rewriter on
  the syntax trees of a library that is not in the repository: nearly every line of it reads or
  rewrites such a tree, and there is no definition of them to translate.
\<close>

section \<open>The recorded execution\<close>

text \<open>C1: Every execution record the program under test can build from the initial one, by any
  sequence of calls of the model checker's interface and of context switches, satisfies the
  invariant of the record: an execution point identifies its record, a value is shared by all its
  occurrences, and the forward and the backward dependence tables are converse to each other
  without duplicates.\<close>

theorem reachable_execution_inv:
  assumes "reachable cfg m e"
  shows "exec_inv e"
  using assms by (rule reachable_inv)

theorem reachable_execution_inv_witness:
  "exec_inv (exec_reset (new_MCExecution (\<lambda>_. 0)))"
  by (rule reachable_execution_inv [where cfg = plain and m = "\<lambda>_. 0"])
    (rule reach_step [OF reach_init step_reset], simp)

text \<open>C19: The record that \<open>getOrCreateCurrRecord\<close> returns sits at the current execution point, and
  is a new one exactly when no record was made at this point before, in this execution or in an
  earlier one.\<close>

theorem record_at_current_point:
  assumes "exec_inv e" and "getOrCreateCurrRecord et off n len any e = Some (isNew, r, e')"
    and "curr_ep e = Some ep"
  shows "ep_key (r_ep (rec_of e' r)) = ep_key ep \<and> (isNew \<longleftrightarrow> EPTable e (ep_key ep) = None)"
  using getOrCreate_point [OF assms] by simp

theorem record_at_current_point_witness:
  "\<exists>e ep isNew r e'. run_start (new_MCExecution (\<lambda>_. 0)) = Some e \<and> curr_ep e = Some ep \<and>
    getOrCreateCurrRecord THREADBEGIN 0 0 8 False e = Some (isNew, r, e') \<and>
    ep_key (r_ep (rec_of e' r)) = ep_key ep \<and> (isNew \<longleftrightarrow> EPTable e (ep_key ep) = None)"
proof -
  have d: "Option.bind (run_start (new_MCExecution (\<lambda>_. 0))) (\<lambda>e. Option.bind (curr_ep e) (\<lambda>_.
      map_option (\<lambda>_. True) (getOrCreateCurrRecord THREADBEGIN 0 0 8 False e))) = Some True" by code_simp
  then obtain e ep x where e: "run_start (new_MCExecution (\<lambda>_. 0)) = Some e" "curr_ep e = Some ep"
    "getOrCreateCurrRecord THREADBEGIN 0 0 8 False e = Some x" by (auto simp: do_simps)
  moreover obtain isNew r e' where x: "x = (isNew, r, e')" by (cases x)
  moreover have "exec_inv e" using steps_inv [OF run_start_steps [OF e(1)] exec_inv_init] .
  ultimately show ?thesis using record_at_current_point [of e THREADBEGIN 0 0 8 False isNew r e' ep] by blast
qed

text \<open>C2: When the checker returns, for any program under test that works on the execution only through
  the interface, the planner is finished and the record of all executions satisfies the invariant.\<close>

theorem checker_finishes_consistent:
  assumes "check cfg sat oob program m = Some p" and "program_ok cfg program"
  shows "finished p \<and> exec_inv (pl_exec p)"
  using check_result [OF assms] by simp

theorem checker_finishes_consistent_witness:
  "\<exists>p. check plain (\<lambda>_. []) (\<lambda>_. False) (one_store plain) (\<lambda>_. 0) = Some p \<and> finished p \<and> exec_inv (pl_exec p)"
proof -
  obtain p where "check plain (\<lambda>_. []) (\<lambda>_. False) (one_store plain) (\<lambda>_. 0) = Some p"
    using one_store_checked by blast
  with checker_finishes_consistent [OF this one_store_ok] show ?thesis by blast
qed

section \<open>Simulated memory and snapshots\<close>

text \<open>C20: A load right after a store of the same thread to the same address, with the same width, returns
  the value that was stored, for each width of the interface and every value that fits it: from memory
  when the program is checked for sequential consistency, from the store buffer under TSO. The store
  itself leaves memory as it is under TSO, and all other bytes as they are otherwise.\<close>

theorem load_returns_stored:
  assumes "exec_inv e" and "len \<in> {1, 2, 4, 8}" and "take_bit (8 * nat len) val = val"
    and "exec_store cfg addr val len e = Some e1" and "loadMCID maddr off e1 = (n, e2)"
    and "exec_load cfg addr len e2 = Some (v, e3)"
  shows "v = val \<and> (if TSO cfg then mem e1 = mem e
    else \<forall>a. (\<forall>i < nat len. a \<noteq> addr + of_nat i) \<longrightarrow> mem e1 a = mem e a)"
  using load_after_store [OF assms] by simp

theorem load_returns_stored_witness:
  "\<exists>e e1 v e3. run_start (new_MCExecution (\<lambda>_. 0)) = Some e \<and>
     exec_store (plain\<lparr> TSO := True \<rparr>) 64 300 2 e = Some e1 \<and>
     exec_load (plain\<lparr> TSO := True \<rparr>) 64 2 (snd (loadMCID MCID_NODEP 0 e1)) = Some (v, e3) \<and> v = 300 \<and> mem e1 = mem e"
proof -
  let ?c = "plain\<lparr> TSO := True \<rparr>"
  have "Option.bind (run_start (new_MCExecution (\<lambda>_. 0))) (\<lambda>e. Option.bind (exec_store ?c 64 300 2 e) (\<lambda>e1.
      map_option (\<lambda>_. True) (exec_load ?c 64 2 (snd (loadMCID MCID_NODEP 0 e1))))) = Some True" by code_simp
  then obtain e e1 x where e: "run_start (new_MCExecution (\<lambda>_. 0)) = Some e" "exec_store ?c 64 300 2 e = Some e1"
    "exec_load ?c 64 2 (snd (loadMCID MCID_NODEP 0 e1)) = Some x" by (auto simp: do_simps)
  obtain n e2 where l: "loadMCID MCID_NODEP 0 e1 = (n, e2)" by (cases "loadMCID MCID_NODEP 0 e1")
  obtain v e3 where x: "x = (v, e3)" by (cases x)
  have "exec_inv e" using steps_inv [OF run_start_steps [OF e(1)] exec_inv_init] .
  from load_returns_stored [OF this _ _ e(2) l, of v e3] e(3) l x have "v = 300 \<and> mem e1 = mem e"
    by (simp add: take_bit_eq_mod)
  with e x show ?thesis by blast
qed

text \<open>C21: A read-modify-write of 1, 2, 4 or 8 bytes returns the old contents of the cell. The value it
  reports as stored, cut to the width, is the sum for an addition, the argument for an exchange and for
  a compare-and-swap that finds the value expected, and what was there for one that fails. The bytes of
  the cell are those of this value afterwards, no other byte changes, and a failed compare-and-swap
  changes none.\<close>

theorem rmw_updates_memory:
  assumes "len \<in> {1, 2, 4, 8}" and "currval = read_mem addr (int len) m"
    and "dormwaction aop addr len currval oldval valarg m = (retval, newval, m')"
  shows "retval = currval \<and>
    newval = take_bit (8 * len)
      (case aop of ADD \<Rightarrow> currval + valarg | CAS \<Rightarrow> if currval = oldval then valarg else currval | EXC \<Rightarrow> valarg) \<and>
    (\<forall>i < len. m' (addr + of_nat i) = ucast (drop_bit (8 * i) newval)) \<and>
    (\<forall>a. (\<forall>i < len. a \<noteq> addr + of_nat i) \<longrightarrow> m' a = m a) \<and> (aop = CAS \<and> currval \<noteq> oldval \<longrightarrow> m' = m)"
  using dormwaction_memory(1) [OF assms] dormwaction_stores [OF assms] by blast

theorem rmw_updates_memory_witness:
  "\<exists>m. dormwaction ADD 16 1 (read_mem 16 (int 1) (\<lambda>_. 255)) 0 2 (\<lambda>_. 255) = (255, 1, m) \<and> m 16 = 1 \<and> m 17 = 255"
proof -
  obtain r v m where d: "dormwaction ADD 16 1 (read_mem 16 (int 1) (\<lambda>_. 255)) 0 2 (\<lambda>_. 255) = (r, v, m)"
    by (rule prod_cases3)
  have c: "read_mem 16 1 (\<lambda>_. 255) = 255" by code_simp
  note R = rmw_updates_memory [OF _ refl d]
  have "v = 1" using R by (simp add: c take_bit_eq_mod)
  moreover have "r = 255" using R by (simp add: c)
  moreover have "m (16 + of_nat 0) = ucast (drop_bit (8 * 0) v)" using R by blast
  moreover have "\<forall>i < 1. (17 :: uint64) \<noteq> 16 + of_nat i" by simp
  then have "m 17 = 255" using R by blast
  ultimately show ?thesis using d by simp
qed

text \<open>C18: Rolling back to a snapshot restores every page of the registered regions to its contents when
  the snapshot was taken, whatever was written since, and leaves a state from which the earlier
  snapshots can still be restored.\<close>

theorem roll_back_restores_memory:
  assumes "snap_inv Ms s" and "mprot_roll_back k s = Some s'"
  shows "snap_inv (take (k + 1) Ms) s' \<and> (\<forall>p. in_region s p \<longrightarrow> pages s' p = (Ms ! k) p)"
  using roll_back_restores [OF assms] by blast

theorem roll_back_restores_memory_witness:
  "\<exists>s s'. example_run = Some s \<and> pages s 3 = 8 \<and> mprot_roll_back 0 s = Some s' \<and> pages s' 3 = 7"
proof -
  obtain s where s: "example_run = Some s" "snap_inv [\<lambda>_. 7] s" "pages s 3 = 8" "in_region s 3" "snapShots s = [0]"
    using example_run_inv by blast
  then have "\<exists>s'. mprot_roll_back 0 s = Some s'" by (simp add: mprot_roll_back_def nth_opt_def)
  with s roll_back_restores_memory [OF s(2)] show ?thesis by fastforce
qed

text \<open>C22: Every write to a page keeps the snapshots restorable: the first write after a snapshot saves
  the page, later ones do not lose the saved copy.\<close>

theorem write_keeps_snapshots:
  assumes "snap_inv Ms s" and "write_page q v s = Some s'"
  shows "snap_inv Ms s'"
  using assms by (rule snap_inv_write)

theorem write_keeps_snapshots_witness:
  "\<exists>s s'. example_run = Some s \<and> write_page 3 9 s = Some s' \<and> snap_inv [\<lambda>_. 7] s'"
proof -
  obtain s where s: "example_run = Some s" "snap_inv [\<lambda>_. 7] s" "pages s 3 = 8" "in_region s 3" "snapShots s = [0]"
    using example_run_inv by blast
  have c: "map_option (\<lambda>s. write_page 3 9 s = None) example_run = Some False" by code_simp
  obtain s' where "write_page 3 9 s = Some s'" using c [unfolded s(1)] by auto
  with write_keeps_snapshots [OF s(2)] s(1) show ?thesis by blast
qed

text \<open>C23: \<open>backTrackBeforeStep\<close> returns to the last entry of the stack when its index is not after the
  one asked for, and otherwise reads outside the stack: because the loop counts up, it never
  reaches an earlier entry.\<close>

theorem backtrack_only_last:
  "backTrackBeforeStep seqindex stack s =
     (if stack \<noteq> [] \<and> snd (last stack) \<le> seqindex
      then map_option (\<lambda>s. (snd (last stack), stack, s)) (mprot_roll_back (fst (last stack)) s)
      else None)"
  by (rule backTrackBeforeStep_result)

text \<open>C40: A program cannot tell the two variants of the snapshots apart: whatever it writes, snapshots
  and rolls back, when the \<open>mprotect\<close> variant serves it, the \<open>fork\<close> variant serves it too, with the
  same identifiers and, at the end, the same contents of every page of the registered regions.\<close>

theorem fork_equals_mprotect:
  assumes "run_events mprot_event xs ((new_snapshotter m b n r)\<lparr> regions := rgs \<rparr>) = Some (rs, s')"
  shows "\<exists>t'. run_events fork_event xs (createSharedMemory m) = Some (rs, t') \<and>
    (\<forall>p. in_region s' p \<longrightarrow> own_pages t' p = pages s' p)"
  by (rule fork_follows_mprot [OF mprot_rel_new fork_rel_new assms])

theorem fork_equals_mprotect_witness:
  "\<exists>t'. run_events fork_event example_events (createSharedMemory (\<lambda>_. 7)) =
      Some ([Some 0, None, Some 1, None, None, None], t') \<and> own_pages t' 3 = 7"
proof -
  obtain s' where s': "run_events mprot_event example_events example_pages = Some ([Some 0, None, Some 1, None, None, None], s')"
    "in_region s' 3" "pages s' 3 = 7" using example_events_run by blast
  from fork_equals_mprotect [OF s'(1) [unfolded example_pages_def]] s'(2,3) show ?thesis by fastforce
qed

section \<open>Memory of the program under test\<close>

text \<open>C38: Requests served from the static array, before the heap of the program exists, get blocks
  of the size asked for, inside the array, that do not overlap and come in the order of the
  requests; and a later \<open>free\<close> of any address inside a block does nothing.\<close>

theorem early_allocations_disjoint:
  assumes "early_ok boot s" and "alloc_all (HandleEarlyAllocationRequest boot) szs s = Some (bs, s')"
    and "\<forall>sz \<in> set szs. sane_size sz"
  shows "map snd bs = szs \<and> sorted_wrt block_before bs \<and>
    (\<forall>b \<in> set bs. unat boot \<le> unat (fst b) \<and> unat (fst b) + unat (snd b) \<le> unat boot + unat BOOTSTRAPBYTES) \<and>
    (\<forall>b \<in> set bs. \<forall>p t. unat (fst b) \<le> unat p \<longrightarrow> unat p < unat (fst b) + unat (snd b) \<longrightarrow> free_of boot p t = NOT_FREED)"
  using early_blocks_in_array [OF assms] array_not_freed [OF assms(1)] by (meson le_trans less_le_trans)

theorem early_allocations_disjoint_witness:
  "sorted_wrt block_before [(409600, 13), (409616, 8)]"
  by (rule early_allocations_disjoint [OF example_early_run, THEN conjunct2, THEN conjunct1])

text \<open>C39: With the heaps set up by \<open>mprot_snapshot_init\<close>, every byte of every block the heap of the
  program hands out lies on a page registered for snapshots, so that rolling back restores it.\<close>

theorem heap_in_snapshot:
  assumes "heap_layout n b1 b2 b3 = (rs, alloc, limit)" and "32 \<le> unat n" and "unat n < 2 ^ 20 - 1"
    and "unat b1 + unat (user_block_size n) < 2 ^ 63" and "unat b2 + unat thread_block_size < 2 ^ 63"
    and "unat b3 + unat (model_block_size n) < 2 ^ 63"
    and "allocation_ptr s = alloc" and "top_ptr s = limit"
    and "alloc_all real_user_malloc szs s = Some (bs, s')" and "\<forall>sz \<in> set szs. sane_size sz"
    and "regions sn = region_pages rs"
    and "(p, sz) \<in> set bs" and "unat p \<le> a" and "a < unat p + unat sz"
  shows "in_region sn (page_of a)"
  using assms by (rule block_in_region)

theorem heap_in_snapshot_witness:
  "in_region example_snapshotter (page_of 1056790)"
  by (rule heap_in_snapshot [OF example_space_run, where p = 1056776 and sz = 100]) simp_all

section \<open>Constraints\<close>

text \<open>C13: Simplification keeps the meaning of a constraint under every assignment, for constraints
  whose implications are not nested under a negation and whose conjunctions have no constant false
  conjunct, which is what the generator builds.\<close>

theorem simplify_sound:
  assumes "neg_ok c" and "and_clean c"
  shows "evals \<sigma> (simplify c) \<longleftrightarrow> eval \<sigma> c"
  using assms by (rule simplify_eval)

theorem simplify_sound_witness:
  "evals (\<lambda>v. v = 1) (simplify (IMPLIES (VAR 1) (AND [VAR 2, NOTVAR 3]))) \<longleftrightarrow>
    eval (\<lambda>v. v = 1) (IMPLIES (VAR 1) (AND [VAR 2, NOTVAR 3]))"
  by (rule simplify_sound) simp_all

text \<open>C24: Everything simplification returns is a constant or a clause of literals, so it can be
  printed in DIMACS format.\<close>

theorem simplify_gives_clauses:
  "list_all (\<lambda>d. d = TRUE \<or> d = FALSE \<or> is_clause d) (simplify c)"
  unfolding list_all_iff using simplify_clauses by blast

text \<open>C25: The comparison constraint holds exactly of the assignments for which the binary number
  spelled by the variables is below the bound.\<close>

theorem less_than_constraint:
  assumes "list_all is_literal vars" and "length vars < 32" and "val \<noteq> 0" and "unat val \<le> 2 ^ length vars"
  shows "eval \<sigma> (generateLTConstraint vars val) \<longleftrightarrow> unat (spelled \<sigma> vars) < unat val"
  using assms by (rule generateLTConstraint_eval)

theorem less_than_constraint_witness:
  "eval (\<lambda>v. v = 2) (generateLTConstraint [VAR 1, VAR 2] 3) \<longleftrightarrow>
    unat (spelled (\<lambda>v. v = 2) [VAR 1, VAR 2]) < unat (3 :: uint32)"
  by (rule less_than_constraint) simp_all

section \<open>Encodings of values and branches\<close>

text \<open>C26: Decoding inverts encoding for the values of a set: whenever an assignment satisfies the
  constraint that the variables encode \<open>v\<close>, reading the variables back gives \<open>v\<close>.\<close>

theorem value_roundtrip:
  assumes "vr_wf (s, vars)" and "vr_getValueEncoding s (ValueRecord_numvars s) vars v = Some c"
    and "eval \<sigma> c"
  shows "vr_getValue s (ValueRecord_numvars s) vars \<sigma> = Some v"
  using assms by (rule vr_roundtrip)

theorem value_roundtrip_witness:
  "vr_getValue [7, 9] (ValueRecord_numvars [7, 9]) [VAR 1] (\<lambda>_. True) = Some 9"
  by (rule value_roundtrip [where c = "AND [VAR 1]"])
    (simp_all add: vr_wf_def ValueRecord_numvars_def vr_getValueEncoding_def generateConstraint_def)

text \<open>C27: The goal of a new output of a function and the encoding of any known output exclude each
  other: a solution that reaches the goal gives the function none of the known outputs.\<close>

theorem function_no_value_excludes:
  assumes "fr_wf (f, vars)" and "\<not> phi f" and "eval \<sigma> (fr_getNoValueEncoding vars)"
    and "fr_getValueEncoding f vars v = Some c"
  shows "\<not> eval \<sigma> c"
  using assms by (rule fr_no_value)

theorem function_no_value_excludes_witness:
  "\<not> eval (\<lambda>_. True) (AND [NOTVAR 1])"
proof (rule function_no_value_excludes)
  let ?f = "(new_EPRecord FUNCTION (new_exec_point 0 0) None 0 0 8 False)\<lparr> setarray := [[], [5]] \<rparr>"
  show "fr_wf (?f, [VAR 1])"
    by (simp add: fr_wf_def FunctionRecord_set_def FunctionRecord_numvars_def new_EPRecord_def getSet_def nth_opt_def
        VC_FUNCOUTINDEX_def)
  show "\<not> phi ?f" by (simp add: new_EPRecord_def)
  show "eval (\<lambda>_. True) (fr_getNoValueEncoding [VAR 1])" by (simp add: fr_getNoValueEncoding_def)
  show "fr_getValueEncoding ?f [VAR 1] 5 = Some (AND [NOTVAR 1])"
    by (simp add: fr_getValueEncoding_def FunctionRecord_set_def new_EPRecord_def getSet_def nth_opt_def
        VC_FUNCOUTINDEX_def generateConstraint_def)
qed

text \<open>C14: A solution that satisfies the constraint of a branch direction makes the schedule builder
  take that direction.\<close>

theorem branch_roundtrip:
  assumes "br_wf (h, br)" and "getBranch h br val = Some c" and "eval \<sigma> c"
  shows "\<exists>i. getIndex_ptr h (br_branch br) val = Some i \<and> getBranchValue br \<sigma> = Some (int i)"
  using assms by (rule br_roundtrip)

theorem branch_roundtrip_witness:
  "\<exists>i. getIndex_ptr example_heap (br_branch example_branch) 4 = Some i \<and>
     getBranchValue example_branch (\<lambda>v. v = 1) = Some (int i)"
  by (rule branch_roundtrip [OF example_branch_wf example_branch_dir]) simp

text \<open>C28: A solution that reaches the goal of a new direction of a branch takes none of the recorded
  directions, as long as the branch has a direction that was never recorded.\<close>

theorem branch_new_excludes:
  assumes "br_wf (h, br)" and "numValues h (br_branch br) < rec_len (recs h (br_branch br))"
    and "eval \<sigma> (getNewBranch br)" and "getBranch h br val = Some c"
  shows "\<not> eval \<sigma> c"
  using assms by (rule br_new)

theorem branch_new_excludes_witness:
  "\<not> eval (\<lambda>_. True) (AND [VAR 1, NOTVAR 2])"
  by (rule branch_new_excludes [OF example_branch_wf _ _ example_branch_dir])
    (simp_all add: example_heap_def example_branch_def new_BranchRecord_def new_EPRecord_def numValues_def
      getNewBranch_def)

section \<open>The encoding of the recorded execution\<close>

text \<open>C9: In every solution of the encoding, two memory operations of different threads are ordered one
  way or the other, never both: the solution is a total order of the operations between threads.\<close>

theorem encoding_orders_threads:
  assumes "encode cfg e g = Some g'" and "start_ok g" and "\<not> TSO cfg" and "models \<sigma> g'"
    and "op_at g' s i a" and "op_at g' t j b" and "s \<noteq> t"
  shows "prec cfg e g' \<sigma> b a \<longleftrightarrow> \<not> prec cfg e g' \<sigma> a b"
  using assms by (rule encode_ordered)

theorem encoding_orders_threads_witness:
  "\<exists>g. encode plain sample_exec new_ConstGen = Some g \<and>
     (prec plain sample_exec g sample_solution 4 2 \<longleftrightarrow> \<not> prec plain sample_exec g sample_solution 2 4)"
proof -
  obtain g where g: "encode plain sample_exec new_ConstGen = Some g" "models sample_solution g"
    "op_at g 0 1 2" "op_at g 1 0 4" by (rule sample_gen)
  from encoding_orders_threads [OF g(1) start_ok_new _ g(2-4)] g(1) show ?thesis by (simp add: plain_def)
qed

text \<open>C8: The order of a solution is transitive, with program order inside a thread: if \<open>a\<close> comes before \<open>b\<close>
  and \<open>b\<close> before \<open>c\<close>, then \<open>a\<close> comes before \<open>c\<close>, whether the three are of one, two or three threads.
  (Operations of one thread on different sides of a branch have no order; the last premise but two
  asks for one where \<open>a\<close> and \<open>c\<close> share a thread.)\<close>

theorem encoding_order_transitive:
  assumes "encode cfg e g = Some g'" and "start_ok g" and "\<not> TSO cfg" and "models \<sigma> g'"
    and "in_program_order e g'" and "op_at g' s i a" and "op_at g' t j b" and "op_at g' u k c"
    and "s = u \<Longrightarrow> program_order e a c = Some True \<or> program_order e c a = Some True"
    and "prec cfg e g' \<sigma> a b" and "prec cfg e g' \<sigma> b c"
  shows "prec cfg e g' \<sigma> a c"
  using assms by (rule encode_transitive)

theorem encoding_order_transitive_witness:
  "\<exists>g. encode plain sample_exec new_ConstGen = Some g \<and> prec plain sample_exec g sample_solution 0 2"
proof -
  obtain g where g: "encode plain sample_exec new_ConstGen = Some g" "models sample_solution g"
    "op_at g 0 0 0" "op_at g 1 0 4" "op_at g 0 1 2" "in_program_order sample_exec g"
    "rpt g (0, 4) = Some TRUE" "rpt g (2, 4) = Some (VAR 2)" "rpt g (4, 2) = None" by (rule sample_gen)
  have "prec plain sample_exec g sample_solution 0 4" "prec plain sample_exec g sample_solution 4 2"
    using g(7-9) sample_records(2,3)
    by (simp_all add: prec_def getOrderConstraint_def rpt_get_def sample_solution_def)
  from encoding_order_transitive [OF g(1) start_ok_new _ g(2,6,3-5) _ this] g(1) sample_records(4)
  show ?thesis by (simp add: plain_def)
qed

text \<open>C5: A load, or a read-modify-write, that executes in a solution reads the latest store to its address.
  Of all stores that any execution recorded for this address it reads one that executes, comes first in
  the order of the solution and has its value and its address, and no other of them that executes and has
  the address lies between the two, whichever of them the code has compared and whichever it has left
  out as hidden. The record has to be as \<open>recorded_at\<close> says: the address of the load is fixed; a store
  seen at this address only has it for good; branches around the stores are recorded; two operations of
  a thread are in program order or in different directions of a branch; and the last condition, on jumps,
  is one that the code does not check (lemma \<open>pruned_store_overwrites\<close> of theory \<open>GenPruned\<close> has a record
  without it, where a load reads an overwritten value).\<close>

theorem encoding_load_reads:
  assumes "encode cfg e g = Some g'" and "start_ok g" and "\<not> TSO cfg" and "models \<sigma> g'" and "in_program_order e g'"
    and "recorded_at cfg e g' a load rs" and "event (rec_of e load) = LOAD \<or> event (rec_of e load) = RMW"
    and "executes e g' \<sigma> load" and "cg_loadtable g' load = Some mrf" and "mrf \<noteq> []" and "length mrf < 2 ^ 31"
  shows "\<exists>i store. getStoreLoadSet e load g' = Some i \<and> store \<in> set rs \<and> reads_from cfg e g' i \<sigma> load store \<and>
    (\<forall>c \<in> set rs. \<not> overwrites cfg e g' i \<sigma> load store c)"
  using assms by (rule load_reads_latest)

theorem encoding_load_reads_witness:
  "\<exists>g i store. encode plain sample_exec new_ConstGen = Some g \<and> storetable sample_exec 64 = Some [0, 4] \<and> store \<in> {0, 4} \<and>
     reads_from plain sample_exec g i sample_solution 2 store \<and>
     \<not> overwrites plain sample_exec g i sample_solution 2 store 0 \<and> \<not> overwrites plain sample_exec g i sample_solution 2 store 4"
proof -
  obtain g where g: "encode plain sample_exec new_ConstGen = Some g" "models sample_solution g" "in_program_order sample_exec g"
    "cg_loadtable g 2 = Some [0, 4]" "execcondtable g 2 = None" "recorded_at plain sample_exec g 64 2 [0, 4]" by (rule sample_gen)
  have "executes sample_exec g sample_solution 2"
    using g(5) sample_records(6) by (simp add: executes_def getExecutionConstraint_def execcond_def)
  from encoding_load_reads [OF g(1) start_ok_new _ g(2,3,6) _ this g(4)] g(1,6) sample_records(5)
  show ?thesis by (auto simp: plain_def recorded_at_def)
qed

text \<open>C12: Every record that the links of the recorded execution lead to has its clauses in the encoding: the
  next record of a linked record (but not past a jump, the end of a loop body or, with the option, a
  yield), the record of a loop body, and the first record of each direction of a branch. Some state on
  the way was the input of the second pass over that record, and what it wrote is kept.\<close>

theorem encoding_processes_all:
  assumes "encode cfg e g = Some g'" and "start_ok g" and "linked cfg e r"
  shows "\<exists>h h'. gen_ok h \<and> processRecord cfg e r h = Some h' \<and> reached h h' \<and> reached h' g'"
  using assms by (rule encode_processed)

theorem encoding_processes_all_witness:
  "\<exists>g h h'. encode plain sample_exec new_ConstGen = Some g \<and> processRecord plain sample_exec 4 h = Some h' \<and> reached h' g"
proof -
  obtain g where g: "encode plain sample_exec new_ConstGen = Some g" by (rule sample_gen)
  from encoding_processes_all [OF g start_ok_new sample_linked(3)] g show ?thesis by blast
qed

text \<open>C10: Every solution of the encoding reaches a goal, a behaviour not seen in the executions recorded
  so far.\<close>

theorem encoding_reaches_goal:
  assumes "encode cfg e g = Some g'" and "start_ok g" and "models \<sigma> g'"
  shows "\<exists>c \<in> set (goalset g'). eval \<sigma> c"
  using assms by (rule encode_reaches_goal)

theorem encoding_reaches_goal_witness:
  "\<exists>g. encode plain sample_exec new_ConstGen = Some g \<and> (\<exists>c \<in> set (goalset g). eval sample_solution c)"
proof -
  obtain g where g: "encode plain sample_exec new_ConstGen = Some g" "models sample_solution g" by (rule sample_gen)
  from encoding_reaches_goal [OF g(1) start_ok_new g(2)] g(1) show ?thesis by blast
qed

text \<open>C11: The choice of a goal loses nothing: a model of the behaviours that reaches one of the goals
  becomes a model of the whole encoding by setting the variables of the goals alone.\<close>

theorem encoding_keeps_behaviors:
  assumes "encode_behaviors cfg e g = Some h" and "encode cfg e g = Some g'" and "start_ok g"
    and "models \<sigma> h" and "c \<in> set (goalset h)" and "eval \<sigma> c"
  shows "\<exists>\<tau>. models \<tau> g' \<and> (\<forall>v < varindex h. \<tau> v = \<sigma> v)"
  using assms by (rule encode_keeps_behaviors)

theorem encoding_keeps_behaviors_witness:
  "\<exists>g h \<tau>. encode_behaviors plain sample_exec new_ConstGen = Some h \<and> encode plain sample_exec new_ConstGen = Some g \<and>
     models \<tau> g \<and> (\<forall>v < varindex h. \<tau> v = sample_solution v)"
proof -
  obtain g where g: "encode plain sample_exec new_ConstGen = Some g" "models sample_solution g"
    "goalset g = [AND [VAR 1]]" by (rule sample_gen)
  obtain h1 h2 h where h: "reached h1 h2" "reached h2 h" "encode_behaviors plain sample_exec new_ConstGen = Some h"
    "translateGoals h = Some g" "reached h g"
    by (rule encode_steps [OF g(1) start_ok_new])
  note ok = reachedD(1) [OF h(2)]
  have "models sample_solution h" by (rule reached_models [OF h(5) g(2) ok])
  moreover have "goalset h = [AND [VAR 1]]" unfolding g(3) [symmetric] by (rule translateGoals_models(2) [OF h(4) ok, symmetric])
  then have "AND [VAR 1] \<in> set (goalset h)" by simp
  moreover have "eval sample_solution (AND [VAR 1])" by (simp add: sample_solution_def)
  ultimately show ?thesis
    using encoding_keeps_behaviors [OF h(3) g(1) start_ok_new] h(3) g(1) by blast
qed

text \<open>C16: The state of the generator after an encoding: variables are numbered from 1 without gaps, every
  clause and every table mentions only variables that were handed out, each pair of operations is
  ordered by one constraint at most, and the operations are filed under their threads.\<close>

theorem encoding_state_ok:
  assumes "encode cfg e g = Some g'" and "start_ok g"
  shows "gen_ok g' \<and> rpt_one g' \<and> actions_ok e g'"
  using encode_gen_ok [OF assms] by blast

theorem encoding_state_ok_witness:
  "\<exists>g. encode plain sample_exec new_ConstGen = Some g \<and> gen_ok g \<and> rpt_one g \<and> actions_ok sample_exec g"
proof -
  obtain g where g: "encode plain sample_exec new_ConstGen = Some g" by (rule sample_gen)
  from encoding_state_ok [OF g start_ok_new] g show ?thesis by blast
qed

text \<open>C15: Adding a constraint to the generator restricts the models of the clauses written to the solver
  by exactly the meaning of the constraint.\<close>

theorem constraint_added_exactly:
  assumes "addConstraint c g = Some g'" and "good c" and "gen_ok g"
  shows "models \<sigma> g' \<longleftrightarrow> models \<sigma> g \<and> eval \<sigma> c"
  using assms by (rule addConstraint_models)

theorem constraint_added_exactly_witness:
  "\<exists>g g'. addConstraint (IMPLIES (VAR 1) (AND [VAR 2, NOTVAR 3])) g = Some g' \<and>
     (\<forall>\<sigma>. models \<sigma> g' \<longleftrightarrow> models \<sigma> g \<and> eval \<sigma> (IMPLIES (VAR 1) (AND [VAR 2, NOTVAR 3])))"
proof -
  define g where "g = new_ConstGen\<lparr> solver := Some new_IncrementalSolver \<rparr>"
  have ok: "gen_ok g" using first_okD(1) [OF start_first_ok [OF start_ok_new]] by (simp add: g_def)
  have "addConstraint (IMPLIES (VAR 1) (AND [VAR 2, NOTVAR 3])) g \<noteq> None" unfolding g_def by code_simp
  then obtain g' where g': "addConstraint (IMPLIES (VAR 1) (AND [VAR 2, NOTVAR 3])) g = Some g'" by blast
  have "good (IMPLIES (VAR 1) (AND [VAR 2, NOTVAR 3]))" by (rule good_IMPLIES) simp_all
  from constraint_added_exactly [OF g' this ok] g' show ?thesis by blast
qed

text \<open>C17: Grouping keeps the sets of memory operations a partition: the operation is in the one set all
  its addresses are mapped to, and every set is made of the addresses and stored values of its members.\<close>

theorem grouping_keeps_partition:
  assumes "groupMemoryOperations e r g = Some g'" and "sl_inv e g"
  shows "sl_inv e g' \<and> (\<exists>i. member_of g' i r) \<and>
    (\<forall>q. (\<exists>i. member_of g' i q) \<longleftrightarrow> q = r \<or> (\<exists>i. member_of g i q)) \<and>
    (\<forall>p q i j a. member_of g' i p \<longrightarrow> member_of g' j q \<longrightarrow> a \<in> addrs_of e p \<inter> addrs_of e q \<longrightarrow> i = j)"
proof -
  note G = group_partition [OF assms]
  have "i = j" if "member_of g' i p" "member_of g' j q" "a \<in> addrs_of e p \<inter> addrs_of e q" for p q i j a
    using shared_address_same_set [OF G(1) that(1,2)] that(3) by blast
  with G show ?thesis by auto
qed

theorem grouping_keeps_partition_witness:
  "\<exists>g. groupMemoryOperations sample_exec 0 new_ConstGen = Some g \<and> (\<exists>i. member_of g i 0)"
proof -
  from sample_grouped obtain g where g: "groupMemoryOperations sample_exec 0 new_ConstGen = Some g" by (rule exE)
  from grouping_keeps_partition [OF g sl_inv_empty(1)] have "\<exists>i. member_of g i 0" by (elim conjE)
  with g show ?thesis by - (rule exI, rule conjI)
qed

text \<open>C3: When \<open>process\<close> says that the exploration is finished, with a solver process that answers
  "unsatisfiable" only when it is so, no behaviour the encoding allows reaches any of the goals:
  nothing that has not been seen is left to explore.\<close>

theorem exploration_complete:
  assumes "process cfg sat oob e g = Some (True, sol, g')" and "start_ok g" and "\<not> only_branches cfg"
    and "unsat_right sat" and "encode_behaviors cfg e g = Some h" and "models \<sigma> h" and "c \<in> set (goalset h)"
  shows "\<not> eval \<sigma> c"
  using assms by (rule process_complete)

theorem exploration_complete_witness:
  "\<exists>sol g' h. process plain closed_solver (\<lambda>_. False) closed_exec new_ConstGen = Some (True, sol, g') \<and>
     encode_behaviors plain closed_exec new_ConstGen = Some h \<and>
     (\<forall>\<sigma>. \<forall>c \<in> set (goalset h). models \<sigma> h \<longrightarrow> \<not> eval \<sigma> c)"
proof -
  from closed_explored obtain sol g' where
    p: "process plain closed_solver (\<lambda>_. False) closed_exec new_ConstGen = Some (True, sol, g')" by auto
  then obtain h where h: "encode_behaviors plain closed_exec new_ConstGen = Some h"
    by (auto simp: process_def encode_def do_simps)
  have "\<not> only_branches plain" by (simp add: plain_def)
  from exploration_complete [OF p start_ok_new this closed_solver_right h] p h show ?thesis by blast
qed

text \<open>C4: When \<open>process\<close> hands over a solution, with a solver process whose satisfying answers are right,
  the solution is a behaviour the encoding allows, and it reaches a goal. What is read past the end of
  the answer does not matter.\<close>

theorem solution_reaches_goal:
  assumes "process cfg sat oob e g = Some (False, sol, g')" and "start_ok g" and "\<not> only_branches cfg"
    and "sat_right sat" and "encode_behaviors cfg e g = Some h"
  shows "\<exists>\<sigma> c. sol = Some \<sigma> \<and> models \<sigma> h \<and> c \<in> set (goalset h) \<and> eval \<sigma> c"
  using assms by (rule process_sound)

theorem solution_reaches_goal_witness:
  "\<exists>sol g' h \<sigma> c. process plain sample_solver (\<lambda>_. False) sample_exec new_ConstGen = Some (False, sol, g') \<and>
     encode_behaviors plain sample_exec new_ConstGen = Some h \<and>
     sol = Some \<sigma> \<and> models \<sigma> h \<and> c \<in> set (goalset h) \<and> eval \<sigma> c"
proof -
  from sample_explored obtain sol g' where
    p: "process plain sample_solver (\<lambda>_. False) sample_exec new_ConstGen = Some (False, sol, g')" by auto
  then obtain h where h: "encode_behaviors plain sample_exec new_ConstGen = Some h"
    by (auto simp: process_def encode_def do_simps)
  have "\<not> only_branches plain" by (simp add: plain_def)
  from solution_reaches_goal [OF p start_ok_new this sample_solver_right h] p h show ?thesis by blast
qed

section \<open>Schedules\<close>

text \<open>C6: At the point of an operation of the schedule, with the waits of its earlier operations behind it, a
  thread is let go only when no other thread is still on its way to an operation that the schedule has
  before: for each earlier operation, the thread that performs it has finished, or its current point is
  further on than that operation or a later one of its own before this step, or it has taken another
  direction of an enclosing branch than the one the operation is in. The waits of this operation are
  then behind the thread as well.\<close>

theorem schedule_enforced:
  assumes "buildSchedule cfg e g \<sigma> s0 = Some s1" and "\<not> TSO cfg" and "schedule_trace cfg e g \<sigma> s0 = Some tr"
    and "waits s0 t = []" and "points_differ e tr" and "k < length tr" and "ep_tid (point e (snd (tr ! k))) = t"
    and "waitset s = waitset s1" and "t < length (waitset s)" and "t < length (waitsetindex s)"
    and "waitsetindex s ! t = length (trace_waits e t [] (take k tr))"
    and "\<not> newbehavior e1" and "ExecPointList e1 ! t = point e (snd (tr ! k))"
    and "check_thread cfg e1 t s = Some (True, s')"
  shows "(\<forall>j < k. \<forall>i \<in> set (takers (tr ! j)). i \<notin> set (takers (tr ! k)) \<longrightarrow>
      (\<exists>m. j \<le> m \<and> m < k \<and> i \<in> set (takers (tr ! m)) \<and> past_point e1 (point e (snd (tr ! m))))) \<and>
    waitsetindex s' ! t = length (trace_waits e t [] (take (Suc k) tr))"
proof (rule check_thread_waits [OF assms(2) _ assms(5-7,9-14)])
  show "waits s t = trace_waits e t [] tr"
  proof -
    have "waits s1 t = waits s0 t @ trace_waits e t [] tr" using schedule_waits [OF assms(1,2)] assms(3) by auto
    moreover have "waits s t = waits s1 t" by (simp add: waits_def assms(8))
    ultimately show ?thesis using assms(4) by simp
  qed
qed

theorem schedule_enforced_witness:
  "past_point sample_running (point sample_exec 4)"
proof -
  obtain g where g: "encode plain sample_exec new_ConstGen = Some g" by (rule sample_gen)
  note f = sample_trace_facts
  have sc: "\<not> TSO plain" by (simp add: plain_def)
  have k: "2 < length sample_trace" "ep_tid (point sample_exec (snd (sample_trace ! 2))) = 0"
    "ExecPointList sample_running ! 0 = point sample_exec (snd (sample_trace ! 2))" using f(3,4,6,11) by simp_all
  note S = schedule_enforced [OF sample_schedule(2) [OF g] sc sample_schedule(1) [OF g] f(2,1) k(1,2) refl f(7-10) k(3) sample_check]
  have "1 \<in> set (takers (sample_trace ! 1))" "1 \<notin> set (takers (sample_trace ! 2))" unfolding f(12,13) by simp_all
  with S [THEN conjunct1, THEN spec [of _ 1]] obtain m where
    "1 \<le> m" "m < 2" "past_point sample_running (point sample_exec (snd (sample_trace ! m)))" by auto
  moreover from this have "m = 1" by simp
  ultimately show ?thesis using f(5) by simp
qed

text \<open>C7: The schedule follows the solution it is built from: each operation comes, in the order of the
  solution, before everything that the threads running at that time do later.\<close>

theorem schedule_follows_solution:
  assumes "encode cfg e g = Some g'" and "start_ok g" and "\<not> TSO cfg" and "models \<sigma> g'" and "in_program_order e g'"
    and "schedule_trace cfg e g' \<sigma> s = Some tr" and "trace_ok e g' tr"
    and "j < k" and "k < length tr" and "i \<in> set (takers (tr ! k))" and "i < length (fst (tr ! j))"
  shows "prec cfg e g' \<sigma> (snd (tr ! j)) (snd (tr ! k))"
  using assms by (rule schedule_follows)

theorem schedule_follows_solution_witness:
  "\<exists>g. encode plain sample_exec new_ConstGen = Some g \<and> prec plain sample_exec g sample_solution 4 2"
proof -
  obtain g where g: "encode plain sample_exec new_ConstGen = Some g" "models sample_solution g"
    "op_at g 0 0 0" "op_at g 0 1 2" "op_at g 1 0 4" "in_program_order sample_exec g" by (rule sample_gen)
  note f = sample_trace_facts
  have sc: "\<not> TSO plain" by (simp add: plain_def)
  have k: "(1 :: nat) < 2" "2 < length sample_trace" "0 \<in> set (takers (sample_trace ! 2))" "0 < length (fst (sample_trace ! 1))"
    unfolding f(3,13,14) by simp_all
  from schedule_follows_solution [OF g(1) start_ok_new sc g(2,6) sample_schedule(1) [OF g(1)] sample_trace_ok [OF g(3-5)] k] g(1)
  show ?thesis unfolding f(4,5) by blast
qed

section \<open>Hash tables and sets\<close>

text \<open>C29: A lookup in a table of integer or pointer keys always ends and gives the value of the key in
  the map the table holds, also when slots have been freed by removals.\<close>

theorem table_get_refines_map:
  assumes "ht_inv (default_hash_function Shift) default_equals t"
  shows "ht_get (default_hash_function Shift) default_equals key t = Some (ht_map default_equals t key)"
  using assms by (rule int_key.get_correct)

theorem table_get_refines_map_witness:
  "ht_get (default_hash_function 4) default_equals (Some 5) (new_table (2 ^ 4) :: (uint64, nat) hashtable) =
    Some (ht_map default_equals (new_table (2 ^ 4) :: (uint64, nat) hashtable) (Some 5))"
  by (rule table_get_refines_map [OF int_key.new_table_inv(1)]) simp_all

text \<open>C30: \<open>put\<close> ends, keeps the invariant of the table and updates the map the table holds, resizing
  included, as long as no removal has left a freed slot or the key is new.\<close>

theorem table_put_refines_map:
  fixes t :: "(uint64, 'v) hashtable"
  assumes "ht_inv (default_hash_function Shift) default_equals t" and "ht_size t \<le> 2 ^ 30"
    and "no_tombs t \<or> ht_map default_equals t key = None"
  shows "\<exists>t'. ht_put (default_hash_function Shift) default_equals key v t = Some t' \<and>
    ht_inv (default_hash_function Shift) default_equals t' \<and> (no_tombs t \<longrightarrow> no_tombs t') \<and>
    ht_size t' = ht_size t + (if ht_map default_equals t key = None then 1 else 0) \<and>
    (\<forall>key'. ht_map default_equals t' key' = (if rel_option default_equals key key' then Some v else ht_map default_equals t key'))"
  using assms by (rule int_key.put_correct)

theorem table_put_refines_map_witness:
  "\<exists>t'. ht_put (default_hash_function 0) default_equals (Some 5) 7 (new_table (2 ^ 4) :: (uint64, nat) hashtable) = Some t' \<and>
    ht_map default_equals t' (Some 5) = Some (7 :: nat)"
proof -
  note inv = int_key.new_table_inv(1) [where n = 4 and Shift = 0] and none = int_key.new_table_inv(2,3) [where n = 4]
  have z: "ht_size (new_table (2 ^ 4) :: (uint64, nat) hashtable) \<le> 2 ^ 30" by (simp add: ht_size_new_table)
  have "no_tombs (new_table (2 ^ 4) :: (uint64, nat) hashtable) \<or> ht_map default_equals (new_table (2 ^ 4) :: (uint64, nat) hashtable) (Some 5) = None"
    by (rule disjI2, rule none) simp_all
  from table_put_refines_map [OF inv z this, of 7] show ?thesis by (fastforce simp: default_equals_def)
qed

text \<open>C31: \<open>remove\<close> ends, keeps the invariant of the table, returns the value the key had and takes the key,
  and no other, out of the map the table holds, as long as no earlier removal has left a freed slot or
  the key is in the table.\<close>

theorem table_remove_refines_map:
  fixes t :: "(uint64, 'v) hashtable"
  assumes "ht_inv (default_hash_function Shift) default_equals t"
    and "no_tombs t \<or> ht_map default_equals t key \<noteq> None"
  shows "\<exists>t'. ht_remove (default_hash_function Shift) default_equals key t = Some (ht_map default_equals t key, t') \<and>
    ht_inv (default_hash_function Shift) default_equals t' \<and>
    ht_size t = ht_size t' + (if ht_map default_equals t key = None then 0 else 1) \<and>
    (\<forall>key'. ht_map default_equals t' key' = (if rel_option default_equals key key' then None else ht_map default_equals t key'))"
  using assms by (rule int_key.remove_correct)

theorem table_remove_refines_map_witness:
  "\<exists>t t'. ht_put (default_hash_function 0) default_equals (Some 5) 7 (new_table (2 ^ 4) :: (uint64, nat) hashtable) = Some t \<and>
    ht_remove (default_hash_function 0) default_equals (Some 5) t = Some (Some 7, t') \<and> ht_map default_equals t' (Some 5) = None"
proof -
  note inv = int_key.new_table_inv(1) [where n = 4 and Shift = 0] and none = int_key.new_table_inv(2,3) [where n = 4]
  have z: "ht_size (new_table (2 ^ 4) :: (uint64, nat) hashtable) \<le> 2 ^ 30" by (simp add: ht_size_new_table)
  have "no_tombs (new_table (2 ^ 4) :: (uint64, nat) hashtable)" by (rule none) simp_all
  then obtain t where t: "ht_put (default_hash_function 0) default_equals (Some 5) 7 (new_table (2 ^ 4) :: (uint64, nat) hashtable) = Some t"
    "ht_inv (default_hash_function 0) default_equals t" "ht_map default_equals t (Some 5) = Some 7"
    using int_key.put_correct [OF inv z, of "Some 5" 7] by (fastforce simp: default_equals_def)
  from table_remove_refines_map [OF t(2) disjI2, of "Some 5"] t(1,3) show ?thesis by (fastforce simp: default_equals_def)
qed

text \<open>C32: Adding to a set of integers or pointers tells whether the key is new, and appends a new key
  to the insertion order.\<close>

theorem set_add_refines_list:
  assumes "hs_holds (default_hash_function Shift) default_equals s ks" and "length ks \<le> 2 ^ 30"
  shows "\<exists>s'. hs_add (default_hash_function Shift) default_equals key s = Some (key \<notin> set ks, s') \<and>
    hs_holds (default_hash_function Shift) default_equals s' (oset_add key ks)"
  using assms by (rule int_set_add)

theorem set_add_refines_list_witness:
  "\<exists>s'. hs_add (default_hash_function 0) default_equals (Some (5 :: uint64)) (new_hashset (2 ^ 4)) = Some (True, s') \<and>
    hs_holds (default_hash_function 0) default_equals s' [Some 5]"
  using set_add_refines_list [OF int_key.new_hashset_holds [where n = 4 and Shift = 0], of "Some 5"]
  by (simp add: oset_add_def)

text \<open>C33: An iterator over a set visits exactly the members, in insertion order, and ends.\<close>

theorem set_iteration_order:
  assumes "hs_holds (default_hash_function Shift) default_equals s ks"
  shows "it_collect (next_node s) s (hs_iterator_of s) = Some ks"
  using assms by (rule int_key.iterate_correct)

theorem set_iteration_order_witness:
  "it_collect (next_node (new_hashset (2 ^ 4) :: uint64 hashset)) (new_hashset (2 ^ 4) :: uint64 hashset)
    (hs_iterator_of (new_hashset (2 ^ 4) :: uint64 hashset)) = Some []"
  by (rule set_iteration_order [OF int_key.new_hashset_holds]) simp_all

section \<open>Execution points\<close>

text \<open>C34: When a thread counts its current point up, the new point is after the old one in program
  order, unless the counter wraps around.\<close>

theorem point_advance_ordered:
  assumes "incrementTop p = Some q" and "getType p \<noteq> Some EP_BRANCH" and "snd (last (pairs p)) \<noteq> 0xffffffff"
  shows "ep_compare p q = Some CR_AFTER"
  using assms by (rule compare_advance)

theorem point_advance_ordered_witness:
  "Option.bind (ep_push EP_COUNTER 0 (new_exec_point 4 0)) (\<lambda>p. Option.bind (incrementTop p) (ep_compare p)) = Some CR_AFTER"
proof -
  obtain p where p: "ep_push EP_COUNTER 0 (new_exec_point 4 0) = Some p" "pairs p = [(EP_COUNTER, 0)]"
    by (simp add: ep_push_def new_exec_point_def Let_def)
  then obtain q where q: "incrementTop p = Some q" by (simp add: incrementTop_def)
  have "ep_compare p q = Some CR_AFTER" by (rule point_advance_ordered [OF q]) (use p(2) in \<open>simp_all add: getType_def\<close>)
  with p(1) q show ?thesis by simp
qed

text \<open>C35: Leaving a branch or loop undoes entering it: the point and its incrementally maintained
  hash are what they were.\<close>

theorem point_pop_push:
  assumes "ep_push t v p = Some q"
  shows "ep_pop q = Some (p\<lparr> cap := cap q \<rparr>)"
  using assms by (rule pop_push)

theorem point_pop_push_witness:
  "\<exists>q. ep_push EP_LOOP 3 (new_exec_point 4 0) = Some q \<and> ep_pop q = Some (new_exec_point 4 0\<lparr> cap := cap q \<rparr>)"
proof -
  obtain q where "ep_push EP_LOOP 3 (new_exec_point 4 0) = Some q"
    using push_defined [of "new_exec_point 4 0"] by (auto simp: new_exec_point_def)
  with point_pop_push [OF this] show ?thesis by blast
qed

section \<open>The SAT solver process\<close>

text \<open>C36: When the solver answers "satisfiable", however its bytes are cut into reads, the solution
  array holds 0 and then the integers the solver sent, so entry \<open>v\<close> is the value of variable \<open>v\<close>,
  and what follows in the pipe is left for the next answer.\<close>

theorem solver_answer_read:
  assumes "solver_inv s" and "int_of_bytes r = IS_SAT" and "length r = 4"
    and "length nv = 4" and "sint (int_of_bytes nv) = int n" and "0 < n" and "length bs = 4 * n"
    and "concat (from_solver s) = r @ nv @ bs @ rest"
  shows "\<exists>s'. getSolution s = Some (IS_SAT, s') \<and> solution s' = Some (0 # ints_of_bytes bs) \<and>
    concat (from_solver s') = rest"
  using assms by (rule getSolution_sat)

theorem solver_answer_read_witness:
  "\<exists>s'. getSolution (new_IncrementalSolver\<lparr> from_solver := [[1, 0, 0], [0, 1, 0, 0, 0, 1], [0, 0, 0]] \<rparr>) = Some (IS_SAT, s') \<and>
    solution s' = Some (0 # ints_of_bytes [1, 0, 0, 0]) \<and> concat (from_solver s') = []"
proof (rule solver_answer_read [where r = "[1, 0, 0, 0]" and nv = "[1, 0, 0, 0]" and n = 1])
  have "int_of_bytes [1, 0, 0, 0] = 1" by code_simp
  then show "int_of_bytes [1, 0, 0, 0] = IS_SAT" "sint (int_of_bytes [1, 0, 0, 0]) = int 1"
    by (simp_all add: IS_SAT_def)
qed (simp_all add: new_IncrementalSolver_def solver_inv_def IS_BUFFERSIZE_def)

text \<open>C37: Reading an answer ends exactly when the solver has sent enough bytes; when it closes the
  pipe early, the loop never ends.\<close>

theorem read_ends_iff:
  "(\<exists>r. read_loop n pieces = Some r) \<longleftrightarrow> n \<le> length (concat pieces)"
  using read_loop_ends [of n pieces] read_loop_stuck [of pieces n] by force

end
